(* ===== verification/Prelude.thy ===== *)
theory Prelude
  imports Main "HOL-Library.Word" "HOL-Library.Sublist"
begin

text \<open>
  Shared vocabulary of the development.

  \<^item> Bytes are 8-bit words; a byte stream (\<open>impl Read\<close> over a buffer, \<open>Cursor\<close>, a slice) is the
    list of the bytes that are still unread.  A reader takes that list and returns either an
    error or the value it read together with the rest of the stream.
  \<^item> \<open>usize\<close> and \<open>u64\<close> values are natural numbers; every place where the 64-bit width is
    observable (shifts, \<open>checked_add\<close>, \<open>as usize\<close>) writes the bound out with \<open>usize_bits\<close>,
    \<open>usize_max\<close> or \<open>take_bit 64\<close>.
  \<^item> Rust's \<open>Result<T, E>\<close> is the sum type \<open>'e + 'a\<close>; \<open>and_then\<close> is the \<open>?\<close> operator.
  \<^item> The locale \<open>byte_codec\<close> is the contract between a writer and the reader of the same wire
    format; the locale \<open>prefix_reader\<close> is the contract of every reader (it consumes a
    non-empty prefix of its stream and nothing else).
\<close>

unbundle bit_operations_syntax

section \<open>Types and fixed-width constants\<close>

type_synonym byte = "8 word"
type_synonym bytes = "byte list"

abbreviation usize_bits :: nat where
  "usize_bits \<equiv> 64"

abbreviation usize_max :: nat where
  "usize_max \<equiv> 2 ^ 64 - 1"

abbreviation u32_max :: nat where
  "u32_max \<equiv> 2 ^ 32 - 1"

text \<open>Errors of \<open>std::io\<close> that the readers can raise.  \<open>Panic\<close> marks the places where the code
  would abort the thread instead of returning (arithmetic overflow, \<open>unwrap\<close> on an error).\<close>

datatype io_error =
    UnexpectedEof
  | InvalidData string
  | Panic string

text \<open>Simplification rules about the bytes of fixed formats, and the rules that unfold one step of
  a reader on a stream whose head is known.\<close>

named_theorems byte_simps
named_theorems reader_simps

section \<open>Results\<close>

definition and_then :: "'e + 'a \<Rightarrow> ('a \<Rightarrow> 'e + 'b) \<Rightarrow> 'e + 'b" where
  "and_then r f = (case r of Inl e \<Rightarrow> Inl e | Inr x \<Rightarrow> f x)"

definition map_err :: "('e \<Rightarrow> 'f) \<Rightarrow> 'e + 'a \<Rightarrow> 'f + 'a" where
  "map_err g r = (case r of Inl e \<Rightarrow> Inl (g e) | Inr x \<Rightarrow> Inr x)"

definition ok_or :: "'e \<Rightarrow> 'a option \<Rightarrow> 'e + 'a" where
  "ok_or e x = (case x of None \<Rightarrow> Inl e | Some y \<Rightarrow> Inr y)"

definition is_ok :: "'e + 'a \<Rightarrow> bool" where
  "is_ok r = (case r of Inl _ \<Rightarrow> False | Inr _ \<Rightarrow> True)"

lemma and_then_simps [simp]:
  "and_then (Inl e) f = Inl e"
  "and_then (Inr x) f = f x"
  by (simp_all add: and_then_def)

lemma map_err_simps [simp]:
  "map_err g (Inl e) = Inl (g e)"
  "map_err g (Inr x) = Inr x"
  by (simp_all add: map_err_def)

lemma ok_or_simps [simp]:
  "ok_or e None = Inl e"
  "ok_or e (Some x) = Inr x"
  by (simp_all add: ok_or_def)

lemma is_ok_simps [simp]:
  "\<not> is_ok (Inl e)"
  "is_ok (Inr x)"
  by (simp_all add: is_ok_def)

lemma is_ok_iff: "is_ok r \<longleftrightarrow> (\<exists>x. r = Inr x)"
  by (cases r) simp_all

lemma and_then_eq_Inr_iff: "and_then r f = Inr y \<longleftrightarrow> (\<exists>x. r = Inr x \<and> f x = Inr y)"
  by (cases r) simp_all

lemma and_then_eq_InrE:
  assumes "and_then r f = Inr y"
  obtains x where "r = Inr x" "f x = Inr y"
  using assms by (auto simp: and_then_eq_Inr_iff)

lemma and_then_eq_Inl_iff:
  "and_then r f = Inl e \<longleftrightarrow> r = Inl e \<or> (\<exists>x. r = Inr x \<and> f x = Inl e)"
  by (cases r) simp_all

lemma map_err_eq_Inr_iff [simp]: "map_err g r = Inr y \<longleftrightarrow> r = Inr y"
  by (cases r) simp_all

lemma ok_or_eq_Inr_iff [simp]: "ok_or e x = Inr y \<longleftrightarrow> x = Some y"
  by (cases x) simp_all

lemma and_then_cong [fundef_cong]:
  "r = s \<Longrightarrow> (\<And>x. s = Inr x \<Longrightarrow> f x = g x) \<Longrightarrow> and_then r f = and_then s g"
  by (cases s) simp_all

section \<open>Readers\<close>

text \<open>\<open>Read::read_exact\<close> on a buffer of \<open>n\<close> bytes.\<close>

definition read_exact :: "nat \<Rightarrow> bytes \<Rightarrow> io_error + bytes \<times> bytes" where
  "read_exact n s = (if n \<le> length s then Inr (take n s, drop n s) else Inl UnexpectedEof)"

text \<open>The one-byte instance, which the source writes \<open>let [byte] = read_bytes(stream)?\<close>.\<close>

fun read_u8 :: "bytes \<Rightarrow> io_error + byte \<times> bytes" where
  "read_u8 [] = Inl UnexpectedEof"
| "read_u8 (b # s) = Inr (b, s)"

text \<open>\<open>for _ in 0..n { v.push(read(stream)?) }\<close>.\<close>

fun read_many :: "(bytes \<Rightarrow> 'e + 'a \<times> bytes) \<Rightarrow> nat \<Rightarrow> bytes \<Rightarrow> 'e + 'a list \<times> bytes" where
  "read_many rd 0 s = Inr ([], s)"
| "read_many rd (Suc n) s =
     and_then (rd s) (\<lambda>(x, s1). and_then (read_many rd n s1) (\<lambda>(xs, s2). Inr (x # xs, s2)))"

lemma read_exact_append [simp]: "read_exact (length xs) (xs @ s) = Inr (xs, s)"
  by (simp add: read_exact_def)

lemma read_exact_append': "length xs = n \<Longrightarrow> read_exact n (xs @ s) = Inr (xs, s)"
  by auto

lemma read_exact_eq_Inr_iff:
  "read_exact n s = Inr (xs, r) \<longleftrightarrow> s = xs @ r \<and> length xs = n"
  by (auto simp: read_exact_def)

lemma read_u8_eq_Inr_iff [simp]: "read_u8 s = Inr (b, r) \<longleftrightarrow> s = b # r"
  by (cases s) auto

lemma read_u8_eq_read_exact:
  "read_u8 s = and_then (read_exact 1 s) (\<lambda>(xs, r). Inr (hd xs, r))"
  by (cases s) (simp_all add: read_exact_def)

section \<open>The contract of a wire format\<close>

locale prefix_reader =
  fixes rd :: "bytes \<Rightarrow> 'e + 'a \<times> bytes"
  assumes reads_prefix: "rd s = Inr (x, r) \<Longrightarrow> \<exists>p. p \<noteq> [] \<and> s = p @ r"
begin

lemma rest_shorter: "rd s = Inr (x, r) \<Longrightarrow> length r < length s"
  using reads_prefix by fastforce

lemma rest_suffix: "rd s = Inr (x, r) \<Longrightarrow> suffix r s"
  using reads_prefix[of s x r] by (auto simp: suffix_def)

lemma read_many_suffix: "read_many rd n s = Inr (xs, r) \<Longrightarrow> suffix r s \<and> length xs = n"
proof (induction n arbitrary: s xs)
  case (Suc n)
  then obtain x s1 ys where "rd s = Inr (x, s1)" "read_many rd n s1 = Inr (ys, r)" "xs = x # ys"
    by (auto simp: and_then_eq_Inr_iff)
  then show ?case
    using Suc.IH[of s1 ys] rest_suffix suffix_order.trans by fastforce
qed simp

lemma read_many_consumes: "read_many rd n s = Inr (xs, r) \<Longrightarrow> length r + n \<le> length s"
proof (induction n arbitrary: s xs)
  case (Suc n)
  then obtain x s1 ys where 1: "rd s = Inr (x, s1)" and 2: "read_many rd n s1 = Inr (ys, r)"
    by (auto simp: and_then_eq_Inr_iff)
  show ?case
    using Suc.IH[OF 2] rest_shorter[OF 1] by simp
qed simp

end

locale byte_codec =
  fixes enc :: "'a \<Rightarrow> bytes"
    and dec :: "bytes \<Rightarrow> 'e + 'a \<times> bytes"
    and valid :: "'a \<Rightarrow> bool"
  assumes dec_enc: "valid x \<Longrightarrow> dec (enc x @ s) = Inr (x, s)"
begin

lemma dec_enc_end: "valid x \<Longrightarrow> dec (enc x) = Inr (x, [])"
  using dec_enc[of x "[]"] by simp

lemma prefix_free: "valid x \<Longrightarrow> valid y \<Longrightarrow> enc x @ r = enc y @ s \<Longrightarrow> x = y \<and> r = s"
  by (metis Inr_inject dec_enc prod.inject)

lemma enc_inj: "valid x \<Longrightarrow> valid y \<Longrightarrow> enc x = enc y \<Longrightarrow> x = y"
  by (metis append_Nil2 prefix_free)

lemma dec_many:
  "(\<And>x. x \<in> set xs \<Longrightarrow> valid x) \<Longrightarrow>
   read_many dec (length xs) (concat (map enc xs) @ s) = Inr (xs, s)"
  by (induction xs) (simp_all add: dec_enc)

lemma dec_many_n:
  "(\<And>x. x \<in> set xs \<Longrightarrow> valid x) \<Longrightarrow> length xs = n \<Longrightarrow>
   read_many dec n (concat (map enc xs) @ s) = Inr (xs, s)"
  using dec_many by blast

end

section \<open>Bytes and words\<close>

lemma unat_byte_less [simp]: "unat (b :: byte) < 256"
  using unsigned_less[of b, where ?'a = nat] by simp

lemma unat_of_nat_byte [byte_simps]: "unat (word_of_nat n :: byte) = n mod 256"
  by (simp add: unat_of_nat)

lemma unat_of_nat_byte_small [simp]: "n < 256 \<Longrightarrow> unat (word_of_nat n :: byte) = n"
  by (simp add: unat_of_nat)

lemma byte_eq_iff: "(a :: byte) = b \<longleftrightarrow> unat a = unat b"
  by (simp add: word_unat_eq_iff)

lemma unat_and_0x7f [byte_simps]: "unat ((b :: byte) AND 0x7f) = unat b mod 128"
proof -
  have "(0x7f :: byte) = mask 7" by (simp add: mask_eq_exp_minus_1)
  then have "b AND 0x7f = take_bit 7 b" by (simp add: take_bit_eq_mask)
  then have "unat (b AND 0x7f) = take_bit 7 (unat b)" by (simp only: unsigned_take_bit_eq)
  then show ?thesis by (simp add: take_bit_eq_mod)
qed

lemma bit_iff_odd_unat: "bit (b :: 'a::len word) n \<longleftrightarrow> odd (unat b div 2 ^ n)"
  by (simp flip: bit_iff_odd add: bit_unsigned_iff)

lemma and_0x80_eq_0_iff [byte_simps]: "(b :: byte) AND 0x80 = 0 \<longleftrightarrow> unat b < 128"
proof -
  have "(0x80 :: byte) = 2 ^ 7" by simp
  then have "b AND 0x80 = 0 \<longleftrightarrow> \<not> bit b 7"
    by (simp only: and_exp_eq_0_iff_not_bit)
  also have "\<dots> \<longleftrightarrow> even (unat b div 128)" by (simp add: bit_iff_odd_unat)
  also have "\<dots> \<longleftrightarrow> unat b < 128"
  proof -
    have "unat b div 128 < 2" using unat_byte_less[of b] by (simp only: div_less_iff_less_mult)
    then have "even (unat b div 128) \<longleftrightarrow> unat b div 128 = 0" by (auto simp: less_2_cases_iff)
    then show ?thesis by (simp add: div_eq_0_iff)
  qed
  finally show ?thesis .
qed

lemma drop_bit_7_less [termination_simp]:
  "0 < n \<Longrightarrow> drop_bit 7 n < (n :: nat)"
  "0 < drop_bit 7 n \<Longrightarrow> drop_bit 7 n < (n :: nat)"
  "0 < n \<Longrightarrow> drop_bit 7 (n - Suc 0) < (n :: nat)"
  by (auto simp: drop_bit_eq_div)

text \<open>An \<open>OR\<close> of a number below \<open>2 ^ n\<close> with a number shifted left by \<open>n\<close> is a sum.\<close>

lemma or_push_bit_eq_add:
  fixes a b :: nat
  assumes "a < 2 ^ n"
  shows "a OR push_bit n b = a + b * 2 ^ n"
proof -
  have "bit a m \<Longrightarrow> m < n" for m
    using assms by (metis bit_take_bit_iff take_bit_nat_eq_self)
  then have "a AND push_bit n b = 0"
    by (intro bit_eqI) (fastforce simp: bit_and_iff bit_push_bit_iff_nat)
  then show ?thesis
    by (simp flip: disjunctive_add_eq_or add: push_bit_eq_mult)
qed

lemma nat_and_mask [byte_simps]:
  "(n :: nat) AND 0x7f = n mod 128"
  "(n :: nat) AND 0x0f = n mod 16"
  "(n :: nat) AND 0xff = n mod 256"
proof -
  have "(0x7f :: nat) = mask 7" "(0x0f :: nat) = mask 4" "(0xff :: nat) = mask 8"
    by (simp_all add: mask_eq_exp_minus_1)
  then have "n AND 0x7f = take_bit 7 n" "n AND 0x0f = take_bit 4 n" "n AND 0xff = take_bit 8 n"
    by (simp_all only: take_bit_eq_mask)
  then show "n AND 0x7f = n mod 128" "n AND 0x0f = n mod 16" "n AND 0xff = n mod 256"
    by (simp_all add: take_bit_eq_mod)
qed

lemma nat_drop_bit [byte_simps]:
  "drop_bit 4 (n :: nat) = n div 16"
  "drop_bit 7 n = n div 128"
  "drop_bit 8 n = n div 256"
  by (simp_all add: drop_bit_eq_div)

lemma nat_or_0x80: "n < 256 \<Longrightarrow> (n :: nat) OR 0x80 = n mod 128 + 128"
proof -
  assume n: "n < 256"
  have "(128 :: nat) = push_bit 7 1" by (simp add: push_bit_eq_mult)
  moreover have "n OR push_bit 7 1 = take_bit 7 n OR push_bit 7 1"
  proof (rule bit_eqI)
    fix m :: nat
    have "\<not> bit n m" if "m > 7"
    proof -
      have "(2 :: nat) ^ 8 \<le> 2 ^ m" using that by (intro power_increasing) auto
      then have "n div 2 ^ m = 0" using n by simp
      then show ?thesis by (simp add: bit_iff_odd)
    qed
    then show "bit (n OR push_bit 7 1) m = bit (take_bit 7 n OR push_bit 7 1) m"
      by (cases "m < 7"; cases "m = 7") (auto simp: bit_or_iff bit_take_bit_iff bit_push_bit_iff_nat bit_0)
  qed
  moreover have "take_bit 7 n OR push_bit 7 1 = take_bit 7 n + 1 * 2 ^ 7"
    by (rule or_push_bit_eq_add) (rule take_bit_nat_less_exp)
  ultimately have "n OR 128 = take_bit 7 n + 1 * 2 ^ 7" by metis
  then show ?thesis
    by (simp add: take_bit_eq_mod)
qed

lemma unat_or_0x80 [byte_simps]: "unat ((b :: byte) OR 0x80) = unat b mod 128 + 128"
proof -
  have "unat (b OR 0x80) = unat b OR 0x80" by (simp add: unsigned_or_eq)
  then show ?thesis by (simp add: nat_or_0x80)
qed

lemma byte_ge_128_iff: "(b :: byte) \<ge> 128 \<longleftrightarrow> unat b \<ge> 128"
  by (simp add: word_le_nat_alt)

text \<open>One digit of a little-endian base-128 accumulation in a 64-bit accumulator: \<open>a\<close> holds the
  digits read so far, \<open>n\<close> is the number still to be added at bit position \<open>len\<close>.\<close>

lemma leb_step:
  fixes a n len :: nat
  assumes "a < 2 ^ len" "a + n * 2 ^ len < 2 ^ 64"
  defines "v \<equiv> a OR take_bit 64 (push_bit len (n mod 128))"
  shows "v < 2 ^ (len + 7)"
    and "v + n div 128 * 2 ^ (len + 7) = a + n * 2 ^ len"
    and "0 < n div 128 \<Longrightarrow> len + 7 < 64"
    and "n < 128 \<Longrightarrow> v = a + n * 2 ^ len"
    and "n mod 128 \<le> drop_bit len (2 ^ 64 - 1)"
proof -
  have mod_le: "n mod 128 * 2 ^ len \<le> n * 2 ^ len" by simp
  then have small: "n mod 128 * 2 ^ len < 2 ^ 64" using assms(2) by linarith
  have v: "v = a + n mod 128 * 2 ^ len"
    unfolding v_def using assms(1) small
    by (simp add: take_bit_nat_eq_self push_bit_eq_mult flip: or_push_bit_eq_add)
  have "n mod 128 * 2 ^ len \<le> 127 * 2 ^ len" by (intro mult_le_mono1) (use mod_less_divisor[of 128 n] in linarith)
  then have "v < 2 ^ len + 127 * 2 ^ len" using v assms(1) by linarith
  then show "v < 2 ^ (len + 7)" by (simp add: power_add)
  have "n mod 128 * 2 ^ len + n div 128 * 2 ^ (len + 7) = (n mod 128 + n div 128 * 128) * 2 ^ len"
  proof -
    have "n div 128 * 2 ^ (len + 7) = n div 128 * 128 * 2 ^ len" by (simp add: power_add)
    then show ?thesis by (simp only: add_mult_distrib)
  qed
  then show sum: "v + n div 128 * 2 ^ (len + 7) = a + n * 2 ^ len"
    by (simp add: v)
  then have "n div 128 * 2 ^ (len + 7) < 2 ^ 64" using assms(2) by linarith
  then show "len + 7 < 64" if "0 < n div 128"
    using that by (metis le_less_trans mult_le_mono1 nat_mult_1 power_less_imp_less_exp
        One_nat_def Suc_leI one_less_numeral_iff semiring_norm(76))
  show "v = a + n * 2 ^ len" if "n < 128" using v that by simp
  have "n mod 128 * 2 ^ len \<le> 2 ^ 64 - 1" using small by linarith
  then show "n mod 128 \<le> drop_bit len (2 ^ 64 - 1)"
    by (simp only: drop_bit_eq_div less_eq_div_iff_mult_less_eq zero_less_power zero_less_numeral)
qed

end
