(* ===== verification/Varint.thy ===== *)
theory Varint
  imports Prelude
begin

text \<open>
  The variable-length integers of Git's pack and delta formats:

  \<^item> the size varint of delta streams (\<open>src/src/delta/utils.rs\<close>, and the two writers
    \<open>write_size_encoding\<close> and \<open>write_varint\<close> of \<open>src/src/delta/encode\<close>);
  \<^item> the readers of \<open>src/src/internal/pack/utils.rs\<close>: continuation bytes, type/size headers,
    little-endian varints, and the biased big-endian offsets of OFS_DELTA entries;
  \<^item> the type/size reader of \<open>src/src/internal/object/utils.rs\<close>;
  \<^item> the writers \<open>encode_offset\<close> and the entry header of \<open>encode_one_object\<close>
    (\<open>src/src/internal/pack/encode/header.rs\<close>).

  Every writer/reader pair is an instance of the locale \<open>byte_codec\<close>.
\<close>

section \<open>Readers of delta streams (\<open>delta/utils.rs\<close>)\<close>

definition VAR_INT_ENCODING_BITS :: nat where [simp]:
  "VAR_INT_ENCODING_BITS = 7"

definition VAR_INT_CONTINUE_FLAG :: byte where [simp]:
  "VAR_INT_CONTINUE_FLAG = 0x80"

text \<open>The pure part of \<open>read_var_int_byte\<close>: the seven value bits and the continuation flag.\<close>

definition var_int_byte :: "byte \<Rightarrow> byte \<times> bool" where
  "var_int_byte b = (b AND NOT VAR_INT_CONTINUE_FLAG, b AND VAR_INT_CONTINUE_FLAG \<noteq> 0)"

definition read_var_int_byte :: "bytes \<Rightarrow> io_error + (byte \<times> bool) \<times> bytes" where
  "read_var_int_byte s = and_then (read_u8 s) (\<lambda>(b, s1). Inr (var_int_byte b, s1))"

fun read_size_encoding_loop :: "nat \<Rightarrow> nat \<Rightarrow> bytes \<Rightarrow> io_error + nat \<times> bytes" where
  "read_size_encoding_loop value len [] = Inl UnexpectedEof"
| "read_size_encoding_loop value len (b # s) =
     (let (byte_value, more_bytes) = var_int_byte b in
      if len \<ge> usize_bits \<or>
         (len + VAR_INT_ENCODING_BITS > usize_bits \<and> unat byte_value > drop_bit len usize_max)
      then Inl (InvalidData ''delta size varint exceeds usize'')
      else
        let value' = value OR take_bit usize_bits (push_bit len (unat byte_value)) in
        if \<not> more_bytes then Inr (value', s)
        else read_size_encoding_loop value' (len + VAR_INT_ENCODING_BITS) s)"

definition read_size_encoding :: "bytes \<Rightarrow> io_error + nat \<times> bytes" where
  "read_size_encoding s = read_size_encoding_loop 0 0 s"

text \<open>\<open>read_partial_int\<close>: the loop over \<open>byte_index\<close> in \<open>0..bytes\<close>; \<open>present\<close> is the mutable
  \<open>present_bytes\<close>, returned as it is after the loop.  The function is used with at most four
  bytes, so no bit is shifted out of the 64-bit value.\<close>

fun read_partial_int_loop ::
  "nat \<Rightarrow> nat \<Rightarrow> byte \<Rightarrow> nat \<Rightarrow> bytes \<Rightarrow> io_error + (nat \<times> byte) \<times> bytes" where
  "read_partial_int_loop 0 byte_index present value s = Inr ((value, present), s)"
| "read_partial_int_loop (Suc k) byte_index present value s =
     (if present AND 1 \<noteq> 0
      then and_then (read_u8 s) (\<lambda>(b, s1).
             read_partial_int_loop k (Suc byte_index) (drop_bit 1 present)
               (value OR take_bit usize_bits (push_bit (byte_index * 8) (unat b))) s1)
      else read_partial_int_loop k (Suc byte_index) (drop_bit 1 present) value s)"

definition read_partial_int :: "nat \<Rightarrow> byte \<Rightarrow> bytes \<Rightarrow> io_error + (nat \<times> byte) \<times> bytes" where
  "read_partial_int n present s = read_partial_int_loop n 0 present 0 s"

section \<open>Writers of delta sizes\<close>

text \<open>\<open>write_size_encoding\<close> of \<open>delta/encode/mod.rs\<close>.\<close>

fun write_size_encoding :: "nat \<Rightarrow> bytes" where
  "write_size_encoding number =
     (if drop_bit VAR_INT_ENCODING_BITS number > 0
      then (word_of_nat (number AND 0x7f) OR 0x80)
             # write_size_encoding (drop_bit VAR_INT_ENCODING_BITS number)
      else [word_of_nat (number AND 0x7f)])"

text \<open>\<open>write_varint\<close> of \<open>delta/encode/rabin/mod.rs\<close>; \<open>out\<close> is the mutable output vector.\<close>

fun write_varint :: "nat \<Rightarrow> bytes \<Rightarrow> bytes" where
  "write_varint v out =
     (if v \<ge> 0x80 then write_varint (drop_bit 7 v) (out @ [word_of_nat v OR 0x80])
      else out @ [word_of_nat v])"

section \<open>Readers of pack entries (\<open>internal/pack/utils.rs\<close>)\<close>

definition check_continuation :: "byte \<Rightarrow> byte \<times> bool" where
  "check_continuation b = (b AND 0x7f, b \<ge> 128)"

definition read_byte_and_check_continuation :: "bytes \<Rightarrow> io_error + (byte \<times> bool) \<times> bytes" where
  "read_byte_and_check_continuation s =
     and_then (read_u8 s) (\<lambda>(b, s1). Inr (check_continuation b, s1))"

text \<open>The loop of \<open>read_type_and_varint_size\<close>.  Shifting a \<open>u64\<close> by 64 or more bits is an
  arithmetic overflow.\<close>

fun type_and_varint_size_loop ::
  "bool \<Rightarrow> nat \<Rightarrow> nat \<Rightarrow> nat \<Rightarrow> bytes \<Rightarrow> io_error + (nat \<times> nat) \<times> bytes" where
  "type_and_varint_size_loop False sz shift offset s = Inr ((sz, offset), s)"
| "type_and_varint_size_loop True sz shift offset [] = Inl UnexpectedEof"
| "type_and_varint_size_loop True sz shift offset (b # s) =
     (let (next_byte, continuation) = check_continuation b in
      if shift \<ge> 64 then Inl (Panic ''attempt to shift left with overflow'')
      else type_and_varint_size_loop continuation
             (sz OR take_bit 64 (push_bit shift (unat next_byte))) (shift + 7) (offset + 1) s)"

definition read_type_and_varint_size ::
  "bytes \<Rightarrow> nat \<Rightarrow> io_error + (nat \<times> nat \<times> nat) \<times> bytes" where
  "read_type_and_varint_size s offset =
     and_then (read_byte_and_check_continuation s) (\<lambda>((first_byte, continuation), s1).
       let type_bits = drop_bit 4 (first_byte AND 0b01110000);
           sz = unat (first_byte AND 0b00001111) in
       and_then (type_and_varint_size_loop continuation sz 4 (offset + 1) s1)
         (\<lambda>((sz, offset'), s2). Inr ((unat type_bits, sz, offset'), s2)))"

fun read_varint_le_loop :: "nat \<Rightarrow> nat \<Rightarrow> nat \<Rightarrow> bytes \<Rightarrow> io_error + (nat \<times> nat) \<times> bytes" where
  "read_varint_le_loop value shift offset [] = Inl UnexpectedEof"
| "read_varint_le_loop value shift offset (b # s) =
     (if shift > 63 then Inl (InvalidData ''VarInt too long'')
      else
        let value' = value OR take_bit 64 (push_bit shift (unat (b AND 0x7F))) in
        if b AND 0x80 = 0 then Inr ((value', offset + 1), s)
        else read_varint_le_loop value' (shift + 7) (offset + 1) s)"

definition read_varint_le :: "bytes \<Rightarrow> io_error + (nat \<times> nat) \<times> bytes" where
  "read_varint_le s = read_varint_le_loop 0 0 0 s"

text \<open>The loop of \<open>read_offset_encoding\<close>: the left shift drops high bits, \<open>value += 1\<close> overflows
  at the maximum.\<close>

fun read_offset_encoding_loop :: "nat \<Rightarrow> nat \<Rightarrow> bytes \<Rightarrow> io_error + (nat \<times> nat) \<times> bytes" where
  "read_offset_encoding_loop value offset [] = Inl UnexpectedEof"
| "read_offset_encoding_loop value offset (b # s) =
     (let (byte_value, more_bytes) = check_continuation b;
          value' = take_bit 64 (push_bit 7 value) OR unat byte_value in
      if \<not> more_bytes then Inr ((value', offset + 1), s)
      else if value' = 2 ^ 64 - 1 then Inl (Panic ''attempt to add with overflow'')
      else read_offset_encoding_loop (value' + 1) (offset + 1) s)"

definition read_offset_encoding :: "bytes \<Rightarrow> io_error + (nat \<times> nat) \<times> bytes" where
  "read_offset_encoding s = read_offset_encoding_loop 0 0 s"

definition read_delta_object_size :: "bytes \<Rightarrow> io_error + (nat \<times> nat) \<times> bytes" where
  "read_delta_object_size s =
     and_then (read_varint_le s) (\<lambda>((base_size, _), s1).
     and_then (read_varint_le s1) (\<lambda>((result_size, _), s2).
       Inr ((base_size, result_size), s2)))"

section \<open>The type/size reader of \<open>internal/object/utils.rs\<close>\<close>

definition TYPE_BITS :: nat where [simp]:
  "TYPE_BITS = 3"

definition TYPE_BYTE_SIZE_BITS :: nat where [simp]:
  "TYPE_BYTE_SIZE_BITS = VAR_INT_ENCODING_BITS - TYPE_BITS"

definition keep_bits :: "nat \<Rightarrow> nat \<Rightarrow> nat" where
  "keep_bits value bits = value AND (push_bit bits 1 - 1)"

text \<open>This reader unwraps the byte it reads, so the end of the stream is a panic, and its shift is
  not guarded.\<close>

fun obj_read_size_encoding_loop :: "nat \<Rightarrow> nat \<Rightarrow> bytes \<Rightarrow> io_error + nat \<times> bytes" where
  "obj_read_size_encoding_loop value len [] = Inl (Panic ''unwrap on UnexpectedEof'')"
| "obj_read_size_encoding_loop value len (b # s) =
     (let (byte_value, more_bytes) = var_int_byte b in
      if len \<ge> usize_bits then Inl (Panic ''attempt to shift left with overflow'')
      else
        let value' = value OR take_bit usize_bits (push_bit len (unat byte_value)) in
        if \<not> more_bytes then Inr (value', s)
        else obj_read_size_encoding_loop value' (len + VAR_INT_ENCODING_BITS) s)"

definition obj_read_size_encoding :: "bytes \<Rightarrow> io_error + nat \<times> bytes" where
  "obj_read_size_encoding s = obj_read_size_encoding_loop 0 0 s"

definition read_type_and_size :: "bytes \<Rightarrow> io_error + (nat \<times> nat) \<times> bytes" where
  "read_type_and_size s =
     and_then (obj_read_size_encoding s) (\<lambda>(value, s1).
       let object_type = keep_bits (drop_bit TYPE_BYTE_SIZE_BITS value) TYPE_BITS;
           sz = keep_bits value TYPE_BYTE_SIZE_BITS
                    OR push_bit TYPE_BYTE_SIZE_BITS (drop_bit VAR_INT_ENCODING_BITS value) in
       Inr ((object_type, sz), s1))"

section \<open>Writers of pack entries (\<open>internal/pack/encode/header.rs\<close>)\<close>

fun encode_offset_loop :: "nat \<Rightarrow> bytes \<Rightarrow> bytes" where
  "encode_offset_loop value out =
     (if value \<noteq> 0 then
        encode_offset_loop (drop_bit 7 (value - 1))
          (out @ [word_of_nat ((value - 1) AND 0x7F) OR 0x80])
      else out)"

definition encode_offset :: "nat \<Rightarrow> io_error + bytes" where
  "encode_offset value =
     (if value = 0 then Inl (Panic ''offset can't be zero'')
      else Inr (rev (encode_offset_loop (drop_bit 7 value) [word_of_nat (value AND 0x7F)])))"

text \<open>The variable-length entry header that \<open>encode_one_object\<close> builds before the payload:
  \<open>entry_header_size\<close> is its \<open>while size > 0\<close> loop.\<close>

fun entry_header_size :: "nat \<Rightarrow> bytes" where
  "entry_header_size sz =
     (if drop_bit 7 sz > 0
      then word_of_nat (0x80 OR sz) # entry_header_size (drop_bit 7 sz)
      else [word_of_nat sz])"

definition entry_header :: "nat \<Rightarrow> nat \<Rightarrow> bytes" where
  "entry_header obj_type_number obj_data_len =
     (let sz = drop_bit 4 obj_data_len in
      [(0x80 OR push_bit 4 (word_of_nat obj_type_number)) + word_of_nat (obj_data_len AND 0x0f)]
        @ (if sz > 0 then entry_header_size sz else [0]))"

declare write_size_encoding.simps [simp del] write_varint.simps [simp del]
  encode_offset_loop.simps [simp del] entry_header_size.simps [simp del]

section \<open>The bytes of a varint\<close>

lemma not_0x80: "NOT (0x80 :: byte) = 0x7f"
  by simp

lemma var_int_byte_eq [byte_simps]:
  "unat (fst (var_int_byte b)) = unat b mod 128"
  "snd (var_int_byte b) \<longleftrightarrow> unat b \<ge> 128"
proof -
  show "unat (fst (var_int_byte b)) = unat b mod 128"
    by (simp only: var_int_byte_def VAR_INT_CONTINUE_FLAG_def not_0x80 unat_and_0x7f fst_conv)
  show "snd (var_int_byte b) \<longleftrightarrow> unat b \<ge> 128"
    by (simp add: var_int_byte_def and_0x80_eq_0_iff not_less)
qed

lemma check_continuation_eq_var_int_byte: "check_continuation b = var_int_byte b"
  by (simp only: check_continuation_def var_int_byte_def VAR_INT_CONTINUE_FLAG_def not_0x80
      and_0x80_eq_0_iff byte_ge_128_iff not_less)

definition cont_byte :: "nat \<Rightarrow> byte" where
  "cont_byte n = word_of_nat (n mod 128) OR 0x80"

text \<open>The byte the writers emit for a digit that is followed by another one, and for the last one.\<close>

lemma unat_cont_byte [byte_simps]: "unat (cont_byte n) = n mod 128 + 128"
  by (simp add: cont_byte_def unat_or_0x80)

lemma continued_byte [byte_simps]:
  "cont_byte (n AND 0x7f) = cont_byte n"
  "word_of_nat n OR 0x80 = cont_byte n"
  "word_of_nat (0x80 OR n) = cont_byte n"
proof -
  have mod256: "n mod 256 mod 128 = n mod 128" by (simp add: mod_mod_cancel)
  show "cont_byte (n AND 0x7f) = cont_byte n"
    by (simp add: cont_byte_def nat_and_mask)
  show "word_of_nat n OR 0x80 = cont_byte n"
    by (simp only: byte_eq_iff unat_cont_byte unat_or_0x80 unat_of_nat_byte mod256)
  have "(0x80 OR n) mod 256 = 0x80 OR (n mod 256)"
    using take_bit_or[where n = 8 and a = "0x80 :: nat" and b = n] by (simp add: take_bit_eq_mod)
  then have "unat (word_of_nat (0x80 OR n) :: byte) = n mod 256 OR 0x80"
    by (simp only: unat_of_nat_byte or.commute)
  then show "word_of_nat (0x80 OR n) = cont_byte n"
    by (simp add: byte_eq_iff unat_cont_byte nat_or_0x80 mod256)
qed

lemma write_size_encoding_last:
  "n < 128 \<Longrightarrow> write_size_encoding n = [word_of_nat n]"
  by (simp add: write_size_encoding.simps[of n] byte_simps)

lemma write_size_encoding_more:
  "n \<ge> 128 \<Longrightarrow> write_size_encoding n = cont_byte n # write_size_encoding (n div 128)"
  by (subst write_size_encoding.simps)
    (simp add: continued_byte nat_drop_bit div_greater_zero_iff)

lemma write_varint_eq: "write_varint n out = out @ write_size_encoding n"
proof (induction n out rule: write_varint.induct)
  case (1 v out)
  show ?case
  proof (cases "v < 128")
    case True
    then show ?thesis by (subst write_varint.simps) (simp add: write_size_encoding_last)
  next
    case False
    then show ?thesis
      using 1 by (subst write_varint.simps, subst write_size_encoding_more)
        (simp_all add: nat_drop_bit continued_byte)
  qed
qed

text \<open>The size loop of the entry header writes the same digits.\<close>

lemma entry_header_size_eq: "entry_header_size n = write_size_encoding n"
proof (induction n rule: entry_header_size.induct)
  case (1 n)
  show ?case
  proof (cases "n < 128")
    case True
    then show ?thesis
      by (subst entry_header_size.simps) (simp add: write_size_encoding_last nat_drop_bit)
  next
    case False
    then show ?thesis
      using 1 by (subst entry_header_size.simps, subst write_size_encoding_more)
        (simp_all add: nat_drop_bit continued_byte div_greater_zero_iff)
  qed
qed

lemma write_size_encoding_induct [case_names last more]:
  assumes "\<And>n. n < 128 \<Longrightarrow> P n"
    and "\<And>n. n \<ge> 128 \<Longrightarrow> P (n div 128) \<Longrightarrow> P n"
  shows "P (n :: nat)"
  by (induction n rule: less_induct) (metis assms div_less_dividend le_less_linear
      less_le_trans one_less_numeral_iff semiring_norm(76) zero_less_numeral)

lemma write_size_encoding_not_Nil [simp]: "write_size_encoding n \<noteq> []"
  by (subst write_size_encoding.simps) simp

section \<open>Round trips\<close>

lemma var_int_byte_cont_byte [reader_simps]:
  "fst (var_int_byte (cont_byte n)) = word_of_nat (n mod 128)" "snd (var_int_byte (cont_byte n))"
  by (simp_all add: byte_eq_iff byte_simps)

lemma var_int_byte_last [reader_simps]:
  "n < 128 \<Longrightarrow> fst (var_int_byte (word_of_nat n)) = word_of_nat n"
  "n < 128 \<Longrightarrow> \<not> snd (var_int_byte (word_of_nat n))"
  by (simp_all add: byte_eq_iff byte_simps)

text \<open>The contract the little-endian readers share: they add the seven value bits of a byte at bit
  position \<open>len\<close> of the accumulator and go on while the continuation bit is set.  Two of them
  also count the bytes they consume (\<open>tick\<close>), two do not (the counter is then the unit value).\<close>

locale leb_reader =
  fixes loop :: "nat \<Rightarrow> nat \<Rightarrow> 'c \<Rightarrow> bytes \<Rightarrow> io_error + 'r \<times> bytes"
    and tick :: "'c \<Rightarrow> 'c"
    and fin :: "nat \<Rightarrow> 'c \<Rightarrow> 'r"
  assumes last_byte: "len < 64 \<Longrightarrow> d < 128 \<Longrightarrow> d \<le> drop_bit len usize_max \<Longrightarrow>
      loop a len c (word_of_nat d # s) =
      Inr (fin (a OR take_bit 64 (push_bit len d)) (tick c), s)"
    and more_byte: "len < 64 \<Longrightarrow> d mod 128 \<le> drop_bit len usize_max \<Longrightarrow>
      loop a len c (cont_byte d # s) =
      loop (a OR take_bit 64 (push_bit len (d mod 128))) (len + 7) (tick c) s"
begin

lemma loop_write:
  "a < 2 ^ len \<Longrightarrow> a + n * 2 ^ len < 2 ^ 64 \<Longrightarrow> len < 64 \<Longrightarrow>
   loop a len c (write_size_encoding n @ s) =
   Inr (fin (a + n * 2 ^ len) ((tick ^^ length (write_size_encoding n)) c), s)"
proof (induction n arbitrary: a len c rule: write_size_encoding_induct)
  case (last n)
  with leb_step(4,5)[OF last(2,3)] show ?case
    by (simp add: write_size_encoding_last last_byte)
next
  case (more n)
  note step = leb_step[OF more(3,4)]
  have "0 < n div 128" using more(1) by (simp add: div_greater_zero_iff)
  then have "len + 7 < 64" by (rule step(3))
  with more step show ?case
    by (simp add: write_size_encoding_more more_byte funpow_Suc_right del: funpow.simps)
qed

lemma read_write:
  "n < 2 ^ 64 \<Longrightarrow>
   loop 0 0 c (write_size_encoding n @ s) =
   Inr (fin n ((tick ^^ length (write_size_encoding n)) c), s)"
  by (simp add: loop_write)

end

lemma funpow_Suc_eq_add: "(Suc ^^ k) n = n + k"
  by (induction k) simp_all

lemmas leb_reader_simps = reader_simps case_prod_beta Let_def and_0x80_eq_0_iff unat_and_0x7f
  unat_cont_byte check_continuation_eq_var_int_byte

interpretation delta_leb: leb_reader "\<lambda>a len (_ :: unit) s. read_size_encoding_loop a len s" id
    "\<lambda>n _. n"
  by unfold_locales (auto simp: leb_reader_simps)

interpretation object_leb: leb_reader "\<lambda>a len (_ :: unit) s. obj_read_size_encoding_loop a len s" id
    "\<lambda>n _. n"
  by unfold_locales (auto simp: leb_reader_simps)

interpretation varint_leb: leb_reader read_varint_le_loop Suc "\<lambda>n c. (n, c)"
  by unfold_locales (auto simp: leb_reader_simps)

interpretation entry_leb: leb_reader "type_and_varint_size_loop True" Suc "\<lambda>n c. (n, c)"
  by unfold_locales (auto simp: leb_reader_simps)

text \<open>The delta-size codecs: both writers with the reader of the delta decoder, and with the reader
  the pack decoder uses for memory accounting.\<close>

interpretation delta_size: byte_codec write_size_encoding read_size_encoding "\<lambda>n. n < 2 ^ 64"
  by unfold_locales (simp add: read_size_encoding_def delta_leb.read_write)

interpretation rabin_size: byte_codec "\<lambda>n. write_varint n []" read_size_encoding "\<lambda>n. n < 2 ^ 64"
  by unfold_locales (simp add: write_varint_eq delta_size.dec_enc)

lemma read_varint_le_write:
  "n < 2 ^ 64 \<Longrightarrow>
   read_varint_le (write_size_encoding n @ s) = Inr ((n, length (write_size_encoding n)), s)"
  by (simp add: read_varint_le_def varint_leb.read_write funpow_Suc_eq_add)

lemma read_delta_object_size_write:
  "m < 2 ^ 64 \<Longrightarrow> n < 2 ^ 64 \<Longrightarrow>
   read_delta_object_size (write_size_encoding m @ write_size_encoding n @ s) = Inr ((m, n), s)"
  by (simp add: read_delta_object_size_def read_varint_le_write)

section \<open>Entry headers\<close>

lemma entry_header_first_byte:
  assumes "t < 8"
  shows "(0x80 OR push_bit 4 (word_of_nat t)) + word_of_nat (n AND 0x0f) =
         (word_of_nat (128 + 16 * t + n mod 16) :: byte)"
proof -
  have "t \<in> {0, 1, 2, 3, 4, 5, 6, 7}" using assms by auto
  then have "0x80 OR push_bit 4 (word_of_nat t) = (word_of_nat (128 + 16 * t) :: byte)"
    by (auto simp: push_bit_eq_mult)
  then show ?thesis by (simp add: nat_and_mask)
qed

lemma unat_type_bits: "unat (drop_bit 4 ((b :: byte) AND 0b01110000)) = unat b div 16 mod 8"
proof -
  have "drop_bit 4 (b AND 0b01110000) = drop_bit 4 b AND 7" by (simp add: drop_bit_and)
  also have "(7 :: byte) = mask 3" by (simp add: mask_eq_exp_minus_1)
  finally have "drop_bit 4 (b AND 0b01110000) = take_bit 3 (drop_bit 4 b)"
    by (simp only: take_bit_eq_mask)
  then have "unat (drop_bit 4 (b AND 0b01110000)) = take_bit 3 (drop_bit 4 (unat b))"
    by (simp only: unsigned_take_bit_eq unat_drop_bit_eq)
  then show ?thesis by (simp add: take_bit_eq_mod drop_bit_eq_div)
qed

lemma unat_low_nibble: "unat ((b :: byte) AND 0b00001111) = unat b mod 16"
proof -
  have "(0b00001111 :: byte) = mask 4" by (simp add: mask_eq_exp_minus_1)
  then have "b AND 0b00001111 = take_bit 4 b" by (simp only: take_bit_eq_mask)
  then have "unat (b AND 0b00001111) = take_bit 4 (unat b)" by (simp only: unsigned_take_bit_eq)
  then show ?thesis by (simp add: take_bit_eq_mod)
qed

lemma entry_header_eq:
  assumes "t < 8"
  shows "entry_header t n = word_of_nat (128 + 16 * t + n mod 16) # write_size_encoding (n div 16)"
  using assms unfolding entry_header_def Let_def entry_header_first_byte[OF assms]
  by (auto simp: entry_header_size_eq nat_drop_bit write_size_encoding_last)

lemma read_type_and_varint_size_entry_header:
  assumes "t < 8" "n < 2 ^ 64"
  shows "read_type_and_varint_size (entry_header t n @ s) off =
         Inr ((t, n, off + length (entry_header t n)), s)"
proof -
  define b :: byte where "b = word_of_nat (128 + 16 * t + n mod 16)"
  have "128 + 16 * t + n mod 16 < 256"
    using assms(1) mod_less_divisor[of 16 n] by linarith
  then have b: "unat b = 128 + 16 * t + n mod 16"
    unfolding b_def by (rule unat_of_nat_byte_small)
  moreover have "16 * t + n mod 16 < 128"
    using assms(1) mod_less_divisor[of 16 n] by linarith
  ultimately have low: "unat b mod 128 = 16 * t + n mod 16"
    by (simp add: add.assoc)
  obtain f where f: "var_int_byte b = (f, True)"
    using var_int_byte_eq(2)[of b] b by (cases "var_int_byte b") simp
  have "unat f = 16 * t + n mod 16" using var_int_byte_eq(1)[of b] f low by simp
  then have bits: "unat (drop_bit 4 (f AND 0b01110000)) = t" "unat (f AND 0b00001111) = n mod 16"
    using assms(1) by (simp_all only: unat_type_bits unat_low_nibble) simp_all
  have sum: "n mod 16 + n div 16 * 2 ^ 4 = n" by simp
  have "type_and_varint_size_loop True (n mod 16) 4 (off + 1) (write_size_encoding (n div 16) @ s) =
        Inr ((n, off + 1 + length (write_size_encoding (n div 16))), s)"
    using entry_leb.loop_write[of "n mod 16" 4 "n div 16"] assms(2)
    by (simp add: sum funpow_Suc_eq_add)
  then show ?thesis
    unfolding entry_header_eq[OF assms(1)] b_def[symmetric] read_type_and_varint_size_def
      read_byte_and_check_continuation_def check_continuation_eq_var_int_byte Let_def
    using f bits by simp
qed

section \<open>Offsets of OFS_DELTA entries\<close>

text \<open>The bytes that precede the last one, most significant first.\<close>

fun ofs_high :: "nat \<Rightarrow> bytes" where
  "ofs_high v = (if v = 0 then [] else ofs_high ((v - 1) div 128) @ [cont_byte (v - 1)])"

declare ofs_high.simps [simp del]

lemma ofs_high_0 [simp]: "ofs_high 0 = []"
  by (simp add: ofs_high.simps)

lemma rev_encode_offset_loop: "rev (encode_offset_loop v out) = ofs_high v @ rev out"
proof (induction v out rule: encode_offset_loop.induct)
  case (1 v out)
  then show ?case
    by (subst encode_offset_loop.simps, subst ofs_high.simps)
      (simp add: nat_drop_bit continued_byte)
qed

lemma encode_offset_eq:
  "v \<noteq> 0 \<Longrightarrow> encode_offset v = Inr (ofs_high (v div 128) @ [word_of_nat (v mod 128)])"
  by (simp add: encode_offset_def rev_encode_offset_loop byte_simps)

lemma ofs_step:
  assumes "a < 2 ^ 57"
  shows "take_bit 64 (push_bit 7 a) OR d mod 128 = a * 128 + d mod (128 :: nat)"
proof -
  have "a * 128 < 2 ^ 64" using assms by simp
  then have "take_bit 64 (push_bit 7 a) = push_bit 7 a"
    by (simp add: take_bit_nat_eq_self push_bit_eq_mult)
  moreover have "d mod 128 OR push_bit 7 a = d mod 128 + a * 2 ^ 7"
    by (rule or_push_bit_eq_add) simp
  ultimately show ?thesis by (simp add: or.commute)
qed

lemma read_offset_encoding_loop_high:
  "v < 2 ^ 57 \<Longrightarrow>
   read_offset_encoding_loop 0 off (ofs_high v @ s) =
   read_offset_encoding_loop v (off + length (ofs_high v)) s"
proof (induction v arbitrary: s rule: ofs_high.induct)
  case (1 v)
  show ?case
  proof (cases "v = 0")
    case False
    let ?u = "(v - 1) div 128"
    have u: "?u < 2 ^ 57" using 1(2) by (simp add: div_less_iff_less_mult)
    have "?u * 128 + (v - 1) mod 128 = v - 1" by simp
    then have acc: "take_bit 64 (push_bit 7 ?u) OR (v - 1) mod 128 = v - 1"
      using ofs_step[OF u, of "v - 1"] by simp
    have "read_offset_encoding_loop 0 off (ofs_high v @ s) =
          read_offset_encoding_loop ?u (off + length (ofs_high ?u)) (cont_byte (v - 1) # s)"
      using 1(1)[OF False u] False by (subst ofs_high.simps) simp
    also have "\<dots> = read_offset_encoding_loop v (off + length (ofs_high ?u) + 1) s"
    proof -
      have "v - 1 \<noteq> 2 ^ 64 - 1" "v - 1 + 1 = v" using False 1(2) by simp_all
      then show ?thesis using acc by (simp add: leb_reader_simps)
    qed
    also have "off + length (ofs_high ?u) + 1 = off + length (ofs_high v)"
      using False by (subst (2) ofs_high.simps) simp
    finally show ?thesis .
  qed simp
qed

lemma read_offset_encoding_encode_offset:
  assumes "0 < v" "v < 2 ^ 64"
  obtains out where "encode_offset v = Inr out"
    and "\<And>s. read_offset_encoding (out @ s) = Inr ((v, length out), s)"
proof
  let ?out = "ofs_high (v div 128) @ [word_of_nat (v mod 128) :: byte]"
  show "encode_offset v = Inr ?out" using assms(1) by (simp add: encode_offset_eq)
  have hi: "v div 128 < 2 ^ 57" using assms(2) by (simp add: div_less_iff_less_mult)
  have "v div 128 * 128 + v mod 128 = v" by simp
  then have acc: "take_bit 64 (push_bit 7 (v div 128)) OR v mod 128 = v"
    using ofs_step[OF hi, of v] by simp
  show "read_offset_encoding (?out @ s) = Inr ((v, length ?out), s)" for s
    using read_offset_encoding_loop_high[OF hi] acc
    by (simp add: read_offset_encoding_def leb_reader_simps)
qed

section \<open>The other type/size reader\<close>

lemma keep_bits_eq: "keep_bits n k = n mod 2 ^ k"
proof -
  have "push_bit k 1 - 1 = (mask k :: nat)" by (simp add: push_bit_eq_mult mask_eq_exp_minus_1)
  then show ?thesis by (simp only: keep_bits_def flip: take_bit_eq_mask take_bit_eq_mod)
qed

text \<open>\<open>read_type_and_size\<close> reads the whole header as one varint before it splits it, so its range
  is three bits smaller than that of \<open>read_type_and_varint_size\<close>.\<close>

lemma read_type_and_size_entry_header:
  assumes "t < 8" "n < 2 ^ 61"
  shows "read_type_and_size (entry_header t n @ s) = Inr ((t, n), s)"
proof -
  define m where "m = 16 * t + n mod 16"
  have m: "m < 128" unfolding m_def using assms(1) mod_less_divisor[of 16 n] by linarith
  have first: "word_of_nat (128 + 16 * t + n mod 16) = cont_byte m"
    using m by (simp only: byte_eq_iff unat_cont_byte unat_of_nat_byte) (simp add: m_def)
  have "n div 16 \<le> 2 ^ 57 - 1" using assms(2) by (simp add: div_less_iff_less_mult less_Suc_eq_le[symmetric])
  then have "m + n div 16 * 2 ^ 7 < 2 ^ 64" using m by simp
  then have "obj_read_size_encoding (entry_header t n @ s) = Inr (m + n div 16 * 2 ^ 7, s)"
    using m object_leb.loop_write[of m 7 "n div 16"]
    unfolding obj_read_size_encoding_def entry_header_eq[OF assms(1)] first
    by (simp add: leb_reader_simps take_bit_nat_eq_self)
  moreover have "keep_bits (drop_bit 4 (m + n div 16 * 2 ^ 7)) 3 = t"
  proof -
    have "m + n div 16 * 2 ^ 7 = n mod 16 + (t + n div 16 * 8) * 16" by (simp add: m_def)
    then have "(m + n div 16 * 2 ^ 7) div 16 = t + n div 16 * 8" by (simp only:) simp
    then show ?thesis using assms(1) by (simp add: keep_bits_eq nat_drop_bit)
  qed
  moreover have "keep_bits (m + n div 16 * 2 ^ 7) 4 OR push_bit 4 (drop_bit 7 (m + n div 16 * 2 ^ 7)) = n"
  proof -
    have "keep_bits (m + n div 16 * 2 ^ 7) 4 = n mod 16" "drop_bit 7 (m + n div 16 * 2 ^ 7) = n div 16"
      using m by (simp_all add: keep_bits_eq nat_drop_bit m_def mod_add_eq flip: mod_add_eq)
    then show ?thesis by (simp add: or_push_bit_eq_add)
  qed
  ultimately show ?thesis
    by (simp add: read_type_and_size_def)
qed

section \<open>Exactness of the guarded reader\<close>

text \<open>The number a sequence of varint bytes stands for, over unbounded integers.\<close>

fun leb_number :: "bytes \<Rightarrow> nat" where
  "leb_number [] = 0"
| "leb_number (b # bs) = unat b mod 128 + 128 * leb_number bs"

text \<open>A prefix of the stream is one complete varint: continuation bits on all bytes but the last.\<close>

definition leb_complete :: "bytes \<Rightarrow> bool" where
  "leb_complete p \<longleftrightarrow> p \<noteq> [] \<and> (\<forall>b \<in> set (butlast p). unat b \<ge> 128) \<and> unat (last p) < 128"

lemma leb_complete_Cons:
  "leb_complete (b # p) \<longleftrightarrow> (if p = [] then unat b < 128 else unat b \<ge> 128 \<and> leb_complete p)"
  by (auto simp: leb_complete_def)

lemma guarded_digit:
  fixes a d len :: nat
  assumes "a < 2 ^ len" "d < 128" "len < 64" "\<not> (len + 7 > 64 \<and> d > drop_bit len (2 ^ 64 - 1))"
  shows "a OR take_bit 64 (push_bit len d) = a + d * 2 ^ len" "a + d * 2 ^ len < 2 ^ 64"
    "a + d * 2 ^ len < 2 ^ (len + 7)"
proof -
  have "d * 2 ^ len \<le> 127 * 2 ^ len" using assms(2) by (intro mult_le_mono1) linarith
  then have 7: "a + d * 2 ^ len < 2 ^ len + 127 * 2 ^ len" using assms(1) by linarith
  then show exp7: "a + d * 2 ^ len < 2 ^ (len + 7)" by (simp add: power_add)
  show lt: "a + d * 2 ^ len < 2 ^ 64"
  proof (cases "len + 7 > 64")
    case True
    then have "d \<le> (2 ^ 64 - 1) div 2 ^ len"
      using assms(4) by (simp only: drop_bit_eq_div not_less simp_thms)
    then have "d * 2 ^ len \<le> 2 ^ 64 - 1"
      by (simp only: less_eq_div_iff_mult_less_eq zero_less_power zero_less_numeral)
    moreover have exp: "(2 :: nat) ^ 64 = 2 ^ (64 - len) * 2 ^ len"
      using assms(3) by (simp only: flip: power_add) simp
    moreover have "(2 :: nat) ^ 64 - 1 < 2 ^ 64" by simp
    ultimately have "d * 2 ^ len < 2 ^ (64 - len) * 2 ^ len" by (metis le_less_trans)
    then have "Suc d * 2 ^ len \<le> 2 ^ (64 - len) * 2 ^ len"
      by (intro mult_le_mono1 Suc_leI) simp
    then show ?thesis unfolding exp using assms(1) by simp
  next
    case False
    then have "(2 :: nat) ^ (len + 7) \<le> 2 ^ 64" by (intro power_increasing) auto
    then show ?thesis using exp7 by linarith
  qed
  then show "a OR take_bit 64 (push_bit len d) = a + d * 2 ^ len"
    using or_push_bit_eq_add[OF assms(1), of d]
    by (simp add: take_bit_nat_eq_self push_bit_eq_mult)
qed


lemma read_size_encoding_loop_exact:
  "read_size_encoding_loop a len s = Inr (v, r) \<Longrightarrow> a < 2 ^ len \<Longrightarrow>
   \<exists>p. s = p @ r \<and> leb_complete p \<and> v = a + leb_number p * 2 ^ len \<and> v < 2 ^ 64 \<and>
       len + 7 * length p < 71"
proof (induction a len s arbitrary: v r rule: read_size_encoding_loop.induct)
  case (2 a len b s)
  define d where "d = unat b mod 128"
  obtain f m where fm: "var_int_byte b = (f, m)" by fastforce
  have f: "unat f = d" and m: "m \<longleftrightarrow> unat b \<ge> 128"
    using var_int_byte_eq[of b] fm by (simp_all add: d_def)
  have guard: "len < 64" "\<not> (len + 7 > 64 \<and> d > drop_bit len (2 ^ 64 - 1))"
    using "2.prems"(1) by (auto simp: fm f split: if_splits)
  have "d < 128" by (simp add: d_def)
  note digit = guarded_digit[OF "2.prems"(2) this guard]
  show ?case
  proof (cases m)
    case False
    then have "v = a + d * 2 ^ len" "r = s"
      using "2.prems"(1) guard digit(1) by (auto simp: fm f split: if_splits)
    then show ?thesis
      using False m digit(2) guard(1) by (intro exI[of _ "[b]"]) (simp add: leb_complete_def d_def)
  next
    case True
    have rec: "read_size_encoding_loop (a + d * 2 ^ len) (len + 7) s = Inr (v, r)"
      using "2.prems"(1) guard digit(1) True by (auto simp: fm f split: if_splits)
    have "\<exists>p. s = p @ r \<and> leb_complete p \<and> v = a + d * 2 ^ len + leb_number p * 2 ^ (len + 7) \<and>
        v < 2 ^ 64 \<and> len + 7 + 7 * length p < 71"
      using "2.IH"[OF fm[symmetric] refl _ refl] guard rec digit(1,3) True by (simp add: f)
    then obtain p where p: "s = p @ r" "leb_complete p" "v < 2 ^ 64" "len + 7 + 7 * length p < 71"
      "v = a + d * 2 ^ len + leb_number p * 2 ^ (len + 7)" by blast
    then show ?thesis
      using True m by (intro exI[of _ "b # p"])
        (auto simp: leb_complete_Cons leb_complete_def d_def power_add algebra_simps)
  qed
qed simp

lemma read_size_encoding_loop_complete:
  "leb_complete p \<Longrightarrow> a < 2 ^ len \<Longrightarrow> a + leb_number p * 2 ^ len < 2 ^ 64 \<Longrightarrow>
   len + 7 * length p < 71 \<Longrightarrow>
   read_size_encoding_loop a len (p @ r) = Inr (a + leb_number p * 2 ^ len, r)"
proof (induction p arbitrary: a len)
  case (Cons b p)
  define d where "d = unat b mod 128"
  obtain f m where fm: "var_int_byte b = (f, m)" by fastforce
  have f: "unat f = d" and m: "m \<longleftrightarrow> unat b \<ge> 128"
    using var_int_byte_eq[of b] fm by (simp_all add: d_def)
  have digits: "leb_number (b # p) mod 128 = d" "leb_number (b # p) div 128 = leb_number p"
    by (simp_all add: d_def)
  note step = leb_step[OF Cons.prems(2,3), unfolded digits]
  have len: "len < 64" using Cons.prems(4) by simp
  show ?case
  proof (cases "p = []")
    case True
    then have "\<not> m" using Cons.prems(1) m by (simp add: leb_complete_Cons)
    then show ?thesis using True step(2,5) len by (simp add: fm f)
  next
    case False
    then have m: "m" "leb_complete p" using Cons.prems(1) m by (simp_all add: leb_complete_Cons)
    let ?v = "a OR take_bit 64 (push_bit len d)"
    have "read_size_encoding_loop ?v (len + 7) (p @ r) = Inr (?v + leb_number p * 2 ^ (len + 7), r)"
      using Cons.IH[OF m(2) step(1)] step(2) Cons.prems(3,4) by simp
    then show ?thesis using m(1) step(2,5) len by (simp add: fm f)
  qed
qed (simp add: leb_complete_def)

lemma read_size_encoding_iff:
  "read_size_encoding s = Inr (v, r) \<longleftrightarrow>
   (\<exists>p. s = p @ r \<and> leb_complete p \<and> length p \<le> 10 \<and> leb_number p = v \<and> v < 2 ^ 64)"
proof
  assume "read_size_encoding s = Inr (v, r)"
  then show "\<exists>p. s = p @ r \<and> leb_complete p \<and> length p \<le> 10 \<and> leb_number p = v \<and> v < 2 ^ 64"
    using read_size_encoding_loop_exact[of 0 0 s v r] by (fastforce simp: read_size_encoding_def)
next
  assume "\<exists>p. s = p @ r \<and> leb_complete p \<and> length p \<le> 10 \<and> leb_number p = v \<and> v < 2 ^ 64"
  then show "read_size_encoding s = Inr (v, r)"
    using read_size_encoding_loop_complete[of _ 0 0] by (auto simp: read_size_encoding_def)
qed

lemma read_size_encoding_less: "read_size_encoding s = Inr (v, r) \<Longrightarrow> v < 2 ^ 64"
  by (auto simp: read_size_encoding_iff)

interpretation delta_size_reader: prefix_reader read_size_encoding
  by unfold_locales (auto simp: read_size_encoding_iff leb_complete_def)

section \<open>Properties\<close>

text \<open>C30: delta sizes survive the wire.  Both writers (\<open>write_size_encoding\<close> of the diff encoder,
  \<open>write_varint\<close> of the Rabin encoder) emit the same bytes for every 64-bit size; the delta
  decoder's reader and the pack decoder's reader give the size back, leave the rest of the stream
  untouched, and the latter counts the bytes.\<close>

theorem delta_size_roundtrip:
  assumes "n < 2 ^ 64"
  shows "write_varint n out = out @ write_size_encoding n \<and>
    read_size_encoding (write_size_encoding n @ s) = Inr (n, s) \<and>
    read_varint_le (write_size_encoding n @ s) = Inr ((n, length (write_size_encoding n)), s)"
  using assms by (simp add: write_varint_eq delta_size.dec_enc read_varint_le_write)

theorem delta_size_roundtrip_witness:
  "(300 :: nat) < 2 ^ 64 \<and> write_varint 300 [7] = [7] @ write_size_encoding 300 \<and>
    read_size_encoding (write_size_encoding 300 @ [9]) = Inr (300, [9]) \<and>
    read_varint_le (write_size_encoding 300 @ [9]) = Inr ((300, length (write_size_encoding 300)), [9])"
  using delta_size_roundtrip[of 300 "[7]" "[9]"] by simp

text \<open>the guarded reader of delta sizes is exact.  It succeeds if and only if the stream starts
  with one complete varint of at most ten bytes whose value, over unbounded integers, fits into 64
  bits, and then it returns exactly that value: no input makes it truncate silently.\<close>

theorem delta_size_reader_exact:
  "read_size_encoding s = Inr (v, r) \<longleftrightarrow>
   (\<exists>p. s = p @ r \<and> leb_complete p \<and> length p \<le> 10 \<and> leb_number p = v \<and> v < 2 ^ 64)"
  by (rule read_size_encoding_iff)

text \<open>the entry header written before every packed object is read back by both readers of
  type/size headers: \<open>read_type_and_varint_size\<close> for every 64-bit size, \<open>read_type_and_size\<close> for
  sizes below 2 to the 61.\<close>

theorem entry_header_roundtrip:
  assumes "t < 8" "n < 2 ^ 64"
  shows "read_type_and_varint_size (entry_header t n @ s) off =
           Inr ((t, n, off + length (entry_header t n)), s) \<and>
         (n < 2 ^ 61 \<longrightarrow> read_type_and_size (entry_header t n @ s) = Inr ((t, n), s))"
  using assms by (simp add: read_type_and_varint_size_entry_header read_type_and_size_entry_header)

theorem entry_header_roundtrip_witness:
  "(3 :: nat) < 8 \<and> (1000 :: nat) < 2 ^ 64 \<and>
   read_type_and_varint_size (entry_header 3 1000 @ [5]) 12 =
     Inr ((3, 1000, 12 + length (entry_header 3 1000)), [5]) \<and>
   read_type_and_size (entry_header 3 1000 @ [5]) = Inr ((3, 1000), [5])"
  using entry_header_roundtrip[of 3 1000 "[5]" 12] by simp

text \<open>C31: the backwards distance of an offset delta.  \<open>encode_offset\<close> panics exactly on zero; every
  other 64-bit distance is encoded, and \<open>read_offset_encoding\<close> returns it with the number of bytes
  it occupied.\<close>

theorem offset_roundtrip:
  assumes "v < 2 ^ 64"
  shows "case encode_offset v of
           Inl e \<Rightarrow> v = 0
         | Inr out \<Rightarrow> v \<noteq> 0 \<and> read_offset_encoding (out @ s) = Inr ((v, length out), s)"
proof (cases "v = 0")
  case False
  then obtain out where "encode_offset v = Inr out"
    "read_offset_encoding (out @ s) = Inr ((v, length out), s)"
    using read_offset_encoding_encode_offset[of v] assms by blast
  with False show ?thesis by simp
qed (simp add: encode_offset_def)

theorem offset_roundtrip_witness:
  "(200 :: nat) < 2 ^ 64 \<and>
   (case encode_offset 200 of
      Inl e \<Rightarrow> (200 :: nat) = 0
    | Inr out \<Rightarrow> (200 :: nat) \<noteq> 0 \<and> read_offset_encoding (out @ [1]) = Inr ((200, length out), [1]))"
  using offset_roundtrip[of 200 "[1]"] by simp

text \<open>the pack decoder's varint reader is not exact.  On nine continued bytes followed by
  \<open>0x7f\<close> it returns the 64-bit maximum, although the bytes stand for a larger number; the guarded
  reader of the delta decoder reports the overflow on the same bytes.\<close>

theorem read_varint_le_truncates:
  fixes bs :: bytes
  defines "bs \<equiv> [0xff, 0xff, 0xff, 0xff, 0xff, 0xff, 0xff, 0xff, 0xff, 0x7f]"
  shows "read_varint_le bs = Inr ((2 ^ 64 - 1, 10), []) \<and> leb_number bs > 2 ^ 64 - 1 \<and>
    read_size_encoding bs = Inl (InvalidData ''delta size varint exceeds usize'')"
proof (intro conjI)
  show "read_varint_le bs = Inr ((2 ^ 64 - 1, 10), [])"
    by (simp add: bs_def read_varint_le_def push_bit_eq_mult take_bit_eq_mod Let_def)
  show "leb_number bs > 2 ^ 64 - 1"
    by (simp add: bs_def)
  show "read_size_encoding bs = Inl (InvalidData ''delta size varint exceeds usize'')"
    by (simp add: bs_def read_size_encoding_def check_continuation_def push_bit_eq_mult take_bit_eq_mod
        drop_bit_eq_div Let_def flip: check_continuation_eq_var_int_byte)
qed

end
