(* ===== verification/Rabin_Tables.thy ===== *)
theory Rabin_Tables
  imports Varint
begin

text \<open>
  The Rabin fingerprint of \<open>src/src/delta/encode/rabin/tables.rs\<close>: the two lookup tables, the update
  step that the index builder and the encoder share, and the removal of the byte that leaves the
  16-byte window.

  A lookup outside a table panics in Rust and is an error here; \<open>rabin_fold_ok\<close> shows that it cannot
  happen, because every fingerprint fits into 31 bits.  \<open>rabin_roll\<close> shows that rolling the hash is
  the same as hashing the moved window from scratch: the update is linear over XOR, and table \<open>U\<close>
  holds the fingerprints of a byte followed by fifteen zeros.
\<close>

section \<open>Model\<close>

definition RABIN_WINDOW :: nat where [simp]:
  "RABIN_WINDOW = 16"

definition RABIN_SHIFT :: nat where [simp]:
  "RABIN_SHIFT = 23"

definition T_table :: "32 word list" where
  "T_table = [
     0x0, 0xab59b4d1, 0x56b369a2, 0xfdeadd73, 0x63f6795, 0xad66d344, 0x508c0e37, 0xfbd5bae6,
     0xc7ecf2a, 0xa7277bfb, 0x5acda688, 0xf1941259, 0xa41a8bf, 0xa1181c6e, 0x5cf2c11d, 0xf7ab75cc,
     0x18fd9e54, 0xb3a42a85, 0x4e4ef7f6, 0xe5174327, 0x1ec2f9c1, 0xb59b4d10, 0x48719063, 0xe32824b2,
     0x1483517e, 0xbfdae5af, 0x423038dc, 0xe9698c0d, 0x12bc36eb, 0xb9e5823a, 0x440f5f49, 0xef56eb98,
     0x31fb3ca8, 0x9aa28879, 0x6748550a, 0xcc11e1db, 0x37c45b3d, 0x9c9defec, 0x6177329f, 0xca2e864e,
     0x3d85f382, 0x96dc4753, 0x6b369a20, 0xc06f2ef1, 0x3bba9417, 0x90e320c6, 0x6d09fdb5, 0xc6504964,
     0x2906a2fc, 0x825f162d, 0x7fb5cb5e, 0xd4ec7f8f, 0x2f39c569, 0x846071b8, 0x798aaccb, 0xd2d3181a,
     0x25786dd6, 0x8e21d907, 0x73cb0474, 0xd892b0a5, 0x23470a43, 0x881ebe92, 0x75f463e1, 0xdeadd730,
     0x63f67950, 0xc8afcd81, 0x354510f2, 0x9e1ca423, 0x65c91ec5, 0xce90aa14, 0x337a7767, 0x9823c3b6,
     0x6f88b67a, 0xc4d102ab, 0x393bdfd8, 0x92626b09, 0x69b7d1ef, 0xc2ee653e, 0x3f04b84d, 0x945d0c9c,
     0x7b0be704, 0xd05253d5, 0x2db88ea6, 0x86e13a77, 0x7d348091, 0xd66d3440, 0x2b87e933, 0x80de5de2,
     0x7775282e, 0xdc2c9cff, 0x21c6418c, 0x8a9ff55d, 0x714a4fbb, 0xda13fb6a, 0x27f92619, 0x8ca092c8,
     0x520d45f8, 0xf954f129, 0x4be2c5a, 0xafe7988b, 0x5432226d, 0xff6b96bc, 0x2814bcf, 0xa9d8ff1e,
     0x5e738ad2, 0xf52a3e03, 0x8c0e370, 0xa39957a1, 0x584ced47, 0xf3155996, 0xeff84e5, 0xa5a63034,
     0x4af0dbac, 0xe1a96f7d, 0x1c43b20e, 0xb71a06df, 0x4ccfbc39, 0xe79608e8, 0x1a7cd59b, 0xb125614a,
     0x468e1486, 0xedd7a057, 0x103d7d24, 0xbb64c9f5, 0x40b17313, 0xebe8c7c2, 0x16021ab1, 0xbd5bae60,
     0x6cb54671, 0xc7ecf2a0, 0x3a062fd3, 0x915f9b02, 0x6a8a21e4, 0xc1d39535, 0x3c394846, 0x9760fc97,
     0x60cb895b, 0xcb923d8a, 0x3678e0f9, 0x9d215428, 0x66f4eece, 0xcdad5a1f, 0x3047876c, 0x9b1e33bd,
     0x7448d825, 0xdf116cf4, 0x22fbb187, 0x89a20556, 0x7277bfb0, 0xd92e0b61, 0x24c4d612, 0x8f9d62c3,
     0x7836170f, 0xd36fa3de, 0x2e857ead, 0x85dcca7c, 0x7e09709a, 0xd550c44b, 0x28ba1938, 0x83e3ade9,
     0x5d4e7ad9, 0xf617ce08, 0xbfd137b, 0xa0a4a7aa, 0x5b711d4c, 0xf028a99d, 0xdc274ee, 0xa69bc03f,
     0x5130b5f3, 0xfa690122, 0x783dc51, 0xacda6880, 0x570fd266, 0xfc5666b7, 0x1bcbbc4, 0xaae50f15,
     0x45b3e48d, 0xeeea505c, 0x13008d2f, 0xb85939fe, 0x438c8318, 0xe8d537c9, 0x153feaba, 0xbe665e6b,
     0x49cd2ba7, 0xe2949f76, 0x1f7e4205, 0xb427f6d4, 0x4ff24c32, 0xe4abf8e3, 0x19412590, 0xb2189141,
     0xf433f21, 0xa41a8bf0, 0x59f05683, 0xf2a9e252, 0x97c58b4, 0xa225ec65, 0x5fcf3116, 0xf49685c7,
     0x33df00b, 0xa86444da, 0x558e99a9, 0xfed72d78, 0x502979e, 0xae5b234f, 0x53b1fe3c, 0xf8e84aed,
     0x17bea175, 0xbce715a4, 0x410dc8d7, 0xea547c06, 0x1181c6e0, 0xbad87231, 0x4732af42, 0xec6b1b93,
     0x1bc06e5f, 0xb099da8e, 0x4d7307fd, 0xe62ab32c, 0x1dff09ca, 0xb6a6bd1b, 0x4b4c6068, 0xe015d4b9,
     0x3eb80389, 0x95e1b758, 0x680b6a2b, 0xc352defa, 0x3887641c, 0x93ded0cd, 0x6e340dbe, 0xc56db96f,
     0x32c6cca3, 0x999f7872, 0x6475a501, 0xcf2c11d0, 0x34f9ab36, 0x9fa01fe7, 0x624ac294, 0xc9137645,
     0x26459ddd, 0x8d1c290c, 0x70f6f47f, 0xdbaf40ae, 0x207afa48, 0x8b234e99, 0x76c993ea, 0xdd90273b,
     0x2a3b52f7, 0x8162e626, 0x7c883b55, 0xd7d18f84, 0x2c043562, 0x875d81b3, 0x7ab75cc0, 0xd1eee811]"

definition U_table :: "32 word list" where
  "U_table = [
     0x0, 0x7eb5200d, 0x5633f4cb, 0x2886d4c6, 0x73e5d47, 0x798b7d4a, 0x510da98c, 0x2fb88981,
     0xe7cba8e, 0x70c99a83, 0x584f4e45, 0x26fa6e48, 0x942e7c9, 0x77f7c7c4, 0x5f711302, 0x21c4330f,
     0x1cf9751c, 0x624c5511, 0x4aca81d7, 0x347fa1da, 0x1bc7285b, 0x65720856, 0x4df4dc90, 0x3341fc9d,
     0x1285cf92, 0x6c30ef9f, 0x44b63b59, 0x3a031b54, 0x15bb92d5, 0x6b0eb2d8, 0x4388661e, 0x3d3d4613,
     0x39f2ea38, 0x4747ca35, 0x6fc11ef3, 0x11743efe, 0x3eccb77f, 0x40799772, 0x68ff43b4, 0x164a63b9,
     0x378e50b6, 0x493b70bb, 0x61bda47d, 0x1f088470, 0x30b00df1, 0x4e052dfc, 0x6683f93a, 0x1836d937,
     0x250b9f24, 0x5bbebf29, 0x73386bef, 0xd8d4be2, 0x2235c263, 0x5c80e26e, 0x740636a8, 0xab316a5,
     0x2b7725aa, 0x55c205a7, 0x7d44d161, 0x3f1f16c, 0x2c4978ed, 0x52fc58e0, 0x7a7a8c26, 0x4cfac2b,
     0x73e5d470, 0xd50f47d, 0x25d620bb, 0x5b6300b6, 0x74db8937, 0xa6ea93a, 0x22e87dfc, 0x5c5d5df1,
     0x7d996efe, 0x32c4ef3, 0x2baa9a35, 0x551fba38, 0x7aa733b9, 0x41213b4, 0x2c94c772, 0x5221e77f,
     0x6f1ca16c, 0x11a98161, 0x392f55a7, 0x479a75aa, 0x6822fc2b, 0x1697dc26, 0x3e1108e0, 0x40a428ed,
     0x61601be2, 0x1fd53bef, 0x3753ef29, 0x49e6cf24, 0x665e46a5, 0x18eb66a8, 0x306db26e, 0x4ed89263,
     0x4a173e48, 0x34a21e45, 0x1c24ca83, 0x6291ea8e, 0x4d29630f, 0x339c4302, 0x1b1a97c4, 0x65afb7c9,
     0x446b84c6, 0x3adea4cb, 0x1258700d, 0x6ced5000, 0x4355d981, 0x3de0f98c, 0x15662d4a, 0x6bd30d47,
     0x56ee4b54, 0x285b6b59, 0xddbf9f, 0x7e689f92, 0x51d01613, 0x2f65361e, 0x7e3e2d8, 0x7956c2d5,
     0x5892f1da, 0x2627d1d7, 0xea10511, 0x7014251c, 0x5facac9d, 0x21198c90, 0x99f5856, 0x772a785b,
     0x4c921c31, 0x32273c3c, 0x1aa1e8fa, 0x6414c8f7, 0x4bac4176, 0x3519617b, 0x1d9fb5bd, 0x632a95b0,
     0x42eea6bf, 0x3c5b86b2, 0x14dd5274, 0x6a687279, 0x45d0fbf8, 0x3b65dbf5, 0x13e30f33, 0x6d562f3e,
     0x506b692d, 0x2ede4920, 0x6589de6, 0x78edbdeb, 0x5755346a, 0x29e01467, 0x166c0a1, 0x7fd3e0ac,
     0x5e17d3a3, 0x20a2f3ae, 0x8242768, 0x76910765, 0x59298ee4, 0x279caee9, 0xf1a7a2f, 0x71af5a22,
     0x7560f609, 0xbd5d604, 0x235302c2, 0x5de622cf, 0x725eab4e, 0xceb8b43, 0x246d5f85, 0x5ad87f88,
     0x7b1c4c87, 0x5a96c8a, 0x2d2fb84c, 0x539a9841, 0x7c2211c0, 0x29731cd, 0x2a11e50b, 0x54a4c506,
     0x69998315, 0x172ca318, 0x3faa77de, 0x411f57d3, 0x6ea7de52, 0x1012fe5f, 0x38942a99, 0x46210a94,
     0x67e5399b, 0x19501996, 0x31d6cd50, 0x4f63ed5d, 0x60db64dc, 0x1e6e44d1, 0x36e89017, 0x485db01a,
     0x3f77c841, 0x41c2e84c, 0x69443c8a, 0x17f11c87, 0x38499506, 0x46fcb50b, 0x6e7a61cd, 0x10cf41c0,
     0x310b72cf, 0x4fbe52c2, 0x67388604, 0x198da609, 0x36352f88, 0x48800f85, 0x6006db43, 0x1eb3fb4e,
     0x238ebd5d, 0x5d3b9d50, 0x75bd4996, 0xb08699b, 0x24b0e01a, 0x5a05c017, 0x728314d1, 0xc3634dc,
     0x2df207d3, 0x534727de, 0x7bc1f318, 0x574d315, 0x2acc5a94, 0x54797a99, 0x7cffae5f, 0x24a8e52,
     0x6852279, 0x78300274, 0x50b6d6b2, 0x2e03f6bf, 0x1bb7f3e, 0x7f0e5f33, 0x57888bf5, 0x293dabf8,
     0x8f998f7, 0x764cb8fa, 0x5eca6c3c, 0x207f4c31, 0xfc7c5b0, 0x7172e5bd, 0x59f4317b, 0x27411176,
     0x1a7c5765, 0x64c97768, 0x4c4fa3ae, 0x32fa83a3, 0x1d420a22, 0x63f72a2f, 0x4b71fee9, 0x35c4dee4,
     0x1400edeb, 0x6ab5cde6, 0x42331920, 0x3c86392d, 0x133eb0ac, 0x6d8b90a1, 0x450d4467, 0x3bb8646a]"

text \<open>Indexing of a Rust slice.\<close>

definition index_at :: "'a list \<Rightarrow> nat \<Rightarrow> io_error + 'a" where
  "index_at xs i = (if i < length xs then Inr (xs ! i) else Inl (Panic ''index out of bounds''))"

text \<open>\<open>val = ((val << 8) | b as u32) ^ T[(val >> RABIN_SHIFT) as usize]\<close>.\<close>

definition rabin_update :: "32 word \<Rightarrow> byte \<Rightarrow> io_error + 32 word" where
  "rabin_update val b =
     and_then (index_at T_table (unat (drop_bit RABIN_SHIFT val)))
       (\<lambda>t. Inr ((push_bit 8 val OR ucast b) XOR t))"

fun rabin_fold :: "32 word \<Rightarrow> bytes \<Rightarrow> io_error + 32 word" where
  "rabin_fold val [] = Inr val"
| "rabin_fold val (b # bs) = and_then (rabin_update val b) (\<lambda>val. rabin_fold val bs)"

text \<open>\<open>val ^= U[oldest as usize]\<close>.\<close>

definition rabin_remove :: "32 word \<Rightarrow> byte \<Rightarrow> io_error + 32 word" where
  "rabin_remove val oldest =
     and_then (index_at U_table (unat oldest)) (\<lambda>u. Inr (val XOR u))"

section \<open>The tables\<close>

lemma table_lengths [simp]: "length T_table = 256" "length U_table = 256"
  by (simp_all add: T_table_def U_table_def)

text \<open>XOR-combination of basis vectors selected by the bits of an index.\<close>

fun xor_basis :: "32 word list \<Rightarrow> nat \<Rightarrow> 32 word" where
  "xor_basis [] i = 0"
| "xor_basis (v # vs) i = (if odd i then v else 0) XOR xor_basis vs (i div 2)"

definition T_basis :: "32 word list" where
  "T_basis = [0xab59b4d1, 0x56b369a2, 0x063f6795, 0x0c7ecf2a, 0x18fd9e54, 0x31fb3ca8, 0x63f67950,
              0x6cb54671]"

lemma T_table_basis: "T_table = map (xor_basis T_basis) [0..<256]"
  by (simp add: T_table_def T_basis_def upt_conv_Cons)

definition U_basis :: "32 word list" where
  "U_basis = [0x7eb5200d, 0x5633f4cb, 0x073e5d47, 0x0e7cba8e, 0x1cf9751c, 0x39f2ea38, 0x73e5d470,
              0x4c921c31]"

lemma U_table_basis: "U_table = map (xor_basis U_basis) [0..<256]"
  by (simp add: U_table_def U_basis_def upt_conv_Cons)

lemma table_nth:
  "i < 256 \<Longrightarrow> T_table ! i = xor_basis T_basis i"
  "i < 256 \<Longrightarrow> U_table ! i = xor_basis U_basis i"
  by (simp_all add: T_table_basis U_table_basis)

lemma nat_xor_half: "((i :: nat) XOR j) div 2 = (i div 2) XOR (j div 2)"
  using drop_bit_xor[where n = 1 and a = i and b = j] by (simp add: drop_bit_eq_div)

lemma nat_odd_xor: "odd ((i :: nat) XOR j) \<longleftrightarrow> odd i \<noteq> odd j"
  using bit_xor_iff[of i j 0] by (simp add: bit_0)

lemma xor_basis_linear: "xor_basis vs (i XOR j) = xor_basis vs i XOR xor_basis vs j"
  by (induction vs arbitrary: i j)
    (auto simp: nat_xor_half nat_odd_xor xor.assoc xor.commute xor.left_commute)

lemma xor_basis_0 [simp]: "xor_basis vs 0 = 0"
  by (induction vs) simp_all

section \<open>Fingerprints\<close>

text \<open>The update without the bounds check, and the fingerprint of a byte string.\<close>

definition fp_step :: "32 word \<Rightarrow> byte \<Rightarrow> 32 word" where
  "fp_step v b = (push_bit 8 v OR ucast b) XOR xor_basis T_basis (unat (drop_bit 23 v))"

definition fp_from :: "32 word \<Rightarrow> bytes \<Rightarrow> 32 word" where
  "fp_from v bs = foldl fp_step v bs"

abbreviation fingerprint :: "bytes \<Rightarrow> 32 word" where
  "fingerprint bs \<equiv> fp_from 0 bs"

lemma fp_from_simps [simp]:
  "fp_from v [] = v"
  "fp_from v (b # bs) = fp_from (fp_step v b) bs"
  "fp_from v (xs @ ys) = fp_from (fp_from v xs) ys"
  by (simp_all add: fp_from_def)

lemma bit31_basis: "bit (xor_basis T_basis i) 31 \<longleftrightarrow> odd i"
  by (simp add: T_basis_def bit_xor_iff)

lemma unat_shift_right: "unat (drop_bit n (v :: 'a::len word)) = unat v div 2 ^ n"
  unfolding unat_drop_bit_eq by (simp only: drop_bit_eq_div)

lemma fp_step_bit31: "\<not> bit (fp_step v b) 31"
proof -
  have "bit (push_bit 8 v OR ucast b) 31 \<longleftrightarrow> bit v 23"
    by (auto simp: bit_or_iff bit_push_bit_iff bit_ucast_iff dest: bit_imp_le_length)
  moreover have "odd (unat (drop_bit 23 v)) \<longleftrightarrow> bit v 23"
    by (simp only: bit_iff_odd_unat unat_shift_right)
  ultimately show ?thesis by (simp add: fp_step_def bit_xor_iff bit31_basis)
qed

lemma index_in_table: "\<not> bit v 31 \<Longrightarrow> unat (drop_bit 23 (v :: 32 word)) < 256"
proof -
  assume "\<not> bit v 31"
  then have "even (unat v div 2 ^ 31)" by (simp add: bit_iff_odd_unat)
  moreover have "unat v div 2 ^ 31 < 2"
    using unsigned_less[of v, where ?'a = nat] by (simp add: div_less_iff_less_mult)
  ultimately have "unat v div 2 ^ 31 = 0" by (auto simp: less_2_cases_iff)
  then have "unat v < 2 ^ 31" by (simp add: div_eq_0_iff)
  then show ?thesis unfolding unat_shift_right by (simp add: div_less_iff_less_mult)
qed

lemma rabin_update_ok: "\<not> bit v 31 \<Longrightarrow> rabin_update v b = Inr (fp_step v b)"
  using index_in_table[of v]
  by (simp add: rabin_update_def index_at_def table_nth fp_step_def)

lemma fp_from_bit31: "\<not> bit v 31 \<Longrightarrow> \<not> bit (fp_from v bs) 31"
  by (induction bs arbitrary: v) (simp_all add: fp_step_bit31)

lemma rabin_fold_ok: "\<not> bit v 31 \<Longrightarrow> rabin_fold v bs = Inr (fp_from v bs)"
  by (induction bs arbitrary: v) (simp_all add: rabin_update_ok fp_step_bit31)

lemma rabin_remove_ok: "rabin_remove v b = Inr (v XOR xor_basis U_basis (unat b))"
  by (simp add: rabin_remove_def index_at_def table_nth)

section \<open>Linearity and rolling\<close>

lemma fp_step_xor:
  "fp_step v b = push_bit 8 v XOR ucast b XOR xor_basis T_basis (unat (drop_bit 23 v))"
proof -
  have "push_bit 8 v OR ucast b = push_bit 8 v XOR (ucast b :: 32 word)"
    by (rule bit_word_eqI)
      (auto simp: bit_or_iff bit_xor_iff bit_push_bit_iff bit_ucast_iff dest: bit_imp_le_length)
  then show ?thesis by (simp add: fp_step_def xor.assoc)
qed

lemma fp_step_linear: "fp_step (v XOR w) (b XOR c) = fp_step v b XOR fp_step w c"
  by (simp add: fp_step_xor unsigned_xor_eq xor_basis_linear push_bit_xor drop_bit_xor
      xor.assoc xor.commute xor.left_commute)

lemma fp_step_0 [simp]: "fp_step 0 0 = 0"
  by (simp add: fp_step_def)

lemma fp_from_linear:
  "length xs = length ys \<Longrightarrow>
   fp_from (v XOR w) (map2 (XOR) xs ys) = fp_from v xs XOR fp_from w ys"
  by (induction xs ys arbitrary: v w rule: list_induct2) (simp_all add: fp_step_linear)

text \<open>The fingerprint of a byte followed by fifteen zeros is linear in the byte, so the eight bits
  decide it.\<close>

definition leaving :: "byte \<Rightarrow> 32 word" where
  "leaving b = fingerprint (b # replicate 15 0)"

lemma leaving_linear: "leaving (b XOR c) = leaving b XOR leaving c"
proof -
  have "map2 (XOR) (b # replicate 15 0) (c # replicate 15 0) = (b XOR c) # replicate 15 (0 :: byte)"
    by (simp add: numeral_eq_Suc)
  then show ?thesis
    using fp_from_linear[of "b # replicate 15 0" "c # replicate 15 0" 0 0] by (simp add: leaving_def)
qed

lemma leaving_unfold: "leaving b = fp_from (fp_step 0 b) [0, 0, 0, 0, 0, 0, 0, 0, 0, 0, 0, 0, 0, 0, 0]"
  by (simp add: leaving_def numeral_eq_Suc)

lemma leaving_bits:
  "leaving 0 = 0"
  "leaving 1 = 0x7eb5200d" "leaving 2 = 0x5633f4cb" "leaving 4 = 0x073e5d47" "leaving 8 = 0x0e7cba8e"
  "leaving 16 = 0x1cf9751c" "leaving 32 = 0x39f2ea38" "leaving 64 = 0x73e5d470"
  "leaving 128 = 0x4c921c31"
  by (simp_all add: leaving_unfold fp_step_def T_basis_def)

lemma byte_as_bits:
  "(b :: byte) = (if odd (unat b) then 1 else 0) XOR (if odd (unat b div 2) then 2 else 0) XOR
     (if odd (unat b div 4) then 4 else 0) XOR (if odd (unat b div 8) then 8 else 0) XOR
     (if odd (unat b div 16) then 16 else 0) XOR (if odd (unat b div 32) then 32 else 0) XOR
     (if odd (unat b div 64) then 64 else 0) XOR (if odd (unat b div 128) then 128 else 0)"
  (is "b = ?r")
proof (rule bit_word_eqI)
  fix n
  assume "n < LENGTH(8)"
  then have "n \<in> {0, 1, 2, 3, 4, 5, 6, 7}" by auto
  then show "bit b n = bit ?r n"
    by (elim insertE emptyE) (simp_all only: bit_xor_iff if_distrib[where f = "\<lambda>x. bit x _"], simp_all add: bit_iff_odd_unat)
qed

lemma leaving_eq_basis: "leaving b = xor_basis U_basis (unat b)"
proof -
  have if_leaving: "leaving (if P then c else 0) = (if P then leaving c else 0)" for P c
    by (simp add: leaving_bits)
  have "leaving b = (if odd (unat b) then 0x7eb5200d else 0) XOR (if odd (unat b div 2) then 0x5633f4cb else 0) XOR
     (if odd (unat b div 4) then 0x073e5d47 else 0) XOR (if odd (unat b div 8) then 0x0e7cba8e else 0) XOR
     (if odd (unat b div 16) then 0x1cf9751c else 0) XOR (if odd (unat b div 32) then 0x39f2ea38 else 0) XOR
     (if odd (unat b div 64) then 0x73e5d470 else 0) XOR (if odd (unat b div 128) then 0x4c921c31 else 0)"
    by (subst byte_as_bits) (simp only: leaving_linear if_leaving leaving_bits)
  also have "\<dots> = xor_basis U_basis (unat b)"
    by (simp only: U_basis_def xor_basis.simps xor.assoc) (simp add: div_mult2_eq[symmetric])
  finally show ?thesis .
qed

lemma map2_xor_zeros: "map2 (XOR) w (replicate (length w) 0) = (w :: bytes)"
  by (induction w) simp_all

lemma fingerprint_drop_first:
  assumes "length w = 15"
  shows "fingerprint (b # w) XOR leaving b = fingerprint w"
proof -
  have zeros: "map2 (XOR) (b # w) (b # replicate 15 0) = 0 # w"
    using map2_xor_zeros[of w] by (simp add: assms)
  have "fingerprint (b # w) XOR leaving b = fp_from (0 XOR 0) (map2 (XOR) (b # w) (b # replicate 15 0))"
    using assms by (subst fp_from_linear) (simp_all add: leaving_def)
  then show ?thesis unfolding zeros by simp
qed

text \<open>Rolling the hash: remove the oldest byte of a window of sixteen, add a new one.\<close>

lemma rabin_roll:
  assumes "length w = 15"
  shows "and_then (rabin_remove (fingerprint (b # w)) b) (\<lambda>v. rabin_update v c) =
         Inr (fingerprint (w @ [c]))"
  using fingerprint_drop_first[OF assms, of b]
  by (simp add: rabin_remove_ok rabin_update_ok fp_from_bit31 del: fp_from_simps flip: leaving_eq_basis) simp

section \<open>Properties\<close>

text \<open>C35: the rolling hash is sound.  Hashing any byte string from zero never leaves the lookup table,
  and removing the oldest byte of a 16-byte window through table \<open>U\<close> and adding the next byte gives
  exactly the fingerprint of the moved window.\<close>

theorem rolling_hash_correct:
  assumes "length window = 16"
  shows "rabin_fold 0 bs = Inr (fingerprint bs) \<and> \<not> bit (fingerprint bs) 31 \<and>
    and_then (rabin_fold 0 window) (\<lambda>v. and_then (rabin_remove v (hd window)) (\<lambda>v. rabin_update v c)) =
      rabin_fold 0 (tl window @ [c])"
proof -
  obtain b w where w: "window = b # w" "length w = 15" using assms by (cases window) auto
  have "rabin_fold 0 window = Inr (fingerprint (b # w))" by (simp add: w rabin_fold_ok del: rabin_fold.simps)
  then show ?thesis
    using rabin_roll[OF w(2), of b c] by (simp add: w(1) rabin_fold_ok fp_from_bit31 del: rabin_fold.simps)
qed

theorem rolling_hash_correct_witness:
  "and_then (rabin_fold 0 (replicate 16 7)) (\<lambda>v. and_then (rabin_remove v (hd (replicate 16 7)))
      (\<lambda>v. rabin_update v 9)) = rabin_fold 0 (tl (replicate 16 7) @ [9])"
  using rolling_hash_correct[of "replicate 16 7" "[]" 9] by (simp only: length_replicate)

end
