(* ===== verification/Rabin_Index.thy ===== *)
theory Rabin_Index
  imports Rabin_Tables "HOL-Library.While_Combinator" "HOL-Library.Sublist"
begin

text \<open>
  The Rabin index over a source buffer (\<open>src/src/delta/encode/rabin/mod.rs\<close>, index structures and
  index construction): one fingerprint per sixteen bytes, collected into hash buckets from the end
  of the source to its start, culled to 64 entries per bucket and packed into flat arrays.

  \<open>wf_index\<close> is what the encoder relies on: every bucket the mask can select lies inside the entry
  array and every entry points into the source.  \<open>create_delta_index_spec\<close> shows much more about the
  buckets that are built: each entry carries the fingerprint of the window that ends at its offset,
  sits in the bucket of its hash, and the offsets of a bucket descend strictly.
\<close>

section \<open>Model\<close>

definition HASH_LIMIT :: nat where [simp]:
  "HASH_LIMIT = 64"

record IndexEntry =
  ie_offset :: nat
  ie_hash :: "32 word"

record RabinDeltaIndex =
  source :: bytes
  entries :: "IndexEntry list"
  buckets :: "nat list"
  hash_mask :: nat

abbreviation IndexEntry_mk :: "nat \<Rightarrow> 32 word \<Rightarrow> IndexEntry" where
  "IndexEntry_mk off h \<equiv> \<lparr>ie_offset = off, ie_hash = h\<rparr>"

text \<open>\<open>while hsize < hsize_entries { hsize <<= 1; }\<close> from 16.\<close>

definition table_size :: "nat \<Rightarrow> nat" where
  "table_size hsize_entries = while (\<lambda>hsize. hsize < hsize_entries) (\<lambda>hsize. push_bit 1 hsize) 16"

text \<open>One round of the walk: the bucket lists and the previous fingerprint are its state.\<close>

definition index_window ::
  "bytes \<Rightarrow> nat \<Rightarrow> nat \<Rightarrow> IndexEntry list list \<times> 32 word \<Rightarrow>
   io_error + IndexEntry list list \<times> 32 word" where
  "index_window src hmask pos st =
     (let (bucket_lists, prev_val) = st;
          window_start = pos + 1;
          window_end = window_start + RABIN_WINDOW in
      if window_end > length src then Inr (bucket_lists, prev_val)
      else
        and_then (rabin_fold 0 (take RABIN_WINDOW (drop window_start src))) (\<lambda>val.
          let h = unat val AND hmask; off = take_bit 32 (pos + RABIN_WINDOW) in
          if val = prev_val then
            (if bucket_lists ! h \<noteq> [] then
               Inr (bucket_lists[h := butlast (bucket_lists ! h)
                                        @ [(last (bucket_lists ! h))\<lparr>ie_offset := off\<rparr>]], prev_val)
             else Inr (bucket_lists, prev_val))
          else Inr (bucket_lists[h := bucket_lists ! h @ [IndexEntry_mk off val]], val)))"

fun index_walk ::
  "bytes \<Rightarrow> nat \<Rightarrow> nat \<Rightarrow> IndexEntry list list \<times> 32 word \<Rightarrow>
   io_error + IndexEntry list list \<times> 32 word" where
  "index_walk src hmask pos st =
     and_then (index_window src hmask pos st) (\<lambda>st.
       if pos = 0 then Inr st else index_walk src hmask (pos - RABIN_WINDOW) st)"

declare index_walk.simps [simp del]

text \<open>\<open>cull_bucket\<close>: the loop over \<open>enumerate()\<close>.\<close>

fun cull_loop :: "nat \<Rightarrow> nat \<Rightarrow> 'a list \<Rightarrow> 'a list \<Rightarrow> 'a list" where
  "cull_loop tot idx kept [] = kept"
| "cull_loop tot idx kept (entry # rest) =
     (if length kept < HASH_LIMIT \<and> idx * HASH_LIMIT div tot = length kept
      then cull_loop tot (idx + 1) (kept @ [entry]) rest
      else cull_loop tot (idx + 1) kept rest)"

definition cull_bucket :: "'a list \<Rightarrow> 'a list" where
  "cull_bucket bucket = cull_loop (length bucket) 0 [] bucket"

definition limit_bucket :: "IndexEntry list \<Rightarrow> IndexEntry list" where
  "limit_bucket bucket = (if length bucket > HASH_LIMIT then cull_bucket bucket else bucket)"

fun pack_buckets ::
  "IndexEntry list list \<Rightarrow> IndexEntry list \<Rightarrow> nat list \<Rightarrow> IndexEntry list \<times> nat list" where
  "pack_buckets [] entries_vec starts = (entries_vec, starts @ [take_bit 32 (length entries_vec)])"
| "pack_buckets (bucket # rest) entries_vec starts =
     pack_buckets rest (entries_vec @ bucket) (starts @ [take_bit 32 (length entries_vec)])"

definition create_delta_index :: "bytes \<Rightarrow> io_error + RabinDeltaIndex option" where
  "create_delta_index src =
     (if length src = 0 then Inr None
      else
        let entries_count = (length src - 1) div RABIN_WINDOW in
        if entries_count = 0 then Inr None
        else
          let hsize = table_size (entries_count div 4);
              hmask = hsize - 1;
              pos = entries_count * RABIN_WINDOW - RABIN_WINDOW in
          and_then (index_walk src hmask pos (replicate hsize [], 0xffffffff))
            (\<lambda>(bucket_lists, _).
              let bucket_lists = map limit_bucket bucket_lists;
                  (entries_vec, starts) = pack_buckets bucket_lists [] [] in
              Inr (Some \<lparr>source = src, entries = entries_vec, buckets = starts,
                         hash_mask = take_bit 32 hmask\<rparr>)))"

text \<open>The slice of entries that the encoder scans for a hash value.\<close>

definition bucket_entries :: "RabinDeltaIndex \<Rightarrow> nat \<Rightarrow> io_error + IndexEntry list" where
  "bucket_entries index bi =
     and_then (index_at (buckets index) bi) (\<lambda>bucket_start.
     and_then (index_at (buckets index) (bi + 1)) (\<lambda>bucket_end.
       if bucket_start \<le> bucket_end \<and> bucket_end \<le> length (entries index)
       then Inr (take (bucket_end - bucket_start) (drop bucket_start (entries index)))
       else Inl (Panic ''range out of bounds'')))"

section \<open>Culling\<close>

lemma cull_loop_subseq: "subseq (cull_loop tot idx kept xs) (kept @ xs)"
proof (induction tot idx kept xs rule: cull_loop.induct)
  case (2 tot idx kept x xs)
  have "subseq (kept @ xs) (kept @ x # xs)" by (intro list_emb_append_mono) auto
  then show ?case using 2 by (auto intro: subseq_order.trans)
qed simp

lemma cull_bucket_subseq: "subseq (cull_bucket xs) xs"
  using cull_loop_subseq[of "length xs" 0 "[]" xs] by (simp add: cull_bucket_def)

text \<open>After \<open>idx\<close> entries the loop has kept \<open>\<lceil>idx * 64 / tot\<rceil>\<close> of them.\<close>

definition culled :: "nat \<Rightarrow> nat \<Rightarrow> nat" where
  "culled tot idx = (if idx = 0 then 0 else (idx - 1) * 64 div tot + 1)"

lemma culled_step:
  assumes "64 < tot" "idx < tot"
  shows "culled tot (Suc idx) =
      (if culled tot idx < 64 \<and> idx * 64 div tot = culled tot idx
       then Suc (culled tot idx) else culled tot idx)"
proof -
  have lt: "idx * 64 div tot < 64" using assms by (simp add: div_less_iff_less_mult)
  show ?thesis
  proof (cases "idx = 0")
    case True
    then show ?thesis using assms by (simp add: culled_def)
  next
    case False
    then have split: "idx * 64 = (idx - 1) * 64 + 64" by (simp add: algebra_simps)
    have lo: "(idx - 1) * 64 div tot \<le> idx * 64 div tot" by (simp add: div_le_mono)
    have "idx * 64 div tot \<le> ((idx - 1) * 64 + tot) div tot"
      using assms split by (intro div_le_mono) simp
    also have "\<dots> = (idx - 1) * 64 div tot + 1" using assms by (simp add: div_add_self2)
    finally show ?thesis using lo lt False by (auto simp: culled_def)
  qed
qed

lemma cull_loop_length:
  "64 < tot \<Longrightarrow> idx + length xs = tot \<Longrightarrow> length kept = culled tot idx \<Longrightarrow>
   length (cull_loop tot idx kept xs) = culled tot tot"
proof (induction tot idx kept xs rule: cull_loop.induct)
  case (2 tot idx kept x xs)
  have "idx < tot" using "2.prems" by simp
  note step = culled_step[OF "2.prems"(1) this]
  show ?case
    using 2 step by (simp split: if_splits)
qed simp

lemma cull_bucket_length: "64 < length xs \<Longrightarrow> length (cull_bucket xs) = 64"
proof -
  assume n: "64 < length xs"
  have "(length xs - 1) * 64 div length xs = 63"
    by (rule div_nat_eqI) (use n in \<open>simp_all add: algebra_simps\<close>)
  then have "culled (length xs) (length xs) = 64" using n by (auto simp: culled_def)
  then show ?thesis using cull_loop_length[OF n, of 0 xs "[]"] by (simp add: cull_bucket_def culled_def)
qed

section \<open>The size of the table\<close>

lemma table_size_power:
  "\<exists>k. table_size n = 2 ^ (k + 4)" "table_size n \<le> max 16 (2 * n)" "n \<le> table_size n"
proof -
  let ?P = "\<lambda>h :: nat. (\<exists>k. h = 2 ^ (k + 4)) \<and> h \<le> max 16 (2 * n)"
  have "?P (table_size n) \<and> n \<le> table_size n"
    unfolding table_size_def
  proof (rule while_rule[where P = ?P and r = "measure (\<lambda>h. n - h)"])
    show "?P 16" by (auto intro: exI[of _ 0])
    show "?P (push_bit 1 h)" if "?P h" "h < n" for h
    proof -
      from that obtain k where "h = 2 ^ (k + 4)" by blast
      then have "push_bit 1 h = 2 ^ (Suc k + 4)" by (simp only: push_bit_eq_mult add_Suc power_Suc) simp
      then show ?thesis using that(2) by (auto simp: push_bit_eq_mult)
    qed
    show "(push_bit 1 h, h) \<in> measure (\<lambda>h. n - h)" if "?P h" "h < n" for h
    proof -
      have "0 < h" using that(1) by auto
      then show ?thesis using that(2) by (simp add: push_bit_eq_mult diff_less_mono2)
    qed
  qed auto
  then show "\<exists>k. table_size n = 2 ^ (k + 4)" "table_size n \<le> max 16 (2 * n)" "n \<le> table_size n"
    by auto
qed

lemma and_mask_less: "a AND (2 ^ k - 1) < (2 ^ k :: nat)"
proof -
  have "(2 ^ k - 1 :: nat) = mask k" by (simp add: mask_eq_exp_minus_1)
  then have "a AND (2 ^ k - 1) = take_bit k a" by (simp only: take_bit_eq_mask)
  then show ?thesis by simp
qed

section \<open>The walk\<close>

definition window_at :: "bytes \<Rightarrow> nat \<Rightarrow> bytes" where
  "window_at src pos = take 16 (drop (pos + 1) src)"

definition entry_ok :: "bytes \<Rightarrow> nat \<Rightarrow> nat \<Rightarrow> IndexEntry \<Rightarrow> bool" where
  "entry_ok src hmask h e \<longleftrightarrow>
     (\<exists>pos. 16 dvd pos \<and> pos + 17 \<le> length src \<and> ie_offset e = pos + 16 \<and>
            ie_hash e = fingerprint (window_at src pos)) \<and>
     unat (ie_hash e) AND hmask = h"

abbreviation descending :: "IndexEntry list \<Rightarrow> bool" where
  "descending \<equiv> sorted_wrt (\<lambda>a b. ie_offset a > ie_offset b)"

definition bucket_ok :: "bytes \<Rightarrow> nat \<Rightarrow> nat \<Rightarrow> IndexEntry list \<Rightarrow> bool" where
  "bucket_ok src hmask h bucket \<longleftrightarrow> (\<forall>e \<in> set bucket. entry_ok src hmask h e) \<and> descending bucket"

definition walk_inv :: "bytes \<Rightarrow> nat \<Rightarrow> nat \<Rightarrow> IndexEntry list list \<times> 32 word \<Rightarrow> bool" where
  "walk_inv src hmask lo st \<longleftrightarrow>
     (case st of (bl, prev) \<Rightarrow>
        length bl = Suc hmask \<and>
        (\<forall>h < length bl. bucket_ok src hmask h (bl ! h) \<and> (\<forall>e \<in> set (bl ! h). lo \<le> ie_offset e)) \<and>
        (prev \<noteq> 0xffffffff \<longrightarrow>
           bl ! (unat prev AND hmask) \<noteq> [] \<and> ie_hash (last (bl ! (unat prev AND hmask))) = prev))"

lemma bucket_ok_push:
  assumes "bucket_ok src hmask h b" "\<forall>e \<in> set b. lo \<le> ie_offset e" "entry_ok src hmask h e" "ie_offset e < lo"
  shows "bucket_ok src hmask h (b @ [e])"
  using assms by (fastforce simp: bucket_ok_def sorted_wrt_append)

lemma bucket_ok_replace_last:
  assumes "bucket_ok src hmask h b" "b \<noteq> []" "\<forall>e \<in> set b. lo \<le> ie_offset e"
    "entry_ok src hmask h e" "ie_offset e < lo"
  shows "bucket_ok src hmask h (butlast b @ [e])"
proof -
  have "bucket_ok src hmask h (butlast b)"
    using assms(1,2) unfolding bucket_ok_def
    by (metis append_butlast_last_id in_set_butlastD sorted_wrt_append)
  then show ?thesis
    using assms(3-) by (intro bucket_ok_push[where lo = lo]) (auto dest: in_set_butlastD)
qed

lemma fingerprint_not_ones: "fingerprint bs \<noteq> 0xffffffff"
  using fp_from_bit31[of 0 bs] by auto

lemma index_window_inv:
  assumes inv: "walk_inv src hmask lo (bl, prev)" and mask: "hmask = 2 ^ k - 1"
    and pos: "16 dvd pos" "pos + 17 \<le> length src" "pos + 16 < lo" and len: "length src < 2 ^ 32"
  obtains st where "index_window src hmask pos (bl, prev) = Inr st" "walk_inv src hmask (pos + 16) st"
    "sum_list (map length (fst st)) \<le> Suc (sum_list (map length bl))"
proof -
  let ?v = "fingerprint (window_at src pos)"
  let ?h = "unat ?v AND hmask"
  have off: "take_bit 32 (pos + 16) = pos + 16" using pos(2) len by (simp add: take_bit_nat_eq_self)
  have fold: "rabin_fold 0 (take 16 (drop (pos + 1) src)) = Inr ?v"
    by (simp add: rabin_fold_ok window_at_def)
  have h: "?h < length bl"
    using inv and_mask_less[of "unat ?v" k] by (simp add: walk_inv_def mask)
  have bucket: "bucket_ok src hmask ?h (bl ! ?h)" "\<forall>e \<in> set (bl ! ?h). lo \<le> ie_offset e"
    using inv h by (simp_all add: walk_inv_def)
  have new: "entry_ok src hmask ?h (IndexEntry_mk (pos + 16) ?v)"
    using pos by (auto simp: entry_ok_def)
  show ?thesis
  proof (cases "?v = prev")
    case True
    then have last: "bl ! ?h \<noteq> []" "ie_hash (last (bl ! ?h)) = ?v"
      using inv fingerprint_not_ones[of "window_at src pos"] by (auto simp: walk_inv_def)
    let ?b = "butlast (bl ! ?h) @ [(last (bl ! ?h))\<lparr>ie_offset := pos + 16\<rparr>]"
    have e: "(last (bl ! ?h))\<lparr>ie_offset := pos + 16\<rparr> = IndexEntry_mk (pos + 16) ?v"
      using last(2) by simp
    have "bucket_ok src hmask ?h ?b"
      unfolding e using pos by (intro bucket_ok_replace_last[OF bucket(1) last(1) bucket(2) new]) simp
    moreover have "\<forall>x \<in> set ?b. pos + 16 \<le> ie_offset x"
      using bucket(2) pos(3) by (auto dest!: in_set_butlastD)
    ultimately have "walk_inv src hmask (pos + 16) (bl[?h := ?b], prev)"
      using inv h pos(3) True last by (fastforce simp: walk_inv_def nth_list_update)
    moreover have "index_window src hmask pos (bl, prev) = Inr (bl[?h := ?b], prev)"
      using True fold pos(2) last(1) off by (simp add: index_window_def Let_def)
    moreover have "sum_list (map length (bl[?h := ?b])) = sum_list (map length bl)"
    proof -
      have "(map length bl)[?h := length (bl ! ?h)] = map length bl"
        using h by (metis list_update_id length_map nth_map)
      then show ?thesis using last(1) by (simp add: map_update)
    qed
    ultimately show ?thesis using that by fastforce
  next
    case False
    let ?b = "bl ! ?h @ [IndexEntry_mk (pos + 16) ?v]"
    have "bucket_ok src hmask ?h ?b"
      using pos by (intro bucket_ok_push[OF bucket new]) simp
    moreover have "\<forall>x \<in> set ?b. pos + 16 \<le> ie_offset x" using bucket(2) pos(3) by auto
    ultimately have "walk_inv src hmask (pos + 16) (bl[?h := ?b], ?v)"
      using inv h pos(3) by (fastforce simp: walk_inv_def nth_list_update)
    moreover have "index_window src hmask pos (bl, prev) = Inr (bl[?h := ?b], ?v)"
      using False fold pos(2) off by (simp add: index_window_def Let_def)
    moreover have "sum_list (map length (bl[?h := ?b])) = Suc (sum_list (map length bl))"
    proof -
      have "length (bl ! ?h) \<le> sum_list (map length bl)"
        using h by (metis length_map member_le_sum_list nth_map nth_mem zero_le)
      then show ?thesis using h by (simp add: map_update sum_list_update)
    qed
    ultimately show ?thesis using that by fastforce
  qed
qed

lemma index_walk_inv:
  assumes mask: "hmask = 2 ^ k - 1" and len: "length src < 2 ^ 32"
  shows "walk_inv src hmask lo st \<Longrightarrow> 16 dvd pos \<Longrightarrow> pos + 17 \<le> length src \<Longrightarrow> pos + 16 < lo \<Longrightarrow>
    \<exists>st'. index_walk src hmask pos st = Inr st' \<and> walk_inv src hmask 16 st' \<and>
      sum_list (map length (fst st')) \<le> sum_list (map length (fst st)) + pos div 16 + 1"
proof (induction pos arbitrary: st lo rule: less_induct)
  case (less pos)
  obtain bl prev where st: "st = (bl, prev)" by fastforce
  obtain st1 where st1: "index_window src hmask pos st = Inr st1" "walk_inv src hmask (pos + 16) st1"
    "sum_list (map length (fst st1)) \<le> Suc (sum_list (map length bl))"
    using index_window_inv[OF less.prems(1)[unfolded st] mask less.prems(2-4) len] st by blast
  show ?case
  proof (cases "pos = 0")
    case True
    then show ?thesis using st1 st by (subst index_walk.simps) simp
  next
    case False
    then obtain q where q: "pos = 16 + q" "16 dvd q"
      using less.prems(2) by (metis dvd_def dvd_diff_nat dvd_imp_le dvd_refl le_Suc_ex not_gr_zero dvd_add_right_iff)
    then obtain st' where "index_walk src hmask q st1 = Inr st'" "walk_inv src hmask 16 st'"
      "sum_list (map length (fst st')) \<le> sum_list (map length (fst st1)) + q div 16 + 1"
      using less.IH[of q "pos + 16" st1] st1(2) less.prems(3) by auto
    then show ?thesis using st1 st q by (subst index_walk.simps) simp
  qed
qed

section \<open>Packing\<close>

lemma pack_buckets_eq:
  "pack_buckets bl es ss =
   (es @ concat bl, ss @ map (\<lambda>i. take_bit 32 (length es + length (concat (take i bl)))) [0..<Suc (length bl)])"
proof (induction bl arbitrary: es ss)
  case (Cons b bl)
  have "[0..<Suc (length (b # bl))] = 0 # map Suc [0..<Suc (length bl)]"
    by (subst upt_conv_Cons) (simp_all add: map_Suc_upt del: upt_Suc)
  then show ?case using Cons[of "es @ b" "ss @ [take_bit 32 (length es)]"]
    by (simp add: comp_def add.assoc del: upt_Suc)
qed simp

lemma concat_split:
  "i < length bl \<Longrightarrow> concat bl = concat (take i bl) @ bl ! i @ concat (drop (Suc i) bl)"
  by (metis concat.simps(2) concat_append id_take_nth_drop)

lemma concat_take_le: "length (concat (take i bl)) \<le> length (concat bl)"
  by (metis append_take_drop_id concat_append le_add1 length_append)

lemma bucket_entries_packed:
  assumes "entries index = concat bl" "i < length bl" "length (concat bl) < 2 ^ 32"
    "buckets index = map (\<lambda>i. take_bit 32 (length (concat (take i bl)))) [0..<Suc (length bl)]"
  shows "bucket_entries index i = Inr (bl ! i)"
proof -
  have start: "take_bit 32 (length (concat (take j bl))) = length (concat (take j bl))" for j
    using concat_take_le[of j bl] assms(3) by (intro take_bit_nat_eq_self) linarith
  have 1: "index_at (buckets index) i = Inr (length (concat (take i bl)))"
    using assms(2) by (simp add: index_at_def assms(4) start del: upt_Suc)
  have 2: "index_at (buckets index) (i + 1) = Inr (length (concat (take (Suc i) bl)))"
    using assms(2) by (simp add: index_at_def assms(4) start del: upt_Suc)
  have suc: "length (concat (take (Suc i) bl)) = length (concat (take i bl)) + length (bl ! i)"
    using assms(2) by (simp add: take_Suc_conv_app_nth)
  show ?thesis
    unfolding bucket_entries_def 1 2 assms(1) and_then_simps
    using concat_take_le[of "Suc i" bl] suc concat_split[OF assms(2)] by simp
qed

section \<open>The finished index\<close>

text \<open>What the encoder needs of an index, whoever built it.\<close>

definition wf_index :: "RabinDeltaIndex \<Rightarrow> bool" where
  "wf_index index \<longleftrightarrow>
     (\<forall>v :: 32 word. \<exists>bucket. bucket_entries index (unat v AND hash_mask index) = Inr bucket \<and>
        (\<forall>e \<in> set bucket. ie_offset e < length (source index)))"

lemma sorted_wrt_subseq: "subseq xs ys \<Longrightarrow> sorted_wrt R ys \<Longrightarrow> sorted_wrt R xs"
  by (induction rule: list_emb.induct) (auto dest: list_emb_set)

lemma bucket_ok_cull: "bucket_ok src hmask h b \<Longrightarrow> bucket_ok src hmask h (cull_bucket b)"
proof -
  assume "bucket_ok src hmask h b"
  moreover have "set (cull_bucket b) \<subseteq> set b"
    using cull_bucket_subseq[of b] by (auto elim: list_emb_set)
  ultimately show ?thesis
    using sorted_wrt_subseq[OF cull_bucket_subseq] unfolding bucket_ok_def by blast
qed

lemma limit_bucket_props:
  "length (limit_bucket b) \<le> 64" "length (limit_bucket b) \<le> length b"
  "bucket_ok src hmask h b \<Longrightarrow> bucket_ok src hmask h (limit_bucket b)"
  by (auto simp: limit_bucket_def cull_bucket_length bucket_ok_cull)

lemma create_delta_index_short: "length src \<le> 16 \<Longrightarrow> create_delta_index src = Inr None"
  by (auto simp: create_delta_index_def)

lemma create_delta_index_spec:
  assumes "17 \<le> length src" "length src < 2 ^ 32"
  obtains index k where "create_delta_index src = Inr (Some index)" "source index = src"
    "hash_mask index = 2 ^ k - 1"
    "\<And>h. h < 2 ^ k \<Longrightarrow> \<exists>bucket. bucket_entries index h = Inr bucket \<and>
       bucket_ok src (2 ^ k - 1) h bucket \<and> length bucket \<le> 64"
proof -
  let ?n = "(length src - 1) div 16"
  let ?pos = "?n * 16 - 16"
  have n: "0 < ?n" "?n * 16 \<le> length src - 1" using assms(1) by simp_all
  obtain k where k: "table_size (?n div 4) = 2 ^ k" using table_size_power(1) by blast
  have "table_size (?n div 4) \<le> max 16 (2 * (?n div 4))" by (rule table_size_power(2))
  moreover have "2 * (m div 4) \<le> m" for m :: nat by presburger
  ultimately have "table_size (?n div 4) \<le> max 16 ?n" by (meson le_trans max.mono order_refl)
  moreover have "?n < 2 ^ 32" using n(2) assms(2) by linarith
  ultimately have size: "table_size (?n div 4) < 2 ^ 32" by (simp only: max_def split: if_splits) simp
  have init: "walk_inv src (2 ^ k - 1) (length src) (replicate (2 ^ k) [], 0xffffffff)"
    by (simp add: walk_inv_def bucket_ok_def)
  have "?pos + 17 \<le> length src" "?pos + 16 < length src" using n assms(1) by linarith+
  then obtain bl prev where walk:
    "index_walk src (2 ^ k - 1) ?pos (replicate (2 ^ k) [], 0xffffffff) = Inr (bl, prev)"
    "walk_inv src (2 ^ k - 1) 16 (bl, prev)"
    "sum_list (map length bl) \<le> ?pos div 16 + 1"
    using index_walk_inv[OF refl assms(2) init, of ?pos]
    by (auto simp: map_replicate_const sum_list_replicate)
  let ?cl = "map limit_bucket bl"
  have len: "length bl = 2 ^ k" using walk(2) by (simp add: walk_inv_def)
  have "length (concat ?cl) \<le> sum_list (map length bl)"
    by (simp add: length_concat comp_def sum_list_mono limit_bucket_props(2))
  also have "\<dots> < 2 ^ 32" using walk(3) n assms(2) by simp
  finally have small: "length (concat ?cl) < 2 ^ 32" .
  define index where "index = \<lparr>source = src, entries = concat ?cl,
    buckets = map (\<lambda>i. take_bit 32 (length (concat (take i ?cl)))) [0..<Suc (length ?cl)],
    hash_mask = 2 ^ k - 1\<rparr>"
  have "take_bit 32 (2 ^ k - 1) = (2 ^ k - 1 :: nat)" using size k by (intro take_bit_nat_eq_self) linarith
  then have "create_delta_index src = Inr (Some index)"
    using n assms(1) walk(1) k
    by (auto simp: create_delta_index_def Let_def pack_buckets_eq index_def simp del: upt_Suc)
  moreover have "\<exists>bucket. bucket_entries index h = Inr bucket \<and>
       bucket_ok src (2 ^ k - 1) h bucket \<and> length bucket \<le> 64" if "h < 2 ^ k" for h
  proof -
    have "bucket_entries index h = Inr (?cl ! h)"
      using that len small by (intro bucket_entries_packed) (simp_all add: index_def)
    moreover have "bucket_ok src (2 ^ k - 1) h (?cl ! h)"
      using that len walk(2) by (simp add: walk_inv_def limit_bucket_props(3))
    ultimately show ?thesis using that len by (simp add: limit_bucket_props(1))
  qed
  ultimately show ?thesis using that[of index k] by (simp add: index_def)
qed

lemma create_delta_index_wf:
  assumes "create_delta_index src = Inr (Some index)" "length src < 2 ^ 32"
  shows "wf_index index \<and> source index = src"
proof -
  have "17 \<le> length src" using assms(1) create_delta_index_short[of src] by fastforce
  then show ?thesis
  proof (rule create_delta_index_spec[OF _ assms(2)])
    fix index' k
    assume "create_delta_index src = Inr (Some index')" "source index' = src" "hash_mask index' = 2 ^ k - 1"
      and "\<And>h. h < 2 ^ k \<Longrightarrow> \<exists>bucket. bucket_entries index' h = Inr bucket \<and>
       bucket_ok src (2 ^ k - 1) h bucket \<and> length bucket \<le> 64"
    moreover from this have "wf_index index'"
      unfolding wf_index_def using and_mask_less by (fastforce simp: bucket_ok_def entry_ok_def)
    ultimately show ?thesis using assms(1) by simp
  qed
qed

lemma create_delta_index_total: "length src < 2 ^ 32 \<Longrightarrow> \<exists>r. create_delta_index src = Inr r"
  by (cases "17 \<le> length src") (auto elim: create_delta_index_spec simp: create_delta_index_short)

lemma entry_ok_explicit:
  "entry_ok src hmask h e \<Longrightarrow> 16 \<le> ie_offset e \<and> ie_offset e < length src \<and>
     ie_hash e = fingerprint (take 16 (drop (ie_offset e - 15) src)) \<and> unat (ie_hash e) AND hmask = h"
  by (auto simp: entry_ok_def window_at_def)

section \<open>Properties\<close>

text \<open>culling keeps exactly 64 entries of an overfull bucket, in their original order.\<close>

theorem cull_bucket_exact:
  assumes "HASH_LIMIT < length bucket"
  shows "length (cull_bucket bucket) = HASH_LIMIT \<and> subseq (cull_bucket bucket) bucket"
  using assms by (simp add: cull_bucket_length cull_bucket_subseq)

theorem cull_bucket_exact_witness:
  "HASH_LIMIT < length [0..<100] \<and> length (cull_bucket [0..<100]) = HASH_LIMIT"
  using cull_bucket_exact[of "[0..<100]"] by simp

text \<open>C28: the index is correct.  A source of at most 16 bytes has no index; every longer source below
  4 GiB is indexed without a panic, and every bucket that a hash value can select lies inside the
  packed arrays, holds at most 64 entries in strictly descending offset order, and each entry points
  into the source, carries the fingerprint of the 16 bytes that end at its offset, and sits in the
  bucket of its hash.\<close>

theorem create_delta_index_correct:
  assumes "length src < 2 ^ 32"
  shows "(length src \<le> 16 \<longrightarrow> create_delta_index src = Inr None) \<and>
    (16 < length src \<longrightarrow> (\<exists>index. create_delta_index src = Inr (Some index) \<and> source index = src \<and>
       (\<forall>v :: 32 word. \<exists>bucket. bucket_entries index (unat v AND hash_mask index) = Inr bucket \<and>
          length bucket \<le> HASH_LIMIT \<and> descending bucket \<and>
          (\<forall>e \<in> set bucket. 16 \<le> ie_offset e \<and> ie_offset e < length src \<and>
             ie_hash e = fingerprint (take 16 (drop (ie_offset e - 15) src)) \<and>
             unat (ie_hash e) AND hash_mask index = unat v AND hash_mask index))))"
proof (intro conjI impI)
  show "create_delta_index src = Inr None" if "length src \<le> 16"
    using that by (rule create_delta_index_short)
  assume "16 < length src"
  then have "17 \<le> length src" by simp
  then obtain index k where idx: "create_delta_index src = Inr (Some index)" "source index = src"
    and mask: "hash_mask index = 2 ^ k - 1"
    and bucket: "\<And>h. h < 2 ^ k \<Longrightarrow> \<exists>bucket. bucket_entries index h = Inr bucket \<and>
       bucket_ok src (2 ^ k - 1) h bucket \<and> length bucket \<le> 64"
    using create_delta_index_spec[OF _ assms] by blast
  have "\<exists>bucket. bucket_entries index (unat v AND hash_mask index) = Inr bucket \<and>
          length bucket \<le> HASH_LIMIT \<and> descending bucket \<and>
          (\<forall>e \<in> set bucket. 16 \<le> ie_offset e \<and> ie_offset e < length src \<and>
             ie_hash e = fingerprint (take 16 (drop (ie_offset e - 15) src)) \<and>
             unat (ie_hash e) AND hash_mask index = unat v AND hash_mask index)" for v :: "32 word"
  proof -
    obtain b where "bucket_entries index (unat v AND (2 ^ k - 1)) = Inr b" "length b \<le> 64"
      and ok: "bucket_ok src (2 ^ k - 1) (unat v AND (2 ^ k - 1)) b"
      using bucket[OF and_mask_less[of "unat v" k]] by blast
    moreover have "\<forall>e \<in> set b. 16 \<le> ie_offset e \<and> ie_offset e < length src \<and>
        ie_hash e = fingerprint (take 16 (drop (ie_offset e - 15) src)) \<and>
        unat (ie_hash e) AND (2 ^ k - 1) = unat v AND (2 ^ k - 1)"
      using ok entry_ok_explicit unfolding bucket_ok_def by blast
    ultimately show ?thesis unfolding mask HASH_LIMIT_def using ok unfolding bucket_ok_def by blast
  qed
  then show "\<exists>index. create_delta_index src = Inr (Some index) \<and> source index = src \<and>
       (\<forall>v :: 32 word. \<exists>bucket. bucket_entries index (unat v AND hash_mask index) = Inr bucket \<and>
          length bucket \<le> HASH_LIMIT \<and> descending bucket \<and>
          (\<forall>e \<in> set bucket. 16 \<le> ie_offset e \<and> ie_offset e < length src \<and>
             ie_hash e = fingerprint (take 16 (drop (ie_offset e - 15) src)) \<and>
             unat (ie_hash e) AND hash_mask index = unat v AND hash_mask index))"
    using idx by blast
qed

theorem create_delta_index_correct_witness:
  "length (replicate 16 (1 :: byte)) < 2 ^ 32 \<and> create_delta_index (replicate 16 1) = Inr None \<and>
   (\<exists>index. create_delta_index (replicate 40 1) = Inr (Some index) \<and> source index = replicate 40 1)"
  using create_delta_index_correct[of "replicate 16 1"] create_delta_index_correct[of "replicate 40 1"]
  by auto

end
