(* ===== verification/Rust_Text.thy ===== *)
theory Rust_Text
  imports Prelude
begin

text \<open>
  The text operations of Rust's standard library that the code uses on wire data: ASCII literals
  (\<open>b"..."\<close>), decimal printing (\<open>to_string\<close>, \<open>format!\<close>) and parsing (\<open>str::parse::<usize>\<close>), and
  the messages of \<open>std::io::Error\<close>.
\<close>

section \<open>Literals and decimal numbers\<close>

definition byte_of_char :: "char \<Rightarrow> byte" where
  "byte_of_char c = word_of_nat (of_char c)"

definition char_of_byte :: "byte \<Rightarrow> char" where
  "char_of_byte b = char_of (unat b)"

text \<open>A byte string literal.  It is a constant of its own so that comparisons of literals are
  decided on the characters.\<close>

definition ascii :: "string \<Rightarrow> bytes" where
  "ascii s = map byte_of_char s"

abbreviation latin :: "bytes \<Rightarrow> string" where
  "latin \<equiv> map char_of_byte"

fun decimal :: "nat \<Rightarrow> bytes" where
  "decimal n = (if n < 10 then [word_of_nat (48 + n)]
                else decimal (n div 10) @ [word_of_nat (48 + n mod 10)])"

declare decimal.simps [simp del]

abbreviation decimal_string :: "nat \<Rightarrow> string" where
  "decimal_string n \<equiv> latin (decimal n)"

definition is_digit :: "byte \<Rightarrow> bool" where
  "is_digit b \<longleftrightarrow> 48 \<le> unat b \<and> unat b \<le> 57"

text \<open>\<open>usize::from_str\<close>: an optional plus sign, at least one digit, no overflow.  \<open>None\<close> is any
  \<open>ParseIntError\<close>.\<close>

fun parse_digits :: "nat \<Rightarrow> bytes \<Rightarrow> nat option" where
  "parse_digits acc [] = Some acc"
| "parse_digits acc (b # s) =
     (if is_digit b \<and> acc * 10 + (unat b - 48) \<le> usize_max
      then parse_digits (acc * 10 + (unat b - 48)) s else None)"

definition parse_usize :: "bytes \<Rightarrow> nat option" where
  "parse_usize s =
     (case s of
        [] \<Rightarrow> None
      | b # r \<Rightarrow>
          let digits = (if b = byte_of_char (CHR ''+'') \<and> r \<noteq> [] then r else s) in
          parse_digits 0 digits)"

text \<open>\<open>Display\<close> of the \<open>std::io\<close> errors.\<close>

fun io_error_string :: "io_error \<Rightarrow> string" where
  "io_error_string UnexpectedEof = ''failed to fill whole buffer''"
| "io_error_string (InvalidData m) = m"
| "io_error_string (Panic m) = m"

section \<open>Facts\<close>

lemma unat_byte_of_char [simp]: "unat (byte_of_char c) = of_char c"
  by (simp add: byte_of_char_def unat_of_nat_byte)

lemma char_of_byte_of_char [simp]: "char_of_byte (byte_of_char c) = c"
  by (simp add: char_of_byte_def)

lemma byte_of_char_of_byte [simp]: "byte_of_char (char_of_byte b) = b"
  by (simp add: byte_eq_iff char_of_byte_def)

lemma byte_of_char_eq_iff [simp]: "byte_of_char c = byte_of_char d \<longleftrightarrow> c = d"
  by (metis char_of_byte_of_char)

lemma ascii_eq_iff [simp]: "ascii s = ascii t \<longleftrightarrow> s = t"
  unfolding ascii_def by (metis (no_types, lifting) char_of_byte_of_char list.inj_map_strong)

lemma ascii_simps [simp]:
  "length (ascii s) = length s" "ascii s = [] \<longleftrightarrow> s = []" "[] = ascii s \<longleftrightarrow> s = []"
  "ascii [] = []" "set (ascii s) = byte_of_char ` set s" "latin (ascii s) = s"
  by (auto simp: ascii_def comp_def)

lemma ascii_append: "ascii (s @ t) = ascii s @ ascii t"
  by (simp add: ascii_def)

lemma ascii_Cons: "ascii (c # s) = byte_of_char c # ascii s"
  by (simp add: ascii_def)

lemma decimal_induct [case_names last more]:
  assumes "\<And>n. n < 10 \<Longrightarrow> P n"
    and "\<And>n. n \<ge> 10 \<Longrightarrow> P (n div 10) \<Longrightarrow> P n"
  shows "P (n :: nat)"
  by (induction n rule: less_induct) (metis assms div_less_dividend le_less_linear
      less_le_trans one_less_numeral_iff semiring_norm(76) zero_less_numeral)

lemma unat_digit: "d < 10 \<Longrightarrow> unat (word_of_nat (48 + d) :: byte) = 48 + d"
  by (rule unat_of_nat_byte_small) simp

lemma is_digit_digit: "d < 10 \<Longrightarrow> is_digit (word_of_nat (48 + d))"
  by (simp only: is_digit_def unat_digit) simp

lemma decimal_not_Nil [simp]: "decimal n \<noteq> []"
  by (subst decimal.simps) simp

lemma decimal_digits: "b \<in> set (decimal n) \<Longrightarrow> is_digit b"
proof (induction n rule: decimal_induct)
  case (last n)
  then show ?case by (subst (asm) decimal.simps) (simp only: if_True list.set, simp only: is_digit_digit singleton_iff)
next
  case (more n)
  then have "b \<in> set (decimal (n div 10)) \<or> b = word_of_nat (48 + n mod 10)"
    by (subst (asm) (2) decimal.simps) auto
  then show ?case using more is_digit_digit[of "n mod 10"] by auto
qed

lemma parse_digits_append:
  "parse_digits acc (xs @ ys) = Option.bind (parse_digits acc xs) (\<lambda>a. parse_digits a ys)"
  by (induction acc xs rule: parse_digits.induct) simp_all

lemma parse_digits_decimal: "n \<le> usize_max \<Longrightarrow> parse_digits 0 (decimal n) = Some n"
proof (induction n rule: decimal_induct)
  case (last n)
  then show ?case
    using is_digit_digit[of n] unat_digit[of n] by (subst decimal.simps) (simp del: of_nat_add)
next
  case (more n)
  have "parse_digits 0 (decimal (n div 10)) = Some (n div 10)"
    using more by (simp add: div_le_dividend le_trans)
  moreover have "n div 10 * 10 + n mod 10 = n" by simp
  ultimately show ?case
    using more(1,3) is_digit_digit[of "n mod 10"] unat_digit[of "n mod 10"]
    by (subst decimal.simps) (simp del: of_nat_add add: parse_digits_append)
qed

lemma parse_usize_decimal: "n \<le> usize_max \<Longrightarrow> parse_usize (decimal n) = Some n"
proof -
  assume n: "n \<le> usize_max"
  obtain b r where br: "decimal n = b # r" by (meson decimal_not_Nil neq_Nil_conv)
  then have "is_digit b" using decimal_digits[of b n] by simp
  then have "b \<noteq> byte_of_char (CHR ''+'')" by (auto simp: is_digit_def)
  then show ?thesis
    using parse_digits_decimal[OF n] by (simp add: parse_usize_def br)
qed

end
