(* ===== verification/Delta_Decode.thy ===== *)
theory Delta_Decode
  imports Varint Rust_Text
begin

text \<open>
  The delta decoder (\<open>src/src/delta/decode/mod.rs\<close>, \<open>src/src/delta/errors.rs\<close>): a base size and a
  result size, then literal and copy instructions, applied to a base buffer.

  \<open>delta_step\<close> is the body of the decoder's loop for one instruction byte and \<open>delta_decode_loop\<close>
  the loop.  The abstract counterpart is a list of \<open>instr\<close>uctions with their meaning
  \<open>instr_bytes\<close>; the decoder accepts a stream iff the stream spells a list of instructions that
  stay inside the base and produce exactly the declared number of bytes.
\<close>

section \<open>Model\<close>

datatype GitDeltaError =
    DeltaEncoderError string
  | DeltaDecoderError string

definition COPY_INSTRUCTION_FLAG :: byte where [simp]:
  "COPY_INSTRUCTION_FLAG = 0x80"

definition COPY_OFFSET_BYTES :: nat where [simp]:
  "COPY_OFFSET_BYTES = 4"

definition COPY_SIZE_BYTES :: nat where [simp]:
  "COPY_SIZE_BYTES = 3"

definition COPY_ZERO_SIZE :: nat where [simp]:
  "COPY_ZERO_SIZE = 0x10000"

definition decoder_error :: "string \<Rightarrow> GitDeltaError" where
  "decoder_error message = DeltaDecoderError message"

definition decoder_io_error :: "io_error \<Rightarrow> GitDeltaError" where
  "decoder_io_error err = decoder_error (io_error_string err)"

definition checked_add :: "nat \<Rightarrow> nat \<Rightarrow> nat option" where
  "checked_add a b = (if a + b \<le> usize_max then Some (a + b) else None)"

text \<open>\<open>slice::get(start..end)\<close>.\<close>

definition get_range :: "'a list \<Rightarrow> nat \<Rightarrow> nat \<Rightarrow> 'a list option" where
  "get_range xs from to =
     (if from \<le> to \<and> to \<le> length xs then Some (take (to - from) (drop from xs)) else None)"

text \<open>The reservation of memory itself always succeeds in the model.\<close>

definition prepare_result_append :: "bytes \<Rightarrow> nat \<Rightarrow> nat \<Rightarrow> GitDeltaError + unit" where
  "prepare_result_append buffer instruction_size result_size =
     and_then (ok_or (decoder_error ''result object size overflow'')
                 (checked_add (length buffer) instruction_size)) (\<lambda>new_size.
       if new_size > result_size
       then Inl (decoder_error (''result object exceeds declared size: expected ''
              @ decimal_string result_size @ '', got at least '' @ decimal_string new_size))
       else Inr ())"

definition delta_step ::
  "bytes \<Rightarrow> nat \<Rightarrow> bytes \<Rightarrow> byte \<Rightarrow> bytes \<Rightarrow> GitDeltaError + bytes \<times> bytes" where
  "delta_step base_info result_size buffer instruction stream =
     (if instruction AND COPY_INSTRUCTION_FLAG = 0 then
        (if instruction = 0 then Inl (decoder_error ''Invalid data instruction'')
         else
           and_then (map_err decoder_io_error (read_exact (unat instruction) stream))
             (\<lambda>(data, stream).
           and_then (prepare_result_append buffer (length data) result_size) (\<lambda>_.
             Inr (buffer @ data, stream))))
      else
        and_then (map_err decoder_io_error
            (read_partial_int COPY_OFFSET_BYTES instruction stream))
          (\<lambda>((offset, nonzero_bytes), stream).
        and_then (map_err decoder_io_error
            (read_partial_int COPY_SIZE_BYTES nonzero_bytes stream))
          (\<lambda>((sz, _), stream).
        let sz = (if sz = 0 then COPY_ZERO_SIZE else sz) in
        and_then (ok_or (decoder_error ''Invalid copy instruction'') (checked_add offset sz))
          (\<lambda>to.
        and_then (ok_or (decoder_error ''Invalid copy instruction'')
            (get_range base_info offset to))
          (\<lambda>base_data.
        and_then (prepare_result_append buffer (length base_data) result_size) (\<lambda>_.
          Inr (buffer @ base_data, stream)))))))"

lemma read_partial_int_loop_rest:
  "read_partial_int_loop k i p v s = Inr (x, r) \<Longrightarrow> \<exists>q. s = q @ r"
  by (induction k i p v s arbitrary: x rule: read_partial_int_loop.induct)
    (fastforce simp: and_then_eq_Inr_iff split: if_splits)+

lemma delta_step_rest:
  "delta_step base n buf b s = Inr (buf', s') \<Longrightarrow> \<exists>q. s = q @ s'"
  by (fastforce simp: delta_step_def Let_def and_then_eq_Inr_iff read_exact_eq_Inr_iff
      read_partial_int_def dest: read_partial_int_loop_rest split: if_splits)

lemma delta_step_shorter [termination_simp]:
  "delta_step base n buf b s = Inr (buf', s') \<Longrightarrow> length s' < Suc (length s)"
  using delta_step_rest by fastforce

fun delta_decode_loop :: "bytes \<Rightarrow> nat \<Rightarrow> bytes \<Rightarrow> bytes \<Rightarrow> GitDeltaError + bytes" where
  "delta_decode_loop base_info result_size buffer [] =
     (if length buffer \<noteq> result_size
      then Inl (decoder_error (''result object len is not equal: expected ''
             @ decimal_string result_size @ '', got '' @ decimal_string (length buffer)))
      else Inr buffer)"
| "delta_decode_loop base_info result_size buffer (instruction # stream) =
     and_then (delta_step base_info result_size buffer instruction stream)
       (\<lambda>(buffer, stream). delta_decode_loop base_info result_size buffer stream)"

definition delta_decode :: "bytes \<Rightarrow> bytes \<Rightarrow> GitDeltaError + bytes" where
  "delta_decode stream base_info =
     and_then (map_err decoder_io_error (read_size_encoding stream)) (\<lambda>(base_size, stream).
       if length base_info \<noteq> base_size
       then Inl (decoder_error ''base object len is not equal'')
       else
         and_then (map_err decoder_io_error (read_size_encoding stream))
           (\<lambda>(result_size, stream). delta_decode_loop base_info result_size [] stream))"

section \<open>Abstract instructions\<close>

datatype instr =
    Literal bytes
  | CopyRange nat nat

fun instr_bytes :: "bytes \<Rightarrow> instr \<Rightarrow> bytes" where
  "instr_bytes base (Literal d) = d"
| "instr_bytes base (CopyRange off n) = take n (drop off base)"

fun in_range :: "bytes \<Rightarrow> instr \<Rightarrow> bool" where
  "in_range base (Literal d) = True"
| "in_range base (CopyRange off n) = (off + n \<le> length base)"

definition apply_instrs :: "bytes \<Rightarrow> instr list \<Rightarrow> bytes" where
  "apply_instrs base is = concat (map (instr_bytes base) is)"

text \<open>The instruction that a stream starts with, once its first byte is read.\<close>

definition next_instr :: "byte \<Rightarrow> bytes \<Rightarrow> (instr \<times> bytes) option" where
  "next_instr b s =
     (if b AND 0x80 = 0 then
        (if b = 0 \<or> length s < unat b then None
         else Some (Literal (take (unat b) s), drop (unat b) s))
      else
        (case read_partial_int 4 b s of
           Inl _ \<Rightarrow> None
         | Inr ((off, nz), s1) \<Rightarrow>
             (case read_partial_int 3 nz s1 of
                Inl _ \<Rightarrow> None
              | Inr ((n, _), s2) \<Rightarrow> Some (CopyRange off (if n = 0 then 0x10000 else n), s2))))"

lemma next_instr_rest: "next_instr b s = Some (i, r) \<Longrightarrow> \<exists>q. s = q @ r"
proof (cases "b AND 0x80 = 0")
  case True
  then show "next_instr b s = Some (i, r) \<Longrightarrow> \<exists>q. s = q @ r"
    by (auto simp: next_instr_def split: if_splits) (metis append_take_drop_id)
next
  case False
  then show "next_instr b s = Some (i, r) \<Longrightarrow> \<exists>q. s = q @ r"
    by (auto simp: next_instr_def read_partial_int_def split: sum.splits)
      (metis append.assoc read_partial_int_loop_rest)+
qed

lemma next_instr_shorter [termination_simp]:
  "next_instr b s = Some (i, r) \<Longrightarrow> length r < Suc (length s)"
  using next_instr_rest by fastforce

fun parse_instrs :: "bytes \<Rightarrow> instr list option" where
  "parse_instrs [] = Some []"
| "parse_instrs (b # s) =
     Option.bind (next_instr b s) (\<lambda>(i, r). map_option ((#) i) (parse_instrs r))"

text \<open>\<open>delta_of old new out\<close>: \<open>out\<close> is a delta that turns \<open>old\<close> into \<open>new\<close>.\<close>

definition delta_body :: "bytes \<Rightarrow> bytes \<Rightarrow> bytes \<Rightarrow> bool" where
  "delta_body old new body \<longleftrightarrow>
     (\<exists>is. parse_instrs body = Some is \<and> list_all (in_range old) is \<and> apply_instrs old is = new)"

definition delta_of :: "bytes \<Rightarrow> bytes \<Rightarrow> bytes \<Rightarrow> bool" where
  "delta_of old new out \<longleftrightarrow>
     (\<exists>body. out = write_size_encoding (length old) @ write_size_encoding (length new) @ body \<and>
             delta_body old new body)"

section \<open>The decoder refines the instruction semantics\<close>

lemma apply_instrs_simps [simp]:
  "apply_instrs base [] = []"
  "apply_instrs base (i # is) = instr_bytes base i @ apply_instrs base is"
  "apply_instrs base (is @ js) = apply_instrs base is @ apply_instrs base js"
  by (simp_all add: apply_instrs_def)

lemma prepare_result_append_ok_iff:
  "prepare_result_append buf k n = Inr u \<longleftrightarrow> length buf + k \<le> usize_max \<and> length buf + k \<le> n"
  by (auto simp: prepare_result_append_def checked_add_def and_then_eq_Inr_iff)

lemma get_range_eq_Some_iff:
  "get_range xs a b = Some ys \<longleftrightarrow> a \<le> b \<and> b \<le> length xs \<and> ys = take (b - a) (drop a xs)"
  by (auto simp: get_range_def)

lemma delta_step_literal_iff:
  assumes "b AND 0x80 = 0" "n \<le> usize_max"
  shows "delta_step base n buf b s = Inr (buf', s') \<longleftrightarrow>
     (\<exists>i. next_instr b s = Some (i, s') \<and> in_range base i \<and>
          length buf + length (instr_bytes base i) \<le> n \<and> buf' = buf @ instr_bytes base i)"
  using assms
  by (auto simp: delta_step_def next_instr_def and_then_eq_Inr_iff prepare_result_append_ok_iff
      read_exact_eq_Inr_iff)

lemma delta_step_copy_iff:
  assumes "b AND 0x80 \<noteq> 0" "n \<le> usize_max" "length base \<le> usize_max"
  shows "delta_step base n buf b s = Inr (buf', s') \<longleftrightarrow>
     (\<exists>i. next_instr b s = Some (i, s') \<and> in_range base i \<and>
          length buf + length (instr_bytes base i) \<le> n \<and> buf' = buf @ instr_bytes base i)"
proof (cases "read_partial_int 4 b s")
  case (Inr x)
  then obtain off nz s1 where 4: "read_partial_int 4 b s = Inr ((off, nz), s1)" by (metis surj_pair)
  show ?thesis
  proof (cases "read_partial_int 3 nz s1")
    case (Inr y)
    then obtain k nz' s2 where 3: "read_partial_int 3 nz s1 = Inr ((k, nz'), s2)" by (metis surj_pair)
    define m where "m = (if k = 0 then 0x10000 else k)"
    have "next_instr b s = Some (CopyRange off m, s2)"
      using assms(1) 3 4 by (simp add: next_instr_def m_def)
    moreover have "delta_step base n buf b s = Inr (buf', s') \<longleftrightarrow>
        off + m \<le> length base \<and> length buf + m \<le> n \<and> buf' = buf @ take m (drop off base) \<and> s' = s2"
      using assms by (cases "k = 0") (auto simp: delta_step_def 3 4 and_then_eq_Inr_iff
          checked_add_def prepare_result_append_ok_iff get_range_eq_Some_iff m_def)
    ultimately show ?thesis by auto
  qed (use assms(1) 4 in \<open>simp add: delta_step_def next_instr_def\<close>)
qed (use assms(1) in \<open>simp add: delta_step_def next_instr_def\<close>)

lemma delta_step_iff:
  "n \<le> usize_max \<Longrightarrow> length base \<le> usize_max \<Longrightarrow>
   delta_step base n buf b s = Inr (buf', s') \<longleftrightarrow>
     (\<exists>i. next_instr b s = Some (i, s') \<and> in_range base i \<and>
          length buf + length (instr_bytes base i) \<le> n \<and> buf' = buf @ instr_bytes base i)"
  using delta_step_literal_iff delta_step_copy_iff by blast

lemma delta_decode_loop_iff:
  assumes "n \<le> usize_max" "length base \<le> usize_max"
  shows "delta_decode_loop base n buf s = Inr out \<longleftrightarrow>
     (\<exists>is. parse_instrs s = Some is \<and> list_all (in_range base) is \<and>
           out = buf @ apply_instrs base is \<and> length out = n)"
  using assms
proof (induction base n buf s rule: delta_decode_loop.induct)
  case (2 base n buf b s)
  show ?case (is "_ \<longleftrightarrow> ?spec")
  proof
    assume "delta_decode_loop base n buf (b # s) = Inr out"
    then obtain i r where i: "next_instr b s = Some (i, r)" "in_range base i"
      and st: "delta_step base n buf b s = Inr (buf @ instr_bytes base i, r)"
      and rec: "delta_decode_loop base n (buf @ instr_bytes base i) r = Inr out"
      using delta_step_iff[OF 2(2,3)] by (auto simp: and_then_eq_Inr_iff)
    from 2(1)[OF st refl 2(2,3)] rec obtain "is" where
      "parse_instrs r = Some is" "list_all (in_range base) is"
      "out = (buf @ instr_bytes base i) @ apply_instrs base is" "length out = n" by blast
    then show ?spec using i by (intro exI[of _ "i # is"]) simp
  next
    assume ?spec
    then obtain i r "is" where i: "next_instr b s = Some (i, r)" "in_range base i"
      and r: "parse_instrs r = Some is" "list_all (in_range base) is"
      and out: "out = buf @ instr_bytes base i @ apply_instrs base is" "length out = n"
      by (auto simp: bind_eq_Some_conv)
    then have st: "delta_step base n buf b s = Inr (buf @ instr_bytes base i, r)"
      using delta_step_iff[OF 2(2,3)] by simp
    from 2(1)[OF st refl 2(2,3)] r out
    have "delta_decode_loop base n (buf @ instr_bytes base i) r = Inr out" by simp
    then show "delta_decode_loop base n buf (b # s) = Inr out" using st by simp
  qed
qed auto

lemma delta_decode_iff:
  "delta_decode s base = Inr out \<longleftrightarrow>
     (\<exists>r body is. read_size_encoding s = Inr (length base, r) \<and>
        read_size_encoding r = Inr (length out, body) \<and> parse_instrs body = Some is \<and>
        list_all (in_range base) is \<and> out = apply_instrs base is)"
proof -
  have "delta_decode_loop base n [] body = Inr out \<longleftrightarrow>
     (\<exists>is. parse_instrs body = Some is \<and> list_all (in_range base) is \<and>
           out = apply_instrs base is \<and> length out = n)"
    if "read_size_encoding s = Inr (length base, r)" "read_size_encoding r = Inr (n, body)" for r n body
    using delta_decode_loop_iff[of n base "[]" body out]
      read_size_encoding_less[OF that(1)] read_size_encoding_less[OF that(2)] by auto
  then show ?thesis
    unfolding delta_decode_def by (auto simp: and_then_eq_Inr_iff split: if_splits)
qed

lemma delta_of_decode:
  "delta_of old new out \<Longrightarrow> length old < 2 ^ 64 \<Longrightarrow> length new < 2 ^ 64 \<Longrightarrow>
   delta_decode out old = Inr new"
  unfolding delta_of_def delta_body_def delta_decode_iff
  by (auto simp: delta_size.dec_enc)

section \<open>Properties\<close>

text \<open>C9: the delta decoder refines the instruction semantics.  It returns \<open>out\<close> if and only if the
  stream starts with the length of the base and the length of \<open>out\<close>, the rest spells a list of
  instructions, every copy stays inside the base, and \<open>out\<close> is the concatenation of what the
  instructions produce.  In every other case it returns an error; it never reads outside the base
  and never returns a result of another length than declared.\<close>

theorem delta_decode_refines_instructions:
  "delta_decode s base = Inr out \<longleftrightarrow>
     (\<exists>r body is. read_size_encoding s = Inr (length base, r) \<and>
        read_size_encoding r = Inr (length out, body) \<and> parse_instrs body = Some is \<and>
        list_all (in_range base) is \<and> out = apply_instrs base is)"
  by (rule delta_decode_iff)

text \<open>the rejected streams.  An instruction byte of zero, a literal longer than the rest of the
  stream, a copy that ends behind the base, and an instruction that would exceed the declared
  result size are each reported as an error of the decoder, whatever follows them.\<close>

theorem delta_decode_loop_rejects:
  assumes "n \<le> usize_max" "length base \<le> usize_max"
  shows "delta_decode_loop base n buf (0 # s) = Inl (decoder_error ''Invalid data instruction'') \<and>
    (0 < unat b \<and> unat b < 128 \<and> length s < unat b \<longrightarrow>
       delta_decode_loop base n buf (b # s) = Inl (decoder_error ''failed to fill whole buffer'')) \<and>
    (\<forall>off k r. next_instr b s = Some (CopyRange off k, r) \<and> length base < off + k \<longrightarrow>
       delta_decode_loop base n buf (b # s) = Inl (decoder_error ''Invalid copy instruction'')) \<and>
    (\<forall>i r. next_instr b s = Some (i, r) \<and> in_range base i \<and>
       n < length buf + length (instr_bytes base i) \<longrightarrow> \<not> is_ok (delta_decode_loop base n buf (b # s)))"
proof (intro conjI allI impI; (elim conjE)?)
  show "delta_decode_loop base n buf (0 # s) = Inl (decoder_error ''Invalid data instruction'')"
    by (simp add: delta_step_def)
  show "delta_decode_loop base n buf (b # s) = Inl (decoder_error ''failed to fill whole buffer'')"
    if "0 < unat b" "unat b < 128" "length s < unat b"
    using that by (auto simp: delta_step_def and_0x80_eq_0_iff read_exact_def decoder_io_error_def)
  show "delta_decode_loop base n buf (b # s) = Inl (decoder_error ''Invalid copy instruction'')"
    if i: "next_instr b s = Some (CopyRange off k, r)" and far: "length base < off + k" for off k r
  proof -
    have flag: "b AND 0x80 \<noteq> 0" using i by (auto simp: next_instr_def split: if_splits)
    then obtain nz s1 k0 nz' where "read_partial_int 4 b s = Inr ((off, nz), s1)"
      "read_partial_int 3 nz s1 = Inr ((k0, nz'), r)" "k = (if k0 = 0 then 0x10000 else k0)"
      using i by (auto simp: next_instr_def split: sum.splits)
    then show ?thesis
      using flag far by (auto simp: delta_step_def Let_def checked_add_def get_range_def)
  qed
  show "\<not> is_ok (delta_decode_loop base n buf (b # s))"
    if "next_instr b s = Some (i, r)" "in_range base i" "n < length buf + length (instr_bytes base i)"
    for i r
    using that delta_step_iff[OF assms, of buf b s] by (auto simp: is_ok_iff and_then_eq_Inr_iff)
qed

lemma read_partial_int_unfold:
  "read_partial_int 4 p s = read_partial_int_loop (Suc (Suc (Suc (Suc 0)))) 0 p 0 s"
  "read_partial_int 3 p s = read_partial_int_loop (Suc (Suc (Suc 0))) 0 p 0 s"
  by (simp_all add: read_partial_int_def numeral_eq_Suc)

theorem delta_decode_loop_rejects_witness:
  "delta_decode_loop [7] 5 [] (3 # [1]) = Inl (decoder_error ''failed to fill whole buffer'') \<and>
   delta_decode_loop [7] 5 [] (0x91 # [4, 2]) = Inl (decoder_error ''Invalid copy instruction'') \<and>
   \<not> is_ok (delta_decode_loop [7] 1 [9] (0x90 # [1]))"
proof -
  have 1: "next_instr 0x91 [4, 2] = Some (CopyRange 4 2, [])"
    by (simp add: next_instr_def read_partial_int_unfold)
  have 2: "next_instr 0x90 [1] = Some (CopyRange 0 1, [])"
    by (simp add: next_instr_def read_partial_int_unfold)
  show ?thesis
    using delta_decode_loop_rejects[of 5 "[7]" "[]" "[1]" 3]
      delta_decode_loop_rejects[of 5 "[7]" "[]" "[4, 2]" "0x91"]
      delta_decode_loop_rejects[of 1 "[7]" "[9]" "[1]" "0x90"] 1 2
    by (simp del: delta_decode_loop.simps)
qed

end
