(* ===== verification/Rabin_Match.thy ===== *)
theory Rabin_Match
  imports Delta_Decode
begin

text \<open>
  Match extension (\<open>src/src/delta/encode/rabin/extend_match.rs\<close>): how many bytes agree from two
  positions on.  The routine compares eight bytes at a time as 64-bit words (little-endian, as on
  the platforms the comment names) and finds the first different byte of a word by counting
  trailing zeros of the XOR; the reference routine of the file's tests compares byte by byte.
  Both compute the length of the longest common prefix of the two tails.
\<close>

section \<open>Model\<close>

text \<open>\<open>usize::from_ne_bytes\<close> on a little-endian machine.\<close>

fun word_of_bytes :: "bytes \<Rightarrow> 64 word" where
  "word_of_bytes [] = 0"
| "word_of_bytes (b # bs) = ucast b OR push_bit 8 (word_of_bytes bs)"

definition trailing_zeros :: "64 word \<Rightarrow> nat" where
  "trailing_zeros w = length (takeWhile (\<lambda>i. \<not> bit w i) [0..<64])"

definition first_different_byte :: "64 word \<Rightarrow> nat" where
  "first_different_byte diff = trailing_zeros diff div 8"

definition WORD_SIZE :: nat where [simp]:
  "WORD_SIZE = 8"

function extend_tail :: "bytes \<Rightarrow> bytes \<Rightarrow> nat \<Rightarrow> nat \<Rightarrow> nat" where
  "extend_tail src_tail tgt_tail mx i =
     (if i < mx then
        (if src_tail ! i \<noteq> tgt_tail ! i then i else extend_tail src_tail tgt_tail mx (i + 1))
      else mx)"
  by pat_completeness auto
termination by (relation "measure (\<lambda>(_, _, mx, i). mx - i)") auto

function extend_words :: "bytes \<Rightarrow> bytes \<Rightarrow> nat \<Rightarrow> nat \<Rightarrow> nat" where
  "extend_words src_tail tgt_tail mx i =
     (if i + WORD_SIZE \<le> mx then
        (let src_word = word_of_bytes (take WORD_SIZE (drop i src_tail));
             tgt_word = word_of_bytes (take WORD_SIZE (drop i tgt_tail));
             diff = src_word XOR tgt_word in
         if diff \<noteq> 0 then i + first_different_byte diff
         else extend_words src_tail tgt_tail mx (i + WORD_SIZE))
      else extend_tail src_tail tgt_tail mx i)"
  by pat_completeness auto
termination by (relation "measure (\<lambda>(_, _, mx, i). mx - i)") auto

declare extend_tail.simps [simp del] extend_words.simps [simp del]

definition extend_match :: "bytes \<Rightarrow> bytes \<Rightarrow> nat \<Rightarrow> nat \<Rightarrow> nat \<Rightarrow> nat" where
  "extend_match src_data target ref_start data_pos max_match =
     (if ref_start > length src_data then 0
      else if data_pos > length target then 0
      else
        (let src_tail = drop ref_start src_data;
             tgt_tail = drop data_pos target;
             mx = min (min max_match (length src_tail)) (length tgt_tail) in
         extend_words src_tail tgt_tail mx 0))"

function extend_match_reference_loop :: "bytes \<Rightarrow> bytes \<Rightarrow> nat \<Rightarrow> nat \<Rightarrow> nat \<Rightarrow> nat \<Rightarrow> nat" where
  "extend_match_reference_loop src_data target ref_start data_pos max_match i =
     (if i < max_match then
        (if ref_start + i < length src_data \<and> data_pos + i < length target \<and>
            src_data ! (ref_start + i) = target ! (data_pos + i)
         then extend_match_reference_loop src_data target ref_start data_pos max_match (i + 1)
         else i)
      else i)"
  by pat_completeness auto
termination by (relation "measure (\<lambda>(_, _, _, _, mx, i). mx - i)") auto

declare extend_match_reference_loop.simps [simp del]

definition extend_match_reference :: "bytes \<Rightarrow> bytes \<Rightarrow> nat \<Rightarrow> nat \<Rightarrow> nat \<Rightarrow> nat" where
  "extend_match_reference src_data target ref_start data_pos max_match =
     extend_match_reference_loop src_data target ref_start data_pos max_match 0"

section \<open>Words and bytes\<close>

lemma bit_word_of_bytes:
  "n < 8 * length bs \<Longrightarrow> length bs \<le> 8 \<Longrightarrow> bit (word_of_bytes bs) n \<longleftrightarrow> bit (bs ! (n div 8)) (n mod 8)"
proof (induction bs arbitrary: n)
  case (Cons b bs)
  show ?case
  proof (cases "n < 8")
    case True
    then show ?thesis by (auto simp: bit_or_iff bit_push_bit_iff bit_ucast_iff)
  next
    case False
    then have n: "n - 8 < 8 * length bs" "length bs \<le> 8" "n < 64" using Cons.prems by auto
    have idx: "n div 8 = Suc ((n - 8) div 8)" "(n - 8) mod 8 = n mod 8"
      using False by (simp_all add: le_div_geq le_mod_geq)
    have "bit (word_of_bytes (b # bs)) n \<longleftrightarrow> bit (word_of_bytes bs) (n - 8)"
      using False n(3) by (auto simp: bit_or_iff bit_push_bit_iff bit_ucast_iff dest: bit_imp_le_length)
    then show ?thesis using Cons.IH[OF n(1,2)] idx by simp
  qed
qed simp

lemma byte_eq_bits: "(a :: byte) = b \<longleftrightarrow> (\<forall>k < 8. bit a k = bit b k)"
  by (auto simp: bit_eq_iff intro: bit_word_eqI)

lemma bit_diff:
  assumes "length xs = 8" "length ys = 8" "n < 64"
  shows "bit (word_of_bytes xs XOR word_of_bytes ys) n \<longleftrightarrow>
         bit (xs ! (n div 8)) (n mod 8) \<noteq> bit (ys ! (n div 8)) (n mod 8)"
  using assms by (simp add: bit_xor_iff bit_word_of_bytes)

lemma diff_eq_0_iff:
  assumes "length xs = 8" "length ys = 8"
  shows "word_of_bytes xs XOR word_of_bytes ys = 0 \<longleftrightarrow> xs = ys"
proof
  assume z: "word_of_bytes xs XOR word_of_bytes ys = 0"
  have "xs ! j = ys ! j" if "j < 8" for j
  proof -
    have "bit (xs ! j) k = bit (ys ! j) k" if "k < 8" for k
      using bit_diff[OF assms, of "8 * j + k"] z \<open>j < 8\<close> that by simp
    then show ?thesis by (simp add: byte_eq_bits)
  qed
  then show "xs = ys" using assms by (simp add: list_eq_iff_nth_eq)
qed simp

lemma trailing_zeros_spec:
  assumes "w \<noteq> 0"
  shows "trailing_zeros w < 64" "bit w (trailing_zeros w)" "\<And>i. i < trailing_zeros w \<Longrightarrow> \<not> bit w i"
proof -
  let ?z = "trailing_zeros w"
  obtain n where n: "n < 64" "bit w n"
  proof -
    have "\<exists>n < 64. bit w n"
      using assms bit_word_eqI[of w 0] by auto
    then show ?thesis using that by blast
  qed
  have lt: "length (takeWhile (\<lambda>i. \<not> bit w i) [0..<64]) < length [0..<64]"
  proof (rule ccontr)
    assume "\<not> ?thesis"
    then have "takeWhile (\<lambda>i. \<not> bit w i) [0..<64] = [0..<64]"
      by (metis length_takeWhile_le le_antisym not_less takeWhile_eq_take take_all_iff)
    then show False using n by (simp add: takeWhile_eq_all_conv)
  qed
  then show "?z < 64" by (simp add: trailing_zeros_def)
  then show "bit w ?z"
    using nth_length_takeWhile[OF lt] by (simp add: trailing_zeros_def)
  show "\<not> bit w i" if "i < ?z" for i
    using that set_takeWhileD[of "takeWhile (\<lambda>i. \<not> bit w i) [0..<64] ! i" "\<lambda>i. \<not> bit w i"]
      takeWhile_nth[of i "\<lambda>i. \<not> bit w i" "[0..<64]"] \<open>?z < 64\<close>
    by (metis (no_types, lifting) add_0 less_trans nth_mem nth_upt trailing_zeros_def)
qed

lemma first_different_byte_spec:
  assumes "length xs = 8" "length ys = 8" "xs \<noteq> ys"
  defines "k \<equiv> first_different_byte (word_of_bytes xs XOR word_of_bytes ys)"
  shows "k < 8" "xs ! k \<noteq> ys ! k" "take k xs = take k ys"
proof -
  let ?d = "word_of_bytes xs XOR word_of_bytes ys" and ?z = "trailing_zeros (word_of_bytes xs XOR word_of_bytes ys)"
  have d: "?d \<noteq> 0" using assms diff_eq_0_iff by blast
  note z = trailing_zeros_spec[OF d]
  show k: "k < 8" using z(1) by (simp add: k_def first_different_byte_def div_less_iff_less_mult)
  show "xs ! k \<noteq> ys ! k"
    using bit_diff[OF assms(1,2) z(1)] z(2) by (auto simp: k_def first_different_byte_def)
  have "xs ! j = ys ! j" if "j < k" for j
  proof -
    have "bit (xs ! j) m = bit (ys ! j) m" if "m < 8" for m
    proof -
      have "8 * j + m < 8 * k" using \<open>j < k\<close> that by simp
      also have "8 * k \<le> ?z" by (simp add: k_def first_different_byte_def)
      finally have "8 * j + m < ?z" .
      then show ?thesis using bit_diff[OF assms(1,2), of "8 * j + m"] z(1,3) that by simp
    qed
    then show ?thesis by (simp add: byte_eq_bits)
  qed
  then show "take k xs = take k ys"
    using assms k by (intro nth_take_lemma) auto
qed

section \<open>The length of the common prefix\<close>

text \<open>\<open>n\<close> is how far \<open>xs\<close> and \<open>ys\<close> agree, looking at no more than \<open>mx\<close> bytes.\<close>

definition agrees :: "bytes \<Rightarrow> bytes \<Rightarrow> nat \<Rightarrow> nat \<Rightarrow> bool" where
  "agrees xs ys mx n \<longleftrightarrow> n \<le> mx \<and> mx \<le> length xs \<and> mx \<le> length ys \<and> take n xs = take n ys \<and>
     (n < mx \<longrightarrow> xs ! n \<noteq> ys ! n)"

lemma agrees_unique: "agrees xs ys mx m \<Longrightarrow> agrees xs ys mx n \<Longrightarrow> m = n"
proof -
  have "m \<ge> n" if "agrees xs ys mx m" "agrees xs ys mx n" for m n
  proof (rule ccontr)
    assume "\<not> m \<ge> n"
    then have "m < n" by simp
    then have "xs ! m = ys ! m" using that(2) unfolding agrees_def by (metis nth_take)
    then show False using that \<open>m < n\<close> by (simp add: agrees_def)
  qed
  then show "agrees xs ys mx m \<Longrightarrow> agrees xs ys mx n \<Longrightarrow> m = n" by (simp add: le_antisym)
qed

lemma take_Suc_eq: "take i xs = take i ys \<Longrightarrow> i < length xs \<Longrightarrow> i < length ys \<Longrightarrow> xs ! i = ys ! i \<Longrightarrow>
   take (Suc i) xs = take (Suc i) ys"
  by (simp add: take_Suc_conv_app_nth)

lemma extend_tail_agrees:
  "take i xs = take i ys \<Longrightarrow> i \<le> mx \<Longrightarrow> mx \<le> length xs \<Longrightarrow> mx \<le> length ys \<Longrightarrow>
   agrees xs ys mx (extend_tail xs ys mx i)"
proof (induction xs ys mx i rule: extend_tail.induct)
  case (1 xs ys mx i)
  show ?case
  proof (cases "i < mx \<and> xs ! i = ys ! i")
    case True
    then have "agrees xs ys mx (extend_tail xs ys mx (i + 1))"
      using 1 take_Suc_eq[of i xs ys] by simp
    then show ?thesis using True by (subst extend_tail.simps) simp
  next
    case False
    then show ?thesis using 1(2-) by (subst extend_tail.simps) (auto simp: agrees_def)
  qed
qed

lemma extend_words_agrees:
  "take i xs = take i ys \<Longrightarrow> i \<le> mx \<Longrightarrow> mx \<le> length xs \<Longrightarrow> mx \<le> length ys \<Longrightarrow>
   agrees xs ys mx (extend_words xs ys mx i)"
proof (induction xs ys mx i rule: extend_words.induct)
  case (1 xs ys mx i)
  let ?x = "take 8 (drop i xs)" and ?y = "take 8 (drop i ys)"
  show ?case
  proof (cases "i + 8 \<le> mx")
    case True
    then have len: "length ?x = 8" "length ?y = 8" using 1(4,5) by simp_all
    note zero = diff_eq_0_iff[OF len]
    show ?thesis
    proof (cases "?x = ?y")
      case eq: True
      then have "take (i + 8) xs = take (i + 8) ys" using 1(2) by (simp add: take_add)
      then have "agrees xs ys mx (extend_words xs ys mx (i + 8))"
        using 1(1,4,5) True zero eq by simp
      then show ?thesis using True zero eq by (subst extend_words.simps) simp
    next
      case ne: False
      let ?k = "first_different_byte (word_of_bytes ?x XOR word_of_bytes ?y)"
      note k = first_different_byte_spec[OF len ne]
      have "take (i + ?k) xs = take (i + ?k) ys"
        using 1(2) k(1,3) by (simp add: take_add min_def)
      moreover have "xs ! (i + ?k) \<noteq> ys ! (i + ?k)" "i + ?k \<le> mx"
        using k(1,2) True 1(4,5) by (simp_all add: nth_drop)
      ultimately show ?thesis
        using True zero ne 1(4,5) by (subst extend_words.simps) (simp add: agrees_def Let_def)
    qed
  next
    case False
    then show ?thesis
      using extend_tail_agrees[OF 1(2-5)] by (subst extend_words.simps) simp
  qed
qed

lemma extend_match_agrees:
  assumes "r \<le> length src" "d \<le> length tgt"
  shows "agrees (drop r src) (drop d tgt) (min (min m (length src - r)) (length tgt - d))
           (extend_match src tgt r d m)"
  using assms by (simp add: extend_match_def Let_def extend_words_agrees)

lemma extend_match_prefix:
  assumes "r \<le> length src" "d \<le> length tgt"
  shows "take (extend_match src tgt r d m) (drop r src) = take (extend_match src tgt r d m) (drop d tgt)"
    "extend_match src tgt r d m \<le> m" "r + extend_match src tgt r d m \<le> length src"
    "d + extend_match src tgt r d m \<le> length tgt"
  using extend_match_agrees[OF assms, of m] assms by (auto simp: agrees_def)

lemma extend_match_reference_loop_agrees:
  fixes m :: nat
  assumes "r \<le> length src" "d \<le> length tgt"
  defines "mx \<equiv> min (min m (length src - r)) (length tgt - d)"
  shows "take i (drop r src) = take i (drop d tgt) \<Longrightarrow> i \<le> mx \<Longrightarrow>
    agrees (drop r src) (drop d tgt) mx (extend_match_reference_loop src tgt r d m i)"
proof (induction "mx - i" arbitrary: i)
  case 0
  then have "i = mx" by simp
  then have "\<not> (i < m \<and> r + i < length src \<and> d + i < length tgt)" unfolding mx_def by linarith
  then have "extend_match_reference_loop src tgt r d m i = i"
    by (subst extend_match_reference_loop.simps) auto
  moreover have "mx \<le> length (drop r src)" "mx \<le> length (drop d tgt)" by (simp_all add: mx_def)
  ultimately show ?case using 0(2) \<open>i = mx\<close> by (simp only: agrees_def order_refl less_irrefl simp_thms)
next
  case (Suc k)
  then have i: "i < mx" by simp
  then have b: "i < m" "r + i < length src" "d + i < length tgt" unfolding mx_def by auto
  show ?case
  proof (cases "src ! (r + i) = tgt ! (d + i)")
    case True
    have "take (Suc i) (drop r src) = take (Suc i) (drop d tgt)"
      using Suc(3) b True by (intro take_Suc_eq) (simp_all add: nth_drop)
    then have "agrees (drop r src) (drop d tgt) mx (extend_match_reference_loop src tgt r d m (Suc i))"
      using Suc(1)[of "Suc i"] Suc(2) i by simp
    then show ?thesis using True b by (subst extend_match_reference_loop.simps) simp
  next
    case False
    then have "extend_match_reference_loop src tgt r d m i = i"
      by (subst extend_match_reference_loop.simps) auto
    moreover have "mx \<le> length (drop r src)" "mx \<le> length (drop d tgt)" by (simp_all add: mx_def)
    ultimately show ?thesis using False Suc(3) i b by (simp add: agrees_def)
  qed
qed

section \<open>Properties\<close>

text \<open>C34: match extension by words equals the byte-by-byte reference.  For all buffers and all
  arguments, positions behind the end of a buffer included, \<open>extend_match\<close> returns what the
  reference routine returns.\<close>

theorem extend_match_eq_reference:
  "extend_match src tgt r d m = extend_match_reference src tgt r d m"
proof (cases "r \<le> length src \<and> d \<le> length tgt")
  case True
  then have "agrees (drop r src) (drop d tgt) (min (min m (length src - r)) (length tgt - d))
      (extend_match_reference src tgt r d m)"
    unfolding extend_match_reference_def by (intro extend_match_reference_loop_agrees) auto
  then show ?thesis using True extend_match_agrees agrees_unique by blast
next
  case False
  then have "extend_match_reference src tgt r d m = 0"
    unfolding extend_match_reference_def by (subst extend_match_reference_loop.simps) auto
  then show ?thesis using False by (auto simp: extend_match_def)
qed

end
