(* ===== verification/Delta_Instr.thy ===== *)
theory Delta_Instr
  imports Delta_Decode
begin

text \<open>
  Writing delta instructions: the copy opcode with its optional offset and size bytes (the byte
  loops of \<open>DeltaDiff::encode_op\<close> and of \<open>push_copy_op\<close>) and the lemmas that relate written
  instructions to the instructions the decoder sees.  The locale \<open>delta_encoder\<close> is the interface
  between an encoder and the users of its deltas.
\<close>

section \<open>Model\<close>

text \<open>The loop over the little-endian bytes of an offset or a size: a byte that is not zero is
  emitted and its flag set in the command byte.\<close>

fun copy_arg_loop :: "nat \<Rightarrow> nat \<Rightarrow> nat \<Rightarrow> byte \<Rightarrow> bytes \<Rightarrow> byte \<times> bytes" where
  "copy_arg_loop 0 i v cmd extra = (cmd, extra)"
| "copy_arg_loop (Suc k) i v cmd extra =
     (let b = word_of_nat (v AND 0xff) in
      if b \<noteq> 0 then copy_arg_loop k (Suc i) (drop_bit 8 v) (cmd OR push_bit i 1) (extra @ [b])
      else copy_arg_loop k (Suc i) (drop_bit 8 v) cmd extra)"

text \<open>\<open>push_copy_op\<close> of \<open>delta/encode/rabin/mod.rs\<close>; its arguments are \<open>u32\<close>.\<close>

definition push_copy_op :: "bytes \<Rightarrow> nat \<Rightarrow> nat \<Rightarrow> bytes" where
  "push_copy_op out offset sz =
     (let (cmd, extra) = copy_arg_loop 4 0 offset 0x80 [];
          (cmd, extra) = copy_arg_loop 3 4 sz cmd extra in
      out @ [cmd] @ extra)"

section \<open>Copy opcodes\<close>

text \<open>The bytes and the flags of an argument, as numbers.\<close>

fun arg_bytes :: "nat \<Rightarrow> nat \<Rightarrow> bytes" where
  "arg_bytes 0 v = []"
| "arg_bytes (Suc k) v =
     (if v mod 256 \<noteq> 0 then [word_of_nat (v mod 256)] else []) @ arg_bytes k (v div 256)"

fun arg_mask :: "nat \<Rightarrow> nat \<Rightarrow> nat" where
  "arg_mask 0 v = 0"
| "arg_mask (Suc k) v = (if v mod 256 \<noteq> 0 then 1 else 0) + 2 * arg_mask k (v div 256)"

lemma arg_mask_less: "arg_mask k v < 2 ^ k"
proof (induction k arbitrary: v)
  case (Suc k)
  then have "arg_mask k (v div 256) < 2 ^ k" .
  then show ?case by simp
qed simp

lemma flag_set:
  assumes "m < 2 ^ i"
  shows "(c OR word_of_nat m) OR push_bit i 1 = (c OR word_of_nat (m + 2 ^ i) :: byte)"
proof -
  have "word_of_nat (m + 2 ^ i) = (word_of_nat (m OR push_bit i 1) :: byte)"
    using or_push_bit_eq_add[OF assms, of 1] by simp
  also have "\<dots> = word_of_nat m OR push_bit i 1"
    by (simp add: of_nat_or_eq of_nat_push_bit)
  finally show ?thesis by (simp add: or.assoc)
qed

lemma byte_of_nat_eq_0_iff: "(word_of_nat n :: byte) = 0 \<longleftrightarrow> n mod 256 = 0"
  by (simp add: byte_eq_iff unat_of_nat_byte)

lemma copy_arg_loop_eq:
  "m < 2 ^ i \<Longrightarrow>
   copy_arg_loop k i v (c OR word_of_nat m) extra =
   (c OR word_of_nat (m + arg_mask k v * 2 ^ i), extra @ arg_bytes k v)"
proof (induction k arbitrary: i v m extra)
  case (Suc k)
  have zero: "(word_of_nat (v AND 0xff) :: byte) = 0 \<longleftrightarrow> v mod 256 = 0"
    by (simp add: nat_and_mask byte_of_nat_eq_0_iff)
  show ?case
  proof (cases "v mod 256 = 0")
    case True
    have "m < 2 ^ Suc i" using Suc.prems by simp
    from Suc.IH[OF this] True zero show ?thesis
      by (simp add: nat_drop_bit Let_def algebra_simps del: of_nat_add of_nat_mult of_nat_power)
  next
    case False
    have lt: "m + 2 ^ i < 2 ^ Suc i" using Suc.prems by simp
    have "copy_arg_loop (Suc k) i v (c OR word_of_nat m) extra =
        copy_arg_loop k (Suc i) (v div 256) (c OR word_of_nat (m + 2 ^ i))
          (extra @ [word_of_nat (v mod 256)])"
      using False zero flag_set[OF Suc.prems, of c]
      by (simp only: copy_arg_loop.simps Let_def nat_drop_bit nat_and_mask if_True simp_thms)
    also have "m + 2 ^ i + arg_mask k (v div 256) * 2 ^ Suc i = m + arg_mask (Suc k) v * 2 ^ i"
      using False by (simp add: algebra_simps)
    then have "copy_arg_loop k (Suc i) (v div 256) (c OR word_of_nat (m + 2 ^ i))
          (extra @ [word_of_nat (v mod 256)]) =
        (c OR word_of_nat (m + arg_mask (Suc k) v * 2 ^ i), extra @ arg_bytes (Suc k) v)"
      using False by (simp only: Suc.IH[OF lt] arg_bytes.simps if_True append_assoc simp_thms)
    finally show ?thesis .
  qed
qed simp

lemma push_copy_op_eq:
  "push_copy_op out off n =
   out @ word_of_nat (128 + arg_mask 4 off + 16 * arg_mask 3 n) # arg_bytes 4 off @ arg_bytes 3 n"
proof -
  let ?m = "arg_mask 4 off" and ?k = "arg_mask 3 n"
  have mk: "?m < 16" "?k < 8" using arg_mask_less[of 4 off] arg_mask_less[of 3 n] by simp_all
  have 1: "copy_arg_loop 4 0 off 0x80 [] = (0x80 OR word_of_nat ?m, arg_bytes 4 off)"
    using copy_arg_loop_eq[where m = 0 and i = 0 and k = 4 and v = off and c = 128 and extra = "[]"]
    by simp
  have 2: "copy_arg_loop 3 4 n (0x80 OR word_of_nat ?m) (arg_bytes 4 off) =
      (0x80 OR word_of_nat (?m + ?k * 2 ^ 4), arg_bytes 4 off @ arg_bytes 3 n)"
    using mk by (intro copy_arg_loop_eq) simp
  have 3: "?m + ?k * 2 ^ 4 < 128" using mk by simp
  have "unat (0x80 OR word_of_nat (?m + ?k * 2 ^ 4) :: byte) = 128 + ?m + 16 * ?k"
    using 3 by (subst or.commute, subst unat_or_0x80, subst unat_of_nat_byte_small) simp_all
  moreover have "unat (word_of_nat (128 + ?m + 16 * ?k) :: byte) = 128 + ?m + 16 * ?k"
    using 3 by (intro unat_of_nat_byte_small) simp
  ultimately have "0x80 OR word_of_nat (?m + ?k * 2 ^ 4) = (word_of_nat (128 + ?m + 16 * ?k) :: byte)"
    by (simp only: byte_eq_iff)
  then show ?thesis
    by (simp only: push_copy_op_def 1 2 Let_def case_prod_conv) simp
qed

lemma partial_int_step:
  fixes a i v :: nat
  assumes "a < 2 ^ (i * 8)" "i < 8"
  shows "a OR take_bit 64 (push_bit (i * 8) (v mod 256)) = a + v mod 256 * 2 ^ (i * 8)"
    "a + v mod 256 * 2 ^ (i * 8) < 2 ^ (Suc i * 8)"
proof -
  have le: "v mod 256 * 2 ^ (i * 8) \<le> 255 * 2 ^ (i * 8)"
    by (intro mult_le_mono1) (use mod_less_divisor[of 256 v] in linarith)
  then have "a + v mod 256 * 2 ^ (i * 8) < 2 ^ (i * 8) + 255 * 2 ^ (i * 8)" using assms(1) by linarith
  then show lt: "a + v mod 256 * 2 ^ (i * 8) < 2 ^ (Suc i * 8)" by (simp add: power_add)
  have "(2 :: nat) ^ (Suc i * 8) \<le> 2 ^ 64" using assms(2) by (intro power_increasing) auto
  then have "v mod 256 * 2 ^ (i * 8) < 2 ^ 64" using lt by linarith
  then show "a OR take_bit 64 (push_bit (i * 8) (v mod 256)) = a + v mod 256 * 2 ^ (i * 8)"
    using or_push_bit_eq_add[OF assms(1), of "v mod 256"]
    by (simp add: take_bit_nat_eq_self push_bit_eq_mult)
qed

lemma read_partial_int_loop_args:
  "unat p = arg_mask k v + 2 ^ k * h \<Longrightarrow> a < 2 ^ (i * 8) \<Longrightarrow> i + k \<le> 8 \<Longrightarrow>
   read_partial_int_loop k i p a (arg_bytes k v @ s) =
   Inr ((a + v mod 2 ^ (8 * k) * 2 ^ (i * 8), word_of_nat h), s)"
proof (induction k arbitrary: i v p a)
  case 0
  then show ?case by (simp add: byte_eq_iff unat_of_nat_byte) (metis unat_byte_less mod_less)
next
  case (Suc k)
  have "unat (p AND 1) = unat p AND 1" by (simp only: unsigned_and_eq unsigned_1)
  then have "unat (p AND 1) = unat p mod 2" by (simp only: and_one_eq)
  then have "p AND 1 \<noteq> 0 \<longleftrightarrow> odd (unat p)"
    by (metis byte_eq_iff odd_iff_mod_2_eq_one unsigned_0 even_iff_mod_2_eq_zero)
  also have "\<dots> \<longleftrightarrow> v mod 256 \<noteq> 0" using Suc.prems(1) by simp
  finally have flag: "p AND 1 \<noteq> 0 \<longleftrightarrow> v mod 256 \<noteq> 0" .
  have p: "unat (drop_bit 1 p) = arg_mask k (v div 256) + 2 ^ k * h"
    unfolding unat_drop_bit_eq Suc.prems(1) by (simp add: drop_bit_eq_div)
  note step = partial_int_step[OF Suc.prems(2), of v]
  have len: "i < 8" "Suc i + k \<le> 8" using Suc.prems(3) by simp_all
  have "v mod 2 ^ (8 * Suc k) = v mod (256 * 2 ^ (8 * k))" by (simp add: power_add)
  also have "\<dots> = 256 * (v div 256 mod 2 ^ (8 * k)) + v mod 256" by (rule mod_mult2_eq)
  finally have sum: "a + v mod 256 * 2 ^ (i * 8) + v div 256 mod 2 ^ (8 * k) * 2 ^ (Suc i * 8) =
      a + v mod 2 ^ (8 * Suc k) * 2 ^ (i * 8)"
    by (simp add: algebra_simps power_add)
  note IH = Suc.IH[OF p step(2)[OF len(1)] len(2), unfolded sum]
  show ?case
  proof (cases "v mod 256 = 0")
    case True
    then show ?thesis using IH flag by simp
  next
    case False
    then show ?thesis using IH flag step(1)[OF len(1)] by simp
  qed
qed

text \<open>What a written copy opcode means in general: offset and size are truncated to the four and
  three bytes the format has, and the size zero stands for 65536.\<close>

lemma next_instr_push_copy_op_wrap:
  obtains b r where "push_copy_op [] off n = b # r"
    "\<And>s. next_instr b (r @ s) =
       Some (CopyRange (off mod 2 ^ 32) (if n mod 2 ^ 24 = 0 then 0x10000 else n mod 2 ^ 24), s)"
proof
  let ?m = "arg_mask 4 off" and ?k = "arg_mask 3 n"
  let ?b = "word_of_nat (128 + ?m + 16 * ?k) :: byte"
  show "push_copy_op [] off n = ?b # (arg_bytes 4 off @ arg_bytes 3 n)"
    by (simp only: push_copy_op_eq append_Nil)
  fix s
  have mk: "?m < 16" "?k < 8" using arg_mask_less[of 4 off] arg_mask_less[of 3 n] by simp_all
  then have b: "unat ?b = 128 + ?m + 16 * ?k" by (intro unat_of_nat_byte_small) simp
  have "unat ?b = ?m + 2 ^ 4 * (8 + ?k)" using b by simp
  from read_partial_int_loop_args[OF this, of 0 0 "arg_bytes 3 n @ s"]
  have 4: "read_partial_int 4 ?b (arg_bytes 4 off @ arg_bytes 3 n @ s) =
      Inr ((off mod 2 ^ 32, word_of_nat (8 + ?k)), arg_bytes 3 n @ s)"
    by (simp add: read_partial_int_def del: of_nat_add)
  have "unat (word_of_nat (8 + ?k) :: byte) = ?k + 2 ^ 3 * 1"
    using mk by (subst unat_of_nat_byte_small) simp_all
  from read_partial_int_loop_args[OF this, of 0 0 s]
  have 3: "read_partial_int 3 (word_of_nat (8 + ?k)) (arg_bytes 3 n @ s) = Inr ((n mod 2 ^ 24, 1), s)"
    by (simp add: read_partial_int_def del: of_nat_add)
  have "?b AND 0x80 \<noteq> 0" by (simp only: and_0x80_eq_0_iff b)
  then show "next_instr ?b ((arg_bytes 4 off @ arg_bytes 3 n) @ s) =
      Some (CopyRange (off mod 2 ^ 32) (if n mod 2 ^ 24 = 0 then 0x10000 else n mod 2 ^ 24), s)"
    by (simp only: next_instr_def append_assoc 3 4 sum.case prod.case if_False simp_thms)
qed

lemma next_instr_push_copy_op:
  assumes "off < 2 ^ 32" "0 < n" "n < 2 ^ 24"
  obtains b r where "push_copy_op [] off n = b # r" "\<And>s. next_instr b (r @ s) = Some (CopyRange off n, s)"
proof -
  have "off mod 2 ^ 32 = off" "n mod 2 ^ 24 = n" using assms by simp_all
  then have "CopyRange (off mod 2 ^ 32) (if n mod 2 ^ 24 = 0 then 0x10000 else n mod 2 ^ 24) =
      CopyRange off n"
    using assms(2) by (simp only: if_False neq0_conv[symmetric] simp_thms)
  then show ?thesis
    using next_instr_push_copy_op_wrap[of off n] that by (simp only:) metis
qed

section \<open>Streams of instructions\<close>

lemma read_partial_int_loop_append:
  "read_partial_int_loop k i p v s = Inr (x, r) \<Longrightarrow>
   read_partial_int_loop k i p v (s @ t) = Inr (x, r @ t)"
  by (induction k i p v s rule: read_partial_int_loop.induct)
    (auto simp: and_then_eq_Inr_iff split: if_splits)

lemma next_instr_append:
  "next_instr b s = Some (i, r) \<Longrightarrow> next_instr b (s @ t) = Some (i, r @ t)"
proof (cases "b AND 0x80 = 0")
  case False
  assume "next_instr b s = Some (i, r)"
  with False obtain off nz s1 n nz' where
    "read_partial_int 4 b s = Inr ((off, nz), s1)" "read_partial_int 3 nz s1 = Inr ((n, nz'), r)"
    "i = CopyRange off (if n = 0 then 0x10000 else n)"
    by (auto simp: next_instr_def split: sum.splits)
  with False show ?thesis
    by (simp add: next_instr_def read_partial_int_def read_partial_int_loop_append)
qed (auto simp: next_instr_def split: if_splits)

lemma parse_instrs_append:
  "parse_instrs s = Some is \<Longrightarrow> parse_instrs (s @ t) = map_option ((@) is) (parse_instrs t)"
proof (induction s arbitrary: "is" rule: parse_instrs.induct)
  case 1
  then show ?case by (simp add: option.map_ident)
next
  case (2 b s)
  then obtain i r js where i: "next_instr b s = Some (i, r)" "parse_instrs r = Some js" "is = i # js"
    by (auto simp: bind_eq_Some_conv)
  from 2(1)[OF i(1) refl i(2)] show ?case
    using next_instr_append[OF i(1)] i(3) by (simp add: option.map_comp comp_def)
qed

lemma delta_body_Nil: "delta_body old [] []"
  by (simp add: delta_body_def)

lemma delta_body_append:
  "delta_body old new1 body1 \<Longrightarrow> delta_body old new2 body2 \<Longrightarrow>
   delta_body old (new1 @ new2) (body1 @ body2)"
  unfolding delta_body_def by (fastforce simp: parse_instrs_append)

lemma delta_body_literal:
  assumes "d \<noteq> []" "length d \<le> 127"
  shows "delta_body old d (word_of_nat (length d) # d)"
proof -
  have n: "unat (word_of_nat (length d) :: byte) = length d"
    using assms(2) by (intro unat_of_nat_byte_small) simp
  have "word_of_nat (length d) AND (0x80 :: byte) = 0" "(word_of_nat (length d) :: byte) \<noteq> 0"
    using assms n by (simp_all add: and_0x80_eq_0_iff unat_gt_0[symmetric] del: unsigned_of_nat)
  then have "next_instr (word_of_nat (length d)) d = Some (Literal d, [])"
    using n by (simp add: next_instr_def)
  then show ?thesis
    unfolding delta_body_def by (intro exI[of _ "[Literal d]"]) simp
qed

lemma delta_body_copy:
  assumes "off < 2 ^ 32" "0 < n" "n < 2 ^ 24" "off + n \<le> length old"
  shows "delta_body old (take n (drop off old)) (push_copy_op [] off n)"
proof -
  obtain b r where "push_copy_op [] off n = b # r" "next_instr b (r @ []) = Some (CopyRange off n, [])"
    using next_instr_push_copy_op[OF assms(1-3)] by metis
  then show ?thesis
    using assms(4) unfolding delta_body_def by (intro exI[of _ "[CopyRange off n]"]) simp
qed

lemma push_copy_op_append: "push_copy_op out off n = out @ push_copy_op [] off n"
  by (simp add: push_copy_op_eq)

section \<open>The interface of an encoder\<close>

locale delta_encoder =
  fixes encode :: "bytes \<Rightarrow> bytes \<Rightarrow> bytes"
    and supported :: "bytes \<Rightarrow> bytes \<Rightarrow> bool"
  assumes encode_delta: "supported old new \<Longrightarrow> delta_of old new (encode old new)"
    and supported_sizes: "supported old new \<Longrightarrow> length old < 2 ^ 64 \<and> length new < 2 ^ 64"
begin

lemma decode_encode: "supported old new \<Longrightarrow> delta_decode (encode old new) old = Inr new"
  using encode_delta supported_sizes delta_of_decode by blast

lemma header_sizes:
  "supported old new \<Longrightarrow>
   \<exists>body. read_delta_object_size (encode old new) = Inr ((length old, length new), body)"
  using encode_delta supported_sizes unfolding delta_of_def
  by (metis read_delta_object_size_write)

lemma wrong_base_rejected:
  assumes "supported old new" "length base \<noteq> length old"
  shows "delta_decode (encode old new) base = Inl (decoder_error ''base object len is not equal'')"
proof -
  obtain r where "encode old new = write_size_encoding (length old) @ r"
    using encode_delta[OF assms(1)] unfolding delta_of_def by blast
  then show ?thesis
    using supported_sizes[OF assms(1)] assms(2) by (simp add: delta_decode_def delta_size.dec_enc)
qed

lemma encode_inj: "supported old new1 \<Longrightarrow> supported old new2 \<Longrightarrow>
   encode old new1 = encode old new2 \<Longrightarrow> new1 = new2"
  by (metis decode_encode Inr_inject)

end

end
