(* ===== verification/Delta_Encode.thy ===== *)
theory Delta_Encode
  imports Delta_Instr
begin

text \<open>
  The diff-based delta encoder (\<open>src/src/delta/encode/mod.rs\<close>).  The third-party crate \<open>diffs\<close>
  drives it: it calls \<open>equal\<close>, \<open>insert\<close> and \<open>delete\<close> with index ranges.  The sequence of those calls
  is the parameter \<open>script\<close>; \<open>script_covers\<close> states what the crate documents about it, that the
  equal and inserted ranges tile the new data in order and that equal ranges are equal.

  The similarity rate \<open>ssam_r\<close> is a floating-point quotient and is not modelled; the counter
  \<open>ssam\<close> it is computed from is.
\<close>

section \<open>Model\<close>

definition DATA_INS_LEN :: nat where [simp]:
  "DATA_INS_LEN = 0x7f"

datatype Optype = Data | Copy

record DeltaOp =
  op_ins :: Optype
  op_begin :: nat
  op_len :: nat

record DeltaDiff =
  ops :: "DeltaOp list"
  old_data :: bytes
  new_data :: bytes
  ssam :: nat

abbreviation DeltaOp_mk :: "Optype \<Rightarrow> nat \<Rightarrow> nat \<Rightarrow> DeltaOp" where
  "DeltaOp_mk i b l \<equiv> \<lparr>op_ins = i, op_begin = b, op_len = l\<rparr>"

definition push_op :: "DeltaOp \<Rightarrow> DeltaDiff \<Rightarrow> DeltaDiff" where
  "push_op op self = self\<lparr>ops := ops self @ [op]\<rparr>"

text \<open>\<open>tail.len += len\<close> on the last operation.\<close>

definition grow_tail :: "nat \<Rightarrow> DeltaDiff \<Rightarrow> DeltaDiff" where
  "grow_tail len self =
     self\<lparr>ops := butlast (ops self)
                 @ [(last (ops self))\<lparr>op_len := op_len (last (ops self)) + len\<rparr>]\<rparr>"

definition diff_equal :: "nat \<Rightarrow> nat \<Rightarrow> nat \<Rightarrow> DeltaDiff \<Rightarrow> DeltaDiff" where
  "diff_equal old new len self =
     (let self = self\<lparr>ssam := ssam self + len\<rparr> in
      if ops self \<noteq> [] then
        (let tail = last (ops self) in
         if op_begin tail + op_len tail = old \<and> op_ins tail = Copy then grow_tail len self
         else push_op (DeltaOp_mk Copy old len) self)
      else push_op (DeltaOp_mk Copy old len) self)"

text \<open>The \<open>while len > DATA_INS_LEN\<close> loop and the push that follows it.\<close>

fun insert_chunks :: "nat \<Rightarrow> nat \<Rightarrow> DeltaDiff \<Rightarrow> DeltaDiff" where
  "insert_chunks new len self =
     (if len > DATA_INS_LEN
      then insert_chunks (new + DATA_INS_LEN) (len - DATA_INS_LEN)
             (push_op (DeltaOp_mk Data new DATA_INS_LEN) self)
      else push_op (DeltaOp_mk Data new len) self)"

declare insert_chunks.simps [simp del]

definition diff_insert :: "nat \<Rightarrow> nat \<Rightarrow> nat \<Rightarrow> DeltaDiff \<Rightarrow> DeltaDiff" where
  "diff_insert old new len self =
     (if len > DATA_INS_LEN then insert_chunks new len self
      else if ops self \<noteq> [] then
        (let tail = last (ops self) in
         if op_begin tail + op_len tail = new \<and> op_ins tail = Data \<and>
            op_len tail + len < DATA_INS_LEN
         then grow_tail len self
         else push_op (DeltaOp_mk Data new len) self)
      else push_op (DeltaOp_mk Data new len) self)"

text \<open>The calls the diff algorithm makes; \<open>delete\<close> keeps the trait's default, which does nothing.\<close>

datatype diff_event =
    Equal nat nat nat
  | Insert nat nat nat
  | Delete nat nat nat

fun diff_call :: "diff_event \<Rightarrow> DeltaDiff \<Rightarrow> DeltaDiff" where
  "diff_call (Equal old new len) self = diff_equal old new len self"
| "diff_call (Insert old new len) self = diff_insert old new len self"
| "diff_call (Delete old len new) self = self"

definition DeltaDiff_new :: "diff_event list \<Rightarrow> bytes \<Rightarrow> bytes \<Rightarrow> DeltaDiff" where
  "DeltaDiff_new script old new =
     fold diff_call script \<lparr>ops = [], old_data = old, new_data = new, ssam = 0\<rparr>"

definition encode_op :: "DeltaDiff \<Rightarrow> DeltaOp \<Rightarrow> io_error + bytes" where
  "encode_op self op =
     (case op_ins op of
        Data \<Rightarrow>
          (let instruct = word_of_nat (op_len op AND 0x7f) in
           and_then (ok_or (Panic ''range out of bounds'')
               (get_range (new_data self) (op_begin op) (op_begin op + op_len op)))
             (\<lambda>data. Inr ([instruct] @ data)))
      | Copy \<Rightarrow>
          (let (instruct, copy_data) = copy_arg_loop 4 0 (op_begin op) 0x80 [];
               (instruct, copy_data) = copy_arg_loop 3 4 (op_len op) instruct copy_data in
           Inr ([instruct] @ copy_data)))"

fun encode_ops :: "DeltaDiff \<Rightarrow> DeltaOp list \<Rightarrow> bytes \<Rightarrow> io_error + bytes" where
  "encode_ops self [] out = Inr out"
| "encode_ops self (op # rest) out =
     and_then (encode_op self op) (\<lambda>op_data. encode_ops self rest (out @ op_data))"

definition DeltaDiff_encode :: "DeltaDiff \<Rightarrow> io_error + bytes" where
  "DeltaDiff_encode self =
     encode_ops self (ops self)
       (write_size_encoding (length (old_data self)) @ write_size_encoding (length (new_data self)))"

section \<open>What the diff crate promises\<close>

fun script_covers :: "bytes \<Rightarrow> bytes \<Rightarrow> nat \<Rightarrow> diff_event list \<Rightarrow> bool" where
  "script_covers old new pos [] = (pos = length new)"
| "script_covers old new pos (Equal ol n len # rest) =
     (n = pos \<and> 0 < len \<and> ol + len \<le> length old \<and> n + len \<le> length new \<and>
      take len (drop ol old) = take len (drop n new) \<and> script_covers old new (pos + len) rest)"
| "script_covers old new pos (Insert ol n len # rest) =
     (n = pos \<and> 0 < len \<and> n + len \<le> length new \<and> script_covers old new (pos + len) rest)"
| "script_covers old new pos (Delete ol len n # rest) = script_covers old new pos rest"

fun equal_bytes :: "diff_event \<Rightarrow> nat" where
  "equal_bytes (Equal _ _ len) = len"
| "equal_bytes _ = 0"

section \<open>The invariant of the collected operations\<close>

definition op_source :: "DeltaDiff \<Rightarrow> DeltaOp \<Rightarrow> bytes" where
  "op_source dd op = (case op_ins op of Data \<Rightarrow> new_data dd | Copy \<Rightarrow> old_data dd)"

definition op_bytes :: "DeltaDiff \<Rightarrow> DeltaOp \<Rightarrow> bytes" where
  "op_bytes dd op = take (op_len op) (drop (op_begin op) (op_source dd op))"

definition op_ok :: "DeltaDiff \<Rightarrow> DeltaOp \<Rightarrow> bool" where
  "op_ok dd op \<longleftrightarrow> 0 < op_len op \<and> op_begin op + op_len op \<le> length (op_source dd op) \<and>
     (op_ins op = Data \<longrightarrow> op_len op \<le> DATA_INS_LEN)"

definition diff_inv :: "bytes \<Rightarrow> bytes \<Rightarrow> nat \<Rightarrow> DeltaDiff \<Rightarrow> bool" where
  "diff_inv old new pos dd \<longleftrightarrow>
     old_data dd = old \<and> new_data dd = new \<and> list_all (op_ok dd) (ops dd) \<and> pos \<le> length new \<and>
     concat (map (op_bytes dd) (ops dd)) = take pos new"

lemma op_source_cong [simp]:
  "op_source (dd\<lparr>ops := x\<rparr>) = op_source dd"
  "op_source (dd\<lparr>ssam := s\<rparr>) = op_source dd"
  by (simp_all add: op_source_def fun_eq_iff split: Optype.splits)

lemma op_bytes_cong [simp]:
  "op_bytes (dd\<lparr>ops := x\<rparr>) = op_bytes dd"
  "op_bytes (dd\<lparr>ssam := s\<rparr>) = op_bytes dd"
  by (simp_all add: op_bytes_def fun_eq_iff)

lemma op_ok_cong [simp]:
  "op_ok (dd\<lparr>ops := x\<rparr>) = op_ok dd"
  "op_ok (dd\<lparr>ssam := s\<rparr>) = op_ok dd"
  by (simp_all add: op_ok_def fun_eq_iff)

lemma take_add_drop: "take (a + b) xs = take a xs @ take b (drop a xs)"
  by (rule take_add)

lemma diff_inv_ssam [simp]: "diff_inv old new pos (dd\<lparr>ssam := s\<rparr>) = diff_inv old new pos dd"
  by (simp add: diff_inv_def)

lemma diff_inv_push:
  assumes "diff_inv old new pos dd" "op_ok dd op" "pos + op_len op \<le> length new"
    "op_bytes dd op = take (op_len op) (drop pos new)"
  shows "diff_inv old new (pos + op_len op) (push_op op dd)"
  using assms by (simp add: diff_inv_def push_op_def take_add_drop)

lemma diff_inv_grow:
  assumes inv: "diff_inv old new pos dd" and ne: "ops dd \<noteq> []"
    and grow: "op_ok dd ((last (ops dd))\<lparr>op_len := op_len (last (ops dd)) + len\<rparr>)"
    and pos: "pos + len \<le> length new"
    and eq: "take len (drop (op_begin (last (ops dd)) + op_len (last (ops dd)))
               (op_source dd (last (ops dd)))) = take len (drop pos new)"
  shows "diff_inv old new (pos + len) (grow_tail len dd)"
proof -
  let ?t = "last (ops dd)"
  have ops: "ops dd = butlast (ops dd) @ [?t]" using ne by simp
  have src: "op_source dd (?t\<lparr>op_len := l\<rparr>) = op_source dd ?t" for l by (simp add: op_source_def)
  have "op_bytes dd (?t\<lparr>op_len := op_len ?t + len\<rparr>) = op_bytes dd ?t @ take len (drop pos new)"
    using eq by (simp add: op_bytes_def src take_add_drop add.commute[of _ "op_begin ?t"])
  moreover have "concat (map (op_bytes dd) (butlast (ops dd))) @ op_bytes dd ?t = take pos new"
    using inv ops by (metis (no_types, lifting) concat_append concat.simps append_Nil2
        diff_inv_def list.map map_append)
  moreover have "list_all (op_ok dd) (butlast (ops dd))"
    using inv ops unfolding diff_inv_def by (metis list_all_append)
  ultimately show ?thesis
    using inv grow pos by (simp add: diff_inv_def grow_tail_def take_add_drop flip: append_assoc)
qed

lemma diff_equal_inv:
  assumes "diff_inv old new pos dd" "0 < len" "ol + len \<le> length old" "pos + len \<le> length new"
    "take len (drop ol old) = take len (drop pos new)"
  shows "diff_inv old new (pos + len) (diff_equal ol pos len dd)"
proof -
  define d where "d = dd\<lparr>ssam := ssam dd + len\<rparr>"
  have d: "diff_inv old new pos d" "ops d = ops dd" using assms(1) by (simp_all add: d_def)
  have push: "diff_inv old new (pos + len) (push_op (DeltaOp_mk Copy ol len) d)"
    using d(1) assms diff_inv_push[OF d(1), of "DeltaOp_mk Copy ol len"]
    by (simp add: op_ok_def op_bytes_def op_source_def diff_inv_def)
  show ?thesis
  proof (cases "ops d \<noteq> [] \<and> op_begin (last (ops d)) + op_len (last (ops d)) = ol \<and>
      op_ins (last (ops d)) = Copy")
    case True
    then have "diff_inv old new (pos + len) (grow_tail len d)"
      using assms d(1) by (intro diff_inv_grow) (auto simp: op_ok_def op_source_def diff_inv_def)
    then show ?thesis using True by (simp add: diff_equal_def Let_def flip: d_def)
  next
    case False
    then have "diff_equal ol pos len dd = push_op (DeltaOp_mk Copy ol len) d"
      unfolding diff_equal_def Let_def d_def[symmetric] by auto
    then show ?thesis using push by simp
  qed
qed

lemma diff_inv_push_data:
  assumes "diff_inv old new pos dd" "0 < len" "len \<le> 127" "pos + len \<le> length new"
  shows "diff_inv old new (pos + len) (push_op (DeltaOp_mk Data pos len) dd)"
  using assms diff_inv_push[OF assms(1), of "DeltaOp_mk Data pos len"]
  by (simp add: op_ok_def op_bytes_def op_source_def diff_inv_def)

lemma insert_chunks_inv:
  "diff_inv old new pos dd \<Longrightarrow> 0 < len \<Longrightarrow> pos + len \<le> length new \<Longrightarrow>
   diff_inv old new (pos + len) (insert_chunks pos len dd)"
proof (induction pos len dd rule: insert_chunks.induct)
  case (1 pos len dd)
  show ?case
  proof (cases "len > 127")
    case True
    then show ?thesis
      using 1 diff_inv_push_data[OF 1(2), of 127] by (subst insert_chunks.simps) simp
  next
    case False
    then show ?thesis
      using 1 diff_inv_push_data[OF 1(2), of len] by (subst insert_chunks.simps) simp
  qed
qed

lemma diff_insert_inv:
  assumes "diff_inv old new pos dd" "0 < len" "pos + len \<le> length new"
  shows "diff_inv old new (pos + len) (diff_insert ol pos len dd)"
proof (cases "len > 127")
  case True
  then show ?thesis using insert_chunks_inv[OF assms] by (simp add: diff_insert_def)
next
  case small: False
  show ?thesis
  proof (cases "ops dd \<noteq> [] \<and> op_begin (last (ops dd)) + op_len (last (ops dd)) = pos \<and>
      op_ins (last (ops dd)) = Data \<and> op_len (last (ops dd)) + len < 127")
    case True
    then have "diff_inv old new (pos + len) (grow_tail len dd)"
      using assms by (intro diff_inv_grow) (auto simp: op_ok_def op_source_def diff_inv_def)
    then show ?thesis using True small by (simp add: diff_insert_def Let_def)
  next
    case False
    then have "diff_insert ol pos len dd = push_op (DeltaOp_mk Data pos len) dd"
      using small unfolding diff_insert_def Let_def by auto
    then show ?thesis using diff_inv_push_data[OF assms(1,2) _ assms(3)] small by simp
  qed
qed

lemma diff_script_inv:
  "diff_inv old new pos dd \<Longrightarrow> script_covers old new pos script \<Longrightarrow>
   diff_inv old new (length new) (fold diff_call script dd)"
proof (induction script arbitrary: pos dd)
  case (Cons ev script)
  then show ?case
    by (cases ev) (auto intro: Cons.IH diff_equal_inv diff_insert_inv)
qed simp

lemma DeltaDiff_new_inv:
  "script_covers old new 0 script \<Longrightarrow> diff_inv old new (length new) (DeltaDiff_new script old new)"
  unfolding DeltaDiff_new_def by (rule diff_script_inv) (simp_all add: diff_inv_def)

section \<open>Encoding\<close>

lemma encode_op_copy:
  "op_ins op = Copy \<Longrightarrow> encode_op dd op = Inr (push_copy_op [] (op_begin op) (op_len op))"
  by (simp add: encode_op_def push_copy_op_def case_prod_beta Let_def)

lemma encode_op_body:
  assumes "op_ok dd op" "length (old_data dd) < 2 ^ 24"
  obtains e where "encode_op dd op = Inr e" "delta_body (old_data dd) (op_bytes dd op) e"
proof (cases "op_ins op")
  case Data
  let ?d = "take (op_len op) (drop (op_begin op) (new_data dd))"
  have "length ?d = op_len op" "?d \<noteq> []" using assms(1) Data by (auto simp: op_ok_def op_source_def)
  moreover from this have "delta_body (old_data dd) ?d (word_of_nat (op_len op) # ?d)"
    using delta_body_literal[of ?d] assms(1) Data by (simp add: op_ok_def)
  moreover have "op_len op mod 128 = op_len op" using assms(1) Data by (simp add: op_ok_def)
  ultimately show ?thesis
    using assms(1) Data that[of "word_of_nat (op_len op) # ?d"]
    by (simp add: encode_op_def op_ok_def op_source_def op_bytes_def get_range_def nat_and_mask)
next
  case Copy
  then have "delta_body (old_data dd) (op_bytes dd op) (push_copy_op [] (op_begin op) (op_len op))"
    unfolding op_bytes_def using assms
    by (auto simp: op_source_def op_ok_def intro!: delta_body_copy)
  then show ?thesis using that encode_op_copy[OF Copy] by blast
qed

lemma encode_ops_body:
  "list_all (op_ok dd) os \<Longrightarrow> length (old_data dd) < 2 ^ 24 \<Longrightarrow>
   \<exists>e. encode_ops dd os out = Inr (out @ e) \<and>
       delta_body (old_data dd) (concat (map (op_bytes dd) os)) e"
proof (induction os arbitrary: out)
  case Nil
  then show ?case by (simp add: delta_body_Nil)
next
  case (Cons op os)
  then obtain e where e: "encode_op dd op = Inr e" "delta_body (old_data dd) (op_bytes dd op) e"
    using encode_op_body by (metis list.pred_inject(2))
  from Cons obtain f where "encode_ops dd os (out @ e) = Inr ((out @ e) @ f)"
    "delta_body (old_data dd) (concat (map (op_bytes dd) os)) f" by fastforce
  then show ?case using e delta_body_append by fastforce
qed

lemma DeltaDiff_encode_delta_of:
  assumes "script_covers old new 0 script" "length old < 2 ^ 24"
  obtains e where "DeltaDiff_encode (DeltaDiff_new script old new) = Inr e" "delta_of old new e"
proof -
  let ?dd = "DeltaDiff_new script old new"
  have inv: "diff_inv old new (length new) ?dd" using assms(1) by (rule DeltaDiff_new_inv)
  then obtain body where "encode_ops ?dd (ops ?dd)
        (write_size_encoding (length old) @ write_size_encoding (length new)) =
      Inr ((write_size_encoding (length old) @ write_size_encoding (length new)) @ body)"
    "delta_body old (concat (map (op_bytes ?dd) (ops ?dd))) body"
    using encode_ops_body assms(2) unfolding diff_inv_def by metis
  then show ?thesis
    using inv that unfolding diff_inv_def DeltaDiff_encode_def delta_of_def by auto
qed

section \<open>The similarity counter\<close>

lemma ssam_simps [simp]:
  "ssam (push_op op dd) = ssam dd"
  "ssam (grow_tail k dd) = ssam dd"
  by (simp_all add: push_op_def grow_tail_def)

lemma ssam_insert_chunks [simp]: "ssam (insert_chunks n k dd) = ssam dd"
  by (induction n k dd rule: insert_chunks.induct) (subst insert_chunks.simps, simp)

lemma ssam_diff_call: "ssam (diff_call ev dd) = ssam dd + equal_bytes ev"
  by (cases ev) (simp_all add: diff_equal_def diff_insert_def Let_def)

lemma ssam_fold: "ssam (fold diff_call script dd) = ssam dd + sum_list (map equal_bytes script)"
  by (induction script arbitrary: dd) (simp_all add: ssam_diff_call)

lemma script_covers_equal_bytes:
  "script_covers old new pos script \<Longrightarrow> pos + sum_list (map equal_bytes script) \<le> length new"
  by (induction old new pos script rule: script_covers.induct) auto

section \<open>Properties\<close>

text \<open>C32: the diff encoder is correct.  For every script of calls that tiles the new data (what the
  diff crate promises) and every base below 16 MiB, the encoder terminates without a panic and the
  decoder turns its delta back into the new data.\<close>

theorem DeltaDiff_roundtrip:
  assumes "script_covers old new 0 script" "length old < 2 ^ 24" "length new < 2 ^ 64"
  shows "\<exists>e. DeltaDiff_encode (DeltaDiff_new script old new) = Inr e \<and> delta_decode e old = Inr new"
proof -
  obtain e where "DeltaDiff_encode (DeltaDiff_new script old new) = Inr e" "delta_of old new e"
    using DeltaDiff_encode_delta_of[OF assms(1,2)] by blast
  then show ?thesis using delta_of_decode[of old new e] assms(2,3) by auto
qed

theorem DeltaDiff_roundtrip_witness:
  "\<exists>e. DeltaDiff_encode (DeltaDiff_new [Equal 0 0 2, Delete 2 1 2, Insert 3 2 1] [1, 2, 3] [1, 2, 9]) = Inr e \<and>
       delta_decode e [1, 2, 3] = Inr [1, 2, 9]"
  by (rule DeltaDiff_roundtrip) simp_all

text \<open>the operations the encoder collects always stay well-formed: every literal has between 1
  and 127 bytes, every range lies inside its buffer, the ranges produce exactly the new data, and
  the counter behind the similarity rate never exceeds the size of the new data.\<close>

theorem DeltaDiff_ops_wellformed:
  assumes "script_covers old new 0 script"
  defines "dd \<equiv> DeltaDiff_new script old new"
  shows "list_all (op_ok dd) (ops dd) \<and> concat (map (op_bytes dd) (ops dd)) = new \<and>
         ssam dd = sum_list (map equal_bytes script) \<and> ssam dd \<le> length new"
  using DeltaDiff_new_inv[OF assms(1)] script_covers_equal_bytes[OF assms(1)]
    ssam_fold[of script "\<lparr>ops = [], old_data = old, new_data = new, ssam = 0\<rparr>"]
  by (simp add: dd_def diff_inv_def DeltaDiff_new_def)

theorem DeltaDiff_ops_wellformed_witness:
  "list_all (op_ok (DeltaDiff_new [Equal 0 0 2, Insert 3 2 1] [1, 2, 3] [1, 2, 9]))
     (ops (DeltaDiff_new [Equal 0 0 2, Insert 3 2 1] [1, 2, 3] [1, 2, 9])) \<and>
   ssam (DeltaDiff_new [Equal 0 0 2, Insert 3 2 1] [1, 2, 3] [1, 2, 9]) \<le> 3"
  using DeltaDiff_ops_wellformed[of "[1, 2, 3]" "[1, 2, 9]" "[Equal 0 0 2, Insert 3 2 1]"] by simp

text \<open>C33: the limit of the round trip is needed.  Two adjacent equal ranges of 8 MiB are merged into one copy of
  16 MiB, since a merge has no bound.  The copy is written with only the three low bytes of its size, which are
  zero and mean 64 KiB, so that the decoder rejects the delta of the buffer with itself.\<close>

theorem DeltaDiff_large_copy_corrupt:
  fixes x :: byte
  defines "buf \<equiv> replicate (2 ^ 24) x" and "script \<equiv> [Equal 0 0 (2 ^ 23), Equal (2 ^ 23) (2 ^ 23) (2 ^ 23)]"
  defines "dd \<equiv> DeltaDiff_new script buf buf"
  shows "script_covers buf buf 0 script \<and> ops dd = [DeltaOp_mk Copy 0 (2 ^ 24)] \<and>
    (\<exists>copy. encode_op dd (DeltaOp_mk Copy 0 (2 ^ 24)) = Inr copy \<and> parse_instrs copy = Some [CopyRange 0 0x10000] \<and>
       (\<exists>e. DeltaDiff_encode dd = Inr e \<and> suffix copy e \<and> \<not> is_ok (delta_decode e buf)))"
proof (intro conjI)
  have len: "length buf = 2 ^ 24" by (simp only: buf_def length_replicate)
  then show "script_covers buf buf 0 script" by (simp add: script_def)
  show ops: "ops dd = [DeltaOp_mk Copy 0 (2 ^ 24)]"
    by (simp add: dd_def script_def DeltaDiff_new_def diff_equal_def push_op_def grow_tail_def Let_def)
  let ?copy = "push_copy_op [] 0 (2 ^ 24)"
  let ?e = "write_size_encoding (length buf) @ write_size_encoding (length buf) @ ?copy"
  obtain b r where br: "?copy = b # r" "next_instr b (r @ []) = Some (CopyRange 0 0x10000, [])"
    using next_instr_push_copy_op_wrap[of 0 "2 ^ 24"]
    by (simp only: mod_self mod_0 if_True simp_thms) blast
  then have p: "parse_instrs ?copy = Some [CopyRange 0 0x10000]" by simp
  have data: "old_data dd = buf" "new_data dd = buf"
    by (simp_all add: dd_def script_def DeltaDiff_new_def diff_equal_def push_op_def grow_tail_def Let_def)
  have enc: "DeltaDiff_encode dd = Inr ?e" using data ops by (simp add: DeltaDiff_encode_def encode_op_copy)
  have "delta_decode ?e buf \<noteq> Inr out" for out
  proof
    assume "delta_decode ?e buf = Inr out"
    then have "length out = length buf" "out = apply_instrs buf [CopyRange 0 0x10000]"
      using len p unfolding delta_decode_iff by (auto simp: delta_size.dec_enc)
    then show False using len by simp
  qed
  then have "\<not> is_ok (delta_decode ?e buf)" by (auto simp: is_ok_iff)
  moreover have "suffix ?copy ?e" by (simp add: suffix_def)
  ultimately show "\<exists>copy. encode_op dd (DeltaOp_mk Copy 0 (2 ^ 24)) = Inr copy \<and> parse_instrs copy = Some [CopyRange 0 0x10000] \<and>
       (\<exists>e. DeltaDiff_encode dd = Inr e \<and> suffix copy e \<and> \<not> is_ok (delta_decode e buf))"
    using p enc by (intro exI[of _ ?copy] conjI exI[of _ ?e]) (simp_all add: encode_op_copy)
qed

end
