(* ===== verification/Rabin_Delta.thy ===== *)
theory Rabin_Delta
  imports Rabin_Index Rabin_Match Delta_Encode
begin

text \<open>
  The Rabin delta encoder (\<open>src/src/delta/encode/rabin/mod.rs\<close>): \<open>create_delta_inner\<close> with its rolling
  hash, bucket scan, literal runs with a length byte filled in later, backward extension and 64 KiB
  copy chunks; the public entry points; and the literal-only fallback.

  The record \<open>delta_state\<close> holds the local variables of the loop, \<open>delta_iter\<close> is one round of it and
  \<open>create_delta_loop\<close> the loop; the value \<open>None\<close> of the latter would mean that the loop does not end,
  and \<open>create_delta_total\<close> shows that it always ends.  The inner \<open>None\<close> is the code's own: the delta
  exceeded \<open>max_size\<close>.  The profiling counters \<open>DeltaStats\<close> are not modelled.
\<close>

section \<open>Model\<close>

record delta_state =
  ds_out :: bytes
  ds_val :: "32 word"
  data_pos :: nat
  inscnt :: nat
  moff :: nat
  msize :: nat
  data_len_pos :: nat

text \<open>The body of the loop over a bucket for one entry; the flag says that the loop is left with
  \<open>break\<close>.\<close>

definition try_entry ::
  "bytes \<Rightarrow> bytes \<Rightarrow> nat \<Rightarrow> 32 word \<Rightarrow> IndexEntry \<Rightarrow> nat \<times> nat \<Rightarrow> io_error + bool \<times> nat \<times> nat" where
  "try_entry src target pos val entry best =
     (if ie_hash entry \<noteq> val then Inr (False, best)
      else if ie_offset entry > length src then Inl (Panic ''attempt to subtract with overflow'')
      else
        let ref_start = ie_offset entry;
            src_remain = length src - ref_start;
            trg_remain = length target - pos;
            max_match = min src_remain trg_remain in
        if max_match \<le> fst best then Inr (True, best)
        else
          let match_len = extend_match src target ref_start pos max_match in
          if match_len > fst best then
            Inr (take_bit 32 match_len \<ge> 4096, take_bit 32 match_len, take_bit 32 ref_start)
          else Inr (False, best))"

fun scan_bucket ::
  "bytes \<Rightarrow> bytes \<Rightarrow> nat \<Rightarrow> 32 word \<Rightarrow> IndexEntry list \<Rightarrow> nat \<times> nat \<Rightarrow> io_error + nat \<times> nat" where
  "scan_bucket src target pos val [] best = Inr best"
| "scan_bucket src target pos val (entry # rest) best =
     and_then (try_entry src target pos val entry best) (\<lambda>(stop, best).
       if stop then Inr best else scan_bucket src target pos val rest best)"

text \<open>The branch \<open>msize < 4\<close>: the current byte joins the literal run.\<close>

definition literal_step :: "byte \<Rightarrow> delta_state \<Rightarrow> delta_state" where
  "literal_step new_byte st =
     (let st = (if inscnt st = 0 then st\<lparr>data_len_pos := length (ds_out st), ds_out := ds_out st @ [0]\<rparr>
                else st);
          st = st\<lparr>ds_out := ds_out st @ [new_byte], inscnt := inscnt st + 1, data_pos := data_pos st + 1\<rparr>;
          st = (if inscnt st = DATA_INS_LEN
                then st\<lparr>ds_out := (ds_out st)[data_len_pos st := word_of_nat DATA_INS_LEN], inscnt := 0\<rparr>
                else st) in
      st\<lparr>msize := 0\<rparr>)"

function back_extend :: "bytes \<Rightarrow> bytes \<Rightarrow> nat \<Rightarrow> nat \<Rightarrow> nat \<Rightarrow> nat \<Rightarrow> nat" where
  "back_extend src target match_off pos max_back cnt =
     (if cnt < max_back \<and> src ! (match_off - 1 - cnt) = target ! (pos - 1 - cnt)
      then back_extend src target match_off pos max_back (cnt + 1)
      else cnt)"
  by pat_completeness auto
termination by (relation "measure (\<lambda>(_, _, _, _, mx, cnt). mx - cnt)") auto

declare back_extend.simps [simp del]

text \<open>The bytes that backward extension absorbed are cut off the output again, the pending literal
  run gets its length.\<close>

definition close_literal :: "nat \<Rightarrow> delta_state \<Rightarrow> delta_state" where
  "close_literal back st =
     (let st = (if back > 0 then
                  (let cnt = inscnt st - back;
                       new_out_len = (if cnt = 0 then data_len_pos st else length (ds_out st) - back) in
                   st\<lparr>data_pos := data_pos st - back, inscnt := cnt, ds_out := take new_out_len (ds_out st)\<rparr>)
                else st) in
      if inscnt st > 0
      then st\<lparr>ds_out := (ds_out st)[data_len_pos st := word_of_nat (inscnt st)], inscnt := 0\<rparr>
      else st)"

text \<open>The branch with a good match: extend it backwards, then emit one copy of at most 64 KiB; the
  rest of the match stays in \<open>moff\<close> and \<open>msize\<close>.\<close>

definition copy_step :: "bytes \<Rightarrow> bytes \<Rightarrow> delta_state \<Rightarrow> io_error + delta_state" where
  "copy_step src target st =
     (let back = back_extend src target (moff st) (data_pos st) (min (inscnt st) (moff st)) 0;
          match_off = moff st - back;
          match_len = msize st + back;
          st = close_literal back st;
          remaining = take_bit 32 match_len;
          remaining_off = take_bit 32 match_off;
          left = remaining - 0x10000;
          remaining = remaining - left;
          st = st\<lparr>ds_out := push_copy_op (ds_out st) remaining_off remaining,
                  data_pos := data_pos st + remaining\<rparr> in
      if remaining_off + remaining > u32_max then Inl (Panic ''attempt to add with overflow'')
      else
        let st = st\<lparr>moff := remaining_off + remaining, msize := left\<rparr> in
        if msize st < 4096 \<and> data_pos st \<ge> RABIN_WINDOW then
          and_then (rabin_fold 0 (take RABIN_WINDOW (drop (data_pos st - RABIN_WINDOW) target)))
            (\<lambda>v. Inr (st\<lparr>ds_val := v\<rparr>))
        else Inr st)"

definition delta_iter :: "RabinDeltaIndex \<Rightarrow> bytes \<Rightarrow> delta_state \<Rightarrow> io_error + delta_state" where
  "delta_iter index target st =
     (let src = source index; new_byte = target ! data_pos st in
      and_then (if data_pos st \<ge> RABIN_WINDOW
                then rabin_remove (ds_val st) (target ! (data_pos st - RABIN_WINDOW))
                else Inr (ds_val st)) (\<lambda>v.
      and_then (rabin_update v new_byte) (\<lambda>v.
      and_then (if msize st < 4096
                then and_then (bucket_entries index (unat v AND hash_mask index)) (\<lambda>bucket.
                       scan_bucket src target (data_pos st) v bucket (msize st, moff st))
                else Inr (msize st, moff st)) (\<lambda>(best_size, best_off).
        let st = st\<lparr>ds_val := v, msize := best_size, moff := best_off\<rparr> in
        if msize st < 4 then Inr (literal_step new_byte st)
        else copy_step src target st))))"

definition exceeds :: "nat option \<Rightarrow> bytes \<Rightarrow> bool" where
  "exceeds max_size out = (case max_size of None \<Rightarrow> False | Some m \<Rightarrow> length out > m)"

partial_function (option) create_delta_loop ::
  "RabinDeltaIndex \<Rightarrow> bytes \<Rightarrow> nat option \<Rightarrow> delta_state \<Rightarrow> (io_error + delta_state option) option" where
  "create_delta_loop index target max_size st =
     (if data_pos st < length target then
        (case delta_iter index target st of
           Inl e \<Rightarrow> Some (Inl e)
         | Inr st' \<Rightarrow>
             if exceeds max_size (ds_out st') then Some (Inr None)
             else create_delta_loop index target max_size st')
      else Some (Inr (Some st)))"

definition delta_init :: "bytes \<Rightarrow> bytes \<Rightarrow> io_error + delta_state" where
  "delta_init hdr target =
     (let init_count = min RABIN_WINDOW (length target) in
      and_then (rabin_fold 0 (take init_count target)) (\<lambda>v.
        Inr \<lparr>ds_out = hdr @ [0] @ take init_count target, ds_val = v, data_pos = init_count,
             inscnt = init_count, moff = 0, msize = 0, data_len_pos = length hdr\<rparr>))"

definition create_delta ::
  "RabinDeltaIndex \<Rightarrow> bytes \<Rightarrow> nat option \<Rightarrow> (io_error + bytes option) option" where
  "create_delta index target max_size =
     (let hdr = write_varint (length target) (write_varint (length (source index)) []) in
      if length target = 0 then Some (Inr (Some hdr))
      else
        case delta_init hdr target of
          Inl e \<Rightarrow> Some (Inl e)
        | Inr st \<Rightarrow>
            (case create_delta_loop index target max_size st of
               None \<Rightarrow> None
             | Some (Inl e) \<Rightarrow> Some (Inl e)
             | Some (Inr None) \<Rightarrow> Some (Inr None)
             | Some (Inr (Some st)) \<Rightarrow>
                 (let out = (if inscnt st > 0
                             then (ds_out st)[data_len_pos st := word_of_nat (inscnt st)]
                             else ds_out st) in
                  if exceeds max_size out then Some (Inr None) else Some (Inr (Some out)))))"

function literal_chunks :: "bytes \<Rightarrow> nat \<Rightarrow> bytes \<Rightarrow> bytes" where
  "literal_chunks new_bytes pos out =
     (if pos < length new_bytes then
        (let chunk = min DATA_INS_LEN (length new_bytes - pos) in
         literal_chunks new_bytes (pos + chunk)
           (out @ [word_of_nat chunk] @ take chunk (drop pos new_bytes)))
      else out)"
  by pat_completeness auto
termination by (relation "measure (\<lambda>(xs, pos, _). length xs - pos)") auto

declare literal_chunks.simps [simp del]

definition encode_literal_only :: "nat \<Rightarrow> bytes \<Rightarrow> bytes" where
  "encode_literal_only source_len new_bytes =
     literal_chunks new_bytes 0 (write_varint (length new_bytes) (write_varint source_len []))"

text \<open>\<open>expect\<close> on the result of \<open>create_delta\<close> without a limit.\<close>

definition expect_delta :: "(io_error + bytes option) option \<Rightarrow> (io_error + bytes) option" where
  "expect_delta r =
     map_option (\<lambda>x. and_then x (ok_or
       (Panic ''delta should always succeed when max_size is None''))) r"

definition encode_rabin_with_index :: "RabinDeltaIndex \<Rightarrow> bytes \<Rightarrow> (io_error + bytes) option" where
  "encode_rabin_with_index index target = expect_delta (create_delta index target None)"

definition encode_rabin_with_index_and_max_size ::
  "RabinDeltaIndex \<Rightarrow> bytes \<Rightarrow> nat \<Rightarrow> (io_error + bytes option) option" where
  "encode_rabin_with_index_and_max_size index target max_size =
     (if target = [] then Some (Inr (Some (write_varint 0 (write_varint (length (source index)) []))))
      else create_delta index target (Some max_size))"

definition encode_rabin :: "bytes \<Rightarrow> bytes \<Rightarrow> (io_error + bytes) option" where
  "encode_rabin old_bytes new_bytes =
     (if new_bytes = [] then Some (Inr (write_varint 0 (write_varint (length old_bytes) [])))
      else if old_bytes = [] then Some (Inr (encode_literal_only 0 new_bytes))
      else
        case create_delta_index old_bytes of
          Inl e \<Rightarrow> Some (Inl e)
        | Inr None \<Rightarrow> Some (Inr (encode_literal_only (length old_bytes) new_bytes))
        | Inr (Some index) \<Rightarrow> expect_delta (create_delta index new_bytes None))"

section \<open>Matches\<close>

definition match_ok :: "bytes \<Rightarrow> bytes \<Rightarrow> nat \<Rightarrow> nat \<times> nat \<Rightarrow> bool" where
  "match_ok src target pos m \<longleftrightarrow>
     (case m of (n, off) \<Rightarrow>
        n = 0 \<or> off + n \<le> length src \<and> pos + n \<le> length target \<and>
                 take n (drop off src) = take n (drop pos target))"

lemma match_ok_0 [simp]: "match_ok src target pos (0, off)"
  by (simp add: match_ok_def)

lemma try_entry_ok:
  assumes "match_ok src target pos best" "ie_offset e < length src" "pos \<le> length target"
    "length src < 2 ^ 32"
  shows "\<exists>stop best'. try_entry src target pos v e best = Inr (stop, best') \<and> match_ok src target pos best'"
proof -
  let ?m = "extend_match src target (ie_offset e) pos (min (length src - ie_offset e) (length target - pos))"
  have "ie_offset e \<le> length src" using assms(2) by simp
  note ext = extend_match_prefix[OF this assms(3), of "min (length src - ie_offset e) (length target - pos)"]
  have "take_bit 32 ?m = ?m" "take_bit 32 (ie_offset e) = ie_offset e"
    using ext(3) assms(2,4) by (auto intro!: take_bit_nat_eq_self)
  moreover have "match_ok src target pos (?m, ie_offset e)"
    using ext by (simp add: match_ok_def)
  ultimately show ?thesis
    using assms(1,2) by (cases best) (simp add: try_entry_def Let_def not_less, blast)
qed

lemma scan_bucket_ok:
  assumes "pos \<le> length target" "length src < 2 ^ 32"
  shows "match_ok src target pos best \<Longrightarrow> \<forall>e \<in> set es. ie_offset e < length src \<Longrightarrow>
    \<exists>best'. scan_bucket src target pos v es best = Inr best' \<and> match_ok src target pos best'"
proof (induction es arbitrary: best)
  case (Cons e es)
  from try_entry_ok[OF Cons.prems(1) _ assms, of e v] Cons.prems(2)
  obtain stop b where "try_entry src target pos v e best = Inr (stop, b)" "match_ok src target pos b"
    by auto
  then show ?case using Cons.IH[of b] Cons.prems(2) by (cases stop) auto
qed simp

lemma back_extend_spec:
  "cnt \<le> mx \<Longrightarrow> (\<And>j. j < cnt \<Longrightarrow> src ! (off - 1 - j) = target ! (pos - 1 - j)) \<Longrightarrow>
   back_extend src target off pos mx cnt \<le> mx \<and>
   (\<forall>j < back_extend src target off pos mx cnt. src ! (off - 1 - j) = target ! (pos - 1 - j))"
proof (induction src target off pos mx cnt rule: back_extend.induct)
  case (1 src target off pos mx cnt)
  show ?case
  proof (cases "cnt < mx \<and> src ! (off - 1 - cnt) = target ! (pos - 1 - cnt)")
    case True
    then have "back_extend src target off pos mx (cnt + 1) \<le> mx \<and>
        (\<forall>j < back_extend src target off pos mx (cnt + 1). src ! (off - 1 - j) = target ! (pos - 1 - j))"
      using 1 by (intro 1(1)) (auto simp: less_Suc_eq)
    then show ?thesis using True by (subst (1 2) back_extend.simps) simp
  next
    case False
    then show ?thesis using 1(2,3) by (subst (1 2) back_extend.simps) auto
  qed
qed

lemma backward_equal:
  assumes "\<And>j. j < k \<Longrightarrow> src ! (off - 1 - j) = target ! (pos - 1 - j)"
    "k \<le> off" "off \<le> length src" "k \<le> pos" "pos \<le> length target"
  shows "take k (drop (off - k) src) = take k (drop (pos - k) target)"
proof (rule nth_equalityI)
  show "length (take k (drop (off - k) src)) = length (take k (drop (pos - k) target))"
    using assms by simp
  fix i
  assume "i < length (take k (drop (off - k) src))"
  then have i: "i < k" by simp
  then have "off - 1 - (k - 1 - i) = off - k + i" "pos - 1 - (k - 1 - i) = pos - k + i" "k - 1 - i < k"
    using assms(2,4) by auto
  then show "take k (drop (off - k) src) ! i = take k (drop (pos - k) target) ! i"
    using assms(1)[of "k - 1 - i"] i assms(2-) by simp
qed

lemma match_ok_back:
  assumes "match_ok src target pos (n, off)" "0 < n" "k \<le> off" "k \<le> pos"
    "take k (drop (off - k) src) = take k (drop (pos - k) target)"
  shows "match_ok src target (pos - k) (n + k, off - k)"
proof -
  have "take (k + n) (drop (off - k) src) = take (k + n) (drop (pos - k) target)"
    using assms by (simp add: match_ok_def take_add)
  then show ?thesis using assms(1-4) by (auto simp: match_ok_def add.commute)
qed

lemma match_ok_split:
  assumes "match_ok src target pos (n, off)" "k \<le> n"
  shows "match_ok src target (pos + k) (n - k, off + k)"
proof (cases "n - k = 0")
  case False
  then have "drop k (take n (drop off src)) = drop k (take n (drop pos target))"
    using assms by (simp add: match_ok_def)
  then show ?thesis
    using assms False by (auto simp: match_ok_def drop_take add.commute)
qed simp

section \<open>The invariant of the loop\<close>

definition out_ok :: "bytes \<Rightarrow> bytes \<Rightarrow> bytes \<Rightarrow> delta_state \<Rightarrow> bool" where
  "out_ok hdr src target st \<longleftrightarrow>
     (\<exists>body ph. delta_body src (take (data_pos st - inscnt st) target) body \<and>
        (if inscnt st = 0 then ds_out st = hdr @ body
         else data_len_pos st = length (hdr @ body) \<and>
              ds_out st = hdr @ body @ ph # take (inscnt st) (drop (data_pos st - inscnt st) target)))"

definition delta_inv :: "bytes \<Rightarrow> bytes \<Rightarrow> bytes \<Rightarrow> delta_state \<Rightarrow> bool" where
  "delta_inv hdr src target st \<longleftrightarrow>
     inscnt st < 127 \<and> inscnt st \<le> data_pos st \<and> data_pos st \<le> length target \<and>
     min 16 (length target) \<le> data_pos st \<and> out_ok hdr src target st \<and>
     match_ok src target (data_pos st) (msize st, moff st) \<and> \<not> bit (ds_val st) 31 \<and>
     (msize st < 4096 \<and> 16 \<le> data_pos st \<longrightarrow>
        ds_val st = fingerprint (take 16 (drop (data_pos st - 16) target)))"

lemma take_Suc_drop:
  "i \<le> p \<Longrightarrow> p < length xs \<Longrightarrow> take (Suc i) (drop (p - i) xs) = take i (drop (p - i) xs) @ [xs ! p]"
  by (simp add: take_Suc_conv_app_nth)

lemma take_extend:
  "i \<le> p \<Longrightarrow> p \<le> length xs \<Longrightarrow> take (p - i) xs @ take i (drop (p - i) xs) = take p xs"
  by (metis le_add_diff_inverse2 take_add)

text \<open>Closing a literal run: its bytes become one data instruction.\<close>

lemma literal_body:
  assumes "delta_body src (take (p - i) target) body" "0 < i" "i \<le> 127" "i \<le> p" "p \<le> length target"
  shows "delta_body src (take p target) (body @ word_of_nat i # take i (drop (p - i) target))"
proof -
  let ?d = "take i (drop (p - i) target)"
  have d: "length ?d = i" "?d \<noteq> []" using assms(2,4,5) by auto
  have "delta_body src ?d (word_of_nat i # ?d)"
    using delta_body_literal[of ?d src] d assms(3) by simp
  from delta_body_append[OF assms(1) this] show ?thesis
    using take_extend[OF assms(4,5)] by simp
qed

lemma update_placeholder: "n = length (hdr @ body) \<Longrightarrow> (hdr @ body @ ph # xs)[n := y] = hdr @ body @ y # xs"
  by (simp add: list_update_append)

lemma literal_step_out:
  assumes "out_ok hdr src target st" "inscnt st < 127" "inscnt st \<le> data_pos st" "data_pos st < length target"
  shows "out_ok hdr src target (literal_step (target ! data_pos st) st)"
proof -
  let ?i = "inscnt st" and ?p = "data_pos st"
  obtain body ph where body: "delta_body src (take (?p - ?i) target) body"
    and out: "if ?i = 0 then ds_out st = hdr @ body
      else data_len_pos st = length (hdr @ body) \<and>
           ds_out st = hdr @ body @ ph # take ?i (drop (?p - ?i) target)"
    using assms(1) unfolding out_ok_def by blast
  define len where "len = (if ?i = 0 then length (ds_out st) else data_len_pos st)"
  define out1 where "out1 = (if ?i = 0 then ds_out st @ [0] else ds_out st) @ [target ! ?p]"
  have out1: "len = length (hdr @ body)"
    "\<exists>ph. out1 = hdr @ body @ ph # take (Suc ?i) (drop (?p - ?i) target)"
    using out take_Suc_drop[OF assms(3,4)] by (auto simp: len_def out1_def split: if_splits)
  have lit: "data_pos (literal_step (target ! ?p) st) = Suc ?p"
    "data_len_pos (literal_step (target ! ?p) st) = len"
    "inscnt (literal_step (target ! ?p) st) = (if Suc ?i = 127 then 0 else Suc ?i)"
    "ds_out (literal_step (target ! ?p) st) = (if Suc ?i = 127 then out1[len := 127] else out1)"
    by (auto simp: literal_step_def Let_def len_def out1_def)
  show ?thesis
  proof (cases "Suc ?i = 127")
    case True
    obtain ph' where ph: "out1 = hdr @ body @ ph' # take (Suc ?i) (drop (?p - ?i) target)"
      using out1(2) by blast
    have "delta_body src (take (Suc ?p) target) (body @ word_of_nat (Suc ?i) # take (Suc ?i) (drop (?p - ?i) target))"
      using literal_body[of src "Suc ?p" "Suc ?i" target body] body assms True by simp
    then show ?thesis
      unfolding out_ok_def lit using True update_placeholder[OF out1(1)] ph by auto
  next
    case False
    then show ?thesis unfolding out_ok_def lit using body out1 by auto
  qed
qed

lemma close_literal_out:
  assumes "out_ok hdr src target st" "inscnt st < 127" "inscnt st \<le> data_pos st"
    "data_pos st \<le> length target" "back \<le> inscnt st"
  shows "\<exists>body. ds_out (close_literal back st) = hdr @ body \<and>
      delta_body src (take (data_pos st - back) target) body"
    "inscnt (close_literal back st) = 0" "data_pos (close_literal back st) = data_pos st - back"
    "ds_val (close_literal back st) = ds_val st"
proof -
  let ?i = "inscnt st" and ?p = "data_pos st"
  show "inscnt (close_literal back st) = 0" "data_pos (close_literal back st) = ?p - back"
    "ds_val (close_literal back st) = ds_val st"
    by (auto simp: close_literal_def Let_def)
  obtain body ph where body: "delta_body src (take (?p - ?i) target) body"
    and out: "if ?i = 0 then ds_out st = hdr @ body
      else data_len_pos st = length (hdr @ body) \<and>
           ds_out st = hdr @ body @ ph # take ?i (drop (?p - ?i) target)"
    using assms(1) unfolding out_ok_def by blast
  show "\<exists>body. ds_out (close_literal back st) = hdr @ body \<and>
      delta_body src (take (?p - back) target) body"
  proof (cases "back = ?i")
    case True
    then have "ds_out (close_literal back st) = hdr @ body"
      using out by (auto simp: close_literal_def Let_def split: if_splits)
    then show ?thesis using body True by blast
  next
    case False
    then have i: "0 < ?i" "0 < ?i - back" using assms(5) by simp_all
    let ?d = "take (?i - back) (drop (?p - ?i) target)"
    have len: "length (take ?i (drop (?p - ?i) target)) = ?i" using assms(3,4) by simp
    have cut: "take (length (ds_out st) - back) (ds_out st) = hdr @ body @ ph # ?d"
      using out i assms(5) len by (simp add: take_Cons' min_def)
    have "ds_out (close_literal back st) = (hdr @ body @ ph # ?d)[data_len_pos st := word_of_nat (?i - back)]"
      using i cut by (auto simp: close_literal_def Let_def)
    also have "\<dots> = hdr @ body @ word_of_nat (?i - back) # ?d"
      using out i by (intro update_placeholder) simp
    finally have "ds_out (close_literal back st) = hdr @ body @ word_of_nat (?i - back) # ?d" .
    moreover have "delta_body src (take (?p - back) target) (body @ word_of_nat (?i - back) # ?d)"
      using literal_body[of src "?p - back" "?i - back" target body] body i assms by simp
    ultimately show ?thesis by auto
  qed
qed

lemma literal_step_simps [simp]:
  "data_pos (literal_step b st) = Suc (data_pos st)" "msize (literal_step b st) = 0"
  "ds_val (literal_step b st) = ds_val st"
  "inscnt (literal_step b st) = (if Suc (inscnt st) = 127 then 0 else Suc (inscnt st))"
  by (auto simp: literal_step_def Let_def)

lemma literal_step_inv:
  assumes "out_ok hdr src target st" "inscnt st < 127" "inscnt st \<le> data_pos st"
    "data_pos st < length target" "min 16 (length target) \<le> data_pos st" "\<not> bit (ds_val st) 31"
    "ds_val st = fingerprint (take 16 (drop (Suc (data_pos st) - 16) target))"
  shows "delta_inv hdr src target (literal_step (target ! data_pos st) st)"
  using assms literal_step_out[OF assms(1-4)] by (auto simp: delta_inv_def)

text \<open>The copy branch, for a match of at least four bytes at the current position.\<close>

lemma copy_step_inv:
  assumes out: "out_ok hdr src target st" and i: "inscnt st < 127" "inscnt st \<le> data_pos st"
    and pos: "data_pos st < length target" "min 16 (length target) \<le> data_pos st"
    and m: "match_ok src target (data_pos st) (msize st, moff st)" "4 \<le> msize st"
    and v: "\<not> bit (ds_val st) 31" and len: "length src < 2 ^ 32"
  shows "\<exists>st'. copy_step src target st = Inr st' \<and> delta_inv hdr src target st' \<and>
    data_pos st < data_pos st'"
proof -
  let ?p = "data_pos st"
  define k where "k = back_extend src target (moff st) ?p (min (inscnt st) (moff st)) 0"
  define off where "off = moff st - k"
  define n where "n = msize st + k"
  define r where "r = n - (n - 0x10000)"
  have k: "k \<le> min (inscnt st) (moff st)" "\<And>j. j < k \<Longrightarrow> src ! (moff st - 1 - j) = target ! (?p - 1 - j)"
    using back_extend_spec[of 0 "min (inscnt st) (moff st)" src "moff st" target ?p] by (auto simp: k_def)
  have bound: "moff st + msize st \<le> length src" "?p + msize st \<le> length target"
    using m by (auto simp: match_ok_def)
  have "take k (drop off src) = take k (drop (?p - k) target)"
    unfolding off_def using k bound i pos by (intro backward_equal) auto
  then have mk: "match_ok src target (?p - k) (n, off)"
    unfolding off_def n_def using m k(1) i(2) by (intro match_ok_back) auto
  have big: "take_bit 32 n = n" "take_bit 32 off = off" "off + n \<le> length src"
    using bound k(1) len by (auto simp: n_def off_def intro!: take_bit_nat_eq_self)
  have r: "k < r" "r \<le> n" "r \<le> 0x10000" using k(1) i(1) m(2) by (auto simp: r_def n_def)
  note close = close_literal_out[OF out i less_imp_le[OF pos(1)], of k]
  obtain body where body: "ds_out (close_literal k st) = hdr @ body"
    "delta_body src (take (?p - k) target) body"
    using close(1) k(1) by auto
  define st1 where "st1 = (close_literal k st)\<lparr>ds_out := push_copy_op (hdr @ body) off r,
    data_pos := ?p - k + r, moff := off + r, msize := n - r\<rparr>"
  have p1: "?p < ?p - k + r" "?p - k + r \<le> length target"
    using r k(1) i(2) mk m(2) by (auto simp: match_ok_def n_def)
  have "delta_body src (take r (drop off src)) (push_copy_op [] off r)"
    using r big(3) len by (intro delta_body_copy) auto
  also have "take r (drop off src) = take r (drop (?p - k) target)"
    using mk r by (auto simp: match_ok_def min_def dest: arg_cong[where f = "take r"])
  finally have "delta_body src (take (?p - k + r) target) (body @ push_copy_op [] off r)"
    using delta_body_append[OF body(2)] by (simp add: take_add)
  then have out1: "out_ok hdr src target (st1\<lparr>ds_val := w\<rparr>)" for w
    using close(2) k(1) by (auto simp: out_ok_def st1_def push_copy_op_append[of "hdr @ body"])
  have rest: "match_ok src target (?p - k + r) (n - r, off + r)"
    using match_ok_split[OF mk r(2)] .
  have left: "n - 0x10000 = n - r" by (auto simp: r_def)
  have fits: "\<not> u32_max < off + r" using big(3) r(2) len by simp
  have ki: "k \<le> inscnt st" using k(1) by simp
  note close = close[OF this]
  have step: "copy_step src target st =
      (if n - r < 4096 \<and> ?p - k + r \<ge> 16
       then and_then (rabin_fold 0 (take 16 (drop (?p - k + r - 16) target))) (\<lambda>v. Inr (st1\<lparr>ds_val := v\<rparr>))
       else Inr st1)"
    unfolding copy_step_def k_def[symmetric] off_def[symmetric] n_def[symmetric] Let_def big(1,2)
      r_def[symmetric]
    unfolding left body(1) close(3)
    by (simp only: st1_def if_not_P[OF fits] RABIN_WINDOW_def) simp
  have inv: "delta_inv hdr src target (st1\<lparr>ds_val := w\<rparr>)"
    if "\<not> bit w 31" "n - r < 4096 \<Longrightarrow> 16 \<le> ?p - k + r \<Longrightarrow>
      w = fingerprint (take 16 (drop (?p - k + r - 16) target))" for w
    using out1[of w] rest p1 pos(2) that close(2) k(1) by (auto simp: delta_inv_def st1_def)
  show ?thesis
  proof (cases "n - r < 4096 \<and> ?p - k + r \<ge> 16")
    case True
    let ?w = "fingerprint (take 16 (drop (?p - k + r - 16) target))"
    have "copy_step src target st = Inr (st1\<lparr>ds_val := ?w\<rparr>)" using step True by (simp add: rabin_fold_ok)
    moreover have "delta_inv hdr src target (st1\<lparr>ds_val := ?w\<rparr>)" by (rule inv) (simp_all add: fp_from_bit31)
    ultimately show ?thesis using p1 by (auto simp: st1_def)
  next
    case False
    have "delta_inv hdr src target (st1\<lparr>ds_val := ds_val st\<rparr>)" using False v by (intro inv) auto
    moreover have "st1\<lparr>ds_val := ds_val st\<rparr> = st1" using close(4) k(1) by (simp add: st1_def)
    ultimately show ?thesis using step False p1 by (auto simp: st1_def)
  qed
qed

lemma roll_ok:
  assumes "16 \<le> p" "p < length target" "\<not> bit v 31"
  shows "\<exists>w. and_then (rabin_remove v (target ! (p - 16))) (\<lambda>v. rabin_update v (target ! p)) = Inr w \<and>
    \<not> bit w 31 \<and> (v = fingerprint (take 16 (drop (p - 16) target)) \<longrightarrow>
       w = fingerprint (take 16 (drop (Suc p - 16) target)))"
proof -
  let ?b = "target ! (p - 16)" and ?w = "take 15 (drop (p - 15) target)"
  have eq: "Suc (p - 16) = p - 15" using assms(1) by simp
  have old: "take 16 (drop (p - 16) target) = ?b # ?w"
    using assms(1,2) Cons_nth_drop_Suc[of "p - 16" target] unfolding eq
    by (metis One_nat_def diff_less_mono2 less_imp_diff_less numeral_eq_Suc pred_numeral_simps(2)
        take_Suc_Cons semiring_norm(26-28) eval_nat_numeral(3))
  have new: "take 16 (drop (Suc p - 16) target) = ?w @ [target ! p]"
  proof -
    have "Suc p - 16 = p - 15" using assms(1) by simp
    moreover have "take (Suc 15) (drop (p - 15) target) = ?w @ [target ! p]"
      using take_Suc_drop[of 15 p target] assms by simp
    ultimately show ?thesis by (simp add: numeral_eq_Suc)
  qed
  have "\<not> bit (v XOR xor_basis U_basis (unat ?b)) 31"
    using assms(3) fp_from_bit31[of 0 "?b # replicate 15 0"]
    by (simp add: bit_xor_iff leaving_def flip: leaving_eq_basis del: fp_from_simps)
  then have upd: "and_then (rabin_remove v ?b) (\<lambda>v. rabin_update v (target ! p)) =
      Inr (fp_step (v XOR xor_basis U_basis (unat ?b)) (target ! p))"
    by (simp add: rabin_remove_ok rabin_update_ok)
  moreover have "fp_step (v XOR xor_basis U_basis (unat ?b)) (target ! p) =
      fingerprint (take 16 (drop (Suc p - 16) target))"
    if "v = fingerprint (take 16 (drop (p - 16) target))"
    using rabin_roll[of ?w ?b "target ! p"] upd that assms unfolding old new by simp
  ultimately show ?thesis by (simp add: fp_step_bit31)
qed

lemma out_ok_search:
  "out_ok hdr src target (st\<lparr>ds_val := w, msize := n, moff := off\<rparr>) = out_ok hdr src target st"
  by (simp add: out_ok_def)

lemma delta_iter_inv:
  assumes inv: "delta_inv hdr (source index) target st" and pos: "data_pos st < length target"
    and wf: "wf_index index" and len: "length (source index) < 2 ^ 32"
  shows "\<exists>st'. delta_iter index target st = Inr st' \<and> delta_inv hdr (source index) target st' \<and>
    data_pos st < data_pos st'"
proof -
  let ?src = "source index" and ?p = "data_pos st"
  have p16: "16 \<le> ?p" using inv pos by (auto simp: delta_inv_def)
  obtain v0 w where v0: "rabin_remove (ds_val st) (target ! (?p - 16)) = Inr v0"
    and w: "rabin_update v0 (target ! ?p) = Inr w" "\<not> bit w 31"
    and roll: "msize st < 4096 \<Longrightarrow> w = fingerprint (take 16 (drop (Suc ?p - 16) target))"
    using roll_ok[OF p16 pos, of "ds_val st"] inv p16 by (auto simp: delta_inv_def and_then_eq_Inr_iff)
  obtain n off where scan: "(if msize st < 4096
      then and_then (bucket_entries index (unat w AND hash_mask index)) (\<lambda>bucket.
             scan_bucket ?src target ?p w bucket (msize st, moff st))
      else Inr (msize st, moff st)) = Inr (n, off)" and m: "match_ok ?src target ?p (n, off)"
    and big: "msize st \<ge> 4096 \<Longrightarrow> n = msize st"
  proof (cases "msize st < 4096")
    case True
    obtain bucket where b: "bucket_entries index (unat w AND hash_mask index) = Inr bucket"
      "\<forall>e \<in> set bucket. ie_offset e < length ?src"
      using wf unfolding wf_index_def by blast
    have "match_ok ?src target ?p (msize st, moff st)" using inv by (simp add: delta_inv_def)
    from scan_bucket_ok[OF less_imp_le[OF pos] len this b(2), of w] that True b(1) show ?thesis by auto
  next
    case False
    then show ?thesis using that inv by (auto simp: delta_inv_def)
  qed
  define st1 where "st1 = st\<lparr>ds_val := w, msize := n, moff := off\<rparr>"
  have out: "out_ok hdr ?src target st1" using inv by (simp add: delta_inv_def st1_def out_ok_search)
  have st1: "inscnt st1 < 127" "inscnt st1 \<le> data_pos st1" "data_pos st1 < length target"
    "min 16 (length target) \<le> data_pos st1" "\<not> bit (ds_val st1) 31"
    using inv pos w(2) by (simp_all add: delta_inv_def st1_def)
  have iter: "delta_iter index target st =
      (if n < 4 then Inr (literal_step (target ! ?p) st1) else copy_step ?src target st1)"
    using p16 v0 w(1) scan by (simp add: delta_iter_def Let_def st1_def)
  show ?thesis
  proof (cases "n < 4")
    case True
    then have "msize st < 4096" using big by fastforce
    then have "ds_val st1 = fingerprint (take 16 (drop (Suc (data_pos st1) - 16) target))"
      using roll by (simp add: st1_def)
    from literal_step_inv[OF out st1 this] show ?thesis using iter True by (simp add: st1_def)
  next
    case False
    then show ?thesis using copy_step_inv[OF out st1(1-4) _ _ st1(5) len] m iter by (simp add: st1_def)
  qed
qed

section \<open>The loop ends and builds a delta\<close>

definition final_out :: "delta_state \<Rightarrow> bytes" where
  "final_out st = (if inscnt st > 0 then (ds_out st)[data_len_pos st := word_of_nat (inscnt st)] else ds_out st)"

lemma final_out_body:
  assumes "delta_inv hdr src target st" "data_pos st = length target"
  shows "\<exists>body. final_out st = hdr @ body \<and> delta_body src target body"
  using assms close_literal_out(1)[of hdr src target st 0]
  by (auto simp: delta_inv_def close_literal_def final_out_def)

lemma create_delta_loop_ok:
  assumes wf: "wf_index index" and len: "length (source index) < 2 ^ 32"
  shows "delta_inv hdr (source index) target st \<Longrightarrow>
    \<exists>st'. delta_inv hdr (source index) target st' \<and> data_pos st' = length target \<and>
      create_delta_loop index target None st = Some (Inr (Some st')) \<and>
      (\<forall>m. create_delta_loop index target (Some m) st \<in> {Some (Inr None), Some (Inr (Some st'))})"
proof (induction "length target - data_pos st" arbitrary: st rule: less_induct)
  case less
  show ?case
  proof (cases "data_pos st < length target")
    case True
    obtain st1 where st1: "delta_iter index target st = Inr st1"
      "delta_inv hdr (source index) target st1" "data_pos st < data_pos st1"
      using delta_iter_inv[OF less.prems True wf len] by blast
    then obtain st' where "delta_inv hdr (source index) target st'" "data_pos st' = length target"
      "create_delta_loop index target None st1 = Some (Inr (Some st'))"
      "\<forall>m. create_delta_loop index target (Some m) st1 \<in> {Some (Inr None), Some (Inr (Some st'))}"
      using less.hyps[of st1] True diff_less_mono2 by meson
    then show ?thesis
      using True st1(1) by (intro exI[of _ st'])
        (auto simp: create_delta_loop.simps[of index target _ st] exceeds_def)
  next
    case False
    then show ?thesis
      using less.prems by (intro exI[of _ st])
        (auto simp: create_delta_loop.simps[of index target _ st] delta_inv_def)
  qed
qed

lemma delta_init_ok:
  assumes "target \<noteq> []"
  shows "\<exists>st. delta_init hdr target = Inr st \<and> delta_inv hdr src target st"
proof -
  let ?n = "min 16 (length target)"
  have "delta_body src (take 0 target) []" by (simp add: delta_body_Nil)
  then show ?thesis
    using assms by (auto simp: delta_init_def Let_def rabin_fold_ok delta_inv_def out_ok_def fp_from_bit31)
qed

lemma create_delta_ok:
  assumes "wf_index index" "length (source index) < 2 ^ 32"
  shows "\<exists>out. create_delta index target None = Some (Inr (Some out)) \<and> delta_of (source index) target out \<and>
    (\<forall>m. create_delta index target (Some m) \<in> {Some (Inr None), Some (Inr (Some out))})"
proof (cases "target = []")
  case True
  then show ?thesis
    by (simp add: create_delta_def Let_def write_varint_eq delta_of_def delta_body_Nil)
next
  case False
  let ?hdr = "write_varint (length target) (write_varint (length (source index)) [])"
  obtain st where st: "delta_init ?hdr target = Inr st" "delta_inv ?hdr (source index) target st"
    using delta_init_ok[OF False] by blast
  obtain st' where st': "delta_inv ?hdr (source index) target st'" "data_pos st' = length target"
      "create_delta_loop index target None st = Some (Inr (Some st'))"
      "\<forall>m. create_delta_loop index target (Some m) st \<in> {Some (Inr None), Some (Inr (Some st'))}"
    using create_delta_loop_ok[OF assms st(2)] by blast
  obtain body where body: "final_out st' = ?hdr @ body" "delta_body (source index) target body"
    using final_out_body[OF st'(1,2)] by blast
  then have "delta_of (source index) target (final_out st')"
    by (simp add: delta_of_def write_varint_eq)
  moreover have "create_delta index target None = Some (Inr (Some (final_out st')))"
    using False st(1) st'(3) by (simp add: create_delta_def Let_def exceeds_def final_out_def)
  moreover have "create_delta index target (Some m) \<in> {Some (Inr None), Some (Inr (Some (final_out st')))}" for m
    using False st(1) st'(4)[rule_format, of m]
    by (auto simp: create_delta_def Let_def final_out_def split: if_splits)
  ultimately show ?thesis by blast
qed

lemma create_delta_max_size:
  assumes "create_delta index target (Some m) = Some (Inr (Some out))" "target \<noteq> []"
  shows "length out \<le> m"
  using assms by (auto simp: create_delta_def Let_def exceeds_def split: sum.splits option.splits if_splits)

section \<open>The literal-only fallback and the entry points\<close>

lemma literal_chunks_body:
  "delta_body src (take pos xs) body \<Longrightarrow> pos \<le> length xs \<Longrightarrow>
   \<exists>body'. literal_chunks xs pos (hdr @ body) = hdr @ body' \<and> delta_body src xs body'"
proof (induction "length xs - pos" arbitrary: pos body rule: less_induct)
  case less
  show ?case
  proof (cases "pos < length xs")
    case True
    let ?c = "min 127 (length xs - pos)"
    let ?d = "take ?c (drop pos xs)"
    have "delta_body src ?d (word_of_nat (length ?d) # ?d)"
      using True by (intro delta_body_literal) auto
    then have "delta_body src (take (pos + ?c) xs) (body @ word_of_nat ?c # ?d)"
      using delta_body_append[OF less.prems(1), of ?d "word_of_nat ?c # ?d"] by (simp add: take_add)
    moreover have "length xs - (pos + ?c) < length xs - pos" "pos + ?c \<le> length xs" using True by auto
    ultimately have "\<exists>body'. literal_chunks xs (pos + ?c) (hdr @ body @ word_of_nat ?c # ?d) = hdr @ body' \<and>
        delta_body src xs body'"
      using less.hyps by blast
    then show ?thesis using True by (subst literal_chunks.simps) (simp add: Let_def)
  next
    case False
    then show ?thesis using less.prems by (subst literal_chunks.simps) auto
  qed
qed

lemma encode_literal_only_delta_of: "delta_of old new (encode_literal_only (length old) new)"
  using literal_chunks_body[of old 0 new "[]" "write_varint (length new) (write_varint (length old) [])"]
  by (auto simp: encode_literal_only_def delta_of_def delta_body_Nil write_varint_eq)

lemma encode_rabin_delta_of:
  assumes "length old < 2 ^ 32"
  shows "\<exists>out. encode_rabin old new = Some (Inr out) \<and> delta_of old new out"
proof -
  consider "new = []" | "new \<noteq> []" "old = []" | "new \<noteq> []" "old \<noteq> []" by blast
  then show ?thesis
  proof cases
    case 1
    then show ?thesis by (simp add: encode_rabin_def delta_of_def write_varint_eq delta_body_Nil)
  next
    case 2
    then show ?thesis using encode_literal_only_delta_of[of old new] by (simp add: encode_rabin_def)
  next
    case 3
    obtain r where r: "create_delta_index old = Inr r" using create_delta_index_total[OF assms] by blast
    show ?thesis
    proof (cases r)
      case None
      then show ?thesis using 3 r encode_literal_only_delta_of[of old new] by (simp add: encode_rabin_def)
    next
      case (Some index)
      then have "wf_index index" "source index = old" using create_delta_index_wf[of old index] r assms by auto
      then show ?thesis
        using create_delta_ok[of index new] assms 3 r Some by (auto simp: encode_rabin_def expect_delta_def)
    qed
  qed
qed

text \<open>Both ways of the Rabin encoder to produce a delta satisfy the interface of an encoder.\<close>

interpretation literal_only: delta_encoder
  "\<lambda>old new. encode_literal_only (length old) new" "\<lambda>old new. length old < 2 ^ 64 \<and> length new < 2 ^ 64"
  by unfold_locales (simp_all add: encode_literal_only_delta_of)

interpretation rabin: delta_encoder
  "\<lambda>old new. projr (the (encode_rabin old new))" "\<lambda>old new. length old < 2 ^ 32 \<and> length new < 2 ^ 64"
proof unfold_locales
  show "delta_of old new (projr (the (encode_rabin old new)))"
    if "length old < 2 ^ 32 \<and> length new < 2 ^ 64" for old new
    using encode_rabin_delta_of[of old new] that by auto
qed auto

section \<open>Properties\<close>

text \<open>C7: the Rabin encoder is correct.  For every source below 4 GiB and every target the encoder
  ends without a panic, and the decoder rebuilds exactly the target from its delta; the sizes that
  the pack decoder reads from the delta are the sizes of the two buffers, and the delta is rejected
  for a base of any other length.\<close>

theorem encode_rabin_roundtrip:
  assumes "length old < 2 ^ 32" "length new < 2 ^ 64"
  shows "\<exists>out. encode_rabin old new = Some (Inr out) \<and> delta_decode out old = Inr new \<and>
    (\<exists>body. read_delta_object_size out = Inr ((length old, length new), body)) \<and>
    (\<forall>base. length base \<noteq> length old \<longrightarrow> \<not> is_ok (delta_decode out base))"
proof -
  obtain out where out: "encode_rabin old new = Some (Inr out)"
    using encode_rabin_delta_of[OF assms(1)] by blast
  then have "projr (the (encode_rabin old new)) = out" by simp
  then show ?thesis
    using rabin.decode_encode[of old new] rabin.header_sizes[of old new]
      rabin.wrong_base_rejected[of old new] out assms by auto
qed

theorem encode_rabin_roundtrip_witness:
  "\<exists>out. encode_rabin [1, 2, 3] [1, 2, 3, 4] = Some (Inr out) \<and>
         delta_decode out [1, 2, 3] = Inr [1, 2, 3, 4]"
  using encode_rabin_roundtrip[of "[1, 2, 3]" "[1, 2, 3, 4]"] by auto

text \<open>candidate scoring with a size limit.  For every well-formed index over a source below 4 GiB
  the encoder always ends without a panic; without a limit it returns a delta, and with a limit it
  returns either nothing or that same delta, which then does not exceed the limit.  The delta decodes
  to the target in every case.\<close>

theorem create_delta_limit:
  assumes "wf_index index" "length (source index) < 2 ^ 32" "length target < 2 ^ 64" "target \<noteq> []"
  shows "\<exists>out. encode_rabin_with_index index target = Some (Inr out) \<and>
    delta_decode out (source index) = Inr target \<and>
    (encode_rabin_with_index_and_max_size index target m = Some (Inr None) \<or>
     encode_rabin_with_index_and_max_size index target m = Some (Inr (Some out)) \<and> length out \<le> m)"
proof -
  obtain out where out: "create_delta index target None = Some (Inr (Some out))"
    "delta_of (source index) target out"
    "create_delta index target (Some m) \<in> {Some (Inr None), Some (Inr (Some out))}"
    using create_delta_ok[OF assms(1,2)] by blast
  have "delta_decode out (source index) = Inr target"
    using delta_of_decode[OF out(2)] assms(2,3) by simp
  moreover have "encode_rabin_with_index_and_max_size index target m = create_delta index target (Some m)"
    using assms(4) by (simp add: encode_rabin_with_index_and_max_size_def)
  ultimately show ?thesis
    using out(1,3) create_delta_max_size[of index target m out] assms(4)
    by (auto simp: encode_rabin_with_index_def expect_delta_def)
qed

theorem create_delta_limit_witness:
  "\<exists>index out. create_delta_index (replicate 40 1) = Inr (Some index) \<and>
     encode_rabin_with_index index [5] = Some (Inr out) \<and> delta_decode out (source index) = Inr [5]"
proof -
  have len: "length (replicate 40 (1 :: byte)) < 2 ^ 32" by simp
  obtain index where i: "create_delta_index (replicate 40 1) = Inr (Some index)"
    using create_delta_index_spec[OF _ len] by auto
  then have "wf_index index" "source index = replicate 40 1" using create_delta_index_wf[OF _ len] by auto
  then show ?thesis using create_delta_limit[of index "[5]" 0] i by auto
qed

end
