(* ===== verification/Rust_Slices.thy ===== *)
theory Rust_Slices
  imports Rust_Text
begin

text \<open>
  Searching and splitting byte slices, and UTF-8 text.  A Rust \<open>String\<close> is the list of its bytes,
  which the type keeps valid UTF-8; \<open>utf8_valid\<close> is that invariant and the test of
  \<open>String::from_utf8\<close>, \<open>from_utf8_lossy\<close> the conversion that replaces every ill-formed sequence by
  U+FFFD.  \<open>memchr\<close> and \<open>find_bytes\<close> return the first occurrence (\<open>memchr::memchr\<close>,
  \<open>find_byte\<close>, \<open>find\<close>), \<open>text_lines\<close> the lines without their terminators (\<open>lines\<close>).
\<close>

section \<open>Searching\<close>

fun memchr :: "byte \<Rightarrow> bytes \<Rightarrow> nat option" where
  "memchr c [] = None"
| "memchr c (b # s) = (if b = c then Some 0 else map_option Suc (memchr c s))"

fun find_bytes :: "bytes \<Rightarrow> bytes \<Rightarrow> nat option" where
  "find_bytes p [] = (if p = [] then Some 0 else None)"
| "find_bytes p (b # s) = (if prefix p (b # s) then Some 0 else map_option Suc (find_bytes p s))"

definition strip_prefix :: "bytes \<Rightarrow> bytes \<Rightarrow> bytes option" where
  "strip_prefix p s = (if prefix p s then Some (drop (length p) s) else None)"

definition strip_suffix :: "bytes \<Rightarrow> bytes \<Rightarrow> bytes option" where
  "strip_suffix p s = (if suffix p s then Some (take (length s - length p) s) else None)"

text \<open>\<open>lines\<close>: split at line feeds, drop one carriage return before each, and no line after a final
  line feed.\<close>

definition strip_cr :: "bytes \<Rightarrow> bytes" where
  "strip_cr l = (case strip_suffix [13] l of None \<Rightarrow> l | Some r \<Rightarrow> r)"

function text_lines :: "bytes \<Rightarrow> bytes list" where
  "text_lines s =
     (if s = [] then []
      else case memchr 10 s of
        None \<Rightarrow> [s]
      | Some i \<Rightarrow> strip_cr (take i s) # text_lines (drop (Suc i) s))"
  by auto
termination
  by (relation "measure length") auto

declare text_lines.simps [simp del]

section \<open>UTF-8\<close>

definition slice_get :: "bytes \<Rightarrow> nat \<Rightarrow> byte" where
  "slice_get s i = (if i < length s then s ! i else 0)"

definition utf8_cont :: "byte \<Rightarrow> bool" where
  "utf8_cont b \<longleftrightarrow> 0x80 \<le> unat b \<and> unat b \<le> 0xBF"

definition utf8_second3 :: "byte \<Rightarrow> byte \<Rightarrow> bool" where
  "utf8_second3 b c \<longleftrightarrow>
     (if unat b = 0xE0 then 0xA0 \<le> unat c \<and> unat c \<le> 0xBF
      else if unat b = 0xED then 0x80 \<le> unat c \<and> unat c \<le> 0x9F
      else utf8_cont c)"

definition utf8_second4 :: "byte \<Rightarrow> byte \<Rightarrow> bool" where
  "utf8_second4 b c \<longleftrightarrow>
     (if unat b = 0xF0 then 0x90 \<le> unat c \<and> unat c \<le> 0xBF
      else if unat b = 0xF4 then 0x80 \<le> unat c \<and> unat c \<le> 0x8F
      else utf8_cont c)"

text \<open>One scalar value at the head of a non-empty slice: whether it is well-formed and how many bytes
  it, or the ill-formed sequence in its place, takes.\<close>

definition utf8_char :: "byte \<Rightarrow> bytes \<Rightarrow> bool \<times> nat" where
  "utf8_char b s =
     (if unat b < 0x80 then (True, 1)
      else if 0xC2 \<le> unat b \<and> unat b \<le> 0xDF then
        (if utf8_cont (slice_get s 0) then (True, 2) else (False, 1))
      else if 0xE0 \<le> unat b \<and> unat b \<le> 0xEF then
        (if \<not> utf8_second3 b (slice_get s 0) then (False, 1)
         else if utf8_cont (slice_get s 1) then (True, 3) else (False, 2))
      else if 0xF0 \<le> unat b \<and> unat b \<le> 0xF4 then
        (if \<not> utf8_second4 b (slice_get s 0) then (False, 1)
         else if \<not> utf8_cont (slice_get s 1) then (False, 2)
         else if utf8_cont (slice_get s 2) then (True, 4) else (False, 3))
      else (False, 1))"

lemma utf8_char_pos: "0 < snd (utf8_char b s)"
  by (simp add: utf8_char_def)

function utf8_valid :: "bytes \<Rightarrow> bool" where
  "utf8_valid [] = True"
| "utf8_valid (b # s) =
     (fst (utf8_char b s) \<and> utf8_valid (drop (snd (utf8_char b s)) (b # s)))"
  by pat_completeness auto
termination
proof (relation "measure length", goal_cases)
  case (2 b s)
  then show ?case using utf8_char_pos[of b s] by simp
qed simp

function from_utf8_lossy :: "bytes \<Rightarrow> bytes" where
  "from_utf8_lossy [] = []"
| "from_utf8_lossy (b # s) =
     (if fst (utf8_char b s) then take (snd (utf8_char b s)) (b # s) else [0xEF, 0xBF, 0xBD])
     @ from_utf8_lossy (drop (snd (utf8_char b s)) (b # s))"
  by pat_completeness auto
termination
proof (relation "measure length", goal_cases)
  case (2 b s)
  then show ?case using utf8_char_pos[of b s] by simp
qed simp

declare utf8_valid.simps(2) [simp del] from_utf8_lossy.simps(2) [simp del]

definition from_utf8 :: "bytes \<Rightarrow> bytes option" where
  "from_utf8 s = (if utf8_valid s then Some s else None)"

text \<open>\<open>str::trim().is_empty()\<close>: only characters with the Unicode property \<open>White_Space\<close>, which take one
  (ASCII), two or three bytes.\<close>

definition is_white_space :: "byte \<Rightarrow> bool" where
  "is_white_space b \<longleftrightarrow> unat b = 32 \<or> (9 \<le> unat b \<and> unat b \<le> 13)"

definition white_space3 :: "nat \<Rightarrow> nat \<Rightarrow> nat \<Rightarrow> bool" where
  "white_space3 a b c \<longleftrightarrow>
     a = 0xE1 \<and> b = 0x9A \<and> c = 0x80 \<or>
     a = 0xE2 \<and> b = 0x80 \<and> (0x80 \<le> c \<and> c \<le> 0x8A \<or> c = 0xA8 \<or> c = 0xA9 \<or> c = 0xAF) \<or>
     a = 0xE2 \<and> b = 0x81 \<and> c = 0x9F \<or>
     a = 0xE3 \<and> b = 0x80 \<and> c = 0x80"

definition white_char :: "bytes \<Rightarrow> nat" where
  "white_char s =
     (if s \<noteq> [] \<and> is_white_space (hd s) then 1
      else if unat (slice_get s 0) = 0xC2 \<and> unat (slice_get s 1) \<in> {0x85, 0xA0} then 2
      else if white_space3 (unat (slice_get s 0)) (unat (slice_get s 1)) (unat (slice_get s 2)) then 3
      else 0)"

function trim_start :: "bytes \<Rightarrow> bytes" where
  "trim_start s = (if s = [] \<or> white_char s = 0 then s else trim_start (drop (white_char s) s))"
  by auto
termination
  by (relation "measure length") auto

declare trim_start.simps [simp del]

definition blank :: "bytes \<Rightarrow> bool" where
  "blank s \<longleftrightarrow> trim_start s = []"

section \<open>Facts about searching\<close>

lemma memchr_append [simp]: "c \<notin> set p \<Longrightarrow> memchr c (p @ c # s) = Some (length p)"
  by (induction p) auto

lemma memchr_eq_None_iff: "memchr c s = None \<longleftrightarrow> c \<notin> set s"
  by (induction s) auto

lemma memchr_eq_Some_iff:
  "memchr c s = Some i \<longleftrightarrow> (\<exists>p r. s = p @ c # r \<and> length p = i \<and> c \<notin> set p)"
proof
  show "memchr c s = Some i \<Longrightarrow> \<exists>p r. s = p @ c # r \<and> length p = i \<and> c \<notin> set p"
  proof (induction s arbitrary: i)
    case (Cons b s)
    show ?case
    proof (cases "b = c")
      case True
      then show ?thesis using Cons.prems by (intro exI[of _ "[]"] exI[of _ s]) simp
    next
      case False
      then obtain j where j: "memchr c s = Some j" "i = Suc j" using Cons.prems by auto
      then obtain p r where "s = p @ c # r" "length p = j" "c \<notin> set p" using Cons.IH by blast
      then show ?thesis using j False by (intro exI[of _ "b # p"] exI[of _ r]) simp
    qed
  qed simp
qed auto

lemma memchr_SomeE:
  assumes "memchr c s = Some i"
  obtains p r where "s = p @ c # r" "i = length p" "c \<notin> set p"
  using assms by (auto simp: memchr_eq_Some_iff)

lemma memchr_less: "memchr c s = Some i \<Longrightarrow> i < length s"
  by (auto elim: memchr_SomeE)

lemma strip_prefix_append [simp]: "strip_prefix p (p @ s) = Some s"
  by (simp add: strip_prefix_def)

lemma strip_prefix_eq_Some_iff: "strip_prefix p s = Some r \<longleftrightarrow> s = p @ r"
  by (auto simp: strip_prefix_def prefix_def)

lemma strip_suffix_append [simp]: "strip_suffix p (s @ p) = Some s"
  by (simp add: strip_suffix_def suffix_def)

lemma strip_suffix_eq_Some_iff: "strip_suffix p s = Some r \<longleftrightarrow> s = r @ p"
  by (auto simp: strip_suffix_def suffix_def)

lemma strip_cr_id: "\<not> suffix [13] l \<Longrightarrow> strip_cr l = l"
  by (simp add: strip_cr_def strip_suffix_def)

lemma text_lines_Nil [simp]: "text_lines [] = []"
  by (subst text_lines.simps) simp

lemma text_lines_line: "10 \<notin> set l \<Longrightarrow> text_lines (l @ 10 # s) = strip_cr l # text_lines s"
  by (subst text_lines.simps) simp

lemma text_lines_last: "10 \<notin> set l \<Longrightarrow> l \<noteq> [] \<Longrightarrow> text_lines l = [l]"
  by (subst text_lines.simps) (simp add: memchr_eq_None_iff[THEN iffD2])

text \<open>The first blank line after a block of non-empty lines.\<close>

lemma find_bytes_eq_Some_iff:
  "find_bytes p s = Some i \<longleftrightarrow>
   prefix p (drop i s) \<and> i \<le> length s \<and> (\<forall>j < i. \<not> prefix p (drop j s))"
proof (induction s arbitrary: i)
  case (Cons b s)
  show ?case
  proof (cases i)
    case (Suc k)
    then show ?thesis using Cons[of k] by (auto simp: All_less_Suc2)
  qed auto
qed auto

section \<open>Facts about UTF-8\<close>

lemma slice_get_append: "i < length s \<Longrightarrow> slice_get (s @ r) i = slice_get s i"
  by (simp add: slice_get_def nth_append)

lemma utf8_cont_get: "utf8_cont (slice_get s i) \<Longrightarrow> i < length s"
  by (auto simp: slice_get_def utf8_cont_def split: if_splits)

lemma utf8_second_get:
  "utf8_second3 b (slice_get s i) \<Longrightarrow> i < length s"
  "utf8_second4 b (slice_get s i) \<Longrightarrow> i < length s"
  by (auto simp: slice_get_def utf8_second3_def utf8_second4_def utf8_cont_def split: if_splits)

text \<open>A well-formed character depends only on the bytes it takes.\<close>

lemma utf8_char_cases:
  assumes "fst (utf8_char b s)"
  obtains "unat b < 0x80"
  | "0xC2 \<le> unat b" "unat b \<le> 0xDF" "utf8_cont (slice_get s 0)"
  | "0xE0 \<le> unat b" "unat b \<le> 0xEF" "utf8_second3 b (slice_get s 0)" "utf8_cont (slice_get s 1)"
  | "0xF0 \<le> unat b" "unat b \<le> 0xF4" "utf8_second4 b (slice_get s 0)" "utf8_cont (slice_get s 1)"
    "utf8_cont (slice_get s 2)"
  using assms unfolding utf8_char_def by (simp split: if_split_asm)

lemma utf8_char_intros:
  "unat b < 0x80 \<Longrightarrow> utf8_char b s = (True, 1)"
  "0xC2 \<le> unat b \<Longrightarrow> unat b \<le> 0xDF \<Longrightarrow> utf8_cont (slice_get s 0) \<Longrightarrow> utf8_char b s = (True, 2)"
  "0xE0 \<le> unat b \<Longrightarrow> unat b \<le> 0xEF \<Longrightarrow> utf8_second3 b (slice_get s 0) \<Longrightarrow>
     utf8_cont (slice_get s 1) \<Longrightarrow> utf8_char b s = (True, 3)"
  "0xF0 \<le> unat b \<Longrightarrow> unat b \<le> 0xF4 \<Longrightarrow> utf8_second4 b (slice_get s 0) \<Longrightarrow>
     utf8_cont (slice_get s 1) \<Longrightarrow> utf8_cont (slice_get s 2) \<Longrightarrow> utf8_char b s = (True, 4)"
  by (simp_all add: utf8_char_def)

lemma utf8_char_local:
  assumes "fst (utf8_char b s)" "\<And>i. i < snd (utf8_char b s) - 1 \<Longrightarrow> slice_get t i = slice_get s i"
  shows "utf8_char b t = utf8_char b s"
  using assms(1)
proof (cases rule: utf8_char_cases)
  case 1
  then show ?thesis by (simp add: utf8_char_intros)
next
  case 2
  then show ?thesis using assms(2)[of 0] by (simp add: utf8_char_intros)
next
  case 3
  then show ?thesis using assms(2)[of 0] assms(2)[of 1] by (simp add: utf8_char_intros)
next
  case 4
  then show ?thesis using assms(2)[of 0] assms(2)[of 1] assms(2)[of 2] by (simp add: utf8_char_intros)
qed

lemma utf8_char_length:
  assumes "fst (utf8_char b s)"
  shows "snd (utf8_char b s) \<le> Suc (length s)"
  using assms
proof (cases rule: utf8_char_cases)
  case 1
  then show ?thesis by (simp add: utf8_char_intros)
next
  case 2
  then show ?thesis using utf8_cont_get[of s 0] by (simp add: utf8_char_intros Suc_le_eq)
next
  case 3
  then show ?thesis using utf8_cont_get[of s 1] by (simp add: utf8_char_intros)
next
  case 4
  then show ?thesis using utf8_cont_get[of s 2] by (simp add: utf8_char_intros)
qed

lemma utf8_char_append:
  assumes "fst (utf8_char b s)"
  shows "utf8_char b (s @ r) = utf8_char b s"
  using assms utf8_char_length[OF assms] by (intro utf8_char_local slice_get_append) auto

lemma utf8_valid_append: "utf8_valid a \<Longrightarrow> utf8_valid (a @ b) \<longleftrightarrow> utf8_valid b"
proof (induction a rule: utf8_valid.induct)
  case (2 c s)
  let ?n = "snd (utf8_char c s)"
  have ok: "fst (utf8_char c s)" "utf8_valid (drop ?n (c # s))"
    using "2.prems" by (simp_all add: utf8_valid.simps)
  have app: "utf8_char c (s @ b) = utf8_char c s" "?n \<le> length (c # s)"
    using utf8_char_append[OF ok(1)] utf8_char_length[OF ok(1)] by simp_all
  have "drop ?n ((c # s) @ b) = drop ?n (c # s) @ b"
    using app(2) by (simp only: drop_append) simp
  then have "utf8_valid ((c # s) @ b) \<longleftrightarrow> utf8_valid (drop ?n (c # s) @ b)"
    using ok(1) app(1) by (simp add: utf8_valid.simps(2))
  then show ?case using "2.IH" ok(2) by simp
qed simp

lemma utf8_valid_appendI: "utf8_valid a \<Longrightarrow> utf8_valid b \<Longrightarrow> utf8_valid (a @ b)"
  by (simp add: utf8_valid_append)

lemma utf8_valid_ascii: "\<forall>b \<in> set s. unat b < 128 \<Longrightarrow> utf8_valid s"
  by (induction s) (simp_all add: utf8_valid.simps(2) utf8_char_def)

lemma utf8_valid_digits: "(\<And>b. b \<in> set s \<Longrightarrow> is_digit b) \<Longrightarrow> utf8_valid s"
  by (rule utf8_valid_ascii) (fastforce simp: is_digit_def)

lemma utf8_valid_decimal [simp]: "utf8_valid (decimal n)"
  by (rule utf8_valid_digits) (rule decimal_digits)

lemma from_utf8_lossy_valid: "utf8_valid s \<Longrightarrow> from_utf8_lossy s = s"
proof (induction s rule: from_utf8_lossy.induct)
  case (2 b s)
  then show ?case by (simp add: utf8_valid.simps(2) from_utf8_lossy.simps(2))
qed simp

lemma utf8_valid_lossy: "utf8_valid (from_utf8_lossy s)"
proof (induction s rule: from_utf8_lossy.induct)
  case (2 b s)
  let ?n = "snd (utf8_char b s)"
  have "utf8_valid [0xEF, 0xBF, 0xBD]"
    by (simp add: utf8_valid.simps(2) utf8_char_def utf8_second3_def utf8_cont_def slice_get_def)
  moreover have "utf8_valid (take ?n (b # s))" if "fst (utf8_char b s)"
  proof -
    obtain m where m: "?n = Suc m" using utf8_char_pos[of b s] by (cases ?n) auto
    have "slice_get (take m s) i = slice_get s i" if "i < m" for i
      using that utf8_char_length[OF \<open>fst (utf8_char b s)\<close>] m by (simp add: slice_get_def)
    then have "utf8_char b (take m s) = utf8_char b s"
      using that m by (intro utf8_char_local) auto
    then show ?thesis using that m by (simp add: utf8_valid.simps(2))
  qed
  ultimately show ?case
    unfolding from_utf8_lossy.simps(2) using 2 by (intro utf8_valid_appendI) (simp_all split: if_split)
qed simp

lemma from_utf8_eq_Some_iff [simp]: "from_utf8 s = Some t \<longleftrightarrow> utf8_valid s \<and> t = s"
  by (auto simp: from_utf8_def)

end
