(* ===== verification/Object_Types.thy ===== *)
theory Object_Types
  imports Rust_Slices
begin

text \<open>
  Object types (\<open>src/src/internal/object/types.rs\<close>) and the crate's error type
  (\<open>src/src/errors.rs\<close>).  Constructors carry a prefix (\<open>OT_\<close>, \<open>GE_\<close>) because Isabelle's constructors
  share one name space.  An object type has three encodings: the three type bits of a pack entry,
  the textual name in object headers, and a number of the crate's own; the actor and artifact
  references of the AI objects are modelled with the validation their constructors do.
\<close>

section \<open>Errors\<close>

datatype GitError =
    GE_InvalidObjectType string
  | GE_InvalidBlobObject string
  | GE_InvalidTreeObject
  | GE_InvalidTreeItem string
  | GE_EmptyTreeItems string
  | GE_InvalidSignatureType string
  | GE_InvalidCommitObject
  | GE_InvalidCommit string
  | GE_InvalidTagObject string
  | GE_InvalidNoteObject string
  | GE_InvalidContextSnapshotObject string
  | GE_InvalidDecisionObject string
  | GE_InvalidEvidenceObject string
  | GE_InvalidPatchSetObject string
  | GE_InvalidPlanObject string
  | GE_InvalidProvenanceObject string
  | GE_InvalidRunObject string
  | GE_InvalidTaskObject string
  | GE_InvalidIntentObject string
  | GE_InvalidToolInvocationObject string
  | GE_InvalidContextFrameObject string
  | GE_InvalidIdxFile string
  | GE_InvalidPackFile string
  | GE_InvalidPackHeader string
  | GE_InvalidIndexFile string
  | GE_InvalidIndexHeader string
  | GE_InvalidArgument string
  | GE_IOError io_error
  | GE_InvalidHashValue string
  | GE_DeltaObjectError string
  | GE_UnCompletedPackObject string
  | GE_InvalidObjectInfo string
  | GE_NotFoundHashValue string
  | GE_EncodeObjectError string
  | GE_ConversionError string
  | GE_InvalidPathError string
  | GE_PackEncodeError string
  | GE_ObjectNotFound string
  | GE_RepoNotFound
  | GE_UnAuthorized string
  | GE_NetworkError string
  | GE_CustomError string

section \<open>Object types\<close>

datatype ObjectType =
    OT_Commit
  | OT_Tree
  | OT_Blob
  | OT_Tag
  | OT_OffsetZstdelta
  | OT_OffsetDelta
  | OT_HashDelta
  | OT_ContextSnapshot
  | OT_Decision
  | OT_Evidence
  | OT_PatchSet
  | OT_Plan
  | OT_Provenance
  | OT_Run
  | OT_Task
  | OT_Intent
  | OT_ToolInvocation
  | OT_ContextFrame
  | OT_IntentEvent
  | OT_TaskEvent
  | OT_RunEvent
  | OT_PlanStepEvent
  | OT_RunUsage

primrec ObjectType_display :: "ObjectType \<Rightarrow> string" where
  "ObjectType_display OT_Commit = ''commit''"
| "ObjectType_display OT_Tree = ''tree''"
| "ObjectType_display OT_Blob = ''blob''"
| "ObjectType_display OT_Tag = ''tag''"
| "ObjectType_display OT_OffsetZstdelta = ''OffsetZstdelta''"
| "ObjectType_display OT_OffsetDelta = ''OffsetDelta''"
| "ObjectType_display OT_HashDelta = ''HashDelta''"
| "ObjectType_display OT_ContextSnapshot = ''snapshot''"
| "ObjectType_display OT_Decision = ''decision''"
| "ObjectType_display OT_Evidence = ''evidence''"
| "ObjectType_display OT_PatchSet = ''patchset''"
| "ObjectType_display OT_Plan = ''plan''"
| "ObjectType_display OT_Provenance = ''provenance''"
| "ObjectType_display OT_Run = ''run''"
| "ObjectType_display OT_Task = ''task''"
| "ObjectType_display OT_Intent = ''intent''"
| "ObjectType_display OT_ToolInvocation = ''invocation''"
| "ObjectType_display OT_ContextFrame = ''context_frame''"
| "ObjectType_display OT_IntentEvent = ''intent_event''"
| "ObjectType_display OT_TaskEvent = ''task_event''"
| "ObjectType_display OT_RunEvent = ''run_event''"
| "ObjectType_display OT_PlanStepEvent = ''plan_step_event''"
| "ObjectType_display OT_RunUsage = ''run_usage''"

definition to_pack_type_u8 :: "ObjectType \<Rightarrow> GitError + nat" where
  "to_pack_type_u8 t =
     (case t of
        OT_Commit \<Rightarrow> Inr 1
      | OT_Tree \<Rightarrow> Inr 2
      | OT_Blob \<Rightarrow> Inr 3
      | OT_Tag \<Rightarrow> Inr 4
      | OT_OffsetZstdelta \<Rightarrow> Inr 5
      | OT_OffsetDelta \<Rightarrow> Inr 6
      | OT_HashDelta \<Rightarrow> Inr 7
      | _ \<Rightarrow> Inl (GE_PackEncodeError (''object type `'' @ ObjectType_display t
               @ ''` cannot be encoded in pack header type bits'')))"

definition from_pack_type_u8 :: "nat \<Rightarrow> GitError + ObjectType" where
  "from_pack_type_u8 number =
     (if number = 1 then Inr OT_Commit
      else if number = 2 then Inr OT_Tree
      else if number = 3 then Inr OT_Blob
      else if number = 4 then Inr OT_Tag
      else if number = 5 then Inr OT_OffsetZstdelta
      else if number = 6 then Inr OT_OffsetDelta
      else if number = 7 then Inr OT_HashDelta
      else Inl (GE_InvalidObjectType (''Invalid pack object type number: '' @ decimal_string number)))"

primrec ObjectType_to_bytes :: "ObjectType \<Rightarrow> bytes option" where
  "ObjectType_to_bytes OT_Commit = Some (ascii ''commit'')"
| "ObjectType_to_bytes OT_Tree = Some (ascii ''tree'')"
| "ObjectType_to_bytes OT_Blob = Some (ascii ''blob'')"
| "ObjectType_to_bytes OT_Tag = Some (ascii ''tag'')"
| "ObjectType_to_bytes OT_ContextSnapshot = Some (ascii ''snapshot'')"
| "ObjectType_to_bytes OT_Decision = Some (ascii ''decision'')"
| "ObjectType_to_bytes OT_Evidence = Some (ascii ''evidence'')"
| "ObjectType_to_bytes OT_PatchSet = Some (ascii ''patchset'')"
| "ObjectType_to_bytes OT_Plan = Some (ascii ''plan'')"
| "ObjectType_to_bytes OT_Provenance = Some (ascii ''provenance'')"
| "ObjectType_to_bytes OT_Run = Some (ascii ''run'')"
| "ObjectType_to_bytes OT_Task = Some (ascii ''task'')"
| "ObjectType_to_bytes OT_Intent = Some (ascii ''intent'')"
| "ObjectType_to_bytes OT_ToolInvocation = Some (ascii ''invocation'')"
| "ObjectType_to_bytes OT_ContextFrame = Some (ascii ''context_frame'')"
| "ObjectType_to_bytes OT_IntentEvent = Some (ascii ''intent_event'')"
| "ObjectType_to_bytes OT_TaskEvent = Some (ascii ''task_event'')"
| "ObjectType_to_bytes OT_RunEvent = Some (ascii ''run_event'')"
| "ObjectType_to_bytes OT_PlanStepEvent = Some (ascii ''plan_step_event'')"
| "ObjectType_to_bytes OT_RunUsage = Some (ascii ''run_usage'')"
| "ObjectType_to_bytes OT_OffsetDelta = None"
| "ObjectType_to_bytes OT_HashDelta = None"
| "ObjectType_to_bytes OT_OffsetZstdelta = None"

definition ObjectType_from_string :: "bytes \<Rightarrow> GitError + ObjectType" where
  "ObjectType_from_string s =
     (if s = ascii ''blob'' then Inr OT_Blob
      else if s = ascii ''tree'' then Inr OT_Tree
      else if s = ascii ''commit'' then Inr OT_Commit
      else if s = ascii ''tag'' then Inr OT_Tag
      else if s = ascii ''snapshot'' then Inr OT_ContextSnapshot
      else if s = ascii ''decision'' then Inr OT_Decision
      else if s = ascii ''evidence'' then Inr OT_Evidence
      else if s = ascii ''patchset'' then Inr OT_PatchSet
      else if s = ascii ''plan'' then Inr OT_Plan
      else if s = ascii ''provenance'' then Inr OT_Provenance
      else if s = ascii ''run'' then Inr OT_Run
      else if s = ascii ''task'' then Inr OT_Task
      else if s = ascii ''intent'' then Inr OT_Intent
      else if s = ascii ''invocation'' then Inr OT_ToolInvocation
      else if s = ascii ''context_frame'' then Inr OT_ContextFrame
      else if s = ascii ''intent_event'' then Inr OT_IntentEvent
      else if s = ascii ''task_event'' then Inr OT_TaskEvent
      else if s = ascii ''run_event'' then Inr OT_RunEvent
      else if s = ascii ''plan_step_event'' then Inr OT_PlanStepEvent
      else if s = ascii ''run_usage'' then Inr OT_RunUsage
      else Inl (GE_InvalidObjectType (latin s)))"

definition ObjectType_to_data :: "ObjectType \<Rightarrow> GitError + bytes" where
  "ObjectType_to_data t =
     (case t of
        OT_Blob \<Rightarrow> Inr (ascii ''blob'')
      | OT_Tree \<Rightarrow> Inr (ascii ''tree'')
      | OT_Commit \<Rightarrow> Inr (ascii ''commit'')
      | OT_Tag \<Rightarrow> Inr (ascii ''tag'')
      | OT_ContextSnapshot \<Rightarrow> Inr (ascii ''snapshot'')
      | OT_Decision \<Rightarrow> Inr (ascii ''decision'')
      | OT_Evidence \<Rightarrow> Inr (ascii ''evidence'')
      | OT_PatchSet \<Rightarrow> Inr (ascii ''patchset'')
      | OT_Plan \<Rightarrow> Inr (ascii ''plan'')
      | OT_Provenance \<Rightarrow> Inr (ascii ''provenance'')
      | OT_Run \<Rightarrow> Inr (ascii ''run'')
      | OT_Task \<Rightarrow> Inr (ascii ''task'')
      | OT_Intent \<Rightarrow> Inr (ascii ''intent'')
      | OT_ToolInvocation \<Rightarrow> Inr (ascii ''invocation'')
      | OT_ContextFrame \<Rightarrow> Inr (ascii ''context_frame'')
      | OT_IntentEvent \<Rightarrow> Inr (ascii ''intent_event'')
      | OT_TaskEvent \<Rightarrow> Inr (ascii ''task_event'')
      | OT_RunEvent \<Rightarrow> Inr (ascii ''run_event'')
      | OT_PlanStepEvent \<Rightarrow> Inr (ascii ''plan_step_event'')
      | OT_RunUsage \<Rightarrow> Inr (ascii ''run_usage'')
      | _ \<Rightarrow> Inl (GE_InvalidObjectType (ObjectType_display t)))"

primrec ObjectType_to_u8 :: "ObjectType \<Rightarrow> nat" where
  "ObjectType_to_u8 OT_Commit = 1"
| "ObjectType_to_u8 OT_Tree = 2"
| "ObjectType_to_u8 OT_Blob = 3"
| "ObjectType_to_u8 OT_Tag = 4"
| "ObjectType_to_u8 OT_OffsetZstdelta = 5"
| "ObjectType_to_u8 OT_OffsetDelta = 6"
| "ObjectType_to_u8 OT_HashDelta = 7"
| "ObjectType_to_u8 OT_ContextSnapshot = 8"
| "ObjectType_to_u8 OT_Decision = 9"
| "ObjectType_to_u8 OT_Evidence = 10"
| "ObjectType_to_u8 OT_PatchSet = 11"
| "ObjectType_to_u8 OT_Plan = 12"
| "ObjectType_to_u8 OT_Provenance = 13"
| "ObjectType_to_u8 OT_Run = 14"
| "ObjectType_to_u8 OT_Task = 15"
| "ObjectType_to_u8 OT_Intent = 16"
| "ObjectType_to_u8 OT_ToolInvocation = 17"
| "ObjectType_to_u8 OT_ContextFrame = 18"
| "ObjectType_to_u8 OT_IntentEvent = 19"
| "ObjectType_to_u8 OT_TaskEvent = 20"
| "ObjectType_to_u8 OT_RunEvent = 21"
| "ObjectType_to_u8 OT_PlanStepEvent = 22"
| "ObjectType_to_u8 OT_RunUsage = 23"

definition ObjectType_from_u8 :: "nat \<Rightarrow> GitError + ObjectType" where
  "ObjectType_from_u8 number =
     (if number = 1 then Inr OT_Commit
      else if number = 2 then Inr OT_Tree
      else if number = 3 then Inr OT_Blob
      else if number = 4 then Inr OT_Tag
      else if number = 5 then Inr OT_OffsetZstdelta
      else if number = 6 then Inr OT_OffsetDelta
      else if number = 7 then Inr OT_HashDelta
      else if number = 8 then Inr OT_ContextSnapshot
      else if number = 9 then Inr OT_Decision
      else if number = 10 then Inr OT_Evidence
      else if number = 11 then Inr OT_PatchSet
      else if number = 12 then Inr OT_Plan
      else if number = 13 then Inr OT_Provenance
      else if number = 14 then Inr OT_Run
      else if number = 15 then Inr OT_Task
      else if number = 16 then Inr OT_Intent
      else if number = 17 then Inr OT_ToolInvocation
      else if number = 18 then Inr OT_ContextFrame
      else if number = 19 then Inr OT_IntentEvent
      else if number = 20 then Inr OT_TaskEvent
      else if number = 21 then Inr OT_RunEvent
      else if number = 22 then Inr OT_PlanStepEvent
      else if number = 23 then Inr OT_RunUsage
      else Inl (GE_InvalidObjectType (''Invalid object type number: '' @ decimal_string number)))"

definition is_base :: "ObjectType \<Rightarrow> bool" where
  "is_base t \<longleftrightarrow> t \<in> {OT_Commit, OT_Tree, OT_Blob, OT_Tag}"

definition is_ai_object :: "ObjectType \<Rightarrow> bool" where
  "is_ai_object t \<longleftrightarrow> t \<in> {OT_ContextSnapshot, OT_Decision, OT_Evidence, OT_PatchSet, OT_Plan, OT_Provenance, OT_Run, OT_Task,
     OT_Intent, OT_ToolInvocation, OT_ContextFrame, OT_IntentEvent, OT_TaskEvent, OT_RunEvent, OT_PlanStepEvent, OT_RunUsage}"

definition is_delta :: "ObjectType \<Rightarrow> bool" where
  "is_delta t \<longleftrightarrow> t \<in> {OT_OffsetZstdelta, OT_OffsetDelta, OT_HashDelta}"

section \<open>Actors and artifacts\<close>

datatype ActorKind =
    Human
  | Agent
  | System
  | McpClient
  | OtherActor bytes

fun ActorKind_display :: "ActorKind \<Rightarrow> bytes" where
  "ActorKind_display Human = ascii ''human''"
| "ActorKind_display Agent = ascii ''agent''"
| "ActorKind_display System = ascii ''system''"
| "ActorKind_display McpClient = ascii ''mcp_client''"
| "ActorKind_display (OtherActor s) = s"

definition ActorKind_from :: "bytes \<Rightarrow> ActorKind" where
  "ActorKind_from s =
     (if s = ascii ''human'' then Human
      else if s = ascii ''agent'' then Agent
      else if s = ascii ''system'' then System
      else if s = ascii ''mcp_client'' then McpClient
      else OtherActor s)"

record ActorRef =
  actor_kind :: ActorKind
  actor_id :: bytes
  display_name :: "bytes option"

definition ActorRef_new :: "ActorKind \<Rightarrow> bytes \<Rightarrow> string + ActorRef" where
  "ActorRef_new kind ident =
     (if blank ident then Inl ''actor id cannot be empty''
      else Inr \<lparr>actor_kind = kind, actor_id = ident, display_name = None\<rparr>)"

definition set_display_name :: "bytes option \<Rightarrow> ActorRef \<Rightarrow> ActorRef" where
  "set_display_name name actor = actor\<lparr>display_name := name\<rparr>"

record ArtifactRef =
  artifact_store :: bytes
  artifact_key :: bytes

definition ArtifactRef_new :: "bytes \<Rightarrow> bytes \<Rightarrow> string + ArtifactRef" where
  "ArtifactRef_new store key =
     (if blank store then Inl ''artifact store cannot be empty''
      else if blank key then Inl ''artifact key cannot be empty''
      else Inr \<lparr>artifact_store = store, artifact_key = key\<rparr>)"

section \<open>Facts\<close>

lemma delta_types [simp]:
  "is_delta OT_OffsetZstdelta" "is_delta OT_OffsetDelta" "is_delta OT_HashDelta"
  by (simp_all add: is_delta_def)

lemma object_type_partition:
  "(is_base t \<or> is_delta t \<or> is_ai_object t) \<and> \<not> (is_base t \<and> is_delta t) \<and>
   \<not> (is_base t \<and> is_ai_object t) \<and> \<not> (is_delta t \<and> is_ai_object t)"
  by (cases t) (simp_all add: is_base_def is_delta_def is_ai_object_def)

lemma to_pack_type_bounds: "to_pack_type_u8 t = Inr n \<Longrightarrow> 1 \<le> n \<and> n < 8"
  by (cases t) (auto simp: to_pack_type_u8_def)

lemma from_pack_to_pack: "to_pack_type_u8 t = Inr n \<Longrightarrow> from_pack_type_u8 n = Inr t"
  by (cases t) (auto simp: from_pack_type_u8_def to_pack_type_u8_def)

lemma to_pack_ok_iff: "is_ok (to_pack_type_u8 t) \<longleftrightarrow> \<not> is_ai_object t"
  by (cases t) (simp_all add: is_ai_object_def to_pack_type_u8_def)

lemma to_pack_from_pack: "from_pack_type_u8 n = Inr t \<Longrightarrow> to_pack_type_u8 t = Inr n"
  by (auto simp: from_pack_type_u8_def to_pack_type_u8_def split: if_splits)

lemma from_u8_to_u8: "ObjectType_from_u8 (ObjectType_to_u8 t) = Inr t"
  by (cases t) (simp_all add: ObjectType_from_u8_def)

lemma to_u8_from_u8: "ObjectType_from_u8 n = Inr t \<Longrightarrow> ObjectType_to_u8 t = n"
  by (auto simp: ObjectType_from_u8_def split: if_splits)

lemma to_bytes_from_string: "ObjectType_to_bytes t = Some s \<Longrightarrow> ObjectType_from_string s = Inr t"
  by (cases t) (auto simp: ObjectType_from_string_def)

lemma from_string_to_bytes: "ObjectType_from_string s = Inr t \<Longrightarrow> ObjectType_to_bytes t = Some s"
  by (auto simp: ObjectType_from_string_def split: if_splits)

lemma to_bytes_eq_None_iff: "ObjectType_to_bytes t = None \<longleftrightarrow> is_delta t"
  by (cases t) (simp_all add: is_delta_def)

lemma to_data_eq_to_bytes:
  "ObjectType_to_data t = ok_or (GE_InvalidObjectType (ObjectType_display t)) (ObjectType_to_bytes t)"
  by (cases t) (simp_all add: ObjectType_to_data_def)

lemma display_eq_to_bytes: "ObjectType_to_bytes t = Some s \<Longrightarrow> ascii (ObjectType_display t) = s"
  by (cases t) auto

section \<open>Properties\<close>

text \<open>C36: the encodings of an object type.  The three families partition the types; the pack type
  bits round-trip in both directions and exist exactly for base and delta types; the textual name
  round-trips in both directions and exists exactly for the types that are not deltas, where it
  agrees with the owned name and with the displayed one; the crate's own number round-trips for
  every type.\<close>

theorem object_type_encodings:
  "((is_base t \<or> is_delta t \<or> is_ai_object t) \<and> \<not> (is_delta t \<and> is_ai_object t) \<and> \<not> (is_base t \<and> is_delta t)) \<and>
   (from_pack_type_u8 n = Inr t \<longleftrightarrow> to_pack_type_u8 t = Inr n) \<and>
   (is_ok (to_pack_type_u8 t) \<longleftrightarrow> \<not> is_ai_object t) \<and>
   (ObjectType_from_string s = Inr t \<longleftrightarrow> ObjectType_to_bytes t = Some s) \<and>
   (ObjectType_to_bytes t = None \<longleftrightarrow> is_delta t) \<and>
   (ObjectType_to_data t = Inr s \<longleftrightarrow> ObjectType_to_bytes t = Some s) \<and>
   (ObjectType_from_u8 n = Inr t \<longleftrightarrow> ObjectType_to_u8 t = n)"
proof (intro conjI)
  show "(is_base t \<or> is_delta t \<or> is_ai_object t)" "\<not> (is_delta t \<and> is_ai_object t)" "\<not> (is_base t \<and> is_delta t)"
    using object_type_partition[of t] by auto
  show "from_pack_type_u8 n = Inr t \<longleftrightarrow> to_pack_type_u8 t = Inr n"
    using from_pack_to_pack to_pack_from_pack by blast
  show "is_ok (to_pack_type_u8 t) \<longleftrightarrow> \<not> is_ai_object t" by (rule to_pack_ok_iff)
  show "ObjectType_from_string s = Inr t \<longleftrightarrow> ObjectType_to_bytes t = Some s"
    using to_bytes_from_string from_string_to_bytes by blast
  show "ObjectType_to_bytes t = None \<longleftrightarrow> is_delta t" by (rule to_bytes_eq_None_iff)
  show "ObjectType_to_data t = Inr s \<longleftrightarrow> ObjectType_to_bytes t = Some s" by (simp add: to_data_eq_to_bytes)
  show "ObjectType_from_u8 n = Inr t \<longleftrightarrow> ObjectType_to_u8 t = n"
    using from_u8_to_u8 to_u8_from_u8 by blast
qed

end
