(* ===== verification/Hash_Ids.thy ===== *)
theory Hash_Ids
  imports Object_Types "HOL-Library.List_Lexorder"
begin

text \<open>
  Object ids (\<open>src/src/hash.rs\<close>), the streaming hasher (\<open>HashAlgorithm\<close> of \<open>src/src/utils.rs\<close>) and the
  computation of object ids (\<open>src/src/internal/pack/utils.rs\<close>).

  Third-party code is a parameter: \<open>digest kind data\<close> stands for the digest crates (SHA-1, SHA-256,
  BLAKE3), \<open>hex_encode\<close> and \<open>hex_decode\<close> for the \<open>hex\<close> crate.  \<open>digest_ok\<close> and \<open>hex_ok\<close> state what
  their documentation promises: the digest length of each algorithm; that decoding inverts encoding,
  that encoding doubles the length and produces hexadecimal digits, and that a successful decoding
  halves the length.  The thread-local hash kind is the explicit parameter \<open>current\<close>.

  \<open>from_stream_for_kind\<close> reads from an in-memory stream, where \<open>read\<close> returns what is left; the
  transport errors of a live reader are not modelled.
\<close>

section \<open>Kinds\<close>

datatype HashKind = KSha1 | KSha256 | KBlake3

definition HashKind_default :: HashKind where
  "HashKind_default = KSha1"

fun hash_size :: "HashKind \<Rightarrow> nat" where
  "hash_size KSha1 = 20"
| "hash_size KSha256 = 32"
| "hash_size KBlake3 = 32"

definition hex_len :: "HashKind \<Rightarrow> nat" where
  "hex_len kind = hash_size kind * 2"

fun HashKind_as_str :: "HashKind \<Rightarrow> bytes" where
  "HashKind_as_str KSha1 = ascii ''sha1''"
| "HashKind_as_str KSha256 = ascii ''sha256''"
| "HashKind_as_str KBlake3 = ascii ''blake3''"

fun is_git_standard :: "HashKind \<Rightarrow> bool" where
  "is_git_standard KSha1 = True"
| "is_git_standard KSha256 = True"
| "is_git_standard KBlake3 = False"

text \<open>\<open>u8::to_ascii_lowercase\<close>.\<close>

definition to_lower :: "byte \<Rightarrow> byte" where
  "to_lower b = (if 65 \<le> unat b \<and> unat b \<le> 90 then b + 32 else b)"

definition HashKind_from_str :: "bytes \<Rightarrow> string + HashKind" where
  "HashKind_from_str s =
     (let l = map to_lower s in
      if l = ascii ''sha1'' then Inr KSha1
      else if l = ascii ''sha256'' then Inr KSha256
      else if l = ascii ''blake3'' then Inr KBlake3
      else Inl ''Invalid hash kind'')"

section \<open>Errors\<close>

datatype HashError =
    InvalidLength string HashKind nat nat
  | InvalidHex string HashKind nat nat string
  | KindMismatch string HashKind HashKind nat nat
  | UnknownKind string bytes nat nat
  | UnsupportedObjectType string HashKind ObjectType nat nat nat

text \<open>\<open>From<HashError> for io::Error\<close>: the kind of the resulting error; the text is the error's own.\<close>

fun HashError_to_io :: "HashError \<Rightarrow> io_error" where
  "HashError_to_io (InvalidLength op k e a) =
     (if op = ''from_stream_for_kind'' then UnexpectedEof else InvalidData op)"
| "HashError_to_io (InvalidHex op k e a m) = InvalidData op"
| "HashError_to_io (KindMismatch op k k' e a) = InvalidData op"
| "HashError_to_io (UnknownKind op t a h) = InvalidData op"
| "HashError_to_io (UnsupportedObjectType op k t e a p) = InvalidData op"

section \<open>Object ids\<close>

datatype ObjectHash =
    HSha1 bytes
  | HSha256 bytes
  | HBlake3 bytes

fun as_ref :: "ObjectHash \<Rightarrow> bytes" where
  "as_ref (HSha1 b) = b"
| "as_ref (HSha256 b) = b"
| "as_ref (HBlake3 b) = b"

fun hash_kind :: "ObjectHash \<Rightarrow> HashKind" where
  "hash_kind (HSha1 _) = KSha1"
| "hash_kind (HSha256 _) = KSha256"
| "hash_kind (HBlake3 _) = KBlake3"

text \<open>The constructor a kind selects.\<close>

fun hash_of :: "HashKind \<Rightarrow> bytes \<Rightarrow> ObjectHash" where
  "hash_of KSha1 b = HSha1 b"
| "hash_of KSha256 b = HSha256 b"
| "hash_of KBlake3 b = HBlake3 b"

text \<open>The arrays of the Rust type have the length of their kind.\<close>

definition wf_hash :: "ObjectHash \<Rightarrow> bool" where
  "wf_hash h \<longleftrightarrow> length (as_ref h) = hash_size (hash_kind h)"

definition zero_for_kind :: "HashKind \<Rightarrow> ObjectHash" where
  "zero_for_kind kind = hash_of kind (replicate (hash_size kind) 0)"

definition ensure_kind :: "ObjectHash \<Rightarrow> HashKind \<Rightarrow> HashError + unit" where
  "ensure_kind h expected =
     (if hash_kind h = expected then Inr ()
      else Inl (KindMismatch ''ensure_kind'' expected (hash_kind h)
                  (hash_size expected) (hash_size (hash_kind h))))"

definition from_bytes_for_kind :: "HashKind \<Rightarrow> bytes \<Rightarrow> HashError + ObjectHash" where
  "from_bytes_for_kind kind bs =
     (if length bs \<noteq> hash_size kind
      then Inl (InvalidLength ''from_bytes_for_kind'' kind (hash_size kind) (length bs))
      else Inr (hash_of kind bs))"

definition from_bytes :: "HashKind \<Rightarrow> bytes \<Rightarrow> string + ObjectHash" where
  "from_bytes current bs =
     map_err (\<lambda>_. ''Invalid byte length: got '' @ decimal_string (length bs) @ '', expected ''
                @ decimal_string (hash_size current)) (from_bytes_for_kind current bs)"

definition from_bytes_infer_kind :: "bytes \<Rightarrow> string + ObjectHash" where
  "from_bytes_infer_kind bs =
     (if length bs = 20 then Inr (HSha1 bs)
      else if length bs = 32 then Inr (HSha256 bs)
      else Inl (''Invalid byte length: got '' @ decimal_string (length bs)
                @ '', expected 20 (SHA-1) or 32 (SHA-256)''))"

definition from_hex_for_kind ::
  "(bytes \<Rightarrow> string + bytes) \<Rightarrow> HashKind \<Rightarrow> bytes \<Rightarrow> HashError + ObjectHash" where
  "from_hex_for_kind hex_decode kind hex_str =
     (if length hex_str \<noteq> hex_len kind
      then Inl (InvalidLength ''from_hex_for_kind'' kind (hex_len kind) (length hex_str))
      else
        and_then (map_err (InvalidHex ''from_hex_for_kind'' kind (hex_len kind) (length hex_str))
            (hex_decode hex_str)) (\<lambda>bs. from_bytes_for_kind kind bs))"

text \<open>\<open>FromStr\<close>: the kind is inferred from the length.\<close>

definition ObjectHash_from_str :: "(bytes \<Rightarrow> string + bytes) \<Rightarrow> bytes \<Rightarrow> string + ObjectHash" where
  "ObjectHash_from_str hex_decode s =
     (if length s = 40 \<or> length s = 64 then
        (let kind = (if length s = 40 then KSha1 else KSha256) in
         and_then (hex_decode s) (\<lambda>bs.
           map_err (\<lambda>_. ''from_bytes_for_kind'') (from_bytes_for_kind kind bs)))
      else Inl ''Invalid hash length'')"

definition hash_to_string :: "(bytes \<Rightarrow> bytes) \<Rightarrow> ObjectHash \<Rightarrow> bytes" where
  "hash_to_string hex_encode h = hex_encode (as_ref h)"

definition to_tagged_string :: "(bytes \<Rightarrow> bytes) \<Rightarrow> ObjectHash \<Rightarrow> bytes" where
  "to_tagged_string hex_encode h =
     HashKind_as_str (hash_kind h) @ ascii '':'' @ hash_to_string hex_encode h"

text \<open>\<open>str::split_once\<close> at the first occurrence of a byte.\<close>

fun split_once :: "byte \<Rightarrow> bytes \<Rightarrow> (bytes \<times> bytes) option" where
  "split_once c [] = None"
| "split_once c (b # s) =
     (if b = c then Some ([], s) else map_option (\<lambda>(l, r). (b # l, r)) (split_once c s))"

definition from_tagged_str :: "(bytes \<Rightarrow> string + bytes) \<Rightarrow> bytes \<Rightarrow> HashError + ObjectHash" where
  "from_tagged_str hex_decode tagged =
     and_then (ok_or (UnknownKind ''from_tagged_str'' tagged (length tagged) 0)
         (split_once (byte_of_char (CHR '':'')) tagged))
       (\<lambda>(tag, hex_str).
         and_then (map_err (\<lambda>_. UnknownKind ''from_tagged_str'' tag (length tag) (length hex_str))
             (HashKind_from_str tag))
           (\<lambda>kind. from_hex_for_kind hex_decode kind hex_str))"

definition from_stream_for_kind :: "HashKind \<Rightarrow> bytes \<Rightarrow> HashError + ObjectHash \<times> bytes" where
  "from_stream_for_kind kind s =
     (let expected = hash_size kind; filled = min expected (length s) in
      if filled \<noteq> expected then Inl (InvalidLength ''from_stream_for_kind'' kind expected filled)
      else and_then (from_bytes_for_kind kind (take expected s)) (\<lambda>h. Inr (h, drop expected s)))"

definition from_stream :: "HashKind \<Rightarrow> bytes \<Rightarrow> io_error + ObjectHash \<times> bytes" where
  "from_stream current s =
     and_then (read_exact (hash_size current) s) (\<lambda>(bs, r).
       and_then (map_err HashError_to_io (from_bytes_for_kind current bs)) (\<lambda>h. Inr (h, r)))"

section \<open>Hashing\<close>

text \<open>The streaming hasher: its kind and the data it has absorbed.\<close>

record HashAlgorithm =
  ha_kind :: HashKind
  absorbed :: bytes

definition new_for_kind :: "HashKind \<Rightarrow> HashAlgorithm" where
  "new_for_kind kind = \<lparr>ha_kind = kind, absorbed = []\<rparr>"

definition hasher_update :: "bytes \<Rightarrow> HashAlgorithm \<Rightarrow> HashAlgorithm" where
  "hasher_update data h = h\<lparr>absorbed := absorbed h @ data\<rparr>"

definition hasher_finalize :: "(HashKind \<Rightarrow> bytes \<Rightarrow> bytes) \<Rightarrow> HashAlgorithm \<Rightarrow> bytes" where
  "hasher_finalize digest h = digest (ha_kind h) (absorbed h)"

definition finalize_object_hash :: "(HashKind \<Rightarrow> bytes \<Rightarrow> bytes) \<Rightarrow> HashAlgorithm \<Rightarrow> ObjectHash" where
  "finalize_object_hash digest h = hash_of (ha_kind h) (hasher_finalize digest h)"

definition ObjectHash_new_for_kind ::
  "(HashKind \<Rightarrow> bytes \<Rightarrow> bytes) \<Rightarrow> HashKind \<Rightarrow> bytes \<Rightarrow> ObjectHash" where
  "ObjectHash_new_for_kind digest kind data =
     finalize_object_hash digest (hasher_update data (new_for_kind kind))"

definition from_type_and_data_for_kind ::
  "(HashKind \<Rightarrow> bytes \<Rightarrow> bytes) \<Rightarrow> HashKind \<Rightarrow> ObjectType \<Rightarrow> bytes \<Rightarrow> HashError + ObjectHash" where
  "from_type_and_data_for_kind digest kind object_type data =
     and_then (ok_or (UnsupportedObjectType ''from_type_and_data_for_kind'' kind object_type
                        (hash_size kind) 0 (length data)) (ObjectType_to_bytes object_type))
       (\<lambda>type_bytes.
         let hasher = new_for_kind kind;
             hasher = hasher_update type_bytes hasher;
             hasher = hasher_update (ascii '' '') hasher;
             hasher = hasher_update (decimal (length data)) hasher;
             hasher = hasher_update [0] hasher;
             hasher = hasher_update data hasher in
         Inr (finalize_object_hash digest hasher))"

text \<open>The legacy entry point; \<open>to_data().unwrap()\<close> panics on delta types.\<close>

definition from_type_and_data ::
  "(HashKind \<Rightarrow> bytes \<Rightarrow> bytes) \<Rightarrow> HashKind \<Rightarrow> ObjectType \<Rightarrow> bytes \<Rightarrow> io_error + ObjectHash" where
  "from_type_and_data digest current object_type data =
     and_then (map_err (\<lambda>_. Panic ''unwrap on InvalidObjectType'') (ObjectType_to_data object_type))
       (\<lambda>t. Inr (ObjectHash_new_for_kind digest current
                   (t @ ascii '' '' @ decimal (length data) @ [0] @ data)))"

text \<open>\<open>decimal_usize_bytes\<close>: the digits are written from the end of the buffer.\<close>

fun decimal_usize_loop :: "nat \<Rightarrow> bytes \<Rightarrow> bytes" where
  "decimal_usize_loop v buf =
     (if v > 0 then decimal_usize_loop (v div 10) (word_of_nat (48 + v mod 10) # buf)
      else buf)"

declare decimal_usize_loop.simps [simp del]

definition decimal_usize_bytes :: "nat \<Rightarrow> bytes" where
  "decimal_usize_bytes n = (if n = 0 then ascii ''0'' else decimal_usize_loop n [])"

definition hash_loose_object ::
  "(HashKind \<Rightarrow> bytes \<Rightarrow> bytes) \<Rightarrow> HashAlgorithm \<Rightarrow> bytes \<Rightarrow> bytes \<Rightarrow> ObjectHash" where
  "hash_loose_object digest hasher type_bytes data =
     (let hasher = hasher_update type_bytes hasher;
          hasher = hasher_update (ascii '' '') hasher;
          hasher = hasher_update (decimal_usize_bytes (length data)) hasher;
          hasher = hasher_update [0] hasher;
          hasher = hasher_update data hasher in
      finalize_object_hash digest hasher)"

definition calculate_object_hash_for_kind ::
  "(HashKind \<Rightarrow> bytes \<Rightarrow> bytes) \<Rightarrow> HashKind \<Rightarrow> ObjectType \<Rightarrow> bytes \<Rightarrow> HashError + ObjectHash" where
  "calculate_object_hash_for_kind digest kind obj_type data =
     and_then (ok_or (UnsupportedObjectType ''calculate_object_hash_for_kind'' kind obj_type
                        (hash_size kind) 0 (length data)) (ObjectType_to_bytes obj_type))
       (\<lambda>type_bytes. Inr (hash_loose_object digest (new_for_kind kind) type_bytes data))"

definition calculate_object_hash ::
  "(HashKind \<Rightarrow> bytes \<Rightarrow> bytes) \<Rightarrow> HashKind \<Rightarrow> ObjectType \<Rightarrow> bytes \<Rightarrow> io_error + ObjectHash" where
  "calculate_object_hash digest current obj_type data =
     and_then (ok_or (Panic ''calculate_object_hash called with a delta type that has no loose-object header'')
         (ObjectType_to_bytes obj_type))
       (\<lambda>type_bytes. Inr (hash_loose_object digest (new_for_kind current) type_bytes data))"

section \<open>What the crates promise\<close>

definition digest_ok :: "(HashKind \<Rightarrow> bytes \<Rightarrow> bytes) \<Rightarrow> bool" where
  "digest_ok digest \<longleftrightarrow> (\<forall>kind data. length (digest kind data) = hash_size kind)"

definition is_hex_digit :: "byte \<Rightarrow> bool" where
  "is_hex_digit b \<longleftrightarrow> is_digit b \<or> (97 \<le> unat b \<and> unat b \<le> 102)"

definition hex_ok :: "(bytes \<Rightarrow> bytes) \<Rightarrow> (bytes \<Rightarrow> string + bytes) \<Rightarrow> bool" where
  "hex_ok hex_encode hex_decode \<longleftrightarrow>
     (\<forall>b. hex_decode (hex_encode b) = Inr b \<and> length (hex_encode b) = 2 * length b \<and>
          list_all is_hex_digit (hex_encode b)) \<and>
     (\<forall>s b. hex_decode s = Inr b \<longrightarrow> length s = 2 * length b)"

section \<open>The order of ids\<close>

text \<open>\<open>derive(Ord)\<close>: first the variant, then the bytes lexicographically.\<close>

fun kind_index :: "HashKind \<Rightarrow> nat" where
  "kind_index KSha1 = 0"
| "kind_index KSha256 = 1"
| "kind_index KBlake3 = 2"

lemma kind_index_eq_iff [simp]: "kind_index a = kind_index b \<longleftrightarrow> a = b"
  by (cases a; cases b) simp_all

lemma hash_eq_iff: "h = h' \<longleftrightarrow> hash_kind h = hash_kind h' \<and> as_ref h = as_ref h'"
  by (cases h; cases h') simp_all

instantiation ObjectHash :: linorder
begin

definition less_eq_ObjectHash :: "ObjectHash \<Rightarrow> ObjectHash \<Rightarrow> bool" where
  "less_eq_ObjectHash h h' \<longleftrightarrow> kind_index (hash_kind h) < kind_index (hash_kind h') \<or>
     hash_kind h = hash_kind h' \<and> as_ref h \<le> as_ref h'"

definition less_ObjectHash :: "ObjectHash \<Rightarrow> ObjectHash \<Rightarrow> bool" where
  "less_ObjectHash h h' \<longleftrightarrow> h \<le> h' \<and> h \<noteq> h'"

instance
  by standard (auto simp: less_eq_ObjectHash_def less_ObjectHash_def hash_eq_iff)

end

lemma less_eq_same_kind: "hash_kind h = hash_kind h' \<Longrightarrow> h \<le> h' \<longleftrightarrow> as_ref h \<le> as_ref h'"
  by (simp add: less_eq_ObjectHash_def)

section \<open>Facts\<close>

lemma hash_of_simps [simp]: "hash_kind (hash_of kind b) = kind" "as_ref (hash_of kind b) = b"
  by (cases kind; simp)+

lemma hash_of_as_ref [simp]: "hash_of (hash_kind h) (as_ref h) = h"
  by (cases h) simp_all

lemma wf_hash_hash_of [simp]: "wf_hash (hash_of kind b) \<longleftrightarrow> length b = hash_size kind"
  by (simp add: wf_hash_def)

lemma hash_size_pos [simp]: "0 < hash_size kind"
  by (cases kind) simp_all

lemma hash_size_cases: "hash_size kind = 20 \<or> hash_size kind = 32"
  by (cases kind) simp_all

lemma from_bytes_for_kind_iff:
  "from_bytes_for_kind kind b = Inr h \<longleftrightarrow> hash_kind h = kind \<and> as_ref h = b \<and> wf_hash h"
  by (cases h; cases kind) (auto simp: from_bytes_for_kind_def wf_hash_def)

lemma from_bytes_as_ref: "wf_hash h \<Longrightarrow> from_bytes_for_kind (hash_kind h) (as_ref h) = Inr h"
  by (simp add: from_bytes_for_kind_iff)

lemma from_stream_for_kind_iff:
  "from_stream_for_kind kind s = Inr (h, r) \<longleftrightarrow> hash_kind h = kind \<and> wf_hash h \<and> s = as_ref h @ r"
proof
  assume "from_stream_for_kind kind s = Inr (h, r)"
  then have "from_bytes_for_kind kind (take (hash_size kind) s) = Inr h" "r = drop (hash_size kind) s"
    by (auto simp: from_stream_for_kind_def and_then_eq_Inr_iff Let_def split: if_splits)
  then show "hash_kind h = kind \<and> wf_hash h \<and> s = as_ref h @ r"
    unfolding from_bytes_for_kind_iff by (metis append_take_drop_id)
qed (auto simp: from_stream_for_kind_def wf_hash_def Let_def from_bytes_for_kind_def)

lemma from_stream_for_kind_append:
  "wf_hash h \<Longrightarrow> from_stream_for_kind (hash_kind h) (as_ref h @ s) = Inr (h, s)"
  by (simp add: from_stream_for_kind_def wf_hash_def Let_def from_bytes_for_kind_def)

lemma from_stream_for_kind_eq_Inr_iff:
  "from_stream_for_kind kind s = Inr (h, r) \<longleftrightarrow> s = as_ref h @ r \<and> hash_kind h = kind \<and> wf_hash h"
proof
  assume "from_stream_for_kind kind s = Inr (h, r)"
  then have len: "hash_size kind \<le> length s"
    and h: "from_bytes_for_kind kind (take (hash_size kind) s) = Inr h" "r = drop (hash_size kind) s"
    by (auto simp: from_stream_for_kind_def Let_def and_then_eq_Inr_iff split: if_splits)
  then show "s = as_ref h @ r \<and> hash_kind h = kind \<and> wf_hash h"
    by (simp add: from_bytes_for_kind_iff)
qed (auto simp: from_stream_for_kind_append)

lemma hasher_simps [simp]:
  "absorbed (hasher_update d h) = absorbed h @ d" "ha_kind (hasher_update d h) = ha_kind h"
  "absorbed (new_for_kind kind) = []" "ha_kind (new_for_kind kind) = kind"
  by (simp_all add: hasher_update_def new_for_kind_def)

lemma decimal_usize_loop_eq: "0 < n \<Longrightarrow> decimal_usize_loop n buf = decimal n @ buf"
proof (induction n arbitrary: buf rule: decimal_induct)
  case (last n)
  then show ?case
    by (subst decimal_usize_loop.simps, subst decimal_usize_loop.simps, subst decimal.simps) simp
next
  case (more n)
  then have "0 < n div 10" by (simp add: div_greater_zero_iff)
  with more show ?case
    by (subst decimal_usize_loop.simps, subst decimal.simps) simp
qed

lemma decimal_usize_bytes_eq: "decimal_usize_bytes n = decimal n"
proof (cases "n = 0")
  case True
  then show ?thesis
    by (subst decimal.simps) (simp add: decimal_usize_bytes_def ascii_def byte_of_char_def)
qed (simp add: decimal_usize_bytes_def decimal_usize_loop_eq)

text \<open>The content that an object id is the digest of.\<close>

definition loose_object :: "bytes \<Rightarrow> bytes \<Rightarrow> bytes" where
  "loose_object type_bytes data = type_bytes @ ascii '' '' @ decimal (length data) @ [0] @ data"

lemma hash_loose_object_eq:
  "hash_loose_object digest (new_for_kind kind) t data = hash_of kind (digest kind (loose_object t data))"
  by (simp add: hash_loose_object_def Let_def finalize_object_hash_def hasher_finalize_def
      decimal_usize_bytes_eq loose_object_def)

lemma from_type_and_data_for_kind_eq:
  "from_type_and_data_for_kind digest kind t data =
   (case ObjectType_to_bytes t of
      None \<Rightarrow> Inl (UnsupportedObjectType ''from_type_and_data_for_kind'' kind t (hash_size kind) 0 (length data))
    | Some tb \<Rightarrow> Inr (hash_of kind (digest kind (loose_object tb data))))"
  by (simp add: from_type_and_data_for_kind_def Let_def finalize_object_hash_def hasher_finalize_def
      loose_object_def split: option.splits)

lemma split_once_append: "c \<notin> set l \<Longrightarrow> split_once c (l @ c # r) = Some (l, r)"
  by (induction l) auto

lemma split_once_eq_Some_iff: "split_once c s = Some (l, r) \<longleftrightarrow> c \<notin> set l \<and> s = l @ c # r"
proof
  show "split_once c s = Some (l, r) \<Longrightarrow> c \<notin> set l \<and> s = l @ c # r"
    by (induction s arbitrary: l) (auto split: if_splits)
qed (auto simp: split_once_append)

lemma split_once_eq_None_iff: "split_once c s = None \<longleftrightarrow> c \<notin> set s"
  by (induction s) auto

lemma kind_tag_no_colon: "byte_of_char (CHR '':'') \<notin> set (HashKind_as_str kind)"
  by (cases kind) simp_all

lemma HashKind_from_as_str: "HashKind_from_str (HashKind_as_str kind) = Inr kind"
proof -
  have lower: "map to_lower (ascii s) = ascii s" if "\<forall>c \<in> set s. of_char c \<notin> {65..90 :: nat}" for s
    using that by (induction s) (auto simp: ascii_Cons to_lower_def)
  show ?thesis
    by (cases kind) (simp_all add: HashKind_from_str_def lower)
qed

lemma hex_ok_simps:
  assumes "hex_ok enc dec"
  shows "dec (enc b) = Inr b" "length (enc b) = 2 * length b" "list_all is_hex_digit (enc b)"
  using assms by (simp_all add: hex_ok_def)

lemma from_hex_hash_to_string:
  assumes "hex_ok enc dec" "wf_hash h"
  shows "from_hex_for_kind dec (hash_kind h) (hash_to_string enc h) = Inr h"
  using assms hex_ok_simps[OF assms(1)]
  by (simp add: from_hex_for_kind_def hash_to_string_def hex_len_def wf_hash_def from_bytes_for_kind_def)

lemma from_hex_for_kind_kind:
  "from_hex_for_kind dec kind s = Inr h \<Longrightarrow> hash_kind h = kind \<and> wf_hash h \<and> length s = hex_len kind"
  by (auto simp: from_hex_for_kind_def and_then_eq_Inr_iff from_bytes_for_kind_iff split: if_splits)

text \<open>A raw id of a fixed kind is a codec of the byte-stream library.\<close>

interpretation sha1_id: byte_codec as_ref "from_stream_for_kind KSha1" "\<lambda>h. wf_hash h \<and> hash_kind h = KSha1"
  by unfold_locales (metis from_stream_for_kind_append)

interpretation sha256_id: byte_codec as_ref "from_stream_for_kind KSha256" "\<lambda>h. wf_hash h \<and> hash_kind h = KSha256"
  by unfold_locales (metis from_stream_for_kind_append)

interpretation blake3_id: byte_codec as_ref "from_stream_for_kind KBlake3" "\<lambda>h. wf_hash h \<and> hash_kind h = KBlake3"
  by unfold_locales (metis from_stream_for_kind_append)

lemma read_many_ids:
  assumes "\<And>h. h \<in> set hs \<Longrightarrow> wf_hash h \<and> hash_kind h = kind"
  shows "read_many (from_stream_for_kind kind) (length hs) (concat (map as_ref hs) @ s) = Inr (hs, s)"
  using assms sha1_id.dec_many[of hs s] sha256_id.dec_many[of hs s] blake3_id.dec_many[of hs s]
  by (cases kind) auto

section \<open>The content behind an id\<close>

lemma type_bytes_no_space: "ObjectType_to_bytes t = Some tb \<Longrightarrow> byte_of_char (CHR '' '') \<notin> set tb"
  by (cases t) auto

lemma decimal_no_zero: "0 \<notin> set (decimal n)"
  using decimal_digits[of 0 n] by (auto simp: is_digit_def)

lemma loose_object_inj:
  assumes "ObjectType_to_bytes t = Some tb" "ObjectType_to_bytes t' = Some tb'"
    "loose_object tb data = loose_object tb' data'"
  shows "t = t' \<and> data = data'"
proof -
  have sp: "ascii '' '' = [byte_of_char (CHR '' '')]" by (simp add: ascii_def)
  have split: "split_once (byte_of_char (CHR '' '')) (loose_object tb data) = Some (tb, decimal (length data) @ 0 # data)"
    "split_once (byte_of_char (CHR '' '')) (loose_object tb' data') = Some (tb', decimal (length data') @ 0 # data')"
    unfolding loose_object_def sp using assms(1,2) by (simp_all add: split_once_append type_bytes_no_space)
  then have eq: "tb = tb'" "decimal (length data) @ 0 # data = decimal (length data') @ 0 # data'"
    using assms(3) by auto
  then have "split_once 0 (decimal (length data) @ 0 # data) = split_once 0 (decimal (length data') @ 0 # data')"
    by simp
  then have "data = data'" by (simp add: split_once_append decimal_no_zero)
  moreover have "t = t'"
    using eq(1) assms(1,2) to_bytes_from_string[of t] to_bytes_from_string[of t'] by simp
  ultimately show ?thesis by simp
qed

section \<open>Concrete instances of the crates, for witnesses\<close>

definition sample_digest :: "HashKind \<Rightarrow> bytes \<Rightarrow> bytes" where
  "sample_digest kind data = replicate (hash_size kind) (word_of_nat (length data))"

lemma sample_digest_ok: "digest_ok sample_digest"
  by (simp add: digest_ok_def sample_digest_def)

definition sample_nibble :: "nat \<Rightarrow> byte" where
  "sample_nibble n = word_of_nat (if n < 10 then 48 + n else 87 + n)"

definition sample_value :: "byte \<Rightarrow> nat option" where
  "sample_value b = (if is_digit b then Some (unat b - 48)
     else if 97 \<le> unat b \<and> unat b \<le> 102 then Some (unat b - 87) else None)"

fun sample_hex_encode :: "bytes \<Rightarrow> bytes" where
  "sample_hex_encode [] = []"
| "sample_hex_encode (b # s) =
     sample_nibble (unat b div 16) # sample_nibble (unat b mod 16) # sample_hex_encode s"

fun sample_hex_decode :: "bytes \<Rightarrow> string + bytes" where
  "sample_hex_decode [] = Inr []"
| "sample_hex_decode [x] = Inl ''Odd number of digits''"
| "sample_hex_decode (x # y # s) =
     (case (sample_value x, sample_value y) of
        (Some a, Some b) \<Rightarrow> and_then (sample_hex_decode s) (\<lambda>r. Inr (word_of_nat (16 * a + b) # r))
      | _ \<Rightarrow> Inl ''Invalid character'')"

lemma sample_nibble_value:
  assumes "n < 16"
  shows "sample_value (sample_nibble n) = Some n \<and> is_hex_digit (sample_nibble n)"
proof (cases "n < 10")
  case True
  then have "unat (sample_nibble n) = 48 + n" unfolding sample_nibble_def by (simp only: if_True) (rule unat_digit)
  then show ?thesis using True by (simp add: sample_value_def is_hex_digit_def is_digit_def)
next
  case False
  have "unat (word_of_nat (87 + n) :: byte) = 87 + n" using assms by (intro unat_of_nat_byte_small) simp
  then have "unat (sample_nibble n) = 87 + n" unfolding sample_nibble_def using False by (simp only: if_False)
  then show ?thesis using False assms by (simp add: sample_value_def is_hex_digit_def is_digit_def)
qed

lemma sample_hex_ok: "hex_ok sample_hex_encode sample_hex_decode"
proof -
  have nib: "unat (b :: byte) div 16 < 16" "unat b mod 16 < 16" for b
    using unat_byte_less[of b] by (simp_all add: div_less_iff_less_mult)
  have dec: "sample_hex_decode (sample_hex_encode b) = Inr b" for b
  proof (induction b)
    case (Cons x b)
    have "word_of_nat (16 * (unat x div 16) + unat x mod 16) = x" by (simp only: mult_div_mod_eq) simp
    then show ?case using Cons sample_nibble_value[OF nib(1)[of x]] sample_nibble_value[OF nib(2)[of x]]
      by (simp del: of_nat_add of_nat_mult)
  qed simp
  have len: "length (sample_hex_encode b) = 2 * length b \<and> list_all is_hex_digit (sample_hex_encode b)" for b
    by (induction b) (simp_all add: sample_nibble_value nib)
  have half: "sample_hex_decode s = Inr b \<Longrightarrow> length s = 2 * length b" for s b
    by (induction s arbitrary: b rule: sample_hex_decode.induct)
      (auto simp: and_then_eq_Inr_iff split: option.splits)
  show ?thesis using dec len half by (auto simp: hex_ok_def)
qed

section \<open>Properties\<close>

text \<open>C37: ids never change their algorithm.  Raw bytes, streams, hex strings and tagged strings give
  back exactly the id they were written from.  The parsers with an explicit kind accept nothing but ids of
  that kind: raw bytes exactly when they have its length, a stream exactly when it starts with such an id,
  a hex string only with two digits per byte of it, and a tagged string only as an id of the kind its tag
  names.  A 64-digit BLAKE3 id read through the length-inferring parser is not the id that was written.\<close>

theorem object_id_roundtrips:
  assumes "hex_ok hex_encode hex_decode" "wf_hash h"
  shows "from_bytes_for_kind (hash_kind h) (as_ref h) = Inr h \<and>
    from_stream_for_kind (hash_kind h) (as_ref h @ s) = Inr (h, s) \<and>
    from_hex_for_kind hex_decode (hash_kind h) (hash_to_string hex_encode h) = Inr h \<and>
    from_tagged_str hex_decode (to_tagged_string hex_encode h) = Inr h \<and>
    (from_bytes_for_kind kind str = Inr h' \<longleftrightarrow> length str = hash_size kind \<and> h' = hash_of kind str) \<and>
    (from_stream_for_kind kind str = Inr (h', r) \<longleftrightarrow> hash_kind h' = kind \<and> wf_hash h' \<and> str = as_ref h' @ r) \<and>
    (from_hex_for_kind hex_decode kind str = Inr h' \<longrightarrow> hash_kind h' = kind \<and> wf_hash h' \<and> length str = hex_len kind) \<and>
    (from_tagged_str hex_decode str = Inr h' \<longrightarrow> wf_hash h' \<and>
       (\<exists>tag hex_str. str = tag @ ascii '':'' @ hex_str \<and> HashKind_from_str tag = Inr (hash_kind h') \<and>
          from_hex_for_kind hex_decode (hash_kind h') hex_str = Inr h')) \<and>
    (hash_kind h = KBlake3 \<longrightarrow>
       ObjectHash_from_str hex_decode (hash_to_string hex_encode h) = Inr (HSha256 (as_ref h)))"
proof (intro conjI impI)
  show "from_bytes_for_kind (hash_kind h) (as_ref h) = Inr h" using assms(2) by (rule from_bytes_as_ref)
  show "from_stream_for_kind (hash_kind h) (as_ref h @ s) = Inr (h, s)"
    using assms(2) by (rule from_stream_for_kind_append)
  show hexed: "from_hex_for_kind hex_decode (hash_kind h) (hash_to_string hex_encode h) = Inr h"
    using assms by (rule from_hex_hash_to_string)
  have "split_once (byte_of_char (CHR '':'')) (to_tagged_string hex_encode h) =
      Some (HashKind_as_str (hash_kind h), hash_to_string hex_encode h)"
    by (simp add: to_tagged_string_def ascii_def split_once_append kind_tag_no_colon)
  then show "from_tagged_str hex_decode (to_tagged_string hex_encode h) = Inr h"
    using hexed by (simp add: from_tagged_str_def HashKind_from_as_str)
  show "from_bytes_for_kind kind str = Inr h' \<longleftrightarrow> length str = hash_size kind \<and> h' = hash_of kind str"
    by (auto simp: from_bytes_for_kind_def)
  show "from_stream_for_kind kind str = Inr (h', r) \<longleftrightarrow> hash_kind h' = kind \<and> wf_hash h' \<and> str = as_ref h' @ r"
    by (rule from_stream_for_kind_iff)
  show "hash_kind h' = kind" "wf_hash h'" "length str = hex_len kind" if "from_hex_for_kind hex_decode kind str = Inr h'"
    using from_hex_for_kind_kind[OF that] by auto
  assume "from_tagged_str hex_decode str = Inr h'"
  then obtain tag hex_str kind' where t: "split_once (byte_of_char (CHR '':'')) str = Some (tag, hex_str)"
      "HashKind_from_str tag = Inr kind'" "from_hex_for_kind hex_decode kind' hex_str = Inr h'"
    by (auto simp: from_tagged_str_def and_then_eq_Inr_iff)
  then show "wf_hash h'" "\<exists>tag hex_str. str = tag @ ascii '':'' @ hex_str \<and> HashKind_from_str tag = Inr (hash_kind h') \<and>
      from_hex_for_kind hex_decode (hash_kind h') hex_str = Inr h'"
    using from_hex_for_kind_kind[OF t(3)] t(1,2,3) unfolding split_once_eq_Some_iff by (auto simp: ascii_def)
next
  show "ObjectHash_from_str hex_decode (hash_to_string hex_encode h) = Inr (HSha256 (as_ref h))"
    if "hash_kind h = KBlake3"
    using that assms(2) hex_ok_simps[OF assms(1)] by (simp add: ObjectHash_from_str_def hash_to_string_def wf_hash_def
        from_bytes_for_kind_def)
qed

theorem object_id_roundtrips_witness:
  "from_tagged_str sample_hex_decode
     (to_tagged_string sample_hex_encode (HBlake3 (replicate 32 7))) = Inr (HBlake3 (replicate 32 7)) \<and>
   ObjectHash_from_str sample_hex_decode
     (hash_to_string sample_hex_encode (HBlake3 (replicate 32 7))) = Inr (HSha256 (replicate 32 7))"
  using object_id_roundtrips[OF sample_hex_ok, of "HBlake3 (replicate 32 7)"] by (simp add: wf_hash_def)

text \<open>C26: object ids.  The explicit-kind routine, the streaming routine of the pack code and, for the
  current kind, the legacy routine compute the same id, always of the requested kind and length; a
  delta type is refused by the first two and makes the third panic.  The hashed content determines
  the type and the data, so two objects share an id only through a collision of the digest.\<close>

theorem object_id_computation:
  assumes "digest_ok digest"
  shows "case ObjectType_to_bytes t of
      None \<Rightarrow> \<not> is_ok (from_type_and_data_for_kind digest kind t data) \<and>
              \<not> is_ok (calculate_object_hash_for_kind digest kind t data) \<and>
              \<not> is_ok (from_type_and_data digest kind t data)
    | Some tb \<Rightarrow> (\<exists>h. from_type_and_data_for_kind digest kind t data = Inr h \<and>
              calculate_object_hash_for_kind digest kind t data = Inr h \<and>
              calculate_object_hash digest kind t data = Inr h \<and>
              from_type_and_data digest kind t data = Inr h \<and>
              hash_kind h = kind \<and> wf_hash h \<and> as_ref h = digest kind (loose_object tb data) \<and>
              (\<forall>t' tb' data'. ObjectType_to_bytes t' = Some tb' \<and>
                 loose_object tb' data' = loose_object tb data \<longrightarrow> t' = t \<and> data' = data))"
proof (cases "ObjectType_to_bytes t")
  case None
  then show ?thesis
    by (simp add: from_type_and_data_for_kind_def calculate_object_hash_for_kind_def
        from_type_and_data_def to_data_eq_to_bytes)
next
  case (Some tb)
  let ?h = "hash_of kind (digest kind (loose_object tb data))"
  have len: "length (digest kind d) = hash_size kind" for d using assms by (simp add: digest_ok_def)
  show ?thesis
    unfolding Some option.case
  proof (intro exI[of _ ?h] conjI)
    show "from_type_and_data_for_kind digest kind t data = Inr ?h"
      using Some by (simp add: from_type_and_data_for_kind_eq)
    show "calculate_object_hash_for_kind digest kind t data = Inr ?h" "calculate_object_hash digest kind t data = Inr ?h"
      using Some by (simp_all add: calculate_object_hash_for_kind_def calculate_object_hash_def hash_loose_object_eq)
    show "from_type_and_data digest kind t data = Inr ?h"
      using Some by (simp add: from_type_and_data_def to_data_eq_to_bytes ObjectHash_new_for_kind_def
        finalize_object_hash_def hasher_finalize_def loose_object_def)
    show "\<forall>t' tb' data'. ObjectType_to_bytes t' = Some tb' \<and>
        loose_object tb' data' = loose_object tb data \<longrightarrow> t' = t \<and> data' = data"
      using loose_object_inj[OF _ Some] by blast
  qed (simp_all add: len)
qed

theorem object_id_computation_witness:
  "\<exists>h. from_type_and_data_for_kind sample_digest KSha256 OT_Blob [1, 2] = Inr h \<and>
       calculate_object_hash sample_digest KSha256 OT_Blob [1, 2] = Inr h \<and> wf_hash h"
  using object_id_computation[OF sample_digest_ok, where t = OT_Blob and kind = KSha256 and data = "[1, 2]"]
  by auto

end
