(* ===== verification/Object_Trait.thy ===== *)
theory Object_Trait
  imports Hash_Ids
begin

text \<open>
  The common interface of stored objects (\<open>ObjectTrait\<close> in \<open>src/src/internal/object/mod.rs\<close>), the
  hashing inflate reader it loads from (\<open>ReadBoxed\<close> in \<open>src/src/internal/zlib/stream/inflate.rs\<close>),
  and the two objects whose content is their whole body: blobs (\<open>blob.rs\<close>) and notes (\<open>note.rs\<close>).

  The locale \<open>git_object\<close> states the contract of an implementor: a valid object serialises, and
  parsing the serialised body under an id of the repository's kind gives the object back with that
  id.  From this follow, once for all object types, that storing under the canonical id and loading
  is the identity and that the body determines the object.  Digest functions, the hex crate and
  the inflate library are parameters.
\<close>

section \<open>Errors of ids inside objects\<close>

fun HashError_display :: "HashError \<Rightarrow> string" where
  "HashError_display (InvalidLength op k e a) =
     op @ '': invalid '' @ latin (HashKind_as_str k) @ '' hash length: expected '' @ decimal_string e
     @ '', got '' @ decimal_string a"
| "HashError_display (InvalidHex op k e a m) =
     op @ '': invalid '' @ latin (HashKind_as_str k) @ '' hex string (expected '' @ decimal_string e
     @ '' hex chars, got '' @ decimal_string a @ ''): '' @ m"
| "HashError_display (KindMismatch op e a el al) =
     op @ '': hash kind mismatch: expected '' @ latin (HashKind_as_str e) @ '' ('' @ decimal_string el
     @ '' bytes), got '' @ latin (HashKind_as_str a) @ '' ('' @ decimal_string al @ '' bytes)''"
| "HashError_display (UnknownKind op tag a h) =
     op @ '': unknown hash kind tag '' @ [CHR 0x22] @ latin tag @ [CHR 0x22]
     @ '' (accepted: sha1|sha256|blake3; tag length '' @ decimal_string a
     @ '', expected one of 4|6; id part '' @ decimal_string h @ '' hex chars)''"
| "HashError_display (UnsupportedObjectType op k t e a p) =
     op @ '': '' @ latin (HashKind_as_str k) @ '' object hash requested for '' @ ObjectType_display t
     @ '', which has no loose-object header (expected a '' @ decimal_string e @ ''-byte digest, produced ''
     @ decimal_string a @ ''; payload '' @ decimal_string p @ '' bytes)''"

definition GitError_of_hash :: "HashError \<Rightarrow> GitError" where
  "GitError_of_hash err = GE_InvalidHashValue (HashError_display err)"

section \<open>The hashing inflate reader\<close>

text \<open>The reader over a compressed stream; \<open>inflate\<close> stands for the decompressor and returns the
  decompressed data of the zlib stream at the head of its input and the input after it.\<close>

record ReadBoxed =
  rb_inner :: bytes
  rb_count_hash :: bool
  rb_hash :: HashAlgorithm

type_synonym inflater = "bytes \<Rightarrow> io_error + bytes \<times> bytes"

definition with_header :: "bytes \<Rightarrow> HashAlgorithm \<Rightarrow> bytes \<Rightarrow> nat \<Rightarrow> ReadBoxed" where
  "with_header inner hasher type_bytes n =
     (let hasher = hasher_update type_bytes hasher;
          hasher = hasher_update (ascii '' '') hasher;
          hasher = hasher_update (decimal n) hasher;
          hasher = hasher_update [0] hasher in
      \<lparr>rb_inner = inner, rb_count_hash = True, rb_hash = hasher\<rparr>)"

definition ReadBoxed_new_with_kind ::
  "bytes \<Rightarrow> ObjectType \<Rightarrow> nat \<Rightarrow> HashKind \<Rightarrow> GitError + ReadBoxed" where
  "ReadBoxed_new_with_kind inner obj_type n kind =
     and_then (map_err GitError_of_hash
         (ok_or (UnsupportedObjectType ''ReadBoxed::new_with_kind'' kind obj_type (hash_size kind) 0 n)
           (ObjectType_to_bytes obj_type)))
       (\<lambda>type_bytes. Inr (with_header inner (new_for_kind kind) type_bytes n))"

definition ReadBoxed_new :: "HashKind \<Rightarrow> bytes \<Rightarrow> ObjectType \<Rightarrow> nat \<Rightarrow> io_error + ReadBoxed" where
  "ReadBoxed_new current inner obj_type n =
     and_then (ok_or (Panic ''ReadBoxed::new called with a delta type'') (ObjectType_to_bytes obj_type))
       (\<lambda>type_bytes. Inr (with_header inner (new_for_kind current) type_bytes n))"

definition new_for_delta_with_kind :: "bytes \<Rightarrow> HashKind \<Rightarrow> ReadBoxed" where
  "new_for_delta_with_kind inner kind =
     \<lparr>rb_inner = inner, rb_count_hash = False, rb_hash = new_for_kind kind\<rparr>"

definition read_to_end :: "inflater \<Rightarrow> ReadBoxed \<Rightarrow> io_error + bytes \<times> ReadBoxed" where
  "read_to_end inflate rb =
     and_then (inflate (rb_inner rb)) (\<lambda>(content, rest).
       Inr (content, rb\<lparr>rb_inner := rest,
         rb_hash := (if rb_count_hash rb then hasher_update content (rb_hash rb) else rb_hash rb)\<rparr>))"

section \<open>Default methods of the trait\<close>

definition from_buf_read_with_kind ::
  "(HashKind \<Rightarrow> bytes \<Rightarrow> bytes) \<Rightarrow> inflater \<Rightarrow> (bytes \<Rightarrow> ObjectHash \<Rightarrow> GitError + 'o) \<Rightarrow>
   ReadBoxed \<Rightarrow> HashKind \<Rightarrow> GitError + 'o \<times> ReadBoxed" where
  "from_buf_read_with_kind digest inflate parse rb kind =
     and_then (map_err GE_IOError (read_to_end inflate rb)) (\<lambda>(content, rb').
       let hasher = rb_hash rb'; actual = ha_kind hasher in
       if actual \<noteq> kind
       then Inl (GitError_of_hash (KindMismatch ''from_buf_read_with_kind'' kind actual
                   (hash_size kind) (hash_size actual)))
       else and_then (parse content (finalize_object_hash digest hasher)) (\<lambda>obj. Inr (obj, rb')))"

definition object_hash_for_kind ::
  "(HashKind \<Rightarrow> bytes \<Rightarrow> bytes) \<Rightarrow> ('o \<Rightarrow> GitError + bytes) \<Rightarrow> ObjectType \<Rightarrow> 'o \<Rightarrow> HashKind \<Rightarrow>
   GitError + ObjectHash" where
  "object_hash_for_kind digest to_data obj_type obj kind =
     and_then (to_data obj) (\<lambda>data.
       map_err GitError_of_hash (from_type_and_data_for_kind digest kind obj_type data))"

section \<open>Blobs\<close>

record Blob =
  blob_id :: ObjectHash
  blob_data :: bytes

definition Blob_from_bytes :: "bytes \<Rightarrow> ObjectHash \<Rightarrow> GitError + Blob" where
  "Blob_from_bytes data h = Inr \<lparr>blob_id = h, blob_data = data\<rparr>"

definition Blob_get_size :: "Blob \<Rightarrow> nat" where
  "Blob_get_size b = length (blob_data b)"

definition Blob_to_data :: "Blob \<Rightarrow> GitError + bytes" where
  "Blob_to_data b = Inr (blob_data b)"

definition from_content_bytes_with_kind ::
  "(HashKind \<Rightarrow> bytes \<Rightarrow> bytes) \<Rightarrow> HashKind \<Rightarrow> bytes \<Rightarrow> GitError + Blob" where
  "from_content_bytes_with_kind digest kind content =
     and_then (map_err GitError_of_hash (from_type_and_data_for_kind digest kind OT_Blob content))
       (\<lambda>h. Inr \<lparr>blob_id = h, blob_data = content\<rparr>)"

definition from_content_bytes ::
  "(HashKind \<Rightarrow> bytes \<Rightarrow> bytes) \<Rightarrow> HashKind \<Rightarrow> bytes \<Rightarrow> io_error + Blob" where
  "from_content_bytes digest current content =
     and_then (from_type_and_data digest current OT_Blob content)
       (\<lambda>h. Inr \<lparr>blob_id = h, blob_data = content\<rparr>)"

section \<open>Notes\<close>

record Note =
  note_id :: ObjectHash
  target_object_id :: ObjectHash
  note_content :: bytes

definition Note_new_with_kind ::
  "(HashKind \<Rightarrow> bytes \<Rightarrow> bytes) \<Rightarrow> HashKind \<Rightarrow> ObjectHash \<Rightarrow> bytes \<Rightarrow> GitError + Note" where
  "Note_new_with_kind digest kind target content =
     and_then (map_err GitError_of_hash (ensure_kind target kind)) (\<lambda>_.
       and_then (map_err GitError_of_hash (from_type_and_data_for_kind digest kind OT_Blob content))
         (\<lambda>h. Inr \<lparr>note_id = h, target_object_id = target, note_content = content\<rparr>))"

definition Note_from_content_with_kind ::
  "(HashKind \<Rightarrow> bytes \<Rightarrow> bytes) \<Rightarrow> HashKind \<Rightarrow> bytes \<Rightarrow> GitError + Note" where
  "Note_from_content_with_kind digest kind content =
     Note_new_with_kind digest kind (zero_for_kind kind) content"

definition Note_new ::
  "(HashKind \<Rightarrow> bytes \<Rightarrow> bytes) \<Rightarrow> HashKind \<Rightarrow> ObjectHash \<Rightarrow> bytes \<Rightarrow> io_error + Note" where
  "Note_new digest current target content =
     and_then (from_type_and_data digest current OT_Blob content)
       (\<lambda>h. Inr \<lparr>note_id = h, target_object_id = target, note_content = content\<rparr>)"

definition set_target :: "ObjectHash \<Rightarrow> Note \<Rightarrow> Note" where
  "set_target new_target note = note\<lparr>target_object_id := new_target\<rparr>"

definition from_bytes_with_target :: "bytes \<Rightarrow> ObjectHash \<Rightarrow> ObjectHash \<Rightarrow> GitError + Note" where
  "from_bytes_with_target data h target =
     and_then (ok_or (GE_InvalidNoteObject ''Invalid UTF-8 content'') (from_utf8 data))
       (\<lambda>content. Inr \<lparr>note_id = h, target_object_id = target, note_content = content\<rparr>)"

definition Note_from_bytes :: "bytes \<Rightarrow> ObjectHash \<Rightarrow> GitError + Note" where
  "Note_from_bytes data h =
     and_then (ok_or (GE_InvalidNoteObject ''Invalid UTF-8 content'') (from_utf8 data))
       (\<lambda>content. Inr \<lparr>note_id = h, target_object_id = zero_for_kind (hash_kind h), note_content = content\<rparr>)"

definition Note_to_data :: "Note \<Rightarrow> GitError + bytes" where
  "Note_to_data note = Inr (note_content note)"

definition to_data_with_target :: "Note \<Rightarrow> GitError + bytes \<times> ObjectHash" where
  "to_data_with_target note = and_then (Note_to_data note) (\<lambda>data. Inr (data, target_object_id note))"

section \<open>The contract of a stored object\<close>

locale git_object =
  fixes to_data :: "'o \<Rightarrow> GitError + bytes"
    and parse :: "bytes \<Rightarrow> ObjectHash \<Rightarrow> GitError + 'o"
    and obj_type :: ObjectType
    and set_id :: "ObjectHash \<Rightarrow> 'o \<Rightarrow> 'o"
    and valid :: "HashKind \<Rightarrow> 'o \<Rightarrow> bool"
  assumes serialises: "valid k obj \<Longrightarrow> is_ok (to_data obj)"
    and loads: "valid k obj \<Longrightarrow> to_data obj = Inr d \<Longrightarrow> hash_kind h = k \<Longrightarrow> wf_hash h \<Longrightarrow>
      parse d h = Inr (set_id h obj)"
    and typed: "ObjectType_to_bytes obj_type \<noteq> None"
begin

lemma store_load:
  assumes "digest_ok digest" "valid k obj"
  shows "\<exists>d h. to_data obj = Inr d \<and> object_hash_for_kind digest to_data obj_type obj k = Inr h \<and>
    hash_kind h = k \<and> wf_hash h \<and> parse d h = Inr (set_id h obj)"
proof -
  obtain d where d: "to_data obj = Inr d" using serialises[OF assms(2)] by (auto simp: is_ok_iff)
  obtain tb where tb: "ObjectType_to_bytes obj_type = Some tb" using typed by auto
  let ?h = "hash_of k (digest k (loose_object tb d))"
  have "object_hash_for_kind digest to_data obj_type obj k = Inr ?h"
    using d tb by (simp add: object_hash_for_kind_def from_type_and_data_for_kind_eq)
  moreover have "hash_kind ?h = k" "wf_hash ?h" using assms(1) by (simp_all add: digest_ok_def)
  moreover have "parse d ?h = Inr (set_id ?h obj)" using loads[OF assms(2) d] calculation(2,3) by simp
  ultimately show ?thesis using d by blast
qed

lemma body_determines:
  assumes "valid k a" "valid k b" "to_data a = to_data b" "hash_kind h = k" "wf_hash h"
  shows "set_id h a = set_id h b"
proof -
  obtain d where "to_data a = Inr d" using serialises[OF assms(1)] by (auto simp: is_ok_iff)
  then have "parse d h = Inr (set_id h a)" "parse d h = Inr (set_id h b)"
    using assms loads by metis+
  then show ?thesis by simp
qed

text \<open>Two valid objects get the same id only if the digest collides or they are the same object.\<close>

lemma same_id:
  assumes "valid k a" "valid k b" "hash_kind h = k" "wf_hash h"
    "object_hash_for_kind digest to_data obj_type a k = object_hash_for_kind digest to_data obj_type b k"
  shows "set_id h a = set_id h b \<or>
    (\<exists>tb da db. ObjectType_to_bytes obj_type = Some tb \<and> to_data a = Inr da \<and> to_data b = Inr db \<and>
       da \<noteq> db \<and> digest k (loose_object tb da) = digest k (loose_object tb db))"
proof -
  obtain da db where d: "to_data a = Inr da" "to_data b = Inr db"
    using serialises[OF assms(1)] serialises[OF assms(2)] by (auto simp: is_ok_iff)
  obtain tb where tb: "ObjectType_to_bytes obj_type = Some tb" using typed by auto
  have "hash_of k (digest k (loose_object tb da)) = hash_of k (digest k (loose_object tb db))"
    using assms(5) d tb by (simp add: object_hash_for_kind_def from_type_and_data_for_kind_eq)
  then have eq: "digest k (loose_object tb da) = digest k (loose_object tb db)"
    by (metis hash_of_simps(2))
  show ?thesis
  proof (cases "da = db")
    case True
    then show ?thesis using body_determines[OF assms(1,2)] d assms(3,4) by simp
  qed (use d tb eq in blast)
qed

text \<open>Loading through the hashing reader gives the object under its canonical id.\<close>

lemma load_stream:
  assumes "digest_ok digest" "valid k obj" "to_data obj = Inr d" "inflate stream = Inr (d, rest)"
    "ReadBoxed_new_with_kind stream obj_type (length d) k = Inr rb"
  shows "\<exists>h rb'. object_hash_for_kind digest to_data obj_type obj k = Inr h \<and> rb_inner rb' = rest \<and>
    from_buf_read_with_kind digest inflate parse rb k = Inr (set_id h obj, rb')"
proof -
  obtain tb where tb: "ObjectType_to_bytes obj_type = Some tb" using typed by auto
  let ?h = "hash_of k (digest k (loose_object tb d))"
  let ?rb' = "rb\<lparr>rb_inner := rest, rb_hash := hasher_update d (rb_hash rb)\<rparr>"
  have rb: "rb = with_header stream (new_for_kind k) tb (length d)"
    using assms(5) tb by (simp add: ReadBoxed_new_with_kind_def)
  have "object_hash_for_kind digest to_data obj_type obj k = Inr ?h"
    using assms(3) tb by (simp add: object_hash_for_kind_def from_type_and_data_for_kind_eq)
  moreover have "finalize_object_hash digest (rb_hash ?rb') = ?h" "ha_kind (rb_hash ?rb') = k"
    by (simp_all add: rb with_header_def Let_def finalize_object_hash_def hasher_finalize_def loose_object_def)
  moreover have "read_to_end inflate rb = Inr (d, ?rb')"
    using assms(4) by (simp add: read_to_end_def rb with_header_def Let_def)
  moreover have "parse d ?h = Inr (set_id ?h obj)"
    using loads[OF assms(2,3)] assms(1) by (simp add: digest_ok_def)
  ultimately show ?thesis
    by (intro exI[of _ ?h] exI[of _ ?rb']) (simp add: from_buf_read_with_kind_def Let_def)
qed

end

interpretation blob_obj: git_object Blob_to_data Blob_from_bytes OT_Blob "\<lambda>h b. b\<lparr>blob_id := h\<rparr>" "\<lambda>k b. True"
  by unfold_locales (simp_all add: Blob_to_data_def Blob_from_bytes_def)

interpretation note_obj: git_object Note_to_data Note_from_bytes OT_Blob
  "\<lambda>h n. n\<lparr>note_id := h, target_object_id := zero_for_kind (hash_kind h)\<rparr>"
  "\<lambda>k n. utf8_valid (note_content n)"
  by unfold_locales (simp_all add: Note_to_data_def Note_from_bytes_def from_utf8_def)

lemma ensure_kind_eq_Inr_iff [simp]: "ensure_kind h k = Inr u \<longleftrightarrow> hash_kind h = k"
  by (simp add: ensure_kind_def)

lemma from_type_and_data_for_kind_base:
  "digest_ok digest \<Longrightarrow> ObjectType_to_bytes t = Some tb \<Longrightarrow>
   \<exists>h. from_type_and_data_for_kind digest k t d = Inr h \<and> hash_kind h = k \<and> wf_hash h"
  by (simp add: from_type_and_data_for_kind_eq digest_ok_def)

section \<open>Properties\<close>

text \<open>C38: notes.  A note of the repository's kind is created under the id of a blob with its text;
  a target of another kind is refused.  Reading the stored bytes back with the target gives the same
  note, and without it a note whose placeholder target has the width of the repository's ids.\<close>

theorem note_roundtrip:
  assumes "digest_ok digest" "utf8_valid content"
  shows "if hash_kind target = kind then
      (\<exists>note. Note_new_with_kind digest kind target content = Inr note \<and>
         from_content_bytes_with_kind digest kind content =
           Inr \<lparr>blob_id = note_id note, blob_data = content\<rparr> \<and>
         and_then (to_data_with_target note) (\<lambda>(d, t). from_bytes_with_target d (note_id note) t) = Inr note \<and>
         and_then (Note_to_data note) (\<lambda>d. Note_from_bytes d (note_id note)) =
           Inr (set_target (zero_for_kind kind) note))
    else Note_new_with_kind digest kind target content =
      Inl (GitError_of_hash (KindMismatch ''ensure_kind'' kind (hash_kind target)
             (hash_size kind) (hash_size (hash_kind target))))"
proof (cases "hash_kind target = kind")
  case True
  obtain h where h: "from_type_and_data_for_kind digest kind OT_Blob content = Inr h" "hash_kind h = kind"
    using from_type_and_data_for_kind_base[OF assms(1), of OT_Blob "ascii ''blob''" kind content] by auto
  then show ?thesis
    using True assms(2) unfolding if_P[OF True]
    by (intro exI[of _ "\<lparr>note_id = h, target_object_id = target, note_content = content\<rparr>"])
      (simp add: Note_new_with_kind_def from_content_bytes_with_kind_def to_data_with_target_def
        Note_to_data_def from_bytes_with_target_def Note_from_bytes_def set_target_def ensure_kind_def from_utf8_def)
next
  case False
  then show ?thesis by (simp add: Note_new_with_kind_def ensure_kind_def)
qed

theorem note_roundtrip_witness:
  "\<exists>note. Note_new_with_kind sample_digest KSha1 (zero_for_kind KSha1) (ascii ''ok'') = Inr note \<and>
     and_then (Note_to_data note) (\<lambda>d. Note_from_bytes d (note_id note)) = Inr (set_target (zero_for_kind KSha1) note)"
proof -
  have "utf8_valid (ascii ''ok'')" by (rule utf8_valid_ascii) (simp add: ascii_def byte_of_char_def)
  from note_roundtrip[OF sample_digest_ok this, of "zero_for_kind KSha1" KSha1]
  show ?thesis by (auto simp: zero_for_kind_def)
qed

end
