(* ===== verification/Tree_Object.thy ===== *)
theory Tree_Object
  imports Object_Trait
begin

text \<open>
  Tree objects (\<open>src/src/internal/object/tree.rs\<close>): entry modes, entries, the tree parser and
  serialiser, and the constructors that compute the tree's id.  A file name is UTF-8 or, failing
  that, decoded from GBK; the GBK decoder is the parameter \<open>gbk\<close>, which returns \<open>None\<close> where the
  crate reports \<open>had_errors\<close>.
\<close>

section \<open>Entry modes\<close>

datatype TreeItemMode =
    TM_Blob
  | TM_BlobExecutable
  | TM_Tree
  | TM_Commit
  | TM_Link

definition tree_item_type_from_bytes :: "bytes \<Rightarrow> GitError + TreeItemMode" where
  "tree_item_type_from_bytes mode =
     (if mode = ascii ''40000'' then Inr TM_Tree
      else if mode = ascii ''100644'' then Inr TM_Blob
      else if mode = ascii ''100755'' then Inr TM_BlobExecutable
      else if mode = ascii ''120000'' then Inr TM_Link
      else if mode = ascii ''160000'' then Inr TM_Commit
      else if mode = ascii ''100664'' then Inr TM_Blob
      else if mode = ascii ''100640'' then Inr TM_Blob
      else Inl (GE_InvalidTreeItem (latin (from_utf8_lossy mode))))"

fun TreeItemMode_to_bytes :: "TreeItemMode \<Rightarrow> bytes" where
  "TreeItemMode_to_bytes TM_Blob = ascii ''100644''"
| "TreeItemMode_to_bytes TM_BlobExecutable = ascii ''100755''"
| "TreeItemMode_to_bytes TM_Link = ascii ''120000''"
| "TreeItemMode_to_bytes TM_Tree = ascii ''40000''"
| "TreeItemMode_to_bytes TM_Commit = ascii ''160000''"

section \<open>Entries\<close>

record TreeItem =
  item_mode :: TreeItemMode
  item_id :: ObjectHash
  item_name :: bytes

type_synonym gbk_decoder = "bytes \<Rightarrow> bytes option"

definition decode_name :: "gbk_decoder \<Rightarrow> bytes \<Rightarrow> GitError + bytes" where
  "decode_name gbk raw_name =
     (case from_utf8 raw_name of
        Some name \<Rightarrow> Inr name
      | None \<Rightarrow> ok_or (GE_InvalidTreeItem (''Unsupported raw format: '' @ latin raw_name)) (gbk raw_name))"

definition malformed_item :: "string \<Rightarrow> bytes \<Rightarrow> HashKind \<Rightarrow> GitError" where
  "malformed_item what data kind = GE_InvalidTreeItem (''tree entry is missing its '' @ what @ '' (''
     @ decimal_string (length data) @ '' bytes, expected ''
     @ decimal_string (length data - (hash_size kind + 1)) @ '' mode/name bytes + 1 NUL + ''
     @ decimal_string (hash_size kind) @ ''-byte '' @ latin (HashKind_as_str kind) @ '' id)'')"

definition from_bytes_with_kind :: "gbk_decoder \<Rightarrow> bytes \<Rightarrow> HashKind \<Rightarrow> GitError + TreeItem" where
  "from_bytes_with_kind gbk data kind =
     and_then (ok_or (malformed_item ''mode'' data kind) (memchr 32 data)) (\<lambda>space.
       let mode = take space data; rest = drop (Suc space) data in
       and_then (ok_or (malformed_item ''NUL separator'' data kind) (memchr 0 rest)) (\<lambda>nul.
         let raw_name = take nul rest; ident = drop (Suc nul) rest in
         and_then (decode_name gbk raw_name) (\<lambda>name.
           and_then (tree_item_type_from_bytes mode) (\<lambda>m.
             and_then (map_err GitError_of_hash (from_bytes_for_kind kind ident)) (\<lambda>h.
               Inr \<lparr>item_mode = m, item_id = h, item_name = name\<rparr>)))))"

text \<open>The legacy parser of an entry: \<open>unwrap\<close> on a missing separator or on an id of the wrong width is
  a panic of the calling thread (\<open>Inl\<close>), an error it returns is an \<open>Inr (Inl e)\<close>.\<close>

definition TreeItem_from_bytes ::
  "gbk_decoder \<Rightarrow> HashKind \<Rightarrow> bytes \<Rightarrow> io_error + (GitError + TreeItem)" where
  "TreeItem_from_bytes gbk current data =
     and_then (ok_or (Panic ''unwrap on None'') (split_once 32 data)) (\<lambda>(mode, rest).
       and_then (ok_or (Panic ''unwrap on None'') (split_once 0 rest)) (\<lambda>(raw_name, ident).
         case and_then (decode_name gbk raw_name) (\<lambda>name.
                and_then (tree_item_type_from_bytes mode) (\<lambda>m. Inr (name, m))) of
           Inl e \<Rightarrow> Inr (Inl e)
         | Inr (name, m) \<Rightarrow>
             and_then (map_err (\<lambda>_. Panic ''unwrap on Err'') (from_bytes current ident)) (\<lambda>h.
               Inr (Inr \<lparr>item_mode = m, item_id = h, item_name = name\<rparr>))))"

definition TreeItem_to_data :: "TreeItem \<Rightarrow> bytes" where
  "TreeItem_to_data item =
     TreeItemMode_to_bytes (item_mode item) @ [32] @ item_name item @ [0] @ as_ref (item_id item)"

definition is_tree :: "TreeItem \<Rightarrow> bool" where
  "is_tree item \<longleftrightarrow> item_mode item = TM_Tree"

definition is_blob :: "TreeItem \<Rightarrow> bool" where
  "is_blob item \<longleftrightarrow> item_mode item = TM_Blob"

section \<open>Trees\<close>

record Tree =
  tree_id :: ObjectHash
  tree_items :: "TreeItem list"

fun items_data_for_kind :: "HashKind \<Rightarrow> TreeItem list \<Rightarrow> GitError + bytes" where
  "items_data_for_kind kind [] = Inr []"
| "items_data_for_kind kind (item # items) =
     and_then (map_err GitError_of_hash (ensure_kind (item_id item) kind)) (\<lambda>_.
       and_then (items_data_for_kind kind items) (\<lambda>data. Inr (TreeItem_to_data item @ data)))"

definition from_tree_items_with_kind ::
  "(HashKind \<Rightarrow> bytes \<Rightarrow> bytes) \<Rightarrow> HashKind \<Rightarrow> TreeItem list \<Rightarrow> GitError + Tree" where
  "from_tree_items_with_kind digest kind items =
     (if items = []
      then Inl (GE_EmptyTreeItems ''When export tree object to meta, the items is empty'')
      else and_then (items_data_for_kind kind items) (\<lambda>data.
        and_then (map_err GitError_of_hash (from_type_and_data_for_kind digest kind OT_Tree data)) (\<lambda>h.
          Inr \<lparr>tree_id = h, tree_items = items\<rparr>)))"

definition from_tree_items ::
  "(HashKind \<Rightarrow> bytes \<Rightarrow> bytes) \<Rightarrow> HashKind \<Rightarrow> TreeItem list \<Rightarrow> io_error + (GitError + Tree)" where
  "from_tree_items digest current items =
     (if items = []
      then Inr (Inl (GE_EmptyTreeItems ''When export tree object to meta, the items is empty''))
      else and_then (from_type_and_data digest current OT_Tree (concat (map TreeItem_to_data items)))
        (\<lambda>h. Inr (Inr \<lparr>tree_id = h, tree_items = items\<rparr>)))"

definition rehash_with_kind ::
  "(HashKind \<Rightarrow> bytes \<Rightarrow> bytes) \<Rightarrow> HashKind \<Rightarrow> Tree \<Rightarrow> (GitError + unit) \<times> Tree" where
  "rehash_with_kind digest kind tree =
     (case and_then (items_data_for_kind kind (tree_items tree)) (\<lambda>data.
             map_err GitError_of_hash (from_type_and_data_for_kind digest kind OT_Tree data)) of
        Inl e \<Rightarrow> (Inl e, tree)
      | Inr h \<Rightarrow> (Inr (), tree\<lparr>tree_id := h\<rparr>))"

definition rehash :: "(HashKind \<Rightarrow> bytes \<Rightarrow> bytes) \<Rightarrow> HashKind \<Rightarrow> Tree \<Rightarrow> io_error + Tree" where
  "rehash digest current tree =
     and_then (from_type_and_data digest current OT_Tree (concat (map TreeItem_to_data (tree_items tree))))
       (\<lambda>h. Inr (tree\<lparr>tree_id := h\<rparr>))"

function tree_items_loop ::
  "gbk_decoder \<Rightarrow> HashKind \<Rightarrow> bytes \<Rightarrow> TreeItem list \<Rightarrow> GitError + TreeItem list" where
  "tree_items_loop gbk kind rest acc =
     (if rest = [] then Inr acc
      else case memchr 0 rest of
        None \<Rightarrow> Inl GE_InvalidTreeObject
      | Some index \<Rightarrow>
          let nxt = index + hash_size kind + 1 in
          if nxt > length rest then Inl GE_InvalidTreeObject
          else and_then (from_bytes_with_kind gbk (take nxt rest) kind) (\<lambda>item.
            tree_items_loop gbk kind (drop nxt rest) (acc @ [item])))"
  by auto
termination
  by (relation "measure (\<lambda>(_, _, rest, _). length rest)") auto

declare tree_items_loop.simps [simp del]

definition Tree_from_bytes :: "gbk_decoder \<Rightarrow> bytes \<Rightarrow> ObjectHash \<Rightarrow> GitError + Tree" where
  "Tree_from_bytes gbk data h =
     and_then (tree_items_loop gbk (hash_kind h) data []) (\<lambda>items.
       Inr \<lparr>tree_id = h, tree_items = items\<rparr>)"

definition Tree_to_data :: "Tree \<Rightarrow> GitError + bytes" where
  "Tree_to_data tree = Inr (concat (map TreeItem_to_data (tree_items tree)))"

section \<open>Specification\<close>

text \<open>The bytes of one entry: mode, space, name, NUL, id.\<close>

definition tree_entry :: "gbk_decoder \<Rightarrow> HashKind \<Rightarrow> bytes \<Rightarrow> TreeItem \<Rightarrow> bool" where
  "tree_entry gbk kind raw item \<longleftrightarrow>
     (\<exists>mode name. raw = mode @ [32] @ name @ [0] @ as_ref (item_id item) \<and>
        tree_item_type_from_bytes mode = Inr (item_mode item) \<and> 0 \<notin> set name \<and>
        decode_name gbk name = Inr (item_name item) \<and>
        hash_kind (item_id item) = kind \<and> wf_hash (item_id item))"

definition wf_item :: "HashKind \<Rightarrow> TreeItem \<Rightarrow> bool" where
  "wf_item kind item \<longleftrightarrow> utf8_valid (item_name item) \<and> 0 \<notin> set (item_name item) \<and>
     hash_kind (item_id item) = kind \<and> wf_hash (item_id item)"

section \<open>Facts\<close>

lemma mode_bytes_clean:
  assumes "tree_item_type_from_bytes mode = Inr m"
  shows "32 \<notin> set mode \<and> 0 \<notin> set mode \<and> mode \<noteq> []"
  using assms by (auto simp: tree_item_type_from_bytes_def ascii_def byte_of_char_def split: if_splits)

lemma mode_from_to: "tree_item_type_from_bytes (TreeItemMode_to_bytes m) = Inr m"
  by (cases m) (simp_all add: tree_item_type_from_bytes_def)

lemma decode_name_valid: "utf8_valid n \<Longrightarrow> decode_name gbk n = Inr n"
  by (simp add: decode_name_def from_utf8_def)

lemma from_bytes_with_kind_iff:
  "from_bytes_with_kind gbk raw kind = Inr item \<longleftrightarrow> tree_entry gbk kind raw item"
proof
  assume "from_bytes_with_kind gbk raw kind = Inr item"
  then obtain space nul name m h where
    sp: "memchr 32 raw = Some space" and nu: "memchr 0 (drop (Suc space) raw) = Some nul" and
    name: "decode_name gbk (take nul (drop (Suc space) raw)) = Inr name" and
    m: "tree_item_type_from_bytes (take space raw) = Inr m" and
    h: "from_bytes_for_kind kind (drop (Suc nul) (drop (Suc space) raw)) = Inr h" and
    item: "item = \<lparr>item_mode = m, item_id = h, item_name = name\<rparr>"
    unfolding from_bytes_with_kind_def Let_def by (auto simp: and_then_eq_Inr_iff)
  obtain p r where p: "raw = p @ 32 # r" "space = length p" using sp by (elim memchr_SomeE)
  moreover from nu p obtain q t where q: "r = q @ 0 # t" "nul = length q" "0 \<notin> set q"
    by (auto elim: memchr_SomeE)
  ultimately show "tree_entry gbk kind raw item"
    using name m h item unfolding tree_entry_def
    by (intro exI[of _ p] exI[of _ q]) (simp add: from_bytes_for_kind_iff)
next
  assume "tree_entry gbk kind raw item"
  then obtain mode name where
    raw: "raw = mode @ 32 # name @ 0 # as_ref (item_id item)" and
    ok: "tree_item_type_from_bytes mode = Inr (item_mode item)" "0 \<notin> set name"
      "decode_name gbk name = Inr (item_name item)" "hash_kind (item_id item) = kind" "wf_hash (item_id item)"
    by (auto simp: tree_entry_def)
  have "from_bytes_for_kind kind (as_ref (item_id item)) = Inr (item_id item)"
    using ok by (simp add: from_bytes_for_kind_iff)
  then show "from_bytes_with_kind gbk raw kind = Inr item"
    using ok mode_bytes_clean[OF ok(1)] by (simp add: from_bytes_with_kind_def Let_def raw)
qed

lemma tree_entry_to_data: "wf_item kind item \<Longrightarrow> tree_entry gbk kind (TreeItem_to_data item) item"
  unfolding tree_entry_def wf_item_def TreeItem_to_data_def
  by (intro exI[of _ "TreeItemMode_to_bytes (item_mode item)"] exI[of _ "item_name item"])
    (simp add: mode_from_to decode_name_valid)

text \<open>The loop cuts an entry exactly where the specification ends it.\<close>

lemma tree_entry_cut:
  assumes "tree_entry gbk kind raw item"
  shows "memchr 0 (raw @ s) = Some (length raw - hash_size kind - 1)"
    "length raw - hash_size kind - 1 + hash_size kind + 1 = length raw" "raw \<noteq> []"
proof -
  obtain mode name where raw: "raw = mode @ [32] @ name @ [0] @ as_ref (item_id item)"
    and ok: "tree_item_type_from_bytes mode = Inr (item_mode item)" "0 \<notin> set name"
      "hash_kind (item_id item) = kind" "wf_hash (item_id item)"
    using assms by (auto simp: tree_entry_def)
  have "0 \<notin> set (mode @ [32] @ name)" using mode_bytes_clean[OF ok(1)] ok(2) by simp
  then have "memchr 0 ((mode @ [32] @ name) @ 0 # (as_ref (item_id item) @ s)) = Some (length (mode @ [32] @ name))"
    by (rule memchr_append)
  then show "memchr 0 (raw @ s) = Some (length raw - hash_size kind - 1)"
    using ok(3,4) by (simp add: raw wf_hash_def)
  show "length raw - hash_size kind - 1 + hash_size kind + 1 = length raw" "raw \<noteq> []"
    using ok(3,4) by (auto simp: raw wf_hash_def)
qed

lemma tree_items_loop_complete:
  assumes "list_all2 (tree_entry gbk kind) raws items"
  shows "tree_items_loop gbk kind (concat raws) acc = Inr (acc @ items)"
  using assms
proof (induction raws items arbitrary: acc rule: list_all2_induct)
  case Nil
  then show ?case by (subst tree_items_loop.simps) simp
next
  case (Cons raw raws item items)
  note cut = tree_entry_cut[OF Cons(1)]
  have "from_bytes_with_kind gbk raw kind = Inr item" using Cons(1) by (simp add: from_bytes_with_kind_iff)
  then show ?case
    using cut(1)[of "concat raws"] cut(2,3) Cons.IH
    by (subst tree_items_loop.simps) (simp add: Let_def)
qed

lemma tree_items_loop_sound:
  assumes "tree_items_loop gbk kind rest acc = Inr items"
  shows "\<exists>raws more. rest = concat raws \<and> items = acc @ more \<and> list_all2 (tree_entry gbk kind) raws more"
  using assms
proof (induction gbk kind rest acc rule: tree_items_loop.induct)
  case (1 gbk kind rest acc)
  show ?case
  proof (cases "rest = []")
    case True
    then show ?thesis
      using "1.prems" by (subst (asm) tree_items_loop.simps) (intro exI[of _ "[]"], simp)
  next
    case False
    then obtain index item where step: "memchr 0 rest = Some index"
      "index + hash_size kind + 1 \<le> length rest"
      "from_bytes_with_kind gbk (take (index + hash_size kind + 1) rest) kind = Inr item"
      "tree_items_loop gbk kind (drop (index + hash_size kind + 1) rest) (acc @ [item]) = Inr items"
      using "1.prems" by (subst (asm) tree_items_loop.simps)
        (auto simp: and_then_eq_Inr_iff Let_def split: option.splits if_splits)
    let ?n = "index + hash_size kind + 1"
    obtain raws more where "drop ?n rest = concat raws" "items = (acc @ [item]) @ more"
      "list_all2 (tree_entry gbk kind) raws more"
      using "1.IH"[OF False step(1) refl _ step(3) step(4)] step(2) by fastforce
    moreover have "tree_entry gbk kind (take ?n rest) item" using step(3) by (simp only: from_bytes_with_kind_iff)
    ultimately show ?thesis
      by (intro exI[of _ "take ?n rest # raws"] exI[of _ "item # more"])
        (metis append.assoc append_Cons append_Nil append_take_drop_id concat.simps(2) list_all2_Cons)
  qed
qed

lemma tree_entry_to_data_all:
  "list_all (wf_item kind) items \<Longrightarrow> list_all2 (tree_entry gbk kind) (map TreeItem_to_data items) items"
  by (induction items) (simp_all add: tree_entry_to_data)

lemma items_data_for_kind_eq:
  "items_data_for_kind kind items = Inr d \<longleftrightarrow>
   (\<forall>it \<in> set items. hash_kind (item_id it) = kind) \<and> d = concat (map TreeItem_to_data items)"
  by (induction items arbitrary: d) (auto simp: and_then_eq_Inr_iff)

lemma items_data_for_kind_ok:
  "\<forall>it \<in> set items. hash_kind (item_id it) = kind \<Longrightarrow>
   items_data_for_kind kind items = Inr (concat (map TreeItem_to_data items))"
  by (simp add: items_data_for_kind_eq)

interpretation tree_obj: git_object Tree_to_data "Tree_from_bytes gbk" OT_Tree "\<lambda>h t. t\<lparr>tree_id := h\<rparr>"
  "\<lambda>k t. list_all (wf_item k) (tree_items t)" for gbk
proof
  fix k :: HashKind and obj d h
  assume "list_all (wf_item k) (tree_items obj)" "Tree_to_data obj = Inr d" "hash_kind h = k" "wf_hash h"
  then show "Tree_from_bytes gbk d h = Inr (obj\<lparr>tree_id := h\<rparr>)"
    using tree_items_loop_complete[OF tree_entry_to_data_all[of k "tree_items obj" gbk], of "[]"]
    by (simp add: Tree_from_bytes_def Tree_to_data_def)
qed (simp_all add: Tree_to_data_def)

section \<open>Properties\<close>

text \<open>C25: the tree parser.  A body is accepted exactly when it is a sequence of entries
  \<open>mode SP name NUL id\<close> with a known mode, a decodable name and ids of the tree's own kind and
  width, and then the parsed entries are those of the body, in order.\<close>

theorem Tree_from_bytes_exact:
  "Tree_from_bytes gbk data h = Inr tree \<longleftrightarrow>
   tree_id tree = h \<and>
   (\<exists>raws. data = concat raws \<and> list_all2 (tree_entry gbk (hash_kind h)) raws (tree_items tree))"
proof
  assume "Tree_from_bytes gbk data h = Inr tree"
  then obtain items where items: "tree_items_loop gbk (hash_kind h) data [] = Inr items"
    "tree = \<lparr>tree_id = h, tree_items = items\<rparr>"
    by (auto simp: Tree_from_bytes_def and_then_eq_Inr_iff)
  then show "tree_id tree = h \<and>
      (\<exists>raws. data = concat raws \<and> list_all2 (tree_entry gbk (hash_kind h)) raws (tree_items tree))"
    using tree_items_loop_sound[OF items(1)] by auto
next
  assume "tree_id tree = h \<and>
      (\<exists>raws. data = concat raws \<and> list_all2 (tree_entry gbk (hash_kind h)) raws (tree_items tree))"
  then show "Tree_from_bytes gbk data h = Inr tree"
    using tree_items_loop_complete[of gbk "hash_kind h" _ "tree_items tree" "[]"]
    by (auto simp: Tree_from_bytes_def)
qed

text \<open>C21: building and loading trees.  A tree is built exactly from a non-empty list of entries
  whose ids all have the repository's kind; its id has that kind, rehashing it changes nothing, and
  parsing its body under its id gives the same tree.  Rehashing for another kind fails and leaves
  the tree as it is.\<close>

theorem tree_build_load:
  assumes "digest_ok digest" "list_all (\<lambda>it. wf_item (hash_kind (item_id it)) it) items"
  shows "if items \<noteq> [] \<and> (\<forall>it \<in> set items. hash_kind (item_id it) = kind) then
      (\<exists>tree d. from_tree_items_with_kind digest kind items = Inr tree \<and> tree_items tree = items \<and>
         hash_kind (tree_id tree) = kind \<and> rehash_with_kind digest kind tree = (Inr (), tree) \<and>
         Tree_to_data tree = Inr d \<and> Tree_from_bytes gbk d (tree_id tree) = Inr tree \<and>
         (\<forall>other. other \<noteq> kind \<longrightarrow> \<not> is_ok (fst (rehash_with_kind digest other tree)) \<and>
            snd (rehash_with_kind digest other tree) = tree))
    else \<not> is_ok (from_tree_items_with_kind digest kind items)"
proof (cases "items \<noteq> [] \<and> (\<forall>it \<in> set items. hash_kind (item_id it) = kind)")
  case True
  let ?d = "concat (map TreeItem_to_data items)"
  obtain h where h: "from_type_and_data_for_kind digest kind OT_Tree ?d = Inr h" "hash_kind h = kind" "wf_hash h"
    using from_type_and_data_for_kind_base[OF assms(1), of OT_Tree "ascii ''tree''" kind ?d] by auto
  let ?t = "\<lparr>tree_id = h, tree_items = items\<rparr>"
  have data: "items_data_for_kind kind items = Inr ?d" using True by (simp add: items_data_for_kind_eq)
  have "list_all (wf_item kind) items" using assms(2) True by (simp add: list_all_iff)
  then have load: "Tree_from_bytes gbk ?d h = Inr ?t"
    using tree_obj.loads[of kind ?t ?d h gbk] h by (simp add: Tree_to_data_def)
  have other: "\<not> is_ok (items_data_for_kind k items)" if "k \<noteq> kind" for k
    using True that by (cases items) (auto simp: ensure_kind_def)
  have fails: "\<not> is_ok (fst (rehash_with_kind digest k ?t)) \<and> snd (rehash_with_kind digest k ?t) = ?t" if "k \<noteq> kind" for k
    using other[OF that] by (cases "items_data_for_kind k items") (simp_all add: rehash_with_kind_def)
  show ?thesis
    unfolding if_P[OF True]
    by (rule exI[of _ ?t], rule exI[of _ ?d])
      (use True data h load fails in \<open>simp add: from_tree_items_with_kind_def rehash_with_kind_def Tree_to_data_def\<close>)
next
  case False
  then have "\<not> is_ok (items_data_for_kind kind items)" if "items \<noteq> []"
    using that by (auto simp: is_ok_iff items_data_for_kind_eq)
  then show ?thesis
    using False by (cases "items_data_for_kind kind items") (auto simp: from_tree_items_with_kind_def)
qed

theorem tree_build_load_witness:
  "\<exists>tree d. from_tree_items_with_kind sample_digest KSha1
       [\<lparr>item_mode = TM_Blob, item_id = zero_for_kind KSha1, item_name = ascii ''a''\<rparr>] = Inr tree \<and>
     Tree_to_data tree = Inr d \<and> Tree_from_bytes (\<lambda>_. None) d (tree_id tree) = Inr tree"
proof -
  have "utf8_valid (ascii ''a'')" by (rule utf8_valid_ascii) (simp add: ascii_def byte_of_char_def)
  then have "list_all (\<lambda>it. wf_item (hash_kind (item_id it)) it)
      [\<lparr>item_mode = TM_Blob, item_id = zero_for_kind KSha1, item_name = ascii ''a''\<rparr>]"
    by (simp add: wf_item_def zero_for_kind_def ascii_def byte_of_char_def wf_hash_def)
  from tree_build_load[OF sample_digest_ok this, of KSha1 "\<lambda>_. None"]
  show ?thesis by (simp add: zero_for_kind_def) blast
qed

end
