(* ===== verification/Signature.thy ===== *)
theory Signature
  imports Object_Trait
begin

text \<open>
  Signature lines of commits and tags (\<open>src/src/internal/object/signature.rs\<close>):
  \<open>role SP name SP <email> SP timestamp SP timezone\<close>.  Texts are their UTF-8 bytes.  Building a
  signature from the clock (\<open>Signature::new\<close>) is modelled up to the clock: \<open>format_timezone\<close> renders
  the offset it reads.
\<close>

section \<open>Roles\<close>

datatype SignatureType =
    Author
  | Committer
  | Tagger

fun SignatureType_to_bytes :: "SignatureType \<Rightarrow> bytes" where
  "SignatureType_to_bytes Author = ascii ''author''"
| "SignatureType_to_bytes Committer = ascii ''committer''"
| "SignatureType_to_bytes Tagger = ascii ''tagger''"

definition SignatureType_from_str :: "bytes \<Rightarrow> GitError + SignatureType" where
  "SignatureType_from_str s =
     (if s = ascii ''author'' then Inr Author
      else if s = ascii ''committer'' then Inr Committer
      else if s = ascii ''tagger'' then Inr Tagger
      else Inl (GE_InvalidSignatureType (latin s)))"

definition SignatureType_from_data :: "bytes \<Rightarrow> GitError + SignatureType" where
  "SignatureType_from_data data =
     and_then (ok_or (GE_ConversionError ''invalid utf-8 sequence'') (from_utf8 data)) SignatureType_from_str"

section \<open>Signatures\<close>

record Signature =
  signature_type :: SignatureType
  sig_name :: bytes
  sig_email :: bytes
  sig_timestamp :: nat
  sig_timezone :: bytes

text \<open>\<open>{:02}\<close>.\<close>

definition pad2 :: "nat \<Rightarrow> bytes" where
  "pad2 n = (if n < 10 then ascii ''0'' @ decimal n else decimal n)"

definition format_timezone :: "int \<Rightarrow> bytes" where
  "format_timezone offset_seconds =
     (let total_minutes = nat \<bar>offset_seconds\<bar> div 60 in
      (if offset_seconds < 0 then ascii ''-'' else ascii ''+'')
      @ pad2 (total_minutes div 60) @ pad2 (total_minutes mod 60))"

definition malformed_signature :: "string \<Rightarrow> bytes \<Rightarrow> GitError" where
  "malformed_signature what sign =
     GE_InvalidSignatureType (''malformed signature line ('' @ what @ ''): '' @ latin (from_utf8_lossy sign))"

definition find_after :: "byte \<Rightarrow> nat \<Rightarrow> bytes \<Rightarrow> nat option" where
  "find_after c start s =
     (case memchr c s of Some i \<Rightarrow> if i > start then Some i else None | None \<Rightarrow> None)"

definition signature_name :: "bytes \<Rightarrow> bytes option" where
  "signature_name name_bytes =
     (case strip_suffix [32] name_bytes of
        Some stripped \<Rightarrow> Some stripped
      | None \<Rightarrow> if name_bytes = [] then Some name_bytes else None)"

definition tz_ok :: "bytes \<Rightarrow> bool" where
  "tz_ok tz \<longleftrightarrow> length tz = 5 \<and> (tz ! 0 = byte_of_char (CHR ''+'') \<or> tz ! 0 = byte_of_char (CHR ''-''))
     \<and> list_all is_digit (tl tz)"

text \<open>The part after the email: one space, a decimal timestamp, a space and the timezone.\<close>

definition signature_date :: "bytes \<Rightarrow> nat \<Rightarrow> GitError + nat \<times> bytes" where
  "signature_date sign email_end =
     (let mal = (\<lambda>what. malformed_signature what sign) in
      if \<not> (email_end + 1 < length sign \<and> sign ! (email_end + 1) = 0x20)
      then Inl (mal ''missing space after email'')
      else
        let rest = drop (email_end + 2) sign in
        and_then (ok_or (mal ''missing timezone separator'') (memchr 0x20 rest)) (\<lambda>timestamp_split.
        and_then (ok_or (mal ''timestamp'') (from_utf8 (take timestamp_split rest))) (\<lambda>ts.
        and_then (ok_or (mal ''non-numeric timestamp'') (parse_usize ts)) (\<lambda>timestamp.
        and_then (ok_or (mal ''timezone'') (from_utf8 (drop (timestamp_split + 1) rest))) (\<lambda>timezone.
        if \<not> tz_ok timezone then Inl (mal ''timezone is not [+-]HHMM'')
        else Inr (timestamp, timezone))))))"

definition Signature_from_data :: "bytes \<Rightarrow> GitError + Signature" where
  "Signature_from_data sign =
     (let mal = (\<lambda>what. malformed_signature what sign) in
      and_then (ok_or (mal ''missing role separator'') (memchr 0x20 sign)) (\<lambda>name_start.
      and_then (ok_or (mal ''role'') (from_utf8 (take name_start sign))) (\<lambda>role.
      and_then (SignatureType_from_str role) (\<lambda>ty.
      and_then (ok_or (mal ''missing '<' before email'') (find_after 0x3C name_start sign)) (\<lambda>email_start.
      and_then (ok_or (mal ''missing '>' after email'') (find_after 0x3E email_start sign)) (\<lambda>email_end.
      and_then (ok_or (mal ''missing space before '<'')
          (signature_name (take (email_start - (name_start + 1)) (drop (name_start + 1) sign)))) (\<lambda>name_bytes.
      and_then (ok_or (mal ''name'') (from_utf8 name_bytes)) (\<lambda>name.
      and_then (ok_or (mal ''email'')
          (from_utf8 (take (email_end - (email_start + 1)) (drop (email_start + 1) sign)))) (\<lambda>email.
      and_then (signature_date sign email_end) (\<lambda>(timestamp, timezone).
        Inr \<lparr>signature_type = ty, sig_name = name, sig_email = email, sig_timestamp = timestamp,
             sig_timezone = timezone\<rparr>))))))))))"

definition Signature_to_data :: "Signature \<Rightarrow> GitError + bytes" where
  "Signature_to_data sig =
     Inr (SignatureType_to_bytes (signature_type sig) @ [0x20] @ sig_name sig @ [0x20]
          @ [0x3C] @ sig_email sig @ [0x3E] @ [0x20] @ decimal (sig_timestamp sig) @ [0x20] @ sig_timezone sig)"

section \<open>Well-formed signatures\<close>

definition wf_sig :: "Signature \<Rightarrow> bool" where
  "wf_sig sig \<longleftrightarrow> utf8_valid (sig_name sig) \<and> utf8_valid (sig_email sig) \<and>
     0x3C \<notin> set (sig_name sig) \<and> 0x3E \<notin> set (sig_name sig) \<and> 0x3E \<notin> set (sig_email sig) \<and>
     sig_timestamp sig \<le> usize_max \<and> tz_ok (sig_timezone sig)"

definition one_line :: "Signature \<Rightarrow> bool" where
  "one_line sig \<longleftrightarrow> 10 \<notin> set (sig_name sig) \<and> 10 \<notin> set (sig_email sig)"

section \<open>Facts\<close>

lemma role_bytes:
  "utf8_valid (SignatureType_to_bytes t)" "b \<in> set (SignatureType_to_bytes t) \<Longrightarrow> 97 \<le> unat b"
proof -
  have low: "\<forall>b \<in> set (SignatureType_to_bytes t). unat b < 128"
    by (cases t) (simp_all add: ascii_def byte_of_char_def)
  then show "utf8_valid (SignatureType_to_bytes t)" by (rule utf8_valid_ascii)
  show "b \<in> set (SignatureType_to_bytes t) \<Longrightarrow> 97 \<le> unat b"
    by (cases t) (auto simp: ascii_def byte_of_char_def)
qed

lemma role_not_in: "unat c < 97 \<Longrightarrow> c \<notin> set (SignatureType_to_bytes t)"
  using role_bytes(2) by fastforce

lemma role_from_to: "SignatureType_from_str (SignatureType_to_bytes t) = Inr t"
  by (cases t) (simp_all add: SignatureType_from_str_def)

lemma role_from_str_iff: "SignatureType_from_str s = Inr t \<longleftrightarrow> s = SignatureType_to_bytes t"
  by (cases t) (auto simp: SignatureType_from_str_def split: if_splits)

lemma decimal_not_in: "\<not> is_digit c \<Longrightarrow> c \<notin> set (decimal n)"
  using decimal_digits by blast

lemma tz_ok_set: "tz_ok tz \<Longrightarrow> b \<in> set tz \<Longrightarrow> is_digit b \<or> unat b = 43 \<or> unat b = 45"
proof -
  assume ok: "tz_ok tz" "b \<in> set tz"
  then obtain c r where tz: "tz = c # r" by (cases tz) (auto simp: tz_ok_def)
  with ok have "c = byte_of_char (CHR ''+'') \<or> c = byte_of_char (CHR ''-'')" "list_all is_digit r"
    by (auto simp: tz_ok_def)
  with ok tz show ?thesis by (auto simp: list_all_iff byte_of_char_def)
qed

lemma tz_ok_utf8: "tz_ok tz \<Longrightarrow> utf8_valid tz"
  by (rule utf8_valid_ascii) (use tz_ok_set in \<open>fastforce simp: is_digit_def\<close>)

lemma tz_ok_not_in: "tz_ok tz \<Longrightarrow> \<not> is_digit c \<Longrightarrow> unat c \<notin> {43, 45} \<Longrightarrow> c \<notin> set tz"
  using tz_ok_set[of tz c] by auto

lemma signature_name_snoc: "signature_name (n @ [32]) = Some n"
  by (simp add: signature_name_def)

lemma signature_name_subset: "signature_name nb = Some n \<Longrightarrow> set n \<subseteq> set nb"
  by (auto simp: signature_name_def strip_suffix_eq_Some_iff split: option.splits if_splits)

lemma signature_date_ok:
  assumes "sign = p @ [0x20] @ decimal n @ [0x20] @ tz" "length p = Suc email_end" "n \<le> usize_max" "tz_ok tz"
  shows "signature_date sign email_end = Inr (n, tz)"
proof -
  have e: "sign ! (email_end + 1) = 0x20" "email_end + 1 < length sign" "drop (email_end + 2) sign = decimal n @ 0x20 # tz"
    using assms(1,2) by (simp_all add: nth_append)
  have m: "memchr 0x20 (decimal n @ 0x20 # tz) = Some (length (decimal n))"
    by (rule memchr_append) (rule decimal_not_in, simp add: is_digit_def)
  show ?thesis
    using e(1,2) m assms(3,4) tz_ok_utf8[OF assms(4)] parse_usize_decimal[OF assms(3)]
    unfolding signature_date_def Let_def e(3) by (simp add: from_utf8_def)
qed

lemma from_to_data:
  assumes "wf_sig sig" "Signature_to_data sig = Inr d"
  shows "Signature_from_data d = Inr sig"
proof -
  let ?r = "SignatureType_to_bytes (signature_type sig)" and ?n = "sig_name sig" and ?e = "sig_email sig"
  let ?tail = "[0x20] @ decimal (sig_timestamp sig) @ [0x20] @ sig_timezone sig"
  note wf = assms(1)[unfolded wf_sig_def]
  have d: "d = ?r @ 0x20 # ?n @ [0x20] @ 0x3C # ?e @ 0x3E # ?tail"
    using assms(2) by (simp add: Signature_to_data_def)
  let ?ns = "length ?r" and ?es = "length (?r @ [0x20] @ ?n @ [0x20])"
  let ?ee = "length (?r @ [0x20] @ ?n @ [0x20, 0x3C] @ ?e)"
  have ns: "memchr 0x20 d = Some ?ns" unfolding d by (rule memchr_append) (rule role_not_in, simp)
  have "memchr 0x3C ((?r @ [0x20] @ ?n @ [0x20]) @ 0x3C # ?e @ 0x3E # ?tail) = Some ?es"
    by (rule memchr_append) (use wf role_not_in[of "0x3C"] in auto)
  then have es: "find_after 0x3C ?ns d = Some ?es" by (simp add: d find_after_def)
  have "memchr 0x3E ((?r @ [0x20] @ ?n @ [0x20, 0x3C] @ ?e) @ 0x3E # ?tail) = Some ?ee"
    by (rule memchr_append) (use wf role_not_in[of "0x3E"] in auto)
  then have ee: "find_after 0x3E ?es d = Some ?ee" by (simp add: d find_after_def)
  have nm: "take (?es - (?ns + 1)) (drop (?ns + 1) d) = ?n @ [32]" by (simp add: d)
  have "d = (?r @ [0x20] @ ?n @ [0x20, 0x3C]) @ ?e @ 0x3E # ?tail" by (simp add: d)
  moreover have "?es + 1 = length (?r @ [0x20] @ ?n @ [0x20, 0x3C])" by simp
  ultimately have "drop (?es + 1) d = ?e @ 0x3E # ?tail" by (metis append_eq_conv_conj)
  then have em: "take (?ee - (?es + 1)) (drop (?es + 1) d) = ?e" by simp
  have date: "signature_date d ?ee = Inr (sig_timestamp sig, sig_timezone sig)"
    by (rule signature_date_ok[where p = "?r @ [0x20] @ ?n @ [0x20, 0x3C] @ ?e @ [0x3E]"])
      (use wf in \<open>simp_all add: d\<close>)
  have role: "from_utf8 (take ?ns d) = Some ?r" using role_bytes(1) by (simp add: d from_utf8_def)
  show ?thesis
    unfolding Signature_from_data_def Let_def ns ok_or_simps and_then_simps role role_from_to es ee nm em date
    using wf by (simp add: signature_name_snoc from_utf8_def)
qed

lemma Signature_from_dataE:
  assumes "Signature_from_data d = Inr sig"
  obtains ns es ee nb where
    "memchr 0x20 d = Some ns" "find_after 0x3C ns d = Some es" "find_after 0x3E es d = Some ee"
    "take ns d = SignatureType_to_bytes (signature_type sig)"
    "nb = take (es - (ns + 1)) (drop (ns + 1) d)" "signature_name nb = Some (sig_name sig)" "utf8_valid (sig_name sig)"
    "sig_email sig = take (ee - (es + 1)) (drop (es + 1) d)" "utf8_valid (sig_email sig)"
    "signature_date d ee = Inr (sig_timestamp sig, sig_timezone sig)"
  using assms unfolding Signature_from_data_def Let_def
  by (auto simp: and_then_eq_Inr_iff role_from_str_iff)

lemma parse_digits_bound: "parse_digits acc s = Some n \<Longrightarrow> acc \<le> usize_max \<Longrightarrow> n \<le> usize_max"
  by (induction acc s rule: parse_digits.induct) (auto split: if_splits)

lemma parse_usize_bound: "parse_usize s = Some n \<Longrightarrow> n \<le> usize_max"
  using parse_digits_bound[of 0] by (auto simp: parse_usize_def Let_def split: list.splits)

lemma signature_date_sound: "signature_date d ee = Inr (n, tz) \<Longrightarrow> n \<le> usize_max \<and> tz_ok tz"
  unfolding signature_date_def Let_def
  by (auto simp: and_then_eq_Inr_iff dest: parse_usize_bound split: if_splits)

lemma take_drop_before:
  assumes "memchr c d = Some e" "j \<le> e"
  shows "c \<notin> set (take (j - i) (drop i d))"
proof -
  obtain p r where p: "d = p @ c # r" "e = length p" "c \<notin> set p" using assms(1) by (rule memchr_SomeE)
  have "take (j - i) (drop i d) = take (j - i) (drop i p)" using p assms(2) by (simp add: take_append drop_append)
  then show ?thesis using p(3) by (metis in_set_dropD in_set_takeD)
qed

lemma find_after_SomeD: "find_after c i s = Some j \<Longrightarrow> memchr c s = Some j \<and> i < j"
  by (auto simp: find_after_def split: option.splits if_splits)

lemma from_data_wf:
  assumes "Signature_from_data d = Inr sig"
  shows "wf_sig sig \<and> set (sig_name sig) \<subseteq> set d \<and> set (sig_email sig) \<subseteq> set d"
  using assms
proof (cases rule: Signature_from_dataE)
  case (1 ns es ee nb)
  note lt = find_after_SomeD[OF 1(2)] and gt = find_after_SomeD[OF 1(3)]
  have sub: "set (sig_name sig) \<subseteq> set nb" by (rule signature_name_subset) (rule 1)
  have "0x3C \<notin> set nb" "0x3E \<notin> set nb"
    unfolding 1(5) by (rule take_drop_before[of _ _ es], use lt in simp_all)
      (rule take_drop_before[of _ _ ee], use gt in simp_all)
  moreover have "0x3E \<notin> set (sig_email sig)" unfolding 1(8) by (rule take_drop_before[of _ _ ee]) (use gt in simp_all)
  moreover have "set nb \<subseteq> set d" "set (sig_email sig) \<subseteq> set d"
    unfolding 1(5,8) by (auto dest!: in_set_takeD in_set_dropD)
  ultimately show ?thesis
    using sub 1(7,9) signature_date_sound[OF 1(10)] by (auto simp: wf_sig_def)
qed

section \<open>Properties\<close>

lemma decimal_two: "n < 100 \<Longrightarrow> 10 \<le> n \<Longrightarrow> decimal n = [word_of_nat (48 + n div 10), word_of_nat (48 + n mod 10)]"
  by (subst decimal.simps, subst decimal.simps) simp

lemma decimal_one: "n < 10 \<Longrightarrow> decimal n = [word_of_nat (48 + n)]"
  by (subst decimal.simps) simp

lemma decimal_length_ge: "100 \<le> n \<Longrightarrow> 3 \<le> length (decimal n)"
proof -
  assume n: "100 \<le> n"
  have "1 \<le> length (decimal (n div 10 div 10))" using decimal_not_Nil[of "n div 10 div 10"]
    by (metis One_nat_def Suc_leI length_greater_0_conv)
  moreover have "length (decimal n) = Suc (Suc (length (decimal (n div 10 div 10))))"
    using n by (subst decimal.simps, subst decimal.simps) simp
  ultimately show ?thesis by simp
qed

lemma pad2_ok: "n < 100 \<Longrightarrow> length (pad2 n) = 2 \<and> list_all is_digit (pad2 n)"
  unfolding pad2_def list_all_iff using decimal_digits[of _ n]
  by (cases "n < 10") (auto simp: decimal_one decimal_two ascii_def byte_of_char_def is_digit_def)

lemma pad2_length: "100 \<le> n \<Longrightarrow> 3 \<le> length (pad2 n)"
  by (simp add: pad2_def decimal_length_ge)

text \<open>C39: signature lines.  Every well-formed signature survives printing and parsing.  Whatever the
  parser accepts is well-formed, so printing it again and parsing gives the same signature.  The
  timezone the constructor renders is accepted exactly for offsets below 100 hours.\<close>

theorem signature_roundtrip:
  "(wf_sig sig \<longrightarrow> and_then (Signature_to_data sig) Signature_from_data = Inr sig) \<and>
   (Signature_from_data line = Inr sig \<longrightarrow>
      wf_sig sig \<and> and_then (Signature_to_data sig) Signature_from_data = Inr sig) \<and>
   (tz_ok (format_timezone offset) \<longleftrightarrow> \<bar>offset\<bar> < 360000)"
proof (intro conjI impI)
  show rt: "and_then (Signature_to_data sig) Signature_from_data = Inr sig" if "wf_sig sig"
    using from_to_data[OF that] by (auto simp: Signature_to_data_def)
  assume parsed: "Signature_from_data line = Inr sig"
  then show "wf_sig sig" using from_data_wf by blast
  then show "and_then (Signature_to_data sig) Signature_from_data = Inr sig" by (rule rt)
next
  define m where "m = nat \<bar>offset\<bar> div 60"
  have "m mod 60 < 100" using mod_less_divisor[of 60 m] by linarith
  note low = pad2_ok[OF this]
  obtain c where fmt: "format_timezone offset = c # pad2 (m div 60) @ pad2 (m mod 60)"
    "c = byte_of_char (CHR ''+'') \<or> c = byte_of_char (CHR ''-'')"
    by (rule that[of "if offset < 0 then byte_of_char (CHR ''-'') else byte_of_char (CHR ''+'')"])
      (simp_all add: format_timezone_def Let_def ascii_def m_def)
  show "tz_ok (format_timezone offset) \<longleftrightarrow> \<bar>offset\<bar> < 360000"
  proof (cases "\<bar>offset\<bar> < 360000")
    case True
    then have "m div 60 < 100" by (simp add: m_def div_less_iff_less_mult nat_less_iff)
    then show ?thesis using True fmt low pad2_ok[of "m div 60"] by (simp add: tz_ok_def)
  next
    case False
    then have "100 \<le> m div 60" by (simp add: m_def less_eq_div_iff_mult_less_eq le_nat_iff)
    then show ?thesis using False fmt low pad2_length[of "m div 60"] by (simp add: tz_ok_def)
  qed
qed

theorem signature_roundtrip_witness:
  "and_then (Signature_to_data \<lparr>signature_type = Author, sig_name = [], sig_email = [0x3C], sig_timestamp = 7,
     sig_timezone = format_timezone (- 9000)\<rparr>) Signature_from_data =
   Inr \<lparr>signature_type = Author, sig_name = [], sig_email = [0x3C], sig_timestamp = 7,
     sig_timezone = format_timezone (- 9000)\<rparr>"
proof -
  let ?s = "\<lparr>signature_type = Author, sig_name = [], sig_email = [0x3C], sig_timestamp = 7,
     sig_timezone = format_timezone (- 9000)\<rparr>"
  have "tz_ok (format_timezone (- 9000))" using signature_roundtrip[of ?s "[]" "- 9000"] by simp
  moreover have "utf8_valid [0x3C]" by (rule utf8_valid_ascii) simp
  ultimately have "wf_sig ?s" by (simp add: wf_sig_def)
  then show ?thesis using signature_roundtrip[of ?s "[]" 0] by blast
qed

end
