(* ===== verification/Commit_Object.thy ===== *)
theory Commit_Object
  imports Signature
begin

text \<open>
  Commit objects (\<open>src/src/internal/object/commit.rs\<close>): construction with an explicit repository
  kind, the parser and the serialiser of the body, and the first meaningful line of a message.
  The hex crate is the parameter pair \<open>hex_encode\<close>, \<open>hex_decode\<close>.
\<close>

section \<open>The object\<close>

record Commit =
  commit_id :: ObjectHash
  commit_tree_id :: ObjectHash
  parent_commit_ids :: "ObjectHash list"
  commit_author :: Signature
  commit_committer :: Signature
  commit_message :: bytes

fun parent_lines :: "(bytes \<Rightarrow> bytes) \<Rightarrow> ObjectHash list \<Rightarrow> bytes" where
  "parent_lines hex_encode [] = []"
| "parent_lines hex_encode (p # ps) =
     ascii ''parent '' @ hash_to_string hex_encode p @ [0x0a] @ parent_lines hex_encode ps"

definition Commit_to_data :: "(bytes \<Rightarrow> bytes) \<Rightarrow> Commit \<Rightarrow> GitError + bytes" where
  "Commit_to_data hex_encode commit =
     (let data = ascii ''tree '' @ hash_to_string hex_encode (commit_tree_id commit) @ [0x0a]
                 @ parent_lines hex_encode (parent_commit_ids commit) in
      and_then (Signature_to_data (commit_author commit)) (\<lambda>author.
      and_then (Signature_to_data (commit_committer commit)) (\<lambda>committer.
        Inr (data @ author @ [0x0a] @ committer @ [0x0a] @ commit_message commit))))"

fun ensure_parents :: "ObjectHash list \<Rightarrow> HashKind \<Rightarrow> GitError + unit" where
  "ensure_parents [] kind = Inr ()"
| "ensure_parents (p # ps) kind =
     and_then (map_err GitError_of_hash (ensure_kind p kind)) (\<lambda>_. ensure_parents ps kind)"

definition Commit_new_with_kind ::
  "(HashKind \<Rightarrow> bytes \<Rightarrow> bytes) \<Rightarrow> (bytes \<Rightarrow> bytes) \<Rightarrow> HashKind \<Rightarrow> Signature \<Rightarrow> Signature \<Rightarrow> ObjectHash \<Rightarrow>
   ObjectHash list \<Rightarrow> bytes \<Rightarrow> GitError + Commit" where
  "Commit_new_with_kind digest hex_encode kind author committer tree parents message =
     and_then (map_err GitError_of_hash (ensure_kind tree kind)) (\<lambda>_.
     and_then (ensure_parents parents kind) (\<lambda>_.
       let commit = \<lparr>commit_id = zero_for_kind kind, commit_tree_id = tree, parent_commit_ids = parents,
                     commit_author = author, commit_committer = committer, commit_message = message\<rparr> in
       and_then (Commit_to_data hex_encode commit) (\<lambda>data.
       and_then (map_err GitError_of_hash (from_type_and_data_for_kind digest kind OT_Commit data)) (\<lambda>h.
         Inr (commit\<lparr>commit_id := h\<rparr>)))))"

definition Commit_new ::
  "(HashKind \<Rightarrow> bytes \<Rightarrow> bytes) \<Rightarrow> (bytes \<Rightarrow> bytes) \<Rightarrow> HashKind \<Rightarrow> Signature \<Rightarrow> Signature \<Rightarrow> ObjectHash \<Rightarrow>
   ObjectHash list \<Rightarrow> bytes \<Rightarrow> io_error + Commit" where
  "Commit_new digest hex_encode current author committer tree parents message =
     (let commit = \<lparr>commit_id = HSha1 (replicate 20 0), commit_tree_id = tree, parent_commit_ids = parents,
                    commit_author = author, commit_committer = committer, commit_message = message\<rparr> in
      and_then (map_err (\<lambda>_. Panic ''unwrap on Err'') (Commit_to_data hex_encode commit)) (\<lambda>data.
      and_then (from_type_and_data digest current OT_Commit data) (\<lambda>h.
        Inr (commit\<lparr>commit_id := h\<rparr>))))"

text \<open>\<open>from_tree_id_with_kind\<close> with the clock reading \<open>now\<close> (\<open>i64\<close>): both signatures are parsed from
  their formatted lines, so a clock before the epoch, whose reading prints with a minus sign, is
  reported as an error.\<close>

definition mega_line :: "string \<Rightarrow> bytes \<Rightarrow> bytes" where
  "mega_line role now = ascii role @ ascii '' mega <admin@mega.org> '' @ now @ ascii '' +0800''"

definition from_tree_id_with_kind ::
  "(HashKind \<Rightarrow> bytes \<Rightarrow> bytes) \<Rightarrow> (bytes \<Rightarrow> bytes) \<Rightarrow> bytes \<Rightarrow> HashKind \<Rightarrow> ObjectHash \<Rightarrow>
   ObjectHash list \<Rightarrow> bytes \<Rightarrow> GitError + Commit" where
  "from_tree_id_with_kind digest hex_encode now kind tree parents message =
     and_then (Signature_from_data (mega_line ''author'' now)) (\<lambda>author.
     and_then (Signature_from_data (mega_line ''committer'' now)) (\<lambda>committer.
       Commit_new_with_kind digest hex_encode kind author committer tree parents message))"

section \<open>The first meaningful line\<close>

definition pgp_end :: bytes where
  "pgp_end = ascii ''-----END PGP SIGNATURE-----''"

definition format_message :: "Commit \<Rightarrow> bytes" where
  "format_message commit =
     (let lines = text_lines (commit_message commit);
          body = (case List.find (\<lambda>i. sublist pgp_end (lines ! i)) [0..<length lines] of
                    Some pos \<Rightarrow> drop (pos + 1) lines
                  | None \<Rightarrow> lines) in
      case List.find (\<lambda>line. \<not> blank line) body of
        Some line \<Rightarrow> line
      | None \<Rightarrow> commit_message commit)"

section \<open>The parser\<close>

definition parse_commit_reference ::
  "(bytes \<Rightarrow> string + bytes) \<Rightarrow> HashKind \<Rightarrow> string \<Rightarrow> bytes \<Rightarrow> GitError + ObjectHash" where
  "parse_commit_reference hex_decode kind field raw =
     and_then (ok_or (GE_InvalidHashValue (''commit '' @ field @ '' id is not UTF-8: expected ''
         @ decimal_string (hex_len kind) @ '' '' @ latin (HashKind_as_str kind) @ '' hex chars, got ''
         @ decimal_string (length raw) @ '' bytes'')) (from_utf8 raw)) (\<lambda>hex.
       map_err (\<lambda>e. GE_InvalidHashValue (''commit '' @ field @ '' id: '' @ HashError_display e))
         (from_hex_for_kind hex_decode kind hex))"

text \<open>The loop over the \<open>parent\<close> lines ends at the \<open>author\<close> line and returns the rest of the body
  from there.\<close>

function parents_loop ::
  "(bytes \<Rightarrow> string + bytes) \<Rightarrow> HashKind \<Rightarrow> bytes \<Rightarrow> ObjectHash list \<Rightarrow> GitError + ObjectHash list \<times> bytes" where
  "parents_loop hex_decode kind commit acc =
     (case memchr 0x0a commit of
        None \<Rightarrow> Inl GE_InvalidCommitObject
      | Some line_end \<Rightarrow>
          (case strip_prefix (ascii ''parent '') (take line_end commit) of
             Some parent_hex \<Rightarrow>
               and_then (parse_commit_reference hex_decode kind ''parent'' parent_hex) (\<lambda>h.
                 parents_loop hex_decode kind (drop (line_end + 1) commit) (acc @ [h]))
           | None \<Rightarrow>
               if prefix (ascii ''author '') (take line_end commit) then Inr (acc, commit)
               else Inl GE_InvalidCommitObject))"
  by auto
termination
proof (relation "measure (\<lambda>(_, _, commit, _). length commit)", goal_cases)
  case (2 hex_decode kind commit acc line_end parent_hex h)
  then show ?case using memchr_less[of "0x0a" commit line_end] by simp
qed simp

declare parents_loop.simps [simp del]

definition Commit_from_bytes ::
  "(bytes \<Rightarrow> string + bytes) \<Rightarrow> bytes \<Rightarrow> ObjectHash \<Rightarrow> GitError + Commit" where
  "Commit_from_bytes hex_decode data h =
     (let kind = hash_kind h in
      and_then (ok_or GE_InvalidCommitObject (memchr 0x0a data)) (\<lambda>tree_end.
      and_then (ok_or GE_InvalidCommitObject (strip_prefix (ascii ''tree '') (take tree_end data))) (\<lambda>tree_hex.
      and_then (parse_commit_reference hex_decode kind ''tree'' tree_hex) (\<lambda>tree.
      and_then (parents_loop hex_decode kind (drop (tree_end + 1) data) []) (\<lambda>(parents, commit).
      and_then (ok_or GE_InvalidCommitObject (memchr 0x0a commit)) (\<lambda>author_end.
      and_then (Signature_from_data (take author_end commit)) (\<lambda>author.
      let commit = drop (author_end + 1) commit in
      and_then (ok_or GE_InvalidCommitObject (memchr 0x0a commit)) (\<lambda>committer_end.
      if \<not> prefix (ascii ''committer '') commit then Inl GE_InvalidCommitObject
      else and_then (Signature_from_data (take committer_end commit)) (\<lambda>committer.
        Inr \<lparr>commit_id = h, commit_tree_id = tree, parent_commit_ids = parents, commit_author = author,
             commit_committer = committer, commit_message = drop (committer_end + 1) commit\<rparr>)))))))))"

section \<open>Well-formed commits\<close>

definition wf_commit :: "HashKind \<Rightarrow> Commit \<Rightarrow> bool" where
  "wf_commit kind c \<longleftrightarrow>
     hash_kind (commit_tree_id c) = kind \<and> wf_hash (commit_tree_id c) \<and>
     (\<forall>p \<in> set (parent_commit_ids c). hash_kind p = kind \<and> wf_hash p) \<and>
     signature_type (commit_author c) = Author \<and> wf_sig (commit_author c) \<and> one_line (commit_author c) \<and>
     signature_type (commit_committer c) = Committer \<and> wf_sig (commit_committer c) \<and> one_line (commit_committer c)"

section \<open>Facts\<close>

lemma hex_digits_clean:
  assumes "hex_ok enc dec"
  shows "10 \<notin> set (hash_to_string enc h)" "utf8_valid (hash_to_string enc h)"
proof -
  have dig: "b \<in> set (hash_to_string enc h) \<Longrightarrow> is_hex_digit b" for b
    using hex_ok_simps(3)[OF assms] by (simp add: hash_to_string_def list_all_iff)
  then show "10 \<notin> set (hash_to_string enc h)" by (fastforce simp: is_hex_digit_def is_digit_def)
  show "utf8_valid (hash_to_string enc h)"
    by (rule utf8_valid_ascii) (use dig in \<open>fastforce simp: is_hex_digit_def is_digit_def\<close>)
qed

lemma parse_commit_reference_ok:
  assumes "hex_ok enc dec" "wf_hash h"
  shows "parse_commit_reference dec (hash_kind h) f (hash_to_string enc h) = Inr h"
  using from_hex_hash_to_string[OF assms] hex_digits_clean[OF assms(1)]
  by (simp add: parse_commit_reference_def from_utf8_def)

lemma parse_commit_reference_kind:
  "parse_commit_reference dec kind f raw = Inr h \<Longrightarrow> hash_kind h = kind \<and> wf_hash h"
  by (auto simp: parse_commit_reference_def and_then_eq_Inr_iff dest: from_hex_for_kind_kind)

lemma signature_line:
  assumes "one_line sig" "wf_sig sig" "Signature_to_data sig = Inr d"
  shows "10 \<notin> set d" "prefix (SignatureType_to_bytes (signature_type sig) @ [32]) d"
proof -
  have "10 \<notin> set (SignatureType_to_bytes (signature_type sig))" by (rule role_not_in) simp
  moreover have "10 \<notin> set (decimal (sig_timestamp sig))" by (rule decimal_not_in) (simp add: is_digit_def)
  moreover have "10 \<notin> set (sig_timezone sig)"
    using assms(2) by (intro tz_ok_not_in) (simp_all add: wf_sig_def is_digit_def)
  ultimately show "10 \<notin> set d" using assms(1,3) by (auto simp: one_line_def Signature_to_data_def)
  show "prefix (SignatureType_to_bytes (signature_type sig) @ [32]) d"
    using assms(3) by (auto simp: Signature_to_data_def)
qed

text \<open>A body whose first line has no line feed in it.\<close>

lemma parent_line:
  assumes "hex_ok enc dec"
  shows "memchr 0x0a (ascii ''parent '' @ hash_to_string enc p @ [0x0a] @ s) =
      Some (length (ascii ''parent '' @ hash_to_string enc p))"
    "memchr 0x0a (ascii ''tree '' @ hash_to_string enc p @ [0x0a] @ s) =
      Some (length (ascii ''tree '' @ hash_to_string enc p))"
proof -
  have "10 \<notin> set (ascii ''parent '' @ hash_to_string enc p)" "10 \<notin> set (ascii ''tree '' @ hash_to_string enc p)"
    using hex_digits_clean(1)[OF assms] by (simp_all add: ascii_def byte_of_char_def)
  from this[THEN memchr_append, of s]
  show "memchr 0x0a (ascii ''parent '' @ hash_to_string enc p @ [0x0a] @ s) =
      Some (length (ascii ''parent '' @ hash_to_string enc p))"
    "memchr 0x0a (ascii ''tree '' @ hash_to_string enc p @ [0x0a] @ s) =
      Some (length (ascii ''tree '' @ hash_to_string enc p))"
    by (simp_all only: append_assoc append_Cons append_Nil)
qed

lemma parents_loop_author:
  assumes "prefix (ascii ''author '') l" "10 \<notin> set l"
  shows "parents_loop dec kind (l @ 10 # s) acc = Inr (acc, l @ 10 # s)"
proof -
  have "hd l = byte_of_char (CHR ''a'')" using assms(1) by (auto simp: prefix_def ascii_def)
  moreover have "hd l = byte_of_char (CHR ''p'')" if "prefix (ascii ''parent '') l"
    using that by (auto simp: prefix_def ascii_def)
  ultimately have "strip_prefix (ascii ''parent '') l = None"
    by (auto simp: strip_prefix_def byte_of_char_def)
  then show ?thesis using assms by (subst parents_loop.simps) simp
qed

lemma parents_loop_ok:
  assumes "hex_ok enc dec" "prefix (ascii ''author '') l" "10 \<notin> set l"
    "\<And>p. p \<in> set ps \<Longrightarrow> hash_kind p = kind \<and> wf_hash p"
  shows "parents_loop dec kind (parent_lines enc ps @ l @ 10 # s) acc = Inr (acc @ ps, l @ 10 # s)"
  using assms(4)
proof (induction ps arbitrary: acc)
  case Nil
  then show ?case using parents_loop_author[OF assms(2,3)] by simp
next
  case (Cons p ps)
  let ?line = "ascii ''parent '' @ hash_to_string enc p" and ?rest = "parent_lines enc ps @ l @ 10 # s"
  have body: "parent_lines enc (p # ps) @ l @ 10 # s = ?line @ 10 # ?rest" by simp
  have m: "memchr 0x0a (?line @ 10 # ?rest) = Some (length ?line)"
    using parent_line(1)[OF assms(1), of p ?rest] by simp
  have "parse_commit_reference dec kind ''parent'' (hash_to_string enc p) = Inr p"
    using parse_commit_reference_ok[OF assms(1), of p] Cons.prems[of p] by auto
  moreover have "take (length ?line) (?line @ 10 # ?rest) = ?line"
    "drop (length ?line + 1) (?line @ 10 # ?rest) = ?rest" by simp_all
  moreover have "parents_loop dec kind ?rest (acc @ [p]) = Inr (acc @ p # ps, l @ 10 # s)"
    using Cons.IH[of "acc @ [p]"] Cons.prems by simp
  ultimately show ?case
    unfolding body using m
    by (subst parents_loop.simps) (simp only: option.case strip_prefix_append and_then_simps)
qed

lemma commit_roundtrip:
  assumes "hex_ok enc dec" "wf_commit (hash_kind h) c" "Commit_to_data enc c = Inr d"
  shows "Commit_from_bytes dec d h = Inr (c\<lparr>commit_id := h\<rparr>)"
proof -
  note wf = assms(2)[unfolded wf_commit_def]
  obtain a b where ab: "Signature_to_data (commit_author c) = Inr a" "Signature_to_data (commit_committer c) = Inr b"
    by (simp add: Signature_to_data_def)
  let ?tree = "ascii ''tree '' @ hash_to_string enc (commit_tree_id c)"
  let ?rest = "parent_lines enc (parent_commit_ids c) @ a @ 10 # b @ 10 # commit_message c"
  have d: "d = ?tree @ 10 # ?rest" using assms(3) ab by (simp add: Commit_to_data_def Let_def)
  have m: "memchr 0x0a d = Some (length ?tree)"
    using parent_line(2)[OF assms(1), of "commit_tree_id c" ?rest] by (simp add: d)
  have lines: "take (length ?tree) d = ?tree" "drop (length ?tree + 1) d = ?rest" by (simp_all add: d)
  have tree: "parse_commit_reference dec (hash_kind h) ''tree'' (hash_to_string enc (commit_tree_id c)) = Inr (commit_tree_id c)"
    using parse_commit_reference_ok[OF assms(1), of "commit_tree_id c"] wf by simp
  have sp: "ascii ''author '' = SignatureType_to_bytes Author @ [32]" "ascii ''committer '' = SignatureType_to_bytes Committer @ [32]"
    by (simp_all add: ascii_def byte_of_char_def)
  have la: "10 \<notin> set a" "prefix (ascii ''author '') a" and lb: "10 \<notin> set b" "prefix (ascii ''committer '') b"
    using signature_line[OF _ _ ab(1)] signature_line[OF _ _ ab(2)] wf by (simp_all add: sp)
  have pa: "parents_loop dec (hash_kind h) ?rest [] = Inr (parent_commit_ids c, a @ 10 # b @ 10 # commit_message c)"
    using parents_loop_ok[OF assms(1) la(2,1), of "parent_commit_ids c" "hash_kind h" "b @ 10 # commit_message c" "[]"] wf by simp
  have sa: "Signature_from_data a = Inr (commit_author c)" "Signature_from_data b = Inr (commit_committer c)"
    using from_to_data ab wf by blast+
  show ?thesis
    unfolding Commit_from_bytes_def Let_def m lines ok_or_simps and_then_simps tree strip_prefix_append pa
    using la lb sa by (simp add: prefix_prefix)
qed

lemma parents_loop_sound:
  assumes "parents_loop dec kind s acc = Inr (ps, r)"
  shows "\<exists>more. ps = acc @ more \<and> (\<forall>p \<in> set more. hash_kind p = kind \<and> wf_hash p) \<and>
    (\<exists>i. memchr 10 r = Some i \<and> prefix (ascii ''author '') (take i r))"
  using assms
proof (induction dec kind s acc rule: parents_loop.induct)
  case (1 dec kind s acc)
  obtain i where i: "memchr 0x0a s = Some i" using "1.prems" by (subst (asm) parents_loop.simps) (auto split: option.splits)
  show ?case
  proof (cases "strip_prefix (ascii ''parent '') (take i s)")
    case None
    then show ?thesis using "1.prems" i by (subst (asm) parents_loop.simps) (auto split: if_splits)
  next
    case (Some hex)
    then obtain h where h: "parse_commit_reference dec kind ''parent'' hex = Inr h"
      "parents_loop dec kind (drop (i + 1) s) (acc @ [h]) = Inr (ps, r)"
      using "1.prems" i by (subst (asm) parents_loop.simps) (auto simp: and_then_eq_Inr_iff)
    then obtain more where "ps = (acc @ [h]) @ more" "\<forall>p \<in> set more. hash_kind p = kind \<and> wf_hash p"
      "\<exists>i. memchr 10 r = Some i \<and> prefix (ascii ''author '') (take i r)"
      using "1.IH"[OF i Some h] by auto
    then show ?thesis using parse_commit_reference_kind[OF h(1)] by (intro exI[of _ "h # more"]) auto
  qed
qed

text \<open>A signature parsed from a line has the role the line starts with and no line feed in its texts.\<close>

lemma signature_of_line:
  assumes "Signature_from_data l = Inr sig" "prefix (SignatureType_to_bytes t @ [32]) l" "10 \<notin> set l"
  shows "signature_type sig = t \<and> wf_sig sig \<and> one_line sig"
proof -
  have "one_line sig" "wf_sig sig" using from_data_wf[OF assms(1)] assms(3) by (auto simp: one_line_def)
  moreover obtain r where r: "l = SignatureType_to_bytes t @ 32 # r" using assms(2) by (auto simp: prefix_def)
  have "memchr 32 l = Some (length (SignatureType_to_bytes t))"
    unfolding r by (rule memchr_append) (rule role_not_in, simp)
  then have "SignatureType_to_bytes (signature_type sig) = SignatureType_to_bytes t"
    using assms(1) by (auto simp: r elim!: Signature_from_dataE)
  then have "signature_type sig = t" using role_from_to by (metis Inr_inject)
  ultimately show ?thesis by simp
qed

lemma take_memchr_clean: "memchr c s = Some i \<Longrightarrow> c \<notin> set (take i s)"
  by (auto elim: memchr_SomeE)

lemma commit_sound:
  assumes "Commit_from_bytes dec data h = Inr c"
  shows "wf_commit (hash_kind h) c \<and> commit_id c = h"
proof -
  obtain te hex tree ps r ae a be b where parts:
    "parse_commit_reference dec (hash_kind h) ''tree'' hex = Inr tree"
    "parents_loop dec (hash_kind h) (drop (te + 1) data) [] = Inr (ps, r)"
    "memchr 0x0a r = Some ae" "Signature_from_data (take ae r) = Inr a"
    "memchr 0x0a (drop (ae + 1) r) = Some be" "prefix (ascii ''committer '') (drop (ae + 1) r)"
    "Signature_from_data (take be (drop (ae + 1) r)) = Inr b"
    and c: "c = \<lparr>commit_id = h, commit_tree_id = tree, parent_commit_ids = ps, commit_author = a,
      commit_committer = b, commit_message = drop (be + 1) (drop (ae + 1) r)\<rparr>"
    using assms unfolding Commit_from_bytes_def Let_def
    by (auto simp: and_then_eq_Inr_iff split: if_splits prod.splits)
  have sp: "ascii ''author '' = SignatureType_to_bytes Author @ [32]" "ascii ''committer '' = SignatureType_to_bytes Committer @ [32]"
    by (simp_all add: ascii_def byte_of_char_def)
  note ps = parents_loop_sound[OF parts(2)]
  then have "prefix (ascii ''author '') (take ae r)" using parts(3) by auto
  note A = signature_of_line[OF parts(4) this[unfolded sp] take_memchr_clean[OF parts(3)]]
  let ?s = "drop (ae + 1) r"
  obtain p t where pt: "?s = p @ 10 # t" "be = length p" "10 \<notin> set p" using parts(5) by (rule memchr_SomeE)
  have "prefix (ascii ''committer '') (take be ?s)"
  proof -
    have "10 \<notin> set (ascii ''committer '')" by (simp add: ascii_def byte_of_char_def)
    then have "\<not> prefix (p @ [10]) (ascii ''committer '')" using set_mono_prefix by fastforce
    then show ?thesis using parts(6) pt by (auto simp: prefix_append prefix_Cons)
  qed
  note B = signature_of_line[OF parts(7) this[unfolded sp] take_memchr_clean[OF parts(5)]]
  show ?thesis using A B ps parse_commit_reference_kind[OF parts(1)] by (auto simp: c wf_commit_def)
qed

lemma ensure_parents_iff: "is_ok (ensure_parents ps kind) \<longleftrightarrow> (\<forall>p \<in> set ps. hash_kind p = kind)"
  by (induction ps) (auto simp: ensure_kind_def)

interpretation commit_obj: git_object "Commit_to_data enc" "Commit_from_bytes dec" OT_Commit
  "\<lambda>h c. c\<lparr>commit_id := h\<rparr>" "\<lambda>k c. hex_ok enc dec \<and> wf_commit k c" for enc dec
proof
  show "hex_ok enc dec \<and> wf_commit k c \<Longrightarrow> is_ok (Commit_to_data enc c)" for k c
    by (simp add: Commit_to_data_def Signature_to_data_def Let_def)
qed (use commit_roundtrip in auto)

section \<open>Properties\<close>

text \<open>C22: commit bodies.  A commit whose references have the repository's kind and whose signatures
  are one-line author and committer signatures survives serialising and parsing under any id of that
  kind.  Whatever the parser accepts is such a commit, so that its re-encoding parses to the same
  commit.\<close>

theorem commit_body_roundtrip:
  assumes "hex_ok hex_encode hex_decode"
  shows "(wf_commit (hash_kind h) c \<longrightarrow>
      and_then (Commit_to_data hex_encode c) (\<lambda>d. Commit_from_bytes hex_decode d h) = Inr (c\<lparr>commit_id := h\<rparr>)) \<and>
    (Commit_from_bytes hex_decode data h = Inr c \<longrightarrow>
      wf_commit (hash_kind h) c \<and> commit_id c = h \<and>
      and_then (Commit_to_data hex_encode c) (\<lambda>d. Commit_from_bytes hex_decode d h) = Inr c)"
proof (intro conjI impI)
  have rt: "and_then (Commit_to_data hex_encode c) (\<lambda>d. Commit_from_bytes hex_decode d h) = Inr (c\<lparr>commit_id := h\<rparr>)"
    if "wf_commit (hash_kind h) c" for c
    using commit_roundtrip[OF assms that] by (simp add: Commit_to_data_def Signature_to_data_def Let_def)
  then show "and_then (Commit_to_data hex_encode c) (\<lambda>d. Commit_from_bytes hex_decode d h) = Inr (c\<lparr>commit_id := h\<rparr>)"
    if "wf_commit (hash_kind h) c" using that .
  assume parsed: "Commit_from_bytes hex_decode data h = Inr c"
  show "wf_commit (hash_kind h) c" "commit_id c = h" using commit_sound[OF parsed] by auto
  then show "and_then (Commit_to_data hex_encode c) (\<lambda>d. Commit_from_bytes hex_decode d h) = Inr c"
    using rt[of c] by simp
qed

definition sample_sig :: "SignatureType \<Rightarrow> Signature" where
  "sample_sig t = \<lparr>signature_type = t, sig_name = ascii ''a'', sig_email = ascii ''b'', sig_timestamp = 1,
     sig_timezone = ascii ''+0000''\<rparr>"

lemma sample_sig_wf: "wf_sig (sample_sig t) \<and> one_line (sample_sig t) \<and> signature_type (sample_sig t) = t"
proof -
  have "utf8_valid (ascii ''a'')" "utf8_valid (ascii ''b'')"
    by (rule utf8_valid_ascii, simp add: ascii_def byte_of_char_def)+
  then show ?thesis
    by (simp add: sample_sig_def wf_sig_def one_line_def tz_ok_def ascii_def byte_of_char_def is_digit_def)
qed

theorem commit_body_roundtrip_witness:
  "let c = \<lparr>commit_id = zero_for_kind KSha1, commit_tree_id = zero_for_kind KSha1,
       parent_commit_ids = [zero_for_kind KSha1], commit_author = sample_sig Author,
       commit_committer = sample_sig Committer, commit_message = [10, 104, 105]\<rparr> in
   and_then (Commit_to_data sample_hex_encode c)
     (\<lambda>d. Commit_from_bytes sample_hex_decode d (zero_for_kind KSha1)) = Inr c"
proof -
  let ?c = "\<lparr>commit_id = zero_for_kind KSha1, commit_tree_id = zero_for_kind KSha1,
       parent_commit_ids = [zero_for_kind KSha1], commit_author = sample_sig Author,
       commit_committer = sample_sig Committer, commit_message = [10, 104, 105]\<rparr>"
  have "wf_commit (hash_kind (zero_for_kind KSha1)) ?c"
    using sample_sig_wf by (simp add: wf_commit_def zero_for_kind_def wf_hash_def)
  then show ?thesis
    using commit_body_roundtrip[OF sample_hex_ok, of "zero_for_kind KSha1" ?c "[]"]
    by (simp add: Let_def)
qed

text \<open>C23: creating commits.  \<open>new_with_kind\<close> succeeds exactly when the tree and every parent have
  the repository's kind; the id then has that kind and is the id of the serialised body, and the body
  loads back under it as the very same commit.  The thread-local constructor gives the same commit
  for its own kind and never fails.\<close>

theorem commit_creation:
  assumes "digest_ok digest" "hex_ok hex_encode hex_decode"
    "wf_sig author" "one_line author" "signature_type author = Author"
    "wf_sig committer" "one_line committer" "signature_type committer = Committer"
    "wf_hash tree" "\<forall>p \<in> set parents. wf_hash p"
  shows "if hash_kind tree = kind \<and> (\<forall>p \<in> set parents. hash_kind p = kind) then
      (\<exists>c d. Commit_new_with_kind digest hex_encode kind author committer tree parents message = Inr c \<and>
         Commit_new digest hex_encode kind author committer tree parents message = Inr c \<and>
         hash_kind (commit_id c) = kind \<and> Commit_to_data hex_encode c = Inr d \<and>
         from_type_and_data_for_kind digest kind OT_Commit d = Inr (commit_id c) \<and>
         Commit_from_bytes hex_decode d (commit_id c) = Inr c)
    else \<not> is_ok (Commit_new_with_kind digest hex_encode kind author committer tree parents message)"
proof (cases "hash_kind tree = kind \<and> (\<forall>p \<in> set parents. hash_kind p = kind)")
  case True
  let ?c = "\<lambda>i. \<lparr>commit_id = i, commit_tree_id = tree, parent_commit_ids = parents,
       commit_author = author, commit_committer = committer, commit_message = message\<rparr>"
  obtain d where d: "Commit_to_data hex_encode (?c i) = Inr d" for i
    by (simp add: Commit_to_data_def Let_def Signature_to_data_def)
  let ?h = "hash_of kind (digest kind (loose_object (ascii ''commit'') d))"
  have h: "from_type_and_data_for_kind digest kind OT_Commit d = Inr ?h"
    by (simp add: from_type_and_data_for_kind_eq)
  have h': "from_type_and_data digest kind OT_Commit d = Inr ?h"
    by (simp add: from_type_and_data_def ObjectType_to_data_def ObjectHash_new_for_kind_def
        finalize_object_hash_def hasher_finalize_def loose_object_def)
  have wf: "wf_commit kind (?c ?h)" using True assms(3-10) by (simp add: wf_commit_def)
  have load: "Commit_from_bytes hex_decode d ?h = Inr (?c ?h)"
    using commit_roundtrip[OF assms(2), of ?h "?c ?h" d] wf d by simp
  have par: "ensure_parents parents kind = Inr ()"
    using True ensure_parents_iff[of parents kind] by (simp add: is_ok_iff)
  show ?thesis
    unfolding if_P[OF True]
    by (rule exI[of _ "?c ?h"], rule exI[of _ d])
      (use True par d h h' load in \<open>simp add: Commit_new_with_kind_def Commit_new_def Let_def ensure_kind_def\<close>)
next
  case False
  then have "\<not> is_ok (ensure_kind tree kind) \<or> \<not> is_ok (ensure_parents parents kind)"
    using ensure_parents_iff[of parents kind] by (auto simp: ensure_kind_def)
  then show ?thesis
    unfolding if_not_P[OF False]
    by (cases "ensure_kind tree kind"; cases "ensure_parents parents kind")
      (simp_all add: Commit_new_with_kind_def del: ensure_kind_eq_Inr_iff)
qed

theorem commit_creation_witness:
  "(\<exists>c d. Commit_new_with_kind sample_digest sample_hex_encode KSha256 (sample_sig Author)
       (sample_sig Committer) (zero_for_kind KSha256) [] (ascii ''m'') = Inr c \<and>
     Commit_to_data sample_hex_encode c = Inr d \<and> Commit_from_bytes sample_hex_decode d (commit_id c) = Inr c) \<and>
   \<not> is_ok (Commit_new_with_kind sample_digest sample_hex_encode KSha256 (sample_sig Author)
       (sample_sig Committer) (zero_for_kind KSha1) [] (ascii ''m''))"
proof -
  have z: "wf_hash (zero_for_kind k)" "hash_kind (zero_for_kind k) = k" for k by (simp_all add: zero_for_kind_def)
  have s: "wf_sig (sample_sig t)" "one_line (sample_sig t)" "signature_type (sample_sig t) = t" for t
    using sample_sig_wf by simp_all
  note cc = commit_creation[OF sample_digest_ok sample_hex_ok s[of Author] s[of Committer],
      where parents = "[]" and kind = KSha256 and message = "ascii ''m''"]
  show ?thesis using cc[of "zero_for_kind KSha256"] cc[of "zero_for_kind KSha1"] z by auto
qed

end
