(* ===== verification/Tag_Object.thy ===== *)
theory Tag_Object
  imports Commit_Object
begin

text \<open>
  Annotated tags (\<open>src/src/internal/object/tag.rs\<close>): construction with an explicit repository kind,
  the line-oriented parser of the headers and the serialiser of the body.
\<close>

section \<open>The object\<close>

record Tag =
  tag_id :: ObjectHash
  tag_object_hash :: ObjectHash
  tag_object_type :: ObjectType
  tag_name :: bytes
  tag_tagger :: Signature
  tag_message :: bytes

definition Tag_to_data :: "(bytes \<Rightarrow> bytes) \<Rightarrow> Tag \<Rightarrow> GitError + bytes" where
  "Tag_to_data hex_encode tag =
     and_then (Signature_to_data (tag_tagger tag)) (\<lambda>tagger.
       Inr (ascii ''object '' @ hash_to_string hex_encode (tag_object_hash tag) @ [10]
            @ ascii ''type '' @ ascii (ObjectType_display (tag_object_type tag)) @ [10]
            @ ascii ''tag '' @ tag_name tag @ [10]
            @ tagger @ [10, 10] @ tag_message tag))"

definition Tag_new_with_kind ::
  "(HashKind \<Rightarrow> bytes \<Rightarrow> bytes) \<Rightarrow> (bytes \<Rightarrow> bytes) \<Rightarrow> HashKind \<Rightarrow> ObjectHash \<Rightarrow> ObjectType \<Rightarrow> bytes \<Rightarrow>
   Signature \<Rightarrow> bytes \<Rightarrow> GitError + Tag" where
  "Tag_new_with_kind digest hex_encode kind object_hash object_type name tagger message =
     and_then (map_err GitError_of_hash (ensure_kind object_hash kind)) (\<lambda>_.
       let tag = \<lparr>tag_id = zero_for_kind kind, tag_object_hash = object_hash, tag_object_type = object_type,
                  tag_name = name, tag_tagger = tagger, tag_message = message\<rparr> in
       and_then (Tag_to_data hex_encode tag) (\<lambda>data.
       and_then (map_err GitError_of_hash (from_type_and_data_for_kind digest kind OT_Tag data)) (\<lambda>h.
         Inr (tag\<lparr>tag_id := h\<rparr>))))"

definition Tag_new ::
  "(HashKind \<Rightarrow> bytes \<Rightarrow> bytes) \<Rightarrow> (bytes \<Rightarrow> bytes) \<Rightarrow> HashKind \<Rightarrow> ObjectHash \<Rightarrow> ObjectType \<Rightarrow> bytes \<Rightarrow>
   Signature \<Rightarrow> bytes \<Rightarrow> io_error + Tag" where
  "Tag_new digest hex_encode current object_hash object_type name tagger message =
     (let tag = \<lparr>tag_id = HSha1 (replicate 20 0), tag_object_hash = object_hash, tag_object_type = object_type,
                 tag_name = name, tag_tagger = tagger, tag_message = message\<rparr> in
      and_then (map_err (\<lambda>_. Panic ''unwrap on Err'') (Tag_to_data hex_encode tag)) (\<lambda>data.
      and_then (from_type_and_data digest current OT_Tag data) (\<lambda>h.
        Inr (tag\<lparr>tag_id := h\<rparr>))))"

section \<open>The parser\<close>

text \<open>The four headers collected so far; a later line of the same name replaces an earlier one.\<close>

record TagHeaders =
  th_object :: "ObjectHash option"
  th_type :: "ObjectType option"
  th_name :: "bytes option"
  th_tagger :: "Signature option"

definition tag_header_line ::
  "(bytes \<Rightarrow> string + bytes) \<Rightarrow> HashKind \<Rightarrow> bytes \<Rightarrow> TagHeaders \<Rightarrow> GitError + TagHeaders" where
  "tag_header_line hex_decode kind line th =
     (case strip_prefix (ascii ''object '') line of
        Some s \<Rightarrow>
          and_then (ok_or (GE_InvalidTagObject (''Invalid UTF-8 in object hash (from_bytes: expected ''
              @ decimal_string (hex_len kind) @ '' '' @ latin (HashKind_as_str kind) @ '' hex chars, got ''
              @ decimal_string (length s) @ '' bytes)'')) (from_utf8 s)) (\<lambda>hash_str.
          and_then (map_err (\<lambda>e. GE_InvalidTagObject (''Invalid object hash format: '' @ HashError_display e))
              (from_hex_for_kind hex_decode kind hash_str)) (\<lambda>h.
            Inr (th\<lparr>th_object := Some h\<rparr>)))
      | None \<Rightarrow>
        (case strip_prefix (ascii ''type '') line of
           Some s \<Rightarrow>
             and_then (ok_or (GE_InvalidTagObject ''Invalid UTF-8 in object type'') (from_utf8 s)) (\<lambda>type_str.
             and_then (ObjectType_from_string type_str) (\<lambda>t.
               Inr (th\<lparr>th_type := Some t\<rparr>)))
         | None \<Rightarrow>
           (case strip_prefix (ascii ''tag '') line of
              Some s \<Rightarrow>
                and_then (ok_or (GE_InvalidTagObject ''Invalid UTF-8 in tag name'') (from_utf8 s)) (\<lambda>tag_str.
                  Inr (th\<lparr>th_name := Some tag_str\<rparr>))
            | None \<Rightarrow>
              if prefix (ascii ''tagger '') line
              then and_then (Signature_from_data line) (\<lambda>sig. Inr (th\<lparr>th_tagger := Some sig\<rparr>))
              else Inr th)))"

fun tag_header_lines ::
  "(bytes \<Rightarrow> string + bytes) \<Rightarrow> HashKind \<Rightarrow> bytes list \<Rightarrow> TagHeaders \<Rightarrow> GitError + TagHeaders" where
  "tag_header_lines hex_decode kind [] th = Inr th"
| "tag_header_lines hex_decode kind (line # lines) th =
     and_then (tag_header_line hex_decode kind line th) (\<lambda>th'.
       tag_header_lines hex_decode kind lines th')"

definition no_headers :: TagHeaders where
  "no_headers = \<lparr>th_object = None, th_type = None, th_name = None, th_tagger = None\<rparr>"

definition Tag_from_bytes ::
  "(bytes \<Rightarrow> string + bytes) \<Rightarrow> bytes \<Rightarrow> ObjectHash \<Rightarrow> GitError + Tag" where
  "Tag_from_bytes hex_decode row_data h =
     (let (headers, message_start) =
        (case find_bytes [10, 10] row_data of
           Some pos \<Rightarrow> (take pos row_data, pos + 2)
         | None \<Rightarrow> (row_data, 0)) in
      and_then (tag_header_lines hex_decode (hash_kind h) (text_lines headers) no_headers) (\<lambda>th.
      let message = (if message_start > 0 then from_utf8_lossy (drop message_start row_data) else []) in
      and_then (ok_or (GE_InvalidTagObject ''Missing object hash'') (th_object th)) (\<lambda>object_hash.
      and_then (ok_or (GE_InvalidTagObject ''Missing object type'') (th_type th)) (\<lambda>object_type.
      and_then (ok_or (GE_InvalidTagObject ''Missing tag name'') (th_name th)) (\<lambda>name.
      and_then (ok_or (GE_InvalidTagObject ''Missing tagger'') (th_tagger th)) (\<lambda>tagger.
        Inr \<lparr>tag_id = h, tag_object_hash = object_hash, tag_object_type = object_type, tag_name = name,
             tag_tagger = tagger, tag_message = message\<rparr>))))))"

section \<open>Well-formed tags\<close>

definition wf_tag :: "HashKind \<Rightarrow> Tag \<Rightarrow> bool" where
  "wf_tag kind tag \<longleftrightarrow>
     hash_kind (tag_object_hash tag) = kind \<and> wf_hash (tag_object_hash tag) \<and>
     \<not> is_delta (tag_object_type tag) \<and>
     utf8_valid (tag_name tag) \<and> 10 \<notin> set (tag_name tag) \<and> \<not> suffix [13] (tag_name tag) \<and>
     wf_sig (tag_tagger tag) \<and> one_line (tag_tagger tag) \<and> signature_type (tag_tagger tag) = Tagger \<and>
     utf8_valid (tag_message tag)"

section \<open>Facts\<close>

text \<open>The search for the blank line walks over complete lines.\<close>

lemma find_blank_line: "10 \<notin> set l \<Longrightarrow> find_bytes [10, 10] (l @ 10 # 10 # s) = Some (length l)"
  by (induction l) auto

lemma find_blank_skip:
  assumes "10 \<notin> set l" "s \<noteq> []" "hd s \<noteq> 10"
  shows "find_bytes [10, 10] (l @ 10 # s) = map_option (\<lambda>i. i + Suc (length l)) (find_bytes [10, 10] s)"
  using assms(1)
proof (induction l)
  case Nil
  then show ?case using assms(2,3) by (cases s) (auto simp: option.map_comp comp_def)
next
  case (Cons b l)
  then show ?case by (auto simp: option.map_comp comp_def)
qed

lemma prefix_hd: "prefix (a # p) s \<Longrightarrow> s \<noteq> [] \<and> hd s = a"
  by (auto simp: prefix_def)

lemma object_line:
  assumes "hex_ok enc dec" "wf_hash h" "hash_kind h = kind"
  shows "tag_header_line dec kind (ascii ''object '' @ hash_to_string enc h) th = Inr (th\<lparr>th_object := Some h\<rparr>)"
  using from_hex_hash_to_string[OF assms(1,2)] hex_digits_clean[OF assms(1)] assms(3)
  by (simp add: tag_header_line_def from_utf8_def)

lemma no_prefix_ascii:
  assumes "\<not> prefix (ascii p) (ascii q)" "\<not> prefix (ascii q) (ascii p)"
  shows "strip_prefix (ascii p) (ascii q @ s) = None"
  using assms by (auto simp: strip_prefix_def prefix_append)

lemma type_line:
  assumes "\<not> is_delta t"
  shows "tag_header_line dec kind (ascii ''type '' @ ascii (ObjectType_display t)) th = Inr (th\<lparr>th_type := Some t\<rparr>)"
proof -
  obtain tb where tb: "ObjectType_to_bytes t = Some tb" using assms by (cases t) (simp_all add: is_delta_def)
  then have "ascii (ObjectType_display t) = tb" by (simp add: display_eq_to_bytes)
  moreover have "utf8_valid tb"
    using tb by (intro utf8_valid_ascii) (cases t; auto simp: ascii_def byte_of_char_def)
  moreover have "strip_prefix (ascii ''object '') (ascii ''type '' @ tb) = None"
    by (rule no_prefix_ascii) (simp_all add: ascii_def byte_of_char_def)
  ultimately show ?thesis
    using to_bytes_from_string[OF tb] by (simp add: tag_header_line_def from_utf8_def)
qed

lemma tag_line:
  assumes "utf8_valid n"
  shows "tag_header_line dec kind (ascii ''tag '' @ n) th = Inr (th\<lparr>th_name := Some n\<rparr>)"
proof -
  have "strip_prefix (ascii ''object '') (ascii ''tag '' @ n) = None"
    "strip_prefix (ascii ''type '') (ascii ''tag '' @ n) = None"
    by (rule no_prefix_ascii; simp add: ascii_def byte_of_char_def)+
  then show ?thesis using assms by (simp add: tag_header_line_def from_utf8_def)
qed

lemma tagger_line:
  assumes "wf_sig sig" "signature_type sig = Tagger" "Signature_to_data sig = Inr d"
  shows "tag_header_line dec kind d th = Inr (th\<lparr>th_tagger := Some sig\<rparr>)"
proof -
  obtain r where d: "d = ascii ''tagger '' @ r"
    using assms(2,3) by (auto simp: Signature_to_data_def ascii_def byte_of_char_def)
  have "strip_prefix (ascii ''object '') d = None" "strip_prefix (ascii ''type '') d = None"
    "strip_prefix (ascii ''tag '') d = None"
    unfolding d by (rule no_prefix_ascii; simp add: ascii_def byte_of_char_def)+
  then show ?thesis
    using from_to_data[OF assms(1,3)] by (simp add: tag_header_line_def d)
qed

lemma suffix_single_iff: "suffix [c] l \<longleftrightarrow> l \<noteq> [] \<and> last l = c"
  by (cases l rule: rev_cases) (auto simp: suffix_def)

lemma suffix_cr: "13 \<notin> set l \<Longrightarrow> \<not> suffix [13] l"
  by (auto simp: suffix_def)

text \<open>The header block of a well-formed tag and its four lines.\<close>

lemma tag_header_block:
  assumes "hex_ok enc dec" "wf_tag kind tag" "Signature_to_data (tag_tagger tag) = Inr tg"
  defines "o_line \<equiv> ascii ''object '' @ hash_to_string enc (tag_object_hash tag)"
    and "t_line \<equiv> ascii ''type '' @ ascii (ObjectType_display (tag_object_type tag))"
    and "n_line \<equiv> ascii ''tag '' @ tag_name tag"
  shows "find_bytes [10, 10] (o_line @ 10 # t_line @ 10 # n_line @ 10 # tg @ 10 # 10 # m) =
      Some (length (o_line @ 10 # t_line @ 10 # n_line @ 10 # tg))"
    and "text_lines (o_line @ 10 # t_line @ 10 # n_line @ 10 # tg) = [o_line, t_line, n_line, tg]"
proof -
  note wf = assms(2)[unfolded wf_tag_def]
  have dig: "b \<in> set (hash_to_string enc h) \<Longrightarrow> is_hex_digit b" for b h
    using hex_ok_simps(3)[OF assms(1)] by (simp add: hash_to_string_def list_all_iff)
  have o: "10 \<notin> set o_line" "13 \<notin> set o_line" "o_line \<noteq> []" "hd o_line \<noteq> 10"
    using dig[of 10] dig[of 13] unfolding o_line_def
    by (auto simp: ascii_def byte_of_char_def is_hex_digit_def is_digit_def)
  have t: "10 \<notin> set t_line" "13 \<notin> set t_line" "t_line \<noteq> []" "hd t_line \<noteq> 10"
    using wf unfolding t_line_def
    by (cases "tag_object_type tag"; simp add: is_delta_def ascii_def byte_of_char_def)+
  have n: "10 \<notin> set n_line" "n_line \<noteq> []" "hd n_line \<noteq> 10"
    using wf unfolding n_line_def by (simp_all add: ascii_def byte_of_char_def)
  have n_cr: "\<not> suffix [13] n_line"
    using wf unfolding n_line_def by (auto simp: suffix_single_iff ascii_def byte_of_char_def)
  have g: "10 \<notin> set tg" "prefix (ascii ''tagger'' @ [32]) tg"
    using signature_line[OF _ _ assms(3)] wf by (auto simp: ascii_def byte_of_char_def)
  then have g': "tg \<noteq> []" "hd tg \<noteq> 10" by (auto simp: prefix_def ascii_def byte_of_char_def)
  have hds: "hd (t_line @ x) = hd t_line" "hd (n_line @ x) = hd n_line" "hd (tg @ x) = hd tg" for x
    using t n g' by simp_all
  show "find_bytes [10, 10] (o_line @ 10 # t_line @ 10 # n_line @ 10 # tg @ 10 # 10 # m) =
      Some (length (o_line @ 10 # t_line @ 10 # n_line @ 10 # tg))"
    using o t n g g' by (simp add: find_blank_skip find_blank_line hds)
  show "text_lines (o_line @ 10 # t_line @ 10 # n_line @ 10 # tg) = [o_line, t_line, n_line, tg]"
    using o t n n_cr g g' by (simp add: text_lines_line text_lines_last strip_cr_id suffix_cr)
qed

lemma take_length_append: "take (length xs) (xs @ ys) = xs"
  by simp

lemma drop_length_append2: "drop (length xs + 2) (xs @ a # b # ys) = ys"
  by simp

lemma tag_roundtrip:
  assumes "hex_ok enc dec" "wf_tag (hash_kind h) tag" "Tag_to_data enc tag = Inr d"
  shows "Tag_from_bytes dec d h = Inr (tag\<lparr>tag_id := h\<rparr>)"
proof -
  note wf = assms(2)[unfolded wf_tag_def]
  obtain tg where tg: "Signature_to_data (tag_tagger tag) = Inr tg" by (simp add: Signature_to_data_def)
  let ?o = "ascii ''object '' @ hash_to_string enc (tag_object_hash tag)"
  let ?t = "ascii ''type '' @ ascii (ObjectType_display (tag_object_type tag))"
  let ?n = "ascii ''tag '' @ tag_name tag"
  let ?head = "?o @ 10 # ?t @ 10 # ?n @ 10 # tg"
  have d: "d = ?head @ 10 # 10 # tag_message tag" using assms(3) tg by (simp add: Tag_to_data_def)
  note block = tag_header_block[OF assms(1,2) tg]
  have pos: "find_bytes [10, 10] d = Some (length ?head)"
    using block(1)[of "tag_message tag"] by (simp add: d)
  have split: "take (length ?head) d = ?head" "drop (length ?head + 2) d = tag_message tag"
    unfolding d by (rule take_length_append, rule drop_length_append2)
  have o1: "tag_header_line dec (hash_kind h) ?o th = Inr (th\<lparr>th_object := Some (tag_object_hash tag)\<rparr>)" for th
    using wf by (intro object_line[OF assms(1)]) simp_all
  have t1: "tag_header_line dec (hash_kind h) ?t th = Inr (th\<lparr>th_type := Some (tag_object_type tag)\<rparr>)" for th
    using wf by (intro type_line) simp
  have n1: "tag_header_line dec (hash_kind h) ?n th = Inr (th\<lparr>th_name := Some (tag_name tag)\<rparr>)" for th
    using wf by (intro tag_line) simp
  have g1: "tag_header_line dec (hash_kind h) tg th = Inr (th\<lparr>th_tagger := Some (tag_tagger tag)\<rparr>)" for th
    using wf by (intro tagger_line[OF _ _ tg]) simp_all
  have lines: "tag_header_lines dec (hash_kind h) (text_lines ?head) no_headers =
      Inr \<lparr>th_object = Some (tag_object_hash tag), th_type = Some (tag_object_type tag),
           th_name = Some (tag_name tag), th_tagger = Some (tag_tagger tag)\<rparr>"
    unfolding block(2) tag_header_lines.simps o1 t1 n1 g1 and_then_simps by (simp add: no_headers_def)
  show ?thesis
    unfolding Tag_from_bytes_def pos option.case Let_def prod.case split lines and_then_simps
    using wf by (simp add: from_utf8_lossy_valid)
qed

lemma tag_header_lines_kind:
  assumes "tag_header_lines dec kind lines th = Inr th'" "th_object th' = Some h"
    "\<And>h. th_object th = Some h \<Longrightarrow> hash_kind h = kind \<and> wf_hash h"
  shows "hash_kind h = kind \<and> wf_hash h"
  using assms
proof (induction lines arbitrary: th)
  case (Cons l lines)
  then obtain th1 where step: "tag_header_line dec kind l th = Inr th1" "tag_header_lines dec kind lines th1 = Inr th'"
    by (auto simp: and_then_eq_Inr_iff)
  have "hash_kind h = kind \<and> wf_hash h" if "th_object th1 = Some h" for h
    using step(1) that Cons.prems(3) unfolding tag_header_line_def
    by (auto simp: and_then_eq_Inr_iff dest: from_hex_for_kind_kind split: option.splits if_splits)
  then show ?case using Cons.IH[OF step(2)] Cons.prems(2) by blast
qed simp

lemma type_line_delta:
  assumes "is_delta t"
  shows "\<not> is_ok (ObjectType_from_string (ascii (ObjectType_display t)))"
  using assms by (cases t) (simp_all add: is_delta_def ObjectType_from_string_def)

interpretation tag_obj: git_object "Tag_to_data enc" "Tag_from_bytes dec" OT_Tag
  "\<lambda>h t. t\<lparr>tag_id := h\<rparr>" "\<lambda>k t. hex_ok enc dec \<and> wf_tag k t" for enc dec
proof
  show "hex_ok enc dec \<and> wf_tag k t \<Longrightarrow> is_ok (Tag_to_data enc t)" for k t
    by (simp add: Tag_to_data_def Signature_to_data_def)
qed (use tag_roundtrip in auto)

section \<open>Properties\<close>

text \<open>C24: annotated tags.  A tag is created exactly for a target of the repository's kind; a
  well-formed one loads back from its body, under its own id, as the very same tag.  A parsed tag
  never refers to an id of another kind than its own, and parsing replaces ill-formed UTF-8 in the
  message, so the message of a loaded tag is always valid text.\<close>

theorem tag_create_load:
  assumes "digest_ok digest" "hex_ok hex_encode hex_decode"
  shows "(hash_kind target \<noteq> kind \<longrightarrow>
      \<not> is_ok (Tag_new_with_kind digest hex_encode kind target ty name tagger message)) \<and>
    (wf_tag kind \<lparr>tag_id = i, tag_object_hash = target, tag_object_type = ty, tag_name = name,
       tag_tagger = tagger, tag_message = message\<rparr> \<longrightarrow>
      (\<exists>t d. Tag_new_with_kind digest hex_encode kind target ty name tagger message = Inr t \<and>
         hash_kind (tag_id t) = kind \<and> Tag_to_data hex_encode t = Inr d \<and>
         Tag_from_bytes hex_decode d (tag_id t) = Inr t)) \<and>
    (Tag_from_bytes hex_decode data h = Inr tag \<longrightarrow>
      tag_id tag = h \<and> hash_kind (tag_object_hash tag) = hash_kind h \<and> wf_hash (tag_object_hash tag) \<and>
      utf8_valid (tag_message tag))"
proof (intro conjI impI)
  show "\<not> is_ok (Tag_new_with_kind digest hex_encode kind target ty name tagger message)" if "hash_kind target \<noteq> kind"
    using that by (simp add: Tag_new_with_kind_def ensure_kind_def)
next
  let ?t = "\<lambda>i. \<lparr>tag_id = i, tag_object_hash = target, tag_object_type = ty, tag_name = name,
       tag_tagger = tagger, tag_message = message\<rparr>"
  assume wf: "wf_tag kind (?t i)"
  obtain d where d: "Tag_to_data hex_encode (?t i) = Inr d" for i by (simp add: Tag_to_data_def Signature_to_data_def)
  let ?h = "hash_of kind (digest kind (loose_object (ascii ''tag'') d))"
  have h: "from_type_and_data_for_kind digest kind OT_Tag d = Inr ?h" by (simp add: from_type_and_data_for_kind_eq)
  have "wf_tag (hash_kind ?h) (?t ?h)" using wf by (simp add: wf_tag_def)
  then have load: "Tag_from_bytes hex_decode d ?h = Inr (?t ?h)" using tag_roundtrip[OF assms(2)] d by fastforce
  have "hash_kind target = kind" using wf by (simp add: wf_tag_def)
  then show "\<exists>t d. Tag_new_with_kind digest hex_encode kind target ty name tagger message = Inr t \<and>
      hash_kind (tag_id t) = kind \<and> Tag_to_data hex_encode t = Inr d \<and>
      Tag_from_bytes hex_decode d (tag_id t) = Inr t"
    by (intro exI[of _ "?t ?h"] exI[of _ d]) (use d h load in \<open>simp add: Tag_new_with_kind_def ensure_kind_def\<close>)
next
  assume parsed: "Tag_from_bytes hex_decode data h = Inr tag"
  obtain hs start where pair: "(case find_bytes [10, 10] data of
      Some pos \<Rightarrow> (take pos data, pos + 2) | None \<Rightarrow> (data, 0)) = (hs, start)"
    by (rule prod.exhaust)
  obtain th where th: "tag_header_lines hex_decode (hash_kind h) (text_lines hs) no_headers = Inr th"
    "th_object th = Some (tag_object_hash tag)" and tag: "tag_id tag = h"
    "tag_message tag = (if start > 0 then from_utf8_lossy (drop start data) else [])"
    using parsed unfolding Tag_from_bytes_def Let_def pair prod.case by (auto simp: and_then_eq_Inr_iff)
  show "tag_id tag = h" by (rule tag)
  show "utf8_valid (tag_message tag)" using tag(2) utf8_valid_lossy by simp
  show "hash_kind (tag_object_hash tag) = hash_kind h" "wf_hash (tag_object_hash tag)"
    using tag_header_lines_kind[OF th] by (simp_all add: no_headers_def)
qed

theorem tag_create_load_witness:
  "\<exists>t d. Tag_new_with_kind sample_digest sample_hex_encode KSha1 (zero_for_kind KSha1) OT_Commit
       (ascii ''v1'') (sample_sig Tagger) (ascii ''m'') = Inr t \<and>
     Tag_to_data sample_hex_encode t = Inr d \<and> Tag_from_bytes sample_hex_decode d (tag_id t) = Inr t"
proof -
  have "utf8_valid (ascii ''v1'')" "utf8_valid (ascii ''m'')"
    by (rule utf8_valid_ascii, simp add: ascii_def byte_of_char_def)+
  then have "wf_tag KSha1 \<lparr>tag_id = zero_for_kind KSha1, tag_object_hash = zero_for_kind KSha1,
      tag_object_type = OT_Commit, tag_name = ascii ''v1'', tag_tagger = sample_sig Tagger, tag_message = ascii ''m''\<rparr>"
    using sample_sig_wf[of Tagger] unfolding wf_tag_def
    by (simp add: zero_for_kind_def is_delta_def wf_hash_def) (simp add: suffix_single_iff ascii_def byte_of_char_def)
  then show ?thesis
    using tag_create_load[OF sample_digest_ok sample_hex_ok, of "zero_for_kind KSha1" KSha1 OT_Commit
        "ascii ''v1''" "sample_sig Tagger" "ascii ''m''" "zero_for_kind KSha1" "[]" "zero_for_kind KSha1"] by blast
qed

end
