(* ===== verification/Big_Endian.thy ===== *)
theory Big_Endian
  imports Rust_Text
begin

text \<open>
  Fixed-width big-endian integers (\<open>to_be_bytes\<close>, \<open>from_be_bytes\<close> and the readers and writers of
  the \<open>byteorder\<close> style the code builds from them).  \<open>be_bytes k n\<close> are the \<open>k\<close> bytes of \<open>n\<close> modulo
  \<open>256 ^ k\<close>; an unsigned machine integer of \<open>k\<close> bytes is a natural number below \<open>256 ^ k\<close>.
\<close>

section \<open>Encoding and decoding\<close>

fun be_bytes :: "nat \<Rightarrow> nat \<Rightarrow> bytes" where
  "be_bytes 0 n = []"
| "be_bytes (Suc k) n = be_bytes k (n div 256) @ [word_of_nat n]"

definition be_value :: "bytes \<Rightarrow> nat" where
  "be_value bs = foldl (\<lambda>a b. a * 256 + unat b) 0 bs"

lemma length_be_bytes [simp]: "length (be_bytes k n) = k"
  by (induction k arbitrary: n) simp_all

lemma be_value_snoc [simp]: "be_value (bs @ [b]) = be_value bs * 256 + unat b"
  by (simp add: be_value_def)

lemma be_value_Nil [simp]: "be_value [] = 0"
  by (simp add: be_value_def)

lemma be_value_less: "be_value bs < 256 ^ length bs"
proof (induction bs rule: rev_induct)
  case (snoc b bs)
  have "be_value bs * 256 + unat b < (be_value bs + 1) * 256" using unat_byte_less[of b] by simp
  also have "\<dots> \<le> 256 ^ length bs * 256" using snoc by (intro mult_le_mono1) simp
  finally show ?case by simp
qed simp

lemma be_value_bytes: "be_value (be_bytes k n) = n mod 256 ^ k"
proof (induction k arbitrary: n)
  case (Suc k)
  have "be_value (be_bytes (Suc k) n) = (n div 256) mod 256 ^ k * 256 + n mod 256"
    using Suc by (simp add: unat_of_nat_byte)
  also have "\<dots> = n mod 256 ^ Suc k"
    using mod_mult2_eq[of n 256 "256 ^ k"] by simp
  finally show ?case .
qed simp

lemma be_value_bytes_small [simp]: "n < 256 ^ k \<Longrightarrow> be_value (be_bytes k n) = n"
  by (simp add: be_value_bytes)

lemma be_bytes_value: "be_bytes (length bs) (be_value bs) = bs"
proof (induction bs rule: rev_induct)
  case (snoc b bs)
  have "(be_value bs * 256 + unat b) div 256 = be_value bs" using unat_byte_less[of b] by simp
  moreover have "word_of_nat (be_value bs * 256 + unat b) = b"
    by (rule word_unat_eq_iff[THEN iffD2]) (simp only: unat_of_nat_byte, simp)
  ultimately show ?case using snoc by (simp del: of_nat_add of_nat_mult)
qed simp

lemma be_bytes_inj: "m < 256 ^ k \<Longrightarrow> n < 256 ^ k \<Longrightarrow> be_bytes k m = be_bytes k n \<Longrightarrow> m = n"
  by (metis be_value_bytes_small)

section \<open>Streams of fixed-width integers\<close>

definition read_be :: "nat \<Rightarrow> bytes \<Rightarrow> io_error + nat \<times> bytes" where
  "read_be k s = and_then (read_exact k s) (\<lambda>(bs, r). Inr (be_value bs, r))"

lemma read_be_append: "n < 256 ^ k \<Longrightarrow> read_be k (be_bytes k n @ s) = Inr (n, s)"
  by (simp add: read_be_def read_exact_append')

lemma read_be_eq_Inr_iff: "read_be k s = Inr (n, r) \<longleftrightarrow> (\<exists>bs. s = bs @ r \<and> length bs = k \<and> be_value bs = n)"
  by (auto simp: read_be_def and_then_eq_Inr_iff read_exact_eq_Inr_iff)

interpretation be_u16: byte_codec "be_bytes 2" "read_be 2" "\<lambda>n. n < 2 ^ 16"
  by unfold_locales (simp add: read_be_append)

interpretation be_u32: byte_codec "be_bytes 4" "read_be 4" "\<lambda>n. n < 2 ^ 32"
  by unfold_locales (simp add: read_be_append)

interpretation be_u64: byte_codec "be_bytes 8" "read_be 8" "\<lambda>n. n < 2 ^ 64"
  by unfold_locales (simp add: read_be_append)

text \<open>The widths the formats use.\<close>

lemma be_u32_simps [simp]:
  "n < 4294967296 \<Longrightarrow> be_value (be_bytes 4 n) = n"
  "n < 18446744073709551616 \<Longrightarrow> be_value (be_bytes 8 n) = n"
  "n < 65536 \<Longrightarrow> be_value (be_bytes 2 n) = n"
  by (simp_all add: be_value_bytes)

end
