(* ===== verification/Pack_Index.thy ===== *)
theory Pack_Index
  imports Object_Trait Big_Endian
begin

text \<open>
  Pack index files (\<open>src/src/internal/pack/pack_index.rs\<close>): the builder that streams a version 2
  index through a channel, the verifying parser of version 2 and the parser of legacy version 1.

  \<^item> Integers \<open>u32\<close> and \<open>u64\<close> are natural numbers; what is written is \<open>be_bytes 4\<close> and \<open>be_bytes 8\<close>,
    which take the value modulo the width.
  \<^item> The channel is the list of the messages sent, of which the receiver takes \<open>ib_accepts\<close> before it
    is dropped.
  \<^item> The hashing reader keeps the unread bytes and the hasher.
\<close>

section \<open>Entries and constants\<close>

record IdxEntry =
  ie_hash :: ObjectHash
  ie_crc32 :: nat
  ie_offset :: nat

definition IDX_MAGIC :: nat where
  "IDX_MAGIC = 0xff744f63"

definition IDX_VERSION_V2 :: nat where
  "IDX_VERSION_V2 = 2"

definition validate_idx_v2_header :: "nat \<Rightarrow> nat \<Rightarrow> HashKind \<Rightarrow> string \<Rightarrow> GitError + unit" where
  "validate_idx_v2_header magic version kind cont =
     (if magic \<noteq> IDX_MAGIC
      then Inl (GE_InvalidPackFile (''Invalid pack index magic for '' @ cont))
      else if version \<noteq> IDX_VERSION_V2
      then Inl (GE_InvalidPackFile (''Only pack index v2 is supported for '' @ cont @ '': got version ''
                  @ decimal_string version))
      else Inr ())"

record IdxV2 =
  idx_entries :: "IdxEntry list"
  idx_pack_hash :: ObjectHash
  idx_hash :: ObjectHash

section \<open>The builder\<close>

record IdxBuilder =
  ib_sender :: "bytes list option"
  ib_accepts :: nat
  ib_inner_hash :: HashAlgorithm
  ib_object_number :: nat
  ib_pack_hash :: ObjectHash

definition IdxBuilder_new :: "nat \<Rightarrow> nat \<Rightarrow> ObjectHash \<Rightarrow> IdxBuilder" where
  "IdxBuilder_new object_number accepts pack_hash =
     \<lparr>ib_sender = Some [], ib_accepts = accepts, ib_inner_hash = new_for_kind (hash_kind pack_hash),
      ib_object_number = object_number, ib_pack_hash = pack_hash\<rparr>"

definition drop_sender :: "IdxBuilder \<Rightarrow> IdxBuilder" where
  "drop_sender b = b\<lparr>ib_sender := None\<rparr>"

definition send_data_without_update_hash :: "bytes \<Rightarrow> IdxBuilder \<Rightarrow> GitError + IdxBuilder" where
  "send_data_without_update_hash data b =
     (case ib_sender b of
        None \<Rightarrow> Inr b
      | Some sent \<Rightarrow>
          if length sent < ib_accepts b then Inr (b\<lparr>ib_sender := Some (sent @ [data])\<rparr>)
          else Inl (GE_IOError (InvalidData ''Failed to send idx data'')))"

definition send_data :: "bytes \<Rightarrow> IdxBuilder \<Rightarrow> GitError + IdxBuilder" where
  "send_data data b =
     (case ib_sender b of
        None \<Rightarrow> Inr b
      | Some sent \<Rightarrow>
          let b = b\<lparr>ib_inner_hash := hasher_update data (ib_inner_hash b)\<rparr> in
          if length sent < ib_accepts b then Inr (b\<lparr>ib_sender := Some (sent @ [data])\<rparr>)
          else Inl (GE_IOError (InvalidData ''Failed to send idx data'')))"

definition send_u32 :: "nat \<Rightarrow> IdxBuilder \<Rightarrow> GitError + IdxBuilder" where
  "send_u32 v b = send_data (be_bytes 4 v) b"

definition send_u64 :: "nat \<Rightarrow> IdxBuilder \<Rightarrow> GitError + IdxBuilder" where
  "send_u64 v b = send_data (be_bytes 8 v) b"

text \<open>\<open>for x in xs { self.send(x).await?; }\<close>\<close>

fun send_each :: "('a \<Rightarrow> IdxBuilder \<Rightarrow> GitError + IdxBuilder) \<Rightarrow> 'a list \<Rightarrow> IdxBuilder \<Rightarrow> GitError + IdxBuilder" where
  "send_each snd_one [] b = Inr b"
| "send_each snd_one (x # xs) b = and_then (snd_one x b) (send_each snd_one xs)"

definition write_header :: "IdxBuilder \<Rightarrow> GitError + IdxBuilder" where
  "write_header b = send_data [0xFF, 0x74, 0x4F, 0x63, 0, 0, 0, 2] b"

definition count_name :: "nat list \<Rightarrow> bytes \<Rightarrow> nat list" where
  "count_name fanout name = fanout[unat (hd name) := fanout ! unat (hd name) + 1]"

fun cumulate :: "nat \<Rightarrow> nat list \<Rightarrow> nat list" where
  "cumulate acc [] = []"
| "cumulate acc (c # cs) = (acc + c) # cumulate (acc + c) cs"

definition fanout_table :: "IdxEntry list \<Rightarrow> nat list" where
  "fanout_table es = cumulate 0 (foldl (\<lambda>f e. count_name f (as_ref (ie_hash e))) (replicate 256 0) es)"

definition write_fanout :: "IdxEntry list \<Rightarrow> IdxBuilder \<Rightarrow> GitError + IdxEntry list \<times> IdxBuilder" where
  "write_fanout entries b =
     (let entries = sort_key ie_hash entries in
      and_then (send_each send_u32 (fanout_table entries) b) (\<lambda>b. Inr (entries, b)))"

definition write_names :: "IdxEntry list \<Rightarrow> IdxBuilder \<Rightarrow> GitError + IdxBuilder" where
  "write_names entries b = send_each (\<lambda>e. send_data (as_ref (ie_hash e))) entries b"

definition write_crc32 :: "IdxEntry list \<Rightarrow> IdxBuilder \<Rightarrow> GitError + IdxBuilder" where
  "write_crc32 entries b = send_each (\<lambda>e. send_u32 (ie_crc32 e)) entries b"

fun send_offsets :: "IdxEntry list \<Rightarrow> nat list \<Rightarrow> IdxBuilder \<Rightarrow> GitError + nat list \<times> IdxBuilder" where
  "send_offsets [] large b = Inr (large, b)"
| "send_offsets (e # es) large b =
     (if ie_offset e \<le> 0x7FFFFFFF
      then and_then (send_u32 (ie_offset e) b) (send_offsets es large)
      else and_then (send_u32 (0x80000000 OR take_bit 32 (length large)) b)
             (send_offsets es (large @ [ie_offset e])))"

definition write_offsets :: "IdxEntry list \<Rightarrow> IdxBuilder \<Rightarrow> GitError + IdxBuilder" where
  "write_offsets entries b =
     and_then (send_offsets entries [] b) (\<lambda>(large, b). send_each send_u64 large b)"

definition write_trailer :: "(HashKind \<Rightarrow> bytes \<Rightarrow> bytes) \<Rightarrow> IdxBuilder \<Rightarrow> GitError + IdxBuilder" where
  "write_trailer digest b =
     and_then (send_data (as_ref (ib_pack_hash b)) b) (\<lambda>b.
       send_data_without_update_hash (hasher_finalize digest (ib_inner_hash b)) b)"

fun ensure_entries :: "IdxEntry list \<Rightarrow> HashKind \<Rightarrow> GitError + unit" where
  "ensure_entries [] kind = Inr ()"
| "ensure_entries (e # es) kind =
     and_then (map_err GitError_of_hash (ensure_kind (ie_hash e) kind)) (\<lambda>_. ensure_entries es kind)"

text \<open>The messages are kept in the result: the receiver has them when the sender is dropped.\<close>

definition write_idx ::
  "(HashKind \<Rightarrow> bytes \<Rightarrow> bytes) \<Rightarrow> IdxEntry list \<Rightarrow> IdxBuilder \<Rightarrow> GitError + bytes list \<times> IdxBuilder" where
  "write_idx digest entries b =
     (if length entries \<noteq> ib_object_number b
      then Inl (GE_ConversionError (''entries length '' @ decimal_string (length entries)
                  @ '' != object_number '' @ decimal_string (ib_object_number b)))
      else
        and_then (ensure_entries entries (hash_kind (ib_pack_hash b))) (\<lambda>_.
        and_then (write_header b) (\<lambda>b.
        and_then (write_fanout entries b) (\<lambda>(entries, b).
        and_then (write_names entries b) (\<lambda>b.
        and_then (write_crc32 entries b) (\<lambda>b.
        and_then (write_offsets entries b) (\<lambda>b.
        and_then (write_trailer digest b) (\<lambda>b.
          Inr (case ib_sender b of Some sent \<Rightarrow> sent | None \<Rightarrow> [], drop_sender b)))))))))"

section \<open>The parser of version 2\<close>

record IdxHashingReader =
  hr_inner :: bytes
  hr_hasher :: HashAlgorithm

definition read_exact_hashed :: "nat \<Rightarrow> IdxHashingReader \<Rightarrow> GitError + bytes \<times> IdxHashingReader" where
  "read_exact_hashed n r =
     and_then (map_err (\<lambda>e. GE_InvalidPackFile (''Read index error: '' @ io_error_string e))
         (read_exact n (hr_inner r)))
       (\<lambda>(buf, rest). Inr (buf, \<lparr>hr_inner = rest, hr_hasher = hasher_update buf (hr_hasher r)\<rparr>))"

definition read_u32_hashed :: "IdxHashingReader \<Rightarrow> GitError + nat \<times> IdxHashingReader" where
  "read_u32_hashed r = and_then (read_exact_hashed 4 r) (\<lambda>(buf, r). Inr (be_value buf, r))"

fun fanout_loop :: "nat \<Rightarrow> nat list \<Rightarrow> IdxHashingReader \<Rightarrow> GitError + nat list \<times> IdxHashingReader" where
  "fanout_loop 0 fanout r = Inr (fanout, r)"
| "fanout_loop (Suc n) fanout r =
     and_then (read_u32_hashed r) (\<lambda>(v, r).
       if fanout \<noteq> [] \<and> v < last fanout
       then Inl (GE_InvalidPackFile (''Pack index fanout is not monotonic at entry ''
                   @ decimal_string (length fanout)))
       else fanout_loop n (fanout @ [v]) r)"

fun names_loop ::
  "HashKind \<Rightarrow> nat \<Rightarrow> IdxEntry list \<Rightarrow> nat list \<Rightarrow> IdxHashingReader \<Rightarrow>
   GitError + IdxEntry list \<times> nat list \<times> IdxHashingReader" where
  "names_loop kind 0 entries per_first_byte r = Inr (entries, per_first_byte, r)"
| "names_loop kind (Suc n) entries per_first_byte r =
     and_then (read_exact_hashed (hash_size kind) r) (\<lambda>(name, r).
     and_then (map_err (\<lambda>e. GE_InvalidPackFile (''Pack index object name ''
           @ decimal_string (length entries) @ '': '' @ HashError_display e))
         (from_bytes_for_kind kind name)) (\<lambda>h.
       if entries \<noteq> [] \<and> as_ref (ie_hash (last entries)) \<ge> name
       then Inl (GE_InvalidPackFile (''Pack index object names are not strictly ascending at entry ''
                   @ decimal_string (length entries)))
       else names_loop kind n (entries @ [\<lparr>ie_hash = h, ie_crc32 = 0, ie_offset = 0\<rparr>])
              (count_name per_first_byte name) r))"

fun check_fanout :: "nat \<Rightarrow> nat list \<Rightarrow> nat list \<Rightarrow> GitError + unit" where
  "check_fanout running (c # counts) (f # fanout) =
     (if f \<noteq> running + c
      then Inl (GE_InvalidPackFile (''Pack index fanout is '' @ decimal_string f @ '' but ''
                  @ decimal_string (running + c) @ '' object names start at or below it''))
      else check_fanout (running + c) counts fanout)"
| "check_fanout running counts fanout = Inr ()"

fun crc_loop :: "IdxEntry list \<Rightarrow> IdxHashingReader \<Rightarrow> GitError + IdxEntry list \<times> IdxHashingReader" where
  "crc_loop [] r = Inr ([], r)"
| "crc_loop (e # es) r =
     and_then (read_u32_hashed r) (\<lambda>(v, r).
     and_then (crc_loop es r) (\<lambda>(es, r). Inr (e\<lparr>ie_crc32 := v\<rparr> # es, r)))"

fun offset_loop ::
  "nat \<Rightarrow> IdxEntry list \<Rightarrow> (nat \<times> nat) list \<Rightarrow> IdxHashingReader \<Rightarrow>
   GitError + IdxEntry list \<times> (nat \<times> nat) list \<times> IdxHashingReader" where
  "offset_loop i [] large_slots r = Inr ([], large_slots, r)"
| "offset_loop i (e # es) large_slots r =
     and_then (read_u32_hashed r) (\<lambda>(raw_offset, r).
       let (e, large_slots) =
         (if raw_offset AND 0x80000000 = 0 then (e\<lparr>ie_offset := raw_offset\<rparr>, large_slots)
          else (e, large_slots @ [(i, raw_offset AND 0x7fffffff)])) in
       and_then (offset_loop (i + 1) es large_slots r) (\<lambda>(es, slots, r). Inr (e # es, slots, r)))"

definition large_count :: "(nat \<times> nat) list \<Rightarrow> nat" where
  "large_count slots = foldr (\<lambda>(_, slot) m. max (slot + 1) m) slots 0"

definition read_u64_hashed :: "IdxHashingReader \<Rightarrow> GitError + nat \<times> IdxHashingReader" where
  "read_u64_hashed r = and_then (read_exact_hashed 8 r) (\<lambda>(buf, r). Inr (be_value buf, r))"

fun large_loop :: "nat \<Rightarrow> IdxHashingReader \<Rightarrow> GitError + nat list \<times> IdxHashingReader" where
  "large_loop 0 r = Inr ([], r)"
| "large_loop (Suc n) r =
     and_then (read_u64_hashed r) (\<lambda>(v, r).
     and_then (large_loop n r) (\<lambda>(vs, r). Inr (v # vs, r)))"

fun apply_slots :: "(nat \<times> nat) list \<Rightarrow> nat list \<Rightarrow> IdxEntry list \<Rightarrow> IdxEntry list" where
  "apply_slots [] large entries = entries"
| "apply_slots ((i, slot) # slots) large entries =
     apply_slots slots large (entries[i := (entries ! i)\<lparr>ie_offset := large ! slot\<rparr>])"

fun unique_offsets :: "nat list \<Rightarrow> IdxEntry list \<Rightarrow> GitError + unit" where
  "unique_offsets seen [] = Inr ()"
| "unique_offsets seen (e # es) =
     (if ie_offset e \<in> set seen
      then Inl (GE_InvalidPackFile (''Pack index lists offset '' @ decimal_string (ie_offset e)
                  @ '' more than once''))
      else unique_offsets (ie_offset e # seen) es)"

text \<open>Names, fanout check, checksums of the entries and offsets: the tables between the fanout and
  the trailer.\<close>

definition idx_declared :: "HashKind \<Rightarrow> nat \<Rightarrow> nat" where
  "idx_declared kind object_num = 8 + 256 * 4 + 2 * hash_size kind + (hash_size kind + 4 + 4) * object_num"

definition idx_offsets ::
  "nat \<Rightarrow> nat \<Rightarrow> IdxEntry list \<Rightarrow> IdxHashingReader \<Rightarrow> GitError + IdxEntry list \<times> IdxHashingReader" where
  "idx_offsets declared total_len entries r =
     and_then (offset_loop 0 entries [] r) (\<lambda>(entries, slots, r).
     let count = large_count slots in
     if count > length slots
     then Inl (GE_InvalidPackFile (''Pack index references large-offset slot '' @ decimal_string (count - 1)
                 @ '' but only '' @ decimal_string (length slots) @ '' objects use the large table''))
     else if declared + count * 8 > total_len
     then Inl (GE_InvalidPackFile ''Pack index is truncated before its large-offset table'')
     else
       and_then (large_loop count r) (\<lambda>(large, r).
       let entries = apply_slots slots large entries in
       and_then (unique_offsets [] entries) (\<lambda>_. Inr (entries, r))))"

definition idx_tables ::
  "HashKind \<Rightarrow> nat \<Rightarrow> nat list \<Rightarrow> IdxHashingReader \<Rightarrow> GitError + IdxEntry list \<times> IdxHashingReader" where
  "idx_tables kind total_len fanout r =
     (let object_num = fanout ! 255; declared = idx_declared kind object_num in
      if declared > total_len
      then Inl (GE_InvalidPackFile (''Pack index declares '' @ decimal_string object_num @ '' objects (''
                  @ decimal_string declared @ '' bytes) but is only '' @ decimal_string total_len @ '' bytes long''))
      else
        and_then (names_loop kind object_num [] (replicate 256 0) r) (\<lambda>(entries, per_first_byte, r).
        and_then (check_fanout 0 per_first_byte fanout) (\<lambda>_.
        and_then (crc_loop entries r) (\<lambda>(entries, r).
          idx_offsets declared total_len entries r))))"

definition idx_trailer ::
  "(HashKind \<Rightarrow> bytes \<Rightarrow> bytes) \<Rightarrow> HashKind \<Rightarrow> IdxEntry list \<Rightarrow> IdxHashingReader \<Rightarrow> GitError + IdxV2" where
  "idx_trailer digest kind entries r =
     and_then (read_exact_hashed (hash_size kind) r) (\<lambda>(pack_hash_buf, r).
     and_then (map_err (\<lambda>e. GE_InvalidPackFile (''Pack index pack checksum: '' @ HashError_display e))
         (from_bytes_for_kind kind pack_hash_buf)) (\<lambda>pack_hash.
     let computed = finalize_object_hash digest (hr_hasher r) in
     and_then (map_err (\<lambda>e. GE_InvalidPackFile (''Read index error: '' @ io_error_string e))
         (read_exact (hash_size kind) (hr_inner r))) (\<lambda>(idx_hash_buf, rest).
     and_then (map_err (\<lambda>e. GE_InvalidPackFile (''Pack index checksum: '' @ HashError_display e))
         (from_bytes_for_kind kind idx_hash_buf)) (\<lambda>idx_h.
     if computed \<noteq> idx_h
     then Inl (GE_InvalidPackFile ''Pack index checksum does not match calculated checksum'')
     else if rest \<noteq> [] then Inl (GE_InvalidPackFile ''Pack index has trailing data after checksum'')
     else Inr \<lparr>idx_entries = entries, idx_pack_hash = pack_hash, idx_hash = idx_h\<rparr>))))"

definition parse_idx_v2_from ::
  "(HashKind \<Rightarrow> bytes \<Rightarrow> bytes) \<Rightarrow> bytes \<Rightarrow> HashKind \<Rightarrow> nat \<Rightarrow> GitError + IdxV2" where
  "parse_idx_v2_from digest stream kind total_len =
     (let r = \<lparr>hr_inner = stream, hr_hasher = new_for_kind kind\<rparr> in
      and_then (read_u32_hashed r) (\<lambda>(magic, r).
      and_then (read_u32_hashed r) (\<lambda>(version, r).
      and_then (validate_idx_v2_header magic version kind ''index parsing'') (\<lambda>_.
      and_then (fanout_loop 256 [] r) (\<lambda>(fanout, r).
      and_then (idx_tables kind total_len fanout r) (\<lambda>(entries, r).
        idx_trailer digest kind entries r))))))"

definition parse_idx_v2 :: "(HashKind \<Rightarrow> bytes \<Rightarrow> bytes) \<Rightarrow> bytes \<Rightarrow> HashKind \<Rightarrow> GitError + IdxV2" where
  "parse_idx_v2 digest data kind = parse_idx_v2_from digest data kind (length data)"

section \<open>The parser of version 1\<close>

fun chunks4 :: "bytes \<Rightarrow> nat list" where
  "chunks4 (a # b # c # d # s) = be_value [a, b, c, d] # chunks4 s"
| "chunks4 s = []"

fun monotonic :: "nat list \<Rightarrow> bool" where
  "monotonic (a # b # s) = (a \<le> b \<and> monotonic (b # s))"
| "monotonic s = True"

definition byte_range :: "bytes \<Rightarrow> nat \<Rightarrow> nat \<Rightarrow> bytes" where
  "byte_range data i j = take (j - i) (drop i data)"

definition idx_v1_entry :: "bytes \<Rightarrow> nat \<Rightarrow> IdxEntry" where
  "idx_v1_entry data index =
     (let start = 1024 + index * 24 in
      \<lparr>ie_hash = HSha1 (byte_range data (start + 4) (start + 24)), ie_crc32 = 0,
       ie_offset = be_value (byte_range data start (start + 4))\<rparr>)"

definition parse_idx_v1 :: "(HashKind \<Rightarrow> bytes \<Rightarrow> bytes) \<Rightarrow> bytes \<Rightarrow> GitError + IdxV2" where
  "parse_idx_v1 digest data =
     (if length data < 1024 + 40 then Inl (GE_InvalidPackFile ''pack index v1 is too short'')
      else
        let fanout = chunks4 (take 1024 data) in
        if \<not> monotonic fanout then Inl (GE_InvalidPackFile ''pack index v1 fanout table is not monotonic'')
        else
          let object_count = fanout ! 255 in
          if length data \<noteq> 1024 + object_count * 24 + 40
          then Inl (GE_InvalidPackFile (''pack index v1 length '' @ decimal_string (length data)
                      @ '' does not match fanout object count '' @ decimal_string object_count))
          else
            let trailer_start = 1024 + object_count * 24;
                computed = finalize_object_hash digest
                  (hasher_update (take (trailer_start + 20) data) (new_for_kind KSha1));
                idx_hash_bytes = byte_range data (trailer_start + 20) (trailer_start + 40) in
            if as_ref computed \<noteq> idx_hash_bytes
            then Inl (GE_InvalidPackFile ''pack index v1 checksum mismatch'')
            else Inr \<lparr>idx_entries = map (idx_v1_entry data) [0..<object_count],
                      idx_pack_hash = HSha1 (byte_range data trailer_start (trailer_start + 20)),
                      idx_hash = HSha1 idx_hash_bytes\<rparr>)"

end
