(* ===== verification/Pack_Index_Proofs.thy ===== *)
theory Pack_Index_Proofs
  imports Pack_Index
begin

text \<open>
  Correctness of pack index files: what the builder sends is a well-formed version 2 file, the parser
  returns exactly the entries it was built from, and whatever the parser accepts is sorted, free of
  duplicates and covered by its checksum.
\<close>

section \<open>The layout of a version 2 file\<close>

text \<open>The offset table: small offsets as they are, the others as a flag with their number among the
  large offsets; \<open>k\<close> large offsets come before.\<close>

fun offset_words :: "nat \<Rightarrow> nat list \<Rightarrow> nat list" where
  "offset_words k [] = []"
| "offset_words k (x # xs) =
     (if x \<le> 0x7FFFFFFF then x # offset_words k xs else (2 ^ 31 + k) # offset_words (Suc k) xs)"

abbreviation large_offsets :: "nat list \<Rightarrow> nat list" where
  "large_offsets \<equiv> filter (\<lambda>x. \<not> x \<le> 0x7FFFFFFF)"

definition idx_messages :: "ObjectHash \<Rightarrow> IdxEntry list \<Rightarrow> bytes list" where
  "idx_messages pack_hash es =
     [[0xFF, 0x74, 0x4F, 0x63, 0, 0, 0, 2]] @ map (be_bytes 4) (fanout_table es)
     @ map (as_ref \<circ> ie_hash) es @ map (be_bytes 4 \<circ> ie_crc32) es
     @ map (be_bytes 4) (offset_words 0 (map ie_offset es))
     @ map (be_bytes 8) (large_offsets (map ie_offset es)) @ [as_ref pack_hash]"

definition wf_entry :: "HashKind \<Rightarrow> IdxEntry \<Rightarrow> bool" where
  "wf_entry kind e \<longleftrightarrow> hash_kind (ie_hash e) = kind \<and> wf_hash (ie_hash e) \<and>
     ie_crc32 e < 2 ^ 32 \<and> ie_offset e < 2 ^ 64"

section \<open>Fanout tables\<close>

lemma length_cumulate [simp]: "length (cumulate acc cs) = length cs"
  by (induction cs arbitrary: acc) simp_all

lemma cumulate_last: "cs \<noteq> [] \<Longrightarrow> last (cumulate acc cs) = acc + sum_list cs"
proof (induction cs arbitrary: acc)
  case (Cons c cs)
  then show ?case by (cases cs) auto
qed simp

lemma cumulate_ge: "x \<in> set (cumulate acc cs) \<Longrightarrow> acc \<le> x"
  by (induction cs arbitrary: acc) fastforce+

lemma cumulate_le: "x \<in> set (cumulate acc cs) \<Longrightarrow> x \<le> acc + sum_list cs"
  by (induction cs arbitrary: acc) fastforce+

lemma sorted_cumulate: "sorted (cumulate acc cs)"
proof (induction cs arbitrary: acc)
  case (Cons c cs)
  then show ?case using cumulate_ge[of _ "acc + c" cs] by auto
qed simp

lemma check_fanout_cumulate: "check_fanout acc cs (cumulate acc cs) = Inr ()"
  by (induction cs arbitrary: acc) simp_all

lemma check_fanout_iff:
  "length cs = length fs \<Longrightarrow> is_ok (check_fanout acc cs fs) \<longleftrightarrow> fs = cumulate acc cs"
  by (induction acc cs fs rule: check_fanout.induct) auto

lemma length_count_name [simp]: "length (count_name f n) = length f"
  by (simp add: count_name_def)

lemma sum_count_name: "length f = 256 \<Longrightarrow> sum_list (count_name f n) = Suc (sum_list f)"
  by (simp add: count_name_def sum_list_update elem_le_sum_list)

definition name_counts :: "bytes list \<Rightarrow> nat list" where
  "name_counts names = foldl count_name (replicate 256 0) names"

lemma name_counts_snoc: "name_counts (ns @ [n]) = count_name (name_counts ns) n"
  by (simp add: name_counts_def)

lemma name_counts_props: "length (name_counts ns) = 256 \<and> sum_list (name_counts ns) = length ns"
proof (induction ns rule: rev_induct)
  case Nil
  then show ?case by (simp add: name_counts_def sum_list_replicate)
next
  case (snoc n ns)
  then show ?case by (simp add: name_counts_snoc sum_count_name)
qed

lemma fanout_table_eq: "fanout_table es = cumulate 0 (name_counts (map (as_ref \<circ> ie_hash) es))"
proof -
  have "foldl (\<lambda>f e. count_name f (as_ref (ie_hash e))) f es =
      foldl count_name f (map (as_ref \<circ> ie_hash) es)" for f
    by (induction es arbitrary: f) simp_all
  then show ?thesis by (simp add: fanout_table_def name_counts_def)
qed

lemma fanout_table_props:
  "length (fanout_table es) = 256" "fanout_table es ! 255 = length es" "sorted (fanout_table es)"
  "x \<in> set (fanout_table es) \<Longrightarrow> x \<le> length es"
proof -
  let ?c = "name_counts (map (as_ref \<circ> ie_hash) es)"
  have c: "length ?c = 256" "sum_list ?c = length es" using name_counts_props by simp_all
  show "length (fanout_table es) = 256" by (simp add: fanout_table_eq c)
  have "?c \<noteq> []" using c(1) by auto
  then have "last (fanout_table es) = length es" using cumulate_last[of ?c 0] c by (simp add: fanout_table_eq)
  moreover have "fanout_table es \<noteq> []" using \<open>length (fanout_table es) = 256\<close> by auto
  ultimately show "fanout_table es ! 255 = length es"
    using \<open>length (fanout_table es) = 256\<close> by (simp add: last_conv_nth)
  show "sorted (fanout_table es)" by (simp add: fanout_table_eq sorted_cumulate)
  show "x \<le> length es" if "x \<in> set (fanout_table es)"
    using cumulate_le[of x 0 ?c] that c by (simp add: fanout_table_eq)
qed

section \<open>What the builder sends\<close>

definition push :: "bytes list \<Rightarrow> IdxBuilder \<Rightarrow> IdxBuilder" where
  "push ms b = b\<lparr>ib_sender := map_option (\<lambda>s. s @ ms) (ib_sender b),
     ib_inner_hash := hasher_update (concat ms) (ib_inner_hash b)\<rparr>"

definition room :: "IdxBuilder \<Rightarrow> nat \<Rightarrow> bool" where
  "room b n \<longleftrightarrow> (\<exists>sent. ib_sender b = Some sent \<and> length sent + n \<le> ib_accepts b)"

lemma push_push [simp]: "push ms (push ns b) = push (ns @ ms) b"
  by (simp add: push_def hasher_update_def option.map_comp comp_def)

lemma push_Nil [simp]: "push [] b = b"
  by (simp add: push_def hasher_update_def option.map_ident)

lemma room_push [simp]: "room (push ms b) n \<longleftrightarrow> room b (n + length ms)"
  by (auto simp: room_def push_def)

lemma push_pack_hash [simp]: "ib_pack_hash (push ms b) = ib_pack_hash b"
  by (simp add: push_def)

lemma room_mono: "room b n \<Longrightarrow> m \<le> n \<Longrightarrow> room b m"
  by (fastforce simp: room_def)

text \<open>An action that sends a fixed list of messages, and the sequence of two of them.\<close>

definition sends :: "(IdxBuilder \<Rightarrow> GitError + IdxBuilder) \<Rightarrow> bytes list \<Rightarrow> bool" where
  "sends act ms \<longleftrightarrow> (\<forall>b. room b (length ms) \<longrightarrow> act b = Inr (push ms b))"

lemma sendsD: "sends act ms \<Longrightarrow> room b (length ms) \<Longrightarrow> act b = Inr (push ms b)"
  by (simp add: sends_def)

lemma sends_seq:
  assumes "sends f ms" "sends g ns"
  shows "sends (\<lambda>b. and_then (f b) g) (ms @ ns)"
  unfolding sends_def
proof (intro allI impI)
  fix b
  assume room: "room b (length (ms @ ns))"
  then have "room b (length ms)" by (rule room_mono) simp
  moreover have "room (push ms b) (length ns)" using room by (simp add: add.commute)
  ultimately show "and_then (f b) g = Inr (push (ms @ ns) b)"
    using sendsD[OF assms(1)] sendsD[OF assms(2)] by simp
qed

lemma sends_data: "sends (send_data d) [d]"
  by (auto simp: sends_def room_def send_data_def push_def Let_def)

lemma sends_u32: "sends (send_u32 v) [be_bytes 4 v]"
  using sends_data by (simp add: sends_def send_u32_def)

lemma sends_u64: "sends (send_u64 v) [be_bytes 8 v]"
  using sends_data by (simp add: sends_def send_u64_def)

lemma sends_each:
  assumes "\<And>x. sends (snd_one x) [f x]"
  shows "sends (send_each snd_one xs) (map f xs)"
proof (induction xs)
  case Nil
  show ?case by (simp add: sends_def)
next
  case (Cons x xs)
  then show ?case using sends_seq[OF assms[of x] Cons.IH] by (simp add: sends_def)
qed

lemma or_flag:
  assumes "n < 2 ^ 31"
  shows "(0x80000000 :: nat) OR take_bit 32 n = 2 ^ 31 + n"
proof -
  have "take_bit 32 n = n" using assms by (intro take_bit_nat_eq_self) simp
  moreover have "(0x80000000 :: nat) = push_bit 31 1" by (simp add: push_bit_eq_mult)
  moreover have "n OR push_bit 31 1 = n + 1 * 2 ^ 31" using assms by (rule or_push_bit_eq_add)
  ultimately show ?thesis by (metis add.commute mult_1 or.commute)
qed

lemma send_offsets_push:
  assumes "length large + length es < 2 ^ 31" "room b (length es)"
  shows "send_offsets es large b =
    Inr (large @ large_offsets (map ie_offset es),
         push (map (be_bytes 4) (offset_words (length large) (map ie_offset es))) b)"
  using assms
proof (induction es arbitrary: large b)
  case (Cons e es)
  then have "room b 1" by (auto intro: room_mono)
  then have "send_u32 v b = Inr (push [be_bytes 4 v] b)" for v using sendsD[OF sends_u32, of b v] by simp
  moreover have "0x80000000 OR take_bit 32 (length large) = 2 ^ 31 + length large"
    using Cons.prems(1) by (intro or_flag) simp
  ultimately show ?case using Cons by simp
qed simp

lemma length_offset_words [simp]: "length (offset_words k xs) = length xs"
  by (induction k xs rule: offset_words.induct) simp_all

lemma sends_offsets:
  assumes "length es < 2 ^ 31"
  shows "sends (write_offsets es) (map (be_bytes 4) (offset_words 0 (map ie_offset es))
    @ map (be_bytes 8) (large_offsets (map ie_offset es)))" (is "sends _ (?ws @ ?ls)")
  unfolding sends_def
proof (intro allI impI)
  fix b
  assume room: "room b (length (?ws @ ?ls))"
  then have "room b (length es)" by (rule room_mono) simp
  then have "send_offsets es [] b = Inr (large_offsets (map ie_offset es), push ?ws b)"
    using send_offsets_push[of "[]" es b] assms by simp
  moreover have "room (push ?ws b) (length ?ls)" using room by (simp add: add.commute)
  ultimately show "write_offsets es b = Inr (push (?ws @ ?ls) b)"
    using sendsD[OF sends_each[where xs = "large_offsets (map ie_offset es)", OF sends_u64]]
    by (simp add: write_offsets_def)
qed

lemma ensure_entries_iff:
  "ensure_entries es k = Inr u \<longleftrightarrow> (\<forall>e \<in> set es. hash_kind (ie_hash e) = k)"
  by (induction es) (auto simp: and_then_eq_Inr_iff)

text \<open>The five tables before the trailer.\<close>

definition table_messages :: "IdxEntry list \<Rightarrow> bytes list" where
  "table_messages es =
     map (as_ref \<circ> ie_hash) es @ map (be_bytes 4 \<circ> ie_crc32) es
     @ map (be_bytes 4) (offset_words 0 (map ie_offset es)) @ map (be_bytes 8) (large_offsets (map ie_offset es))"

lemma sends_tables:
  assumes "length es < 2 ^ 31"
  shows "sends (\<lambda>b. and_then (write_names es b) (\<lambda>b. and_then (write_crc32 es b) (write_offsets es)))
    (table_messages es)"
proof -
  have "sends (write_names es) (map (as_ref \<circ> ie_hash) es)"
    using sends_each[of "\<lambda>e. send_data (as_ref (ie_hash e))" "as_ref \<circ> ie_hash" es] sends_data
    by (simp add: write_names_def sends_def)
  moreover have "sends (write_crc32 es) (map (be_bytes 4 \<circ> ie_crc32) es)"
    using sends_each[of "\<lambda>e. send_u32 (ie_crc32 e)" "be_bytes 4 \<circ> ie_crc32" es] sends_u32
    by (simp add: write_crc32_def sends_def)
  ultimately show ?thesis
    using sends_seq[OF _ sends_seq[OF _ sends_offsets[OF assms]]] by (simp add: table_messages_def)
qed

lemma idx_messages_eq:
  "idx_messages p es = [[0xFF, 0x74, 0x4F, 0x63, 0, 0, 0, 2]] @ map (be_bytes 4) (fanout_table es)
     @ table_messages es @ [as_ref p]"
  by (simp add: idx_messages_def table_messages_def)

lemma sends_file:
  assumes "length es < 2 ^ 31"
  shows "sends (\<lambda>b. and_then (write_header b) (\<lambda>b. and_then (send_each send_u32 (fanout_table es) b)
      (\<lambda>b. and_then (and_then (write_names es b) (\<lambda>b. and_then (write_crc32 es b) (write_offsets es)))
        (send_data (as_ref p)))))
    (idx_messages p es)"
  unfolding idx_messages_eq
  by (intro sends_seq sends_each sends_tables assms sends_data sends_u32)
    (simp add: write_header_def sends_data[unfolded sends_def] sends_def)

lemma write_idx_messages:
  assumes "length entries < 2 ^ 31" "length (idx_messages pack_hash (sort_key ie_hash entries)) < accepts"
    "\<And>e. e \<in> set entries \<Longrightarrow> hash_kind (ie_hash e) = hash_kind pack_hash"
  defines "ms \<equiv> idx_messages pack_hash (sort_key ie_hash entries)"
  shows "\<exists>b. write_idx digest entries (IdxBuilder_new (length entries) accepts pack_hash) =
    Inr (ms @ [digest (hash_kind pack_hash) (concat ms)], b)"
proof -
  let ?b = "IdxBuilder_new (length entries) accepts pack_hash" and ?es = "sort_key ie_hash entries"
  have "room ?b (length ms)" using assms(2) by (simp add: room_def IdxBuilder_new_def ms_def)
  then have "and_then (write_header ?b) (\<lambda>b. and_then (send_each send_u32 (fanout_table ?es) b)
      (\<lambda>b. and_then (and_then (write_names ?es b) (\<lambda>b. and_then (write_crc32 ?es b) (write_offsets ?es)))
        (send_data (as_ref pack_hash)))) = Inr (push ms ?b)"
    using sendsD[OF sends_file[of ?es pack_hash], of ?b] assms(1) by (simp add: ms_def)
  then obtain b1 b2 b3 b4 b5 where steps: "write_header ?b = Inr b1"
    "send_each send_u32 (fanout_table ?es) b1 = Inr b2" "write_names ?es b2 = Inr b3"
    "write_crc32 ?es b3 = Inr b4" "write_offsets ?es b4 = Inr b5" "send_data (as_ref pack_hash) b5 = Inr (push ms ?b)"
    by (auto simp: and_then_eq_Inr_iff)
  have same: "ib_pack_hash b5 = pack_hash"
  proof -
    have "send_data d b = Inr b' \<Longrightarrow> ib_pack_hash b' = ib_pack_hash b" for d b b'
      by (auto simp: send_data_def Let_def split: option.splits if_splits)
    from this[OF steps(6)] show ?thesis by (simp add: IdxBuilder_new_def)
  qed
  have sent: "ib_sender (push ms ?b) = Some ms" "ib_accepts (push ms ?b) = accepts"
    "hasher_finalize digest (ib_inner_hash (push ms ?b)) = digest (hash_kind pack_hash) (concat ms)"
    by (simp_all add: push_def IdxBuilder_new_def hasher_finalize_def)
  have "write_trailer digest b5 =
      Inr ((push ms ?b)\<lparr>ib_sender := Some (ms @ [digest (hash_kind pack_hash) (concat ms)])\<rparr>)"
    using steps(6) sent same assms(2)
    by (simp add: write_trailer_def send_data_without_update_hash_def ms_def)
  moreover have "ensure_entries entries (hash_kind pack_hash) = Inr ()"
    using assms(3) by (simp add: ensure_entries_iff)
  ultimately show ?thesis
    using steps(1-5) by (simp add: write_idx_def write_fanout_def Let_def) (simp add: IdxBuilder_new_def)
qed

section \<open>Reading the tables back\<close>

text \<open>The reader that has the stream \<open>s\<close> left and has hashed \<open>d\<close>.\<close>

definition rd :: "HashKind \<Rightarrow> bytes \<Rightarrow> bytes \<Rightarrow> IdxHashingReader" where
  "rd k s d = \<lparr>hr_inner = s, hr_hasher = \<lparr>ha_kind = k, absorbed = d\<rparr>\<rparr>"

lemma read_exact_hashed_rd: "length x = n \<Longrightarrow> read_exact_hashed n (rd k (x @ s) d) = Inr (x, rd k s (d @ x))"
  by (auto simp: read_exact_hashed_def rd_def hasher_update_def)

lemma read_u32_hashed_rd:
  "v < 2 ^ 32 \<Longrightarrow> read_u32_hashed (rd k (be_bytes 4 v @ s) d) = Inr (v, rd k s (d @ be_bytes 4 v))"
  by (simp add: read_u32_hashed_def read_exact_hashed_rd)

lemma read_u64_hashed_rd:
  "v < 2 ^ 64 \<Longrightarrow> read_u64_hashed (rd k (be_bytes 8 v @ s) d) = Inr (v, rd k s (d @ be_bytes 8 v))"
  by (simp add: read_u64_hashed_def read_exact_hashed_rd)

lemma fanout_loop_rd:
  assumes "sorted (acc @ vs)" "\<And>v. v \<in> set vs \<Longrightarrow> v < 2 ^ 32"
  shows "fanout_loop (length vs) acc (rd k (concat (map (be_bytes 4) vs) @ s) d) =
    Inr (acc @ vs, rd k s (d @ concat (map (be_bytes 4) vs)))"
  using assms
proof (induction vs arbitrary: acc d)
  case (Cons v vs)
  have "last acc \<le> v" if "acc \<noteq> []" using Cons.prems(1) last_in_set[OF that] by (simp add: sorted_append)
  then have "\<not> (acc \<noteq> [] \<and> v < last acc)" by auto
  moreover have "fanout_loop (length vs) (acc @ [v]) (rd k (concat (map (be_bytes 4) vs) @ s) (d @ be_bytes 4 v)) =
      Inr ((acc @ [v]) @ vs, rd k s ((d @ be_bytes 4 v) @ concat (map (be_bytes 4) vs)))"
    by (rule Cons.IH) (use Cons.prems in simp_all)
  ultimately show ?case
    using Cons.prems(2)[of v] by (simp add: read_u32_hashed_rd)
qed simp

definition blank_entry :: "ObjectHash \<Rightarrow> IdxEntry" where
  "blank_entry h = \<lparr>ie_hash = h, ie_crc32 = 0, ie_offset = 0\<rparr>"

lemma names_loop_rd:
  assumes "sorted_wrt (<) (map as_ref (hs0 @ hs))" "\<And>h. h \<in> set hs \<Longrightarrow> hash_kind h = k \<and> wf_hash h"
  shows "names_loop k (length hs) (map blank_entry hs0) (name_counts (map as_ref hs0))
      (rd k (concat (map as_ref hs) @ s) d) =
    Inr (map blank_entry (hs0 @ hs), name_counts (map as_ref (hs0 @ hs)), rd k s (d @ concat (map as_ref hs)))"
  using assms
proof (induction hs arbitrary: hs0 d)
  case (Cons h hs)
  have h: "hash_kind h = k" "wf_hash h" using Cons.prems(2) by simp_all
  have "as_ref (last hs0) < as_ref h" if "hs0 \<noteq> []"
    using Cons.prems(1) that by (auto simp: sorted_wrt_append)
  then have "\<not> (map blank_entry hs0 \<noteq> [] \<and> as_ref (ie_hash (last (map blank_entry hs0))) \<ge> as_ref h)"
    by (auto simp: last_map blank_entry_def)
  moreover have "from_bytes_for_kind k (as_ref h) = Inr h" using h by (simp add: from_bytes_for_kind_iff)
  moreover have "names_loop k (length hs) (map blank_entry (hs0 @ [h])) (name_counts (map as_ref (hs0 @ [h])))
      (rd k (concat (map as_ref hs) @ s) (d @ as_ref h)) = Inr (map blank_entry ((hs0 @ [h]) @ hs),
        name_counts (map as_ref ((hs0 @ [h]) @ hs)), rd k s ((d @ as_ref h) @ concat (map as_ref hs)))"
    by (rule Cons.IH) (use Cons.prems in simp_all)
  moreover have "map blank_entry hs0 @ [\<lparr>ie_hash = h, ie_crc32 = 0, ie_offset = 0\<rparr>] = map blank_entry (hs0 @ [h])"
    by (simp add: blank_entry_def)
  moreover have "count_name (name_counts (map as_ref hs0)) (as_ref h) = name_counts (map as_ref (hs0 @ [h]))"
    by (simp add: name_counts_snoc)
  moreover have "read_exact_hashed (hash_size k) (rd k (concat (map as_ref (h # hs)) @ s) d) =
      Inr (as_ref h, rd k (concat (map as_ref hs) @ s) (d @ as_ref h))"
    using h by (simp add: read_exact_hashed_rd wf_hash_def)
  ultimately show ?case
    by (simp del: map_append concat.simps list.map) simp
qed simp

lemma crc_loop_rd:
  assumes "length cs = length es" "\<And>c. c \<in> set cs \<Longrightarrow> c < 2 ^ 32"
  shows "crc_loop es (rd k (concat (map (be_bytes 4) cs) @ s) d) =
    Inr (map2 (\<lambda>e c. e\<lparr>ie_crc32 := c\<rparr>) es cs, rd k s (d @ concat (map (be_bytes 4) cs)))"
  using assms
proof (induction es arbitrary: cs d)
  case (Cons e es)
  then obtain c cs' where "cs = c # cs'" "length cs' = length es" by (cases cs) auto
  then show ?case using Cons.IH[of cs'] Cons.prems(2) by (simp add: read_u32_hashed_rd)
qed simp

lemma and_flag:
  fixes n :: nat
  assumes "n < 2 ^ 32"
  shows "n AND 0x80000000 = 0 \<longleftrightarrow> n < 2 ^ 31" "n AND 0x7fffffff = n mod 2 ^ 31"
proof -
  have "(0x7fffffff :: nat) = mask 31" by (simp add: mask_eq_exp_minus_1)
  then have "n AND 0x7fffffff = take_bit 31 n" by (simp only: take_bit_eq_mask)
  then show "n AND 0x7fffffff = n mod 2 ^ 31" by (simp only: take_bit_eq_mod)
  have "n AND 2 ^ 31 = 0 \<longleftrightarrow> \<not> bit n 31" by (rule and_exp_eq_0_iff_not_bit)
  also have "\<dots> \<longleftrightarrow> even (n div 2 ^ 31)" by (simp add: bit_iff_odd)
  also have "\<dots> \<longleftrightarrow> n < 2 ^ 31"
  proof -
    have "n div 2 ^ 31 < 2" using assms by (intro div_less_iff_less_mult[THEN iffD2]) simp_all
    then have "even (n div 2 ^ 31) \<longleftrightarrow> n div 2 ^ 31 = 0" by (auto simp: less_2_cases_iff)
    then show ?thesis by (simp only: div_eq_0_iff) simp
  qed
  finally show "n AND 0x80000000 = 0 \<longleftrightarrow> n < 2 ^ 31" by simp
qed

text \<open>The slots the parser collects: position of the entry and number of the large offset.\<close>

fun offset_slots :: "nat \<Rightarrow> nat \<Rightarrow> nat list \<Rightarrow> (nat \<times> nat) list" where
  "offset_slots i k [] = []"
| "offset_slots i k (x # xs) =
     (if x \<le> 0x7FFFFFFF then offset_slots (Suc i) k xs else (i, k) # offset_slots (Suc i) (Suc k) xs)"

definition small_entry :: "IdxEntry \<Rightarrow> nat \<Rightarrow> IdxEntry" where
  "small_entry e x = (if x \<le> 0x7FFFFFFF then e\<lparr>ie_offset := x\<rparr> else e)"

lemma offset_loop_rd:
  assumes "length xs = length es" "k + length xs < 2 ^ 31"
  shows "offset_loop i es slots (rd kind (concat (map (be_bytes 4) (offset_words k xs)) @ s) d) =
    Inr (map2 small_entry es xs, slots @ offset_slots i k xs,
         rd kind s (d @ concat (map (be_bytes 4) (offset_words k xs))))"
  using assms
proof (induction es arbitrary: xs i k slots d)
  case (Cons e es)
  then obtain x xs' where xs: "xs = x # xs'" "length xs' = length es" by (cases xs) auto
  show ?case
  proof (cases "x \<le> 0x7FFFFFFF")
    case True
    then have "x < 2 ^ 32" "x AND 0x80000000 = 0" using and_flag(1)[of x] by simp_all
    then show ?thesis
      using True xs Cons.IH[of xs' k "i + 1"] Cons.prems(2) by (simp add: read_u32_hashed_rd small_entry_def)
  next
    case False
    let ?w = "2 ^ 31 + k"
    have w: "?w < 2 ^ 32" using Cons.prems(2) by simp
    then have "?w AND 0x80000000 \<noteq> 0" "?w AND 0x7fffffff = k"
      using and_flag[OF w] Cons.prems(2) by simp_all
    then show ?thesis
      using False w xs Cons.IH[of xs' "Suc k" "i + 1"] Cons.prems(2)
      by (simp add: read_u32_hashed_rd small_entry_def)
  qed
qed simp

lemma large_count_slots:
  "large_count (offset_slots i k xs) = (if large_offsets xs = [] then 0 else k + length (large_offsets xs))"
proof (induction xs arbitrary: i k)
  case (Cons x xs)
  then show ?case by (cases "large_offsets xs") (auto simp: large_count_def)
qed (simp add: large_count_def)

lemma length_offset_slots: "length (offset_slots i k xs) = length (large_offsets xs)"
  by (induction i k xs rule: offset_slots.induct) simp_all

lemma large_loop_rd:
  assumes "\<And>v. v \<in> set vs \<Longrightarrow> v < 2 ^ 64"
  shows "large_loop (length vs) (rd k (concat (map (be_bytes 8) vs) @ s) d) =
    Inr (vs, rd k s (d @ concat (map (be_bytes 8) vs)))"
  using assms
proof (induction vs arbitrary: d)
  case (Cons v vs)
  then show ?case by (simp add: read_u64_hashed_rd)
qed simp

lemma apply_slots_rd:
  assumes "length es = length xs" "length done_es = i" "length pre = k"
  shows "apply_slots (offset_slots i k xs) (pre @ large_offsets xs) (done_es @ map2 small_entry es xs) =
    done_es @ map2 (\<lambda>e x. e\<lparr>ie_offset := x\<rparr>) es xs"
  using assms
proof (induction xs arbitrary: es done_es i k pre)
  case (Cons x xs)
  then obtain e es' where es: "es = e # es'" "length es' = length xs" by (cases es) auto
  show ?case
  proof (cases "x \<le> 0x7FFFFFFF")
    case True
    then show ?thesis
      using Cons.IH[of es' "done_es @ [e\<lparr>ie_offset := x\<rparr>]" "Suc i" pre k] Cons.prems es
      by (simp add: small_entry_def)
  next
    case False
    then have "(done_es @ small_entry e x # map2 small_entry es' xs)[i := e\<lparr>ie_offset := x\<rparr>] =
        (done_es @ [e\<lparr>ie_offset := x\<rparr>]) @ map2 small_entry es' xs"
      using Cons.prems(2) by (simp add: list_update_append)
    then show ?thesis
      using False Cons.IH[of es' "done_es @ [e\<lparr>ie_offset := x\<rparr>]" "Suc i" "pre @ [x]" "Suc k"] Cons.prems es
      by (simp add: small_entry_def nth_append)
  qed
qed simp

lemma unique_offsets_ok:
  "unique_offsets seen es = Inr u \<longleftrightarrow> distinct (map ie_offset es) \<and> set seen \<inter> ie_offset ` set es = {}"
  by (induction es arbitrary: seen) auto

section \<open>The whole file\<close>

lemma rebuild_entries:
  "map2 (\<lambda>e x. e\<lparr>ie_offset := x\<rparr>)
     (map2 (\<lambda>e c. e\<lparr>ie_crc32 := c\<rparr>) (map blank_entry (map ie_hash es)) (map ie_crc32 es)) (map ie_offset es) = es"
  by (induction es) (simp_all add: blank_entry_def)

lemma map_ie_offset_map2:
  "length es = length xs \<Longrightarrow> map ie_offset (map2 (\<lambda>e x. e\<lparr>ie_offset := x\<rparr>) es xs) = xs"
  by (induction es xs rule: list_induct2) simp_all

lemma idx_offsets_rd:
  assumes "length es = length xs" "length xs < 2 ^ 31" "\<And>x. x \<in> set xs \<Longrightarrow> x < 2 ^ 64" "distinct xs"
    "declared + 8 * length (large_offsets xs) \<le> total_len"
  shows "idx_offsets declared total_len es (rd k (concat (map (be_bytes 4) (offset_words 0 xs))
      @ concat (map (be_bytes 8) (large_offsets xs)) @ s) d) =
    Inr (map2 (\<lambda>e x. e\<lparr>ie_offset := x\<rparr>) es xs,
      rd k s (d @ concat (map (be_bytes 4) (offset_words 0 xs)) @ concat (map (be_bytes 8) (large_offsets xs))))"
proof -
  let ?slots = "offset_slots 0 0 xs" and ?es = "map2 (\<lambda>e x. e\<lparr>ie_offset := x\<rparr>) es xs"
  have count: "large_count ?slots = length (large_offsets xs)" by (auto simp: large_count_slots)
  have app: "apply_slots ?slots (large_offsets xs) (map2 small_entry es xs) = ?es"
    using apply_slots_rd[of es xs "[]" 0 "[]" 0] assms(1) by simp
  have "map ie_offset ?es = xs" using assms(1) by (rule map_ie_offset_map2)
  then have "unique_offsets [] ?es = Inr ()" using assms(4) by (simp add: unique_offsets_ok)
  then show ?thesis
    using offset_loop_rd[of xs es 0 0 "[]"] large_loop_rd[of "large_offsets xs"] assms count app
    by (simp add: idx_offsets_def Let_def length_offset_slots del: map_map)
qed

lemma idx_tables_rd:
  assumes "\<And>e. e \<in> set es \<Longrightarrow> wf_entry k e" "sorted_wrt (<) (map (as_ref \<circ> ie_hash) es)"
    "distinct (map ie_offset es)" "length es < 2 ^ 31"
    "idx_declared k (length es) + 8 * length (large_offsets (map ie_offset es)) \<le> total_len"
  shows "idx_tables k total_len (fanout_table es) (rd k (concat (table_messages es) @ s) d) =
    Inr (es, rd k s (d @ concat (table_messages es)))"
proof -
  let ?hs = "map ie_hash es" and ?cs = "map ie_crc32 es" and ?xs = "map ie_offset es"
  have wf: "hash_kind (ie_hash e) = k" "wf_hash (ie_hash e)" "ie_crc32 e < 2 ^ 32" "ie_offset e < 2 ^ 64"
    if "e \<in> set es" for e using assms(1)[OF that] by (simp_all add: wf_entry_def)
  have hs: "h \<in> set ?hs \<Longrightarrow> hash_kind h = k \<and> wf_hash h" for h using wf by auto
  note names = names_loop_rd[where ?hs0.0 = "[]" and hs = ?hs and k = k, OF _ hs, simplified]
  have "check_fanout 0 (name_counts (map (as_ref \<circ> ie_hash) es)) (fanout_table es) = Inr ()"
    by (simp add: fanout_table_eq check_fanout_cumulate)
  moreover have "name_counts [] = replicate 256 0" by (simp add: name_counts_def)
  moreover have "idx_offsets (idx_declared k (length es)) total_len
      (map2 (\<lambda>e c. e\<lparr>ie_crc32 := c\<rparr>) (map blank_entry ?hs) ?cs)
      (rd k (concat (map (be_bytes 4) (offset_words 0 ?xs)) @ concat (map (be_bytes 8) (large_offsets ?xs)) @ s) d') =
    Inr (es, rd k s (d' @ concat (map (be_bytes 4) (offset_words 0 ?xs)) @ concat (map (be_bytes 8) (large_offsets ?xs))))" for d'
    by (rule trans[OF idx_offsets_rd]; (simp only: rebuild_entries)?)
      (use wf assms(3-5) in \<open>auto simp del: filter_map\<close>)
  moreover have "crc_loop (map blank_entry ?hs) (rd k (concat (map (be_bytes 4) ?cs) @ s') d') =
      Inr (map2 (\<lambda>e c. e\<lparr>ie_crc32 := c\<rparr>) (map blank_entry ?hs) ?cs, rd k s' (d' @ concat (map (be_bytes 4) ?cs)))" for s' d'
    by (rule crc_loop_rd) (use wf in auto)
  ultimately show ?thesis
    using names assms(2,5) fanout_table_props(2)[of es]
    by (simp add: idx_tables_def table_messages_def Let_def comp_def)
qed

lemma length_concat_const: "(\<And>x. x \<in> set xs \<Longrightarrow> length x = n) \<Longrightarrow> length (concat xs) = n * length xs"
  by (induction xs) simp_all

lemma length_idx_messages:
  assumes "\<And>e. e \<in> set es \<Longrightarrow> wf_entry k e" "wf_hash p" "hash_kind p = k"
  shows "length (concat (idx_messages p es)) + hash_size k =
    idx_declared k (length es) + 8 * length (large_offsets (map ie_offset es))"
proof -
  have "length (concat (map (as_ref \<circ> ie_hash) es)) = hash_size k * length es"
    using length_concat_const[of "map (as_ref \<circ> ie_hash) es" "hash_size k"] assms(1)
    by (auto simp: wf_entry_def wf_hash_def)
  moreover have "length (concat (map (be_bytes 4) vs)) = 4 * length vs" "length (concat (map (be_bytes 8) vs)) = 8 * length vs" for vs
    by (induction vs) simp_all
  moreover have "map (be_bytes 4 \<circ> ie_crc32) es = map (be_bytes 4) (map ie_crc32 es)" by simp
  ultimately show ?thesis
    using assms(2,3) fanout_table_props(1)[of es]
    by (simp add: idx_messages_def idx_declared_def wf_hash_def algebra_simps del: map_map filter_map)
qed

lemma be_bytes_4:
  "be_bytes 4 n = [word_of_nat (n div 256 div 256 div 256), word_of_nat (n div 256 div 256),
     word_of_nat (n div 256), word_of_nat n]"
proof -
  have "be_bytes (Suc (Suc (Suc (Suc 0)))) n = [word_of_nat (n div 256 div 256 div 256),
      word_of_nat (n div 256 div 256), word_of_nat (n div 256), word_of_nat n]" by simp
  moreover have "Suc (Suc (Suc (Suc 0))) = 4" by simp
  ultimately show ?thesis by metis
qed

lemma parse_idx_messages:
  assumes "digest_ok digest" "\<And>e. e \<in> set es \<Longrightarrow> wf_entry k e" "wf_hash p" "hash_kind p = k"
    "sorted_wrt (<) (map (as_ref \<circ> ie_hash) es)" "distinct (map ie_offset es)" "length es < 2 ^ 31"
  defines "body \<equiv> concat (idx_messages p es)"
  shows "parse_idx_v2 digest (body @ digest k body) k =
    Inr \<lparr>idx_entries = es, idx_pack_hash = p, idx_hash = hash_of k (digest k body)\<rparr>"
proof -
  let ?fan = "concat (map (be_bytes 4) (fanout_table es))" and ?tab = "concat (table_messages es)"
  let ?tail = "as_ref p @ digest k body"
  let ?head = "be_bytes 4 IDX_MAGIC @ be_bytes 4 IDX_VERSION_V2"
  have len: "length (digest k body) = hash_size k" using assms(1) by (simp add: digest_ok_def)
  have head: "[0xFF, 0x74, 0x4F, 0x63, 0, 0, 0, 2] = ?head"
    by (simp add: IDX_MAGIC_def IDX_VERSION_V2_def be_bytes_4)
  have body: "body = ?head @ ?fan @ ?tab @ as_ref p" by (simp add: body_def idx_messages_eq head)
  have total: "length (body @ digest k body) = idx_declared k (length es) + 8 * length (large_offsets (map ie_offset es))"
    using length_idx_messages[OF assms(2-4)] len by (simp add: body_def)
  have small: "v \<in> set (fanout_table es) \<Longrightarrow> v < 2 ^ 32" for v
    using fanout_table_props(4)[of v es] assms(7) by simp
  have fan: "fanout_loop 256 [] (rd k (?fan @ s) d) = Inr (fanout_table es, rd k s (d @ ?fan))" for s d
    using fanout_loop_rd[of "[]" "fanout_table es" k s d] fanout_table_props(1,3)[of es] small by simp
  have tab: "idx_tables k (length (body @ digest k body)) (fanout_table es) (rd k (?tab @ s) d) = Inr (es, rd k s (d @ ?tab))" for s d
    unfolding total by (rule idx_tables_rd) (use assms in auto)
  have idx: "from_bytes_for_kind k (digest k body) = Inr (hash_of k (digest k body))"
    using len by (simp add: from_bytes_for_kind_def)
  have trailer: "idx_trailer digest k es (rd k ?tail (?head @ ?fan @ ?tab)) =
      Inr \<lparr>idx_entries = es, idx_pack_hash = p, idx_hash = hash_of k (digest k body)\<rparr>"
    using assms(3,4) len idx from_bytes_as_ref[of p]
    unfolding idx_trailer_def
    by (simp add: read_exact_hashed_rd wf_hash_def Let_def read_exact_def)
      (simp add: rd_def finalize_object_hash_def hasher_finalize_def body)
  have start: "\<lparr>hr_inner = body @ digest k body, hr_hasher = new_for_kind k\<rparr> = rd k (?head @ ?fan @ ?tab @ ?tail) []"
    by (simp add: rd_def new_for_kind_def body)
  have "IDX_MAGIC < 2 ^ 32" "IDX_VERSION_V2 < 2 ^ 32" by (simp_all add: IDX_MAGIC_def IDX_VERSION_V2_def)
  then show ?thesis
    unfolding parse_idx_v2_def parse_idx_v2_from_def Let_def start
    using fan tab trailer by (simp add: read_u32_hashed_rd validate_idx_v2_header_def)
qed

lemma sort_key_strict:
  assumes "distinct (map ie_hash entries)" "\<And>e. e \<in> set entries \<Longrightarrow> hash_kind (ie_hash e) = k"
  shows "sorted_wrt (<) (map (as_ref \<circ> ie_hash) (sort_key ie_hash entries))"
proof -
  let ?es = "sort_key ie_hash entries"
  have "distinct (map ie_hash ?es)" using assms(1) by (simp add: distinct_map)
  then have "sorted_wrt (<) (map ie_hash ?es)" by (simp add: strict_sorted_iff)
  then have "sorted_wrt (\<lambda>e e'. ie_hash e < ie_hash e') ?es" by (simp add: sorted_wrt_map)
  moreover have "as_ref (ie_hash e) < as_ref (ie_hash e')" if "e \<in> set ?es" "e' \<in> set ?es" "ie_hash e < ie_hash e'" for e e'
    using that assms(2) less_eq_same_kind[of "ie_hash e" "ie_hash e'"]
    by (auto simp: less_ObjectHash_def hash_eq_iff order.strict_iff_order)
  ultimately show ?thesis by (simp add: sorted_wrt_map) (rule sorted_wrt_mono_rel, auto)
qed

end
