(* ===== verification/Pack_Index_Sound.thy ===== *)
theory Pack_Index_Sound
  imports Pack_Index_Proofs
begin

text \<open>
  What the pack index parser guarantees of every file it accepts, and the properties of pack indexes.
\<close>

section \<open>Whatever the parser accepts\<close>

definition advances :: "IdxHashingReader \<Rightarrow> IdxHashingReader \<Rightarrow> bool" where
  "advances r r' \<longleftrightarrow> (\<exists>y. hr_inner r = y @ hr_inner r' \<and> hr_hasher r' = hasher_update y (hr_hasher r))"

lemma advances_refl [simp]: "advances r r"
  by (auto simp: advances_def hasher_update_def)

lemma advances_trans: "advances r r' \<Longrightarrow> advances r' r'' \<Longrightarrow> advances r r''"
  by (fastforce simp: advances_def hasher_update_def)

lemma read_exact_hashed_advances:
  "read_exact_hashed n r = Inr (x, r') \<Longrightarrow> advances r r' \<and> length x = n \<and> suffix x (absorbed (hr_hasher r'))"
  by (auto simp: read_exact_hashed_def and_then_eq_Inr_iff read_exact_eq_Inr_iff advances_def suffix_def)

lemma read_u32_hashed_advances:
  assumes "read_u32_hashed r = Inr (v, r')"
  shows "advances r r' \<and> v < 2 ^ 32"
proof -
  obtain x where x: "read_exact_hashed 4 r = Inr (x, r')" "v = be_value x"
    using assms by (auto simp: read_u32_hashed_def and_then_eq_Inr_iff)
  then show ?thesis using read_exact_hashed_advances[OF x(1)] be_value_less[of x] by simp
qed

lemma read_u64_hashed_advances:
  assumes "read_u64_hashed r = Inr (v, r')"
  shows "advances r r' \<and> v < 2 ^ 64"
proof -
  obtain x where x: "read_exact_hashed 8 r = Inr (x, r')" "v = be_value x"
    using assms by (auto simp: read_u64_hashed_def and_then_eq_Inr_iff)
  then show ?thesis using read_exact_hashed_advances[OF x(1)] be_value_less[of x] by simp
qed

lemma fanout_loop_advances: "fanout_loop n acc r = Inr (fs, r') \<Longrightarrow> advances r r' \<and> length fs = length acc + n"
proof (induction n arbitrary: acc r)
  case (Suc n)
  then obtain v r1 where "read_u32_hashed r = Inr (v, r1)" "fanout_loop n (acc @ [v]) r1 = Inr (fs, r')"
    by (auto simp: and_then_eq_Inr_iff split: if_splits)
  then show ?case using Suc.IH[of "acc @ [v]" r1] read_u32_hashed_advances advances_trans by fastforce
qed simp

lemma read_u32_hashed_bytes:
  assumes "read_u32_hashed r = Inr (v, r')"
  shows "hr_inner r = be_bytes 4 v @ hr_inner r'"
proof -
  obtain x where x: "read_exact_hashed 4 r = Inr (x, r')" "v = be_value x"
    using assms by (auto simp: read_u32_hashed_def and_then_eq_Inr_iff)
  then have "hr_inner r = x @ hr_inner r'" "length x = 4"
    by (auto simp: read_exact_hashed_def and_then_eq_Inr_iff read_exact_eq_Inr_iff)
  then show ?thesis using be_bytes_value[of x] x(2) by simp
qed

lemma fanout_loop_bytes:
  "fanout_loop n acc r = Inr (fs, r') \<Longrightarrow> \<exists>vs. fs = acc @ vs \<and> hr_inner r = concat (map (be_bytes 4) vs) @ hr_inner r'"
proof (induction n arbitrary: acc r)
  case (Suc n)
  then obtain v r1 where v: "read_u32_hashed r = Inr (v, r1)" "fanout_loop n (acc @ [v]) r1 = Inr (fs, r')"
    by (auto simp: and_then_eq_Inr_iff split: if_splits)
  from Suc.IH[OF v(2)] obtain vs where "fs = acc @ v # vs" "hr_inner r1 = concat (map (be_bytes 4) vs) @ hr_inner r'" by auto
  then show ?case using read_u32_hashed_bytes[OF v(1)] by (intro exI[of _ "v # vs"]) simp
qed simp

definition ascending :: "HashKind \<Rightarrow> IdxEntry list \<Rightarrow> bool" where
  "ascending k es \<longleftrightarrow> sorted_wrt (<) (map (as_ref \<circ> ie_hash) es) \<and>
     (\<forall>e \<in> set es. hash_kind (ie_hash e) = k \<and> wf_hash (ie_hash e))"

lemma ascending_snoc:
  assumes "ascending k es" "hash_kind h = k" "wf_hash h" "es = [] \<or> as_ref (ie_hash (last es)) < as_ref h"
  shows "ascending k (es @ [\<lparr>ie_hash = h, ie_crc32 = c, ie_offset = x\<rparr>])"
proof -
  have "as_ref (ie_hash e) < as_ref h" if "e \<in> set es" for e
  proof -
    have "es \<noteq> []" using that by auto
    then obtain xs where xs: "es = xs @ [last es]" by (metis append_butlast_last_id)
    then have "e = last es \<or> e \<in> set xs" using that by (metis Un_iff set_append set_ConsD empty_set empty_iff)
    moreover have "as_ref (ie_hash e) < as_ref (ie_hash (last es))" if "e \<in> set xs"
      using assms(1) that unfolding ascending_def by (subst (asm) (1) xs) (auto simp: sorted_wrt_append)
    ultimately show ?thesis using assms(4) \<open>es \<noteq> []\<close> by (auto intro: less_trans)
  qed
  then show ?thesis using assms by (auto simp: ascending_def sorted_wrt_append)
qed

lemma names_loop_sound:
  "names_loop k n es cs r = Inr (es', cs', r') \<Longrightarrow> ascending k es \<Longrightarrow>
   advances r r' \<and> ascending k es' \<and> length es' = length es + n"
proof (induction n arbitrary: es cs r)
  case (Suc n)
  then obtain name r1 h where step: "read_exact_hashed (hash_size k) r = Inr (name, r1)"
    "from_bytes_for_kind k name = Inr h" "\<not> (es \<noteq> [] \<and> as_ref (ie_hash (last es)) \<ge> name)"
    "names_loop k n (es @ [\<lparr>ie_hash = h, ie_crc32 = 0, ie_offset = 0\<rparr>]) (count_name cs name) r1 = Inr (es', cs', r')"
    by (auto simp: and_then_eq_Inr_iff split: if_splits)
  have "ascending k (es @ [\<lparr>ie_hash = h, ie_crc32 = 0, ie_offset = 0\<rparr>])"
    using Suc.prems(2) step(2,3) by (intro ascending_snoc) (auto simp: from_bytes_for_kind_iff)
  from Suc.IH[OF step(4) this] show ?case
    using read_exact_hashed_advances[OF step(1)] advances_trans by fastforce
qed simp

lemma crc_loop_sound:
  "crc_loop es r = Inr (es', r') \<Longrightarrow>
   advances r r' \<and> map ie_hash es' = map ie_hash es \<and> (\<forall>e \<in> set es'. ie_crc32 e < 2 ^ 32)"
proof (induction es arbitrary: r es')
  case (Cons e es)
  then obtain v r1 es1 where step: "read_u32_hashed r = Inr (v, r1)" "crc_loop es r1 = Inr (es1, r')"
    "es' = e\<lparr>ie_crc32 := v\<rparr> # es1" by (auto simp: and_then_eq_Inr_iff)
  then show ?case using Cons.IH[OF step(2)] read_u32_hashed_advances[OF step(1)] advances_trans by auto
qed simp

lemma offset_loop_sound:
  "offset_loop i es slots r = Inr (es', slots', r') \<Longrightarrow>
   advances r r' \<and> map ie_hash es' = map ie_hash es \<and> map ie_crc32 es' = map ie_crc32 es \<and>
   (\<forall>(j, slot) \<in> set slots'. (j, slot) \<in> set slots \<or> i \<le> j \<and> j < i + length es)"
proof (induction es arbitrary: i slots r es')
  case (Cons e es)
  obtain raw r1 where raw: "read_u32_hashed r = Inr (raw, r1)"
    using Cons.prems by (auto simp: and_then_eq_Inr_iff)
  define e1 slots1 where "e1 = (if raw AND 0x80000000 = 0 then e\<lparr>ie_offset := raw\<rparr> else e)"
    and "slots1 = (if raw AND 0x80000000 = 0 then slots else slots @ [(i, raw AND 0x7fffffff)])"
  obtain es1 where step: "offset_loop (i + 1) es slots1 r1 = Inr (es1, slots', r')" "es' = e1 # es1"
    using Cons.prems raw by (auto simp: and_then_eq_Inr_iff e1_def slots1_def split: if_splits)
  note IH = Cons.IH[OF step(1)]
  have e1: "ie_hash e1 = ie_hash e" "ie_crc32 e1 = ie_crc32 e" by (simp_all add: e1_def)
  have "(j, slot) \<in> set slots \<or> i \<le> j \<and> j < i + length (e # es)" if "(j, slot) \<in> set slots'" for j slot
  proof -
    have "(j, slot) \<in> set slots1 \<or> i + 1 \<le> j \<and> j < i + 1 + length es" using IH that by auto
    then show ?thesis by (auto simp: slots1_def split: if_splits)
  qed
  then show ?case
    using IH e1 step(2) advances_trans[of r r1 r'] read_u32_hashed_advances[OF raw] by auto
qed auto

lemma large_loop_sound:
  "large_loop n r = Inr (vs, r') \<Longrightarrow> advances r r' \<and> length vs = n \<and> (\<forall>v \<in> set vs. v < 2 ^ 64)"
proof (induction n arbitrary: r vs)
  case (Suc n)
  then obtain v r1 vs1 where step: "read_u64_hashed r = Inr (v, r1)" "large_loop n r1 = Inr (vs1, r')" "vs = v # vs1"
    by (auto simp: and_then_eq_Inr_iff)
  then show ?case using Suc.IH[OF step(2)] read_u64_hashed_advances[OF step(1)] advances_trans by auto
qed simp

lemma map_update_same: "f x = f (xs ! i) \<Longrightarrow> map f (xs[i := x]) = map f xs"
  by (simp only: map_update) (simp only: map_update[symmetric] list_update_id)

lemma apply_slots_hashes:
  "map ie_hash (apply_slots slots large es) = map ie_hash es \<and> map ie_crc32 (apply_slots slots large es) = map ie_crc32 es"
proof (induction slots large es rule: apply_slots.induct)
  case (2 i slot slots large es)
  have "map ie_hash (es[i := (es ! i)\<lparr>ie_offset := large ! slot\<rparr>]) = map ie_hash es"
    "map ie_crc32 (es[i := (es ! i)\<lparr>ie_offset := large ! slot\<rparr>]) = map ie_crc32 es"
    by (rule map_update_same; simp)+
  then show ?case using 2 by simp
qed simp

text \<open>Every slot that is resolved lies inside the tables.\<close>

lemma large_count_bound: "(i, slot) \<in> set slots \<Longrightarrow> slot < large_count slots"
  by (induction slots) (fastforce simp: large_count_def)+

lemma idx_offsets_sound:
  assumes "idx_offsets declared total_len es r = Inr (es', r')"
  shows "advances r r' \<and> map ie_hash es' = map ie_hash es \<and> map ie_crc32 es' = map ie_crc32 es \<and>
    distinct (map ie_offset es')"
proof -
  obtain es1 slots r1 large where parts: "offset_loop 0 es [] r = Inr (es1, slots, r1)"
    "large_loop (large_count slots) r1 = Inr (large, r')" "es' = apply_slots slots large es1"
    "unique_offsets [] es' = Inr ()"
    using assms unfolding idx_offsets_def Let_def
    by (auto simp: and_then_eq_Inr_iff split: if_splits)
  then show ?thesis
    using offset_loop_sound[OF parts(1)] large_loop_sound[OF parts(2)] apply_slots_hashes[of slots large es1]
      advances_trans by (auto simp: unique_offsets_ok)
qed

lemma ascending_hashes: "map ie_hash es' = map ie_hash es \<Longrightarrow> ascending k es \<Longrightarrow> ascending k es'"
proof -
  assume eq: "map ie_hash es' = map ie_hash es" and asc: "ascending k es"
  have "map (as_ref \<circ> ie_hash) es' = map (as_ref \<circ> ie_hash) es"
    using eq by (metis map_map)
  moreover have "ie_hash ` set es' = ie_hash ` set es" using eq by (metis list.set_map)
  ultimately show "ascending k es'" using asc unfolding ascending_def by (metis (no_types, lifting) imageE imageI)
qed

lemma names_loop_counts:
  "names_loop k n es cs r = Inr (es', cs', r') \<Longrightarrow> cs = name_counts (map (as_ref \<circ> ie_hash) es) \<Longrightarrow>
   cs' = name_counts (map (as_ref \<circ> ie_hash) es')"
proof (induction n arbitrary: es cs r)
  case (Suc n)
  then obtain name r1 h where step: "from_bytes_for_kind k name = Inr h"
    "names_loop k n (es @ [\<lparr>ie_hash = h, ie_crc32 = 0, ie_offset = 0\<rparr>]) (count_name cs name) r1 = Inr (es', cs', r')"
    by (auto simp: and_then_eq_Inr_iff split: if_splits)
  show ?case
    by (rule Suc.IH[OF step(2)]) (use step(1) Suc.prems(2) in \<open>simp add: name_counts_snoc from_bytes_for_kind_iff\<close>)
qed simp

lemma idx_tables_sound:
  assumes "idx_tables k total_len fanout r = Inr (es, r')" "length fanout = 256"
  shows "advances r r' \<and> ascending k es \<and> distinct (map ie_offset es) \<and> (\<forall>e \<in> set es. ie_crc32 e < 2 ^ 32) \<and>
    fanout = fanout_table es \<and> idx_declared k (length es) \<le> total_len"
proof -
  obtain es1 cs r1 es2 r2 where parts:
    "names_loop k (fanout ! 255) [] (replicate 256 0) r = Inr (es1, cs, r1)" "check_fanout 0 cs fanout = Inr ()"
    "crc_loop es1 r1 = Inr (es2, r2)" "idx_offsets (idx_declared k (fanout ! 255)) total_len es2 r2 = Inr (es, r')"
    "idx_declared k (fanout ! 255) \<le> total_len"
    using assms(1) unfolding idx_tables_def Let_def by (auto simp: and_then_eq_Inr_iff split: if_splits)
  have names: "advances r r1" "ascending k es1" "length es1 = fanout ! 255"
    using names_loop_sound[OF parts(1)] by (simp_all add: ascending_def)
  have cs: "cs = name_counts (map (as_ref \<circ> ie_hash) es1)"
    by (rule names_loop_counts[OF parts(1)]) (simp add: name_counts_def)
  have crc: "advances r1 r2" "map ie_hash es2 = map ie_hash es1" "\<forall>e \<in> set es2. ie_crc32 e < 2 ^ 32"
    using crc_loop_sound[OF parts(3)] by simp_all
  have off: "advances r2 r'" "map ie_hash es = map ie_hash es2" "map ie_crc32 es = map ie_crc32 es2" "distinct (map ie_offset es)"
    using idx_offsets_sound[OF parts(4)] by simp_all
  have hashes: "map ie_hash es = map ie_hash es1" using crc off by simp
  then have "map (as_ref \<circ> ie_hash) es = map (as_ref \<circ> ie_hash) es1" by (metis map_map)
  then have "fanout = fanout_table es"
    using check_fanout_iff[of cs fanout 0] parts(2) assms(2) cs name_counts_props by (simp add: fanout_table_eq)
  moreover have "length es = fanout ! 255" using hashes names(3) by (metis length_map)
  moreover have "\<forall>c \<in> set (map ie_crc32 es). c < 2 ^ 32" unfolding off(3) using crc(3) by simp
  then have "\<forall>e \<in> set es. ie_crc32 e < 2 ^ 32" by simp
  ultimately show ?thesis
    using names crc off hashes parts(5) ascending_hashes advances_trans by metis
qed

section \<open>Version 1\<close>

text \<open>Everything the version 1 parser slices lies inside the file: ids and checksums have 20 bytes.\<close>

lemma length_byte_range: "j \<le> length data \<Longrightarrow> length (byte_range data i j) = j - i"
  by (simp add: byte_range_def)

lemma parse_idx_v1_sound:
  assumes "parse_idx_v1 digest data = Inr idx"
  shows "length data = 1064 + 24 * length (idx_entries idx)"
    and "\<forall>e \<in> set (idx_entries idx). wf_hash (ie_hash e) \<and> ie_crc32 e = 0 \<and> ie_offset e < 2 ^ 32"
    and "wf_hash (idx_pack_hash idx) \<and> wf_hash (idx_hash idx) \<and>
      as_ref (idx_hash idx) = digest KSha1 (take (length data - 20) data)"
proof -
  define n where "n = chunks4 (take 1024 data) ! 255"
  have len: "length data = 1064 + 24 * n" and idx: "idx = \<lparr>idx_entries = map (idx_v1_entry data) [0..<n],
      idx_pack_hash = HSha1 (byte_range data (1024 + n * 24) (1024 + n * 24 + 20)),
      idx_hash = HSha1 (byte_range data (1024 + n * 24 + 20) (1024 + n * 24 + 40))\<rparr>"
    and sum: "digest KSha1 (take (1024 + n * 24 + 20) data) = byte_range data (1024 + n * 24 + 20) (1024 + n * 24 + 40)"
    using assms unfolding parse_idx_v1_def Let_def n_def[symmetric]
    by (auto simp: finalize_object_hash_def hasher_finalize_def split: if_splits)
  show "length data = 1064 + 24 * length (idx_entries idx)" using len idx by simp
  have "be_value (byte_range data i j) < 2 ^ 32" if "j - i = 4" for i j
    using be_value_less[of "byte_range data i j"] power_increasing[of "length (byte_range data i j)" 4 "256 :: nat"] that
    by (simp add: byte_range_def)
  then have "wf_hash (ie_hash (idx_v1_entry data i)) \<and> ie_crc32 (idx_v1_entry data i) = 0 \<and> ie_offset (idx_v1_entry data i) < 2 ^ 32"
    if "i < n" for i
    using that len by (simp add: idx_v1_entry_def Let_def wf_hash_def length_byte_range)
  then show "\<forall>e \<in> set (idx_entries idx). wf_hash (ie_hash e) \<and> ie_crc32 e = 0 \<and> ie_offset e < 2 ^ 32"
    using idx by auto
  have "length data - 20 = 1024 + n * 24 + 20" using len by simp
  then show "wf_hash (idx_pack_hash idx) \<and> wf_hash (idx_hash idx) \<and>
      as_ref (idx_hash idx) = digest KSha1 (take (length data - 20) data)"
    using idx sum len by (simp add: wf_hash_def length_byte_range mult.commute)
qed

section \<open>Properties\<close>

text \<open>C16: writing and parsing pack indexes.  For any set of entries of the pack's kind with distinct
  ids and distinct offsets, the builder streams a file from which the parser returns exactly those
  entries in the order of their ids, with every checksum and every 31-bit and 64-bit offset, the
  pack's checksum, and a verified checksum of the file itself.\<close>

theorem idx_write_parse:
  assumes "digest_ok digest" "wf_hash pack_hash" "list_all (wf_entry (hash_kind pack_hash)) entries"
    "distinct (map ie_hash entries)" "distinct (map ie_offset entries)" "length entries < 2 ^ 31"
    "length (idx_messages pack_hash (sort_key ie_hash entries)) < accepts"
  shows "\<exists>msgs b h.
    write_idx digest entries (IdxBuilder_new (length entries) accepts pack_hash) = Inr (msgs, b) \<and>
    ib_sender b = None \<and>
    parse_idx_v2 digest (concat msgs) (hash_kind pack_hash) =
      Inr \<lparr>idx_entries = sort_key ie_hash entries, idx_pack_hash = pack_hash, idx_hash = h\<rparr>"
proof -
  let ?k = "hash_kind pack_hash" and ?es = "sort_key ie_hash entries"
  let ?ms = "idx_messages pack_hash ?es"
  have wf: "wf_entry ?k e" if "e \<in> set entries" for e using assms(3) that by (simp add: list_all_iff)
  then have kinds: "hash_kind (ie_hash e) = ?k" if "e \<in> set entries" for e using that by (simp add: wf_entry_def)
  obtain b where b: "write_idx digest entries (IdxBuilder_new (length entries) accepts pack_hash) =
      Inr (?ms @ [digest ?k (concat ?ms)], b)"
    using write_idx_messages[OF assms(6,7) kinds] by blast
  moreover have "ib_sender b = None"
    using b by (auto simp: write_idx_def and_then_eq_Inr_iff drop_sender_def split: if_splits prod.splits)
  moreover have "distinct (map ie_offset ?es)" using assms(5) by (simp add: distinct_map)
  then have "parse_idx_v2 digest (concat ?ms @ digest ?k (concat ?ms)) ?k =
      Inr \<lparr>idx_entries = ?es, idx_pack_hash = pack_hash, idx_hash = hash_of ?k (digest ?k (concat ?ms))\<rparr>"
    using parse_idx_messages[OF assms(1) _ assms(2) refl sort_key_strict[OF assms(4) kinds]] wf assms(6) by simp
  ultimately show ?thesis by auto
qed

theorem idx_write_parse_witness:
  "\<exists>msgs b h. write_idx sample_digest
      [\<lparr>ie_hash = HSha1 (replicate 20 9), ie_crc32 = 7, ie_offset = 2 ^ 40\<rparr>,
       \<lparr>ie_hash = HSha1 (replicate 20 3), ie_crc32 = 8, ie_offset = 12\<rparr>]
      (IdxBuilder_new 2 300 (zero_for_kind KSha1)) = Inr (msgs, b) \<and>
    parse_idx_v2 sample_digest (concat msgs) KSha1 =
      Inr \<lparr>idx_entries = [\<lparr>ie_hash = HSha1 (replicate 20 3), ie_crc32 = 8, ie_offset = 12\<rparr>,
             \<lparr>ie_hash = HSha1 (replicate 20 9), ie_crc32 = 7, ie_offset = 2 ^ 40\<rparr>],
           idx_pack_hash = zero_for_kind KSha1, idx_hash = h\<rparr>"
proof -
  let ?e1 = "\<lparr>ie_hash = HSha1 (replicate 20 9), ie_crc32 = 7, ie_offset = 2 ^ 40\<rparr>"
  let ?e2 = "\<lparr>ie_hash = HSha1 (replicate 20 3), ie_crc32 = 8, ie_offset = 12\<rparr>"
  have rep: "replicate 20 (x :: byte) = x # replicate 19 x" for x by (simp add: numeral_eq_Suc)
  have le: "HSha1 (replicate 20 3) \<le> HSha1 (replicate 20 9)" "\<not> HSha1 (replicate 20 9) \<le> HSha1 (replicate 20 3)"
    by (simp_all add: less_eq_ObjectHash_def rep)
  have two: "length [?e1, ?e2] = 2" by simp
  have sorted: "sort_key ie_hash [?e1, ?e2] = [?e2, ?e1]" using le by simp
  have "length (idx_messages (zero_for_kind KSha1) [?e2, ?e1]) < 300"
    using fanout_table_props(1)[of "[?e2, ?e1]"] by (simp add: idx_messages_def)
  moreover have "list_all (wf_entry (hash_kind (zero_for_kind KSha1))) [?e1, ?e2]"
    by (simp add: wf_entry_def zero_for_kind_def wf_hash_def)
  moreover have "distinct (map ie_hash [?e1, ?e2])" "distinct (map ie_offset [?e1, ?e2])" by (simp_all add: rep)
  moreover have "wf_hash (zero_for_kind KSha1)" "hash_kind (zero_for_kind KSha1) = KSha1"
    by (simp_all add: zero_for_kind_def wf_hash_def)
  ultimately show ?thesis
    using idx_write_parse[OF sample_digest_ok, of "zero_for_kind KSha1" "[?e1, ?e2]" 300] unfolding sorted two by auto
qed

text \<open>C15: what the index parser accepts.  The ids of the entries are strictly ascending and of the
  requested kind, offsets are pairwise different and checksums are 32-bit numbers.  The file starts with the
  magic, version 2 and a fanout table that counts exactly those ids, is at least as long as that many entries
  need, and ends with the pack's checksum followed by the digest of everything before that digest.\<close>

theorem parse_idx_v2_sound:
  assumes "parse_idx_v2 digest data kind = Inr idx"
  shows "sorted_wrt (<) (map (as_ref \<circ> ie_hash) (idx_entries idx)) \<and>
    (\<forall>e \<in> set (idx_entries idx). hash_kind (ie_hash e) = kind \<and> wf_hash (ie_hash e) \<and> ie_crc32 e < 2 ^ 32) \<and>
    distinct (map ie_offset (idx_entries idx)) \<and>
    idx_declared kind (length (idx_entries idx)) \<le> length data \<and>
    prefix (be_bytes 4 IDX_MAGIC @ be_bytes 4 IDX_VERSION_V2 @ concat (map (be_bytes 4) (fanout_table (idx_entries idx)))) data \<and>
    (\<exists>tables. data = tables @ as_ref (idx_pack_hash idx) @ as_ref (idx_hash idx) \<and>
       idx_hash idx = hash_of kind (digest kind (tables @ as_ref (idx_pack_hash idx))))"
proof -
  let ?r0 = "\<lparr>hr_inner = data, hr_hasher = new_for_kind kind\<rparr>"
  obtain magic version r1 r2 fanout r3 es r4 where parts: "read_u32_hashed ?r0 = Inr (magic, r1)"
    "read_u32_hashed r1 = Inr (version, r2)" "fanout_loop 256 [] r2 = Inr (fanout, r3)"
    "idx_tables kind (length data) fanout r3 = Inr (es, r4)" "idx_trailer digest kind es r4 = Inr idx"
    "magic = IDX_MAGIC" "version = IDX_VERSION_V2"
    using assms unfolding parse_idx_v2_def parse_idx_v2_from_def Let_def
    by (auto simp: and_then_eq_Inr_iff validate_idx_v2_header_def split: if_splits)
  have fan: "length fanout = 256" "advances r2 r3" using fanout_loop_advances[OF parts(3)] by simp_all
  note tab = idx_tables_sound[OF parts(4) fan(1)]
  have "advances ?r0 r4"
    using read_u32_hashed_advances[OF parts(1)] read_u32_hashed_advances[OF parts(2)] fan(2) tab advances_trans by blast
  then obtain tables where r4: "data = tables @ hr_inner r4" "hr_hasher r4 = hasher_update tables (new_for_kind kind)"
    by (auto simp: advances_def)
  obtain pb ib where trailer: "hr_inner r4 = pb @ ib" "from_bytes_for_kind kind pb = Inr (idx_pack_hash idx)"
    "from_bytes_for_kind kind ib = Inr (idx_hash idx)" "idx_entries idx = es"
    "idx_hash idx = finalize_object_hash digest (hasher_update pb (hr_hasher r4))"
    using parts(5) unfolding idx_trailer_def Let_def
    by (auto simp: and_then_eq_Inr_iff read_exact_hashed_def read_exact_eq_Inr_iff split: if_splits)
  have refs: "pb = as_ref (idx_pack_hash idx)" "ib = as_ref (idx_hash idx)"
    using trailer(2,3) by (simp_all add: from_bytes_for_kind_iff)
  have "data = be_bytes 4 IDX_MAGIC @ be_bytes 4 IDX_VERSION_V2 @ concat (map (be_bytes 4) fanout) @ hr_inner r3"
    using read_u32_hashed_bytes[OF parts(1)] read_u32_hashed_bytes[OF parts(2)] fanout_loop_bytes[OF parts(3)] parts(6,7) by auto
  then have start: "prefix (be_bytes 4 IDX_MAGIC @ be_bytes 4 IDX_VERSION_V2 @ concat (map (be_bytes 4) (fanout_table es))) data"
    using tab by (auto simp: prefix_def)
  have "idx_hash idx = hash_of kind (digest kind (tables @ pb))"
    using trailer(5) r4(2) by (simp add: finalize_object_hash_def hasher_finalize_def)
  then show ?thesis
    using tab trailer(1,4) r4(1) refs start by (auto simp: ascending_def)
qed

theorem parse_idx_v2_sound_witness:
  "\<exists>data idx. parse_idx_v2 sample_digest data KSha1 = Inr idx \<and>
     map ie_hash (idx_entries idx) = [HSha1 (replicate 20 3), HSha1 (replicate 20 9)] \<and>
     map ie_offset (idx_entries idx) = [12, 2 ^ 40] \<and> idx_declared KSha1 2 \<le> length data \<and>
     prefix (be_bytes 4 IDX_MAGIC @ be_bytes 4 IDX_VERSION_V2 @ concat (map (be_bytes 4) (fanout_table (idx_entries idx)))) data"
proof -
  let ?es = "[\<lparr>ie_hash = HSha1 (replicate 20 3), ie_crc32 = 8, ie_offset = 12\<rparr>,
    \<lparr>ie_hash = HSha1 (replicate 20 9), ie_crc32 = 7, ie_offset = 2 ^ 40\<rparr>]"
  let ?body = "concat (idx_messages (zero_for_kind KSha1) ?es)"
  have "replicate 20 (x :: byte) = x # replicate 19 x" for x by (simp add: numeral_eq_Suc)
  then have "sorted_wrt (<) (map (as_ref \<circ> ie_hash) ?es)" by simp
  moreover have "wf_entry KSha1 e" if "e \<in> set ?es" for e using that by (auto simp: wf_entry_def wf_hash_def)
  moreover have "wf_hash (zero_for_kind KSha1)" "hash_kind (zero_for_kind KSha1) = KSha1"
    by (simp_all add: zero_for_kind_def wf_hash_def)
  ultimately have parsed: "parse_idx_v2 sample_digest (?body @ sample_digest KSha1 ?body) KSha1 =
      Inr \<lparr>idx_entries = ?es, idx_pack_hash = zero_for_kind KSha1, idx_hash = hash_of KSha1 (sample_digest KSha1 ?body)\<rparr>"
    by (intro parse_idx_messages[OF sample_digest_ok]) simp_all
  have "map ie_hash ?es = [HSha1 (replicate 20 3), HSha1 (replicate 20 9)]" "map ie_offset ?es = [12, 2 ^ 40]" by simp_all
  moreover have "length ?es = 2" by simp
  ultimately show ?thesis
    using parsed parse_idx_v2_sound[OF parsed] by (metis (no_types, lifting) IdxV2.select_convs(1))
qed

end
