(* ===== verification/Pack_Entry.thy ===== *)
theory Pack_Entry
  imports Delta_Decode Pack_Index
begin

text \<open>
  Pack headers and pack entries: the writer (\<open>src/src/internal/pack/encode/header.rs\<close>,
  \<open>entry.rs\<close>, \<open>index_entry.rs\<close>) and the reader of one entry (\<open>check_header\<close>, \<open>decompress_data\<close>,
  \<open>hash_compressed_object\<close>, \<open>skip_compressed_data\<close>, \<open>decode_pack_object_with_crc\<close> and their
  helpers in \<open>src/src/internal/pack/decode.rs\<close>).

  \<^item> The crates the code calls are the fields of the record \<open>Crates\<close>: the digests, the hex printer,
    zlib, CRC-32 and zstd deltas.  \<open>x_inflate\<close> gives all the output a zlib stream produces and how it
    ends (an error, or the input after the stream); \<open>x_grain\<close> bounds how much of the pending output one
    \<open>read\<close> of the decoder delivers.
  \<^item> A panic of the code is the error \<open>GE_IOError (Panic _)\<close>.
  \<^item> Readers return the rest of the stream; where the code adds to \<open>&mut offset\<close> the model returns the
    new offset.
\<close>

section \<open>The crates\<close>

record Crates =
  x_digest :: "HashKind \<Rightarrow> bytes \<Rightarrow> bytes"
  x_hex :: "bytes \<Rightarrow> bytes"
  x_deflate :: "bytes \<Rightarrow> bytes"
  x_inflate :: "bytes \<Rightarrow> bytes \<times> (io_error + bytes)"
  x_grain :: "bytes \<Rightarrow> nat"
  x_crc :: "bytes \<Rightarrow> nat"
  x_zapply :: "bytes \<Rightarrow> bytes \<Rightarrow> string + bytes"

text \<open>Documented behaviour of zlib: inflating a compressed buffer gives it back and stops at its end;
  what follows a stream is a suffix of the input.\<close>

definition zlib_ok :: "Crates \<Rightarrow> bool" where
  "zlib_ok X \<longleftrightarrow>
     (\<forall>d s. x_inflate X (x_deflate X d @ s) = (d, Inr s)) \<and>
     (\<forall>s out r. x_inflate X s = (out, Inr r) \<longrightarrow> suffix r s)"

definition git_panic :: "string \<Rightarrow> GitError" where
  "git_panic m = GE_IOError (Panic m)"

fun pack_error :: "string \<Rightarrow> io_error \<Rightarrow> GitError" where
  "pack_error what (Panic m) = git_panic m"
| "pack_error what e = GE_InvalidPackFile (what @ io_error_string e)"

section \<open>Writing (\<open>encode/header.rs\<close>)\<close>

definition PACK_MAGIC :: bytes where
  "PACK_MAGIC = ascii ''PACK''"

definition encode_header :: "nat \<Rightarrow> GitError + bytes" where
  "encode_header object_number =
     (let result = PACK_MAGIC @ [0, 0, 0, 2] in
      if object_number = 0 then Inl (git_panic ''assertion failed: object_number != 0'')
      else if \<not> object_number \<le> u32_max
      then Inl (git_panic ''assertion failed: object_number <= u32::MAX'')
      else Inr (result @ be_bytes 4 object_number))"

record Entry =
  en_obj_type :: ObjectType
  en_data :: bytes
  en_hash :: ObjectHash
  en_chain_len :: nat

definition Entry_eq :: "Entry \<Rightarrow> Entry \<Rightarrow> bool" where
  "Entry_eq a b \<longleftrightarrow> en_obj_type a = en_obj_type b \<and> en_hash a = en_hash b"

definition Entry_from_blob :: "Blob \<Rightarrow> Entry" where
  "Entry_from_blob b =
     \<lparr>en_obj_type = OT_Blob, en_data = blob_data b, en_hash = blob_id b, en_chain_len = 0\<rparr>"

text \<open>The offset bytes of \<open>encode_one_object\<close>: \<open>offset.unwrap()\<close> on \<open>None\<close> and the
  \<open>unreachable!\<close> for hash deltas are panics.\<close>

definition entry_offset_bytes :: "ObjectType \<Rightarrow> nat option \<Rightarrow> GitError + bytes" where
  "entry_offset_bytes t offset =
     (if t = OT_OffsetDelta \<or> t = OT_OffsetZstdelta then
        (case offset of
           None \<Rightarrow> Inl (git_panic ''called `Option::unwrap()` on a `None` value'')
         | Some off \<Rightarrow> map_err GE_IOError (encode_offset off))
      else if t = OT_HashDelta then Inl (git_panic ''unsupported type'')
      else Inr [])"

definition encode_one_object :: "Crates \<Rightarrow> Entry \<Rightarrow> nat option \<Rightarrow> GitError + bytes" where
  "encode_one_object X entry offset =
     (let obj_data = en_data entry in
      and_then (to_pack_type_u8 (en_obj_type entry)) (\<lambda>obj_type_number.
      let encoded_data = entry_header obj_type_number (length obj_data) in
      and_then (entry_offset_bytes (en_obj_type entry) offset) (\<lambda>offset_data.
        Inr (encoded_data @ offset_data @ x_deflate X obj_data))))"

text \<open>\<open>IndexEntry::new\<close> of \<open>index_entry.rs\<close>.\<close>

definition IndexEntry_new :: "Crates \<Rightarrow> Entry \<Rightarrow> nat \<Rightarrow> IdxEntry" where
  "IndexEntry_new X entry offset =
     \<lparr>ie_hash = en_hash entry, ie_crc32 = x_crc X (en_data entry), ie_offset = offset\<rparr>"

text \<open>\<open>IndexEntry::try_from\<close>, over an entry and the two metadata fields it reads.\<close>

definition IndexEntry_try_from :: "Crates \<Rightarrow> Entry \<Rightarrow> nat option \<Rightarrow> nat option \<Rightarrow> GitError + IdxEntry" where
  "IndexEntry_try_from X inner pack_offset crc32 =
     and_then (ok_or (GE_ConversionError ''empty offset in pack entry'') pack_offset) (\<lambda>offset.
       Inr \<lparr>ie_hash = en_hash inner,
            ie_crc32 = (case crc32 of Some c \<Rightarrow> c | None \<Rightarrow> x_crc X (en_data inner)),
            ie_offset = offset\<rparr>)"

section \<open>The reader that counts and checksums\<close>

text \<open>\<open>CrcCountingReader\<close>: the unread input, the number of bytes read and, when the CRC is tracked,
  the bytes fed to it.  Every access goes through \<open>consume\<close>; \<open>counted\<close> runs a reader of the inner
  stream and consumes what it took.\<close>

record CrcCountingReader =
  cr_inner :: bytes
  cr_bytes_read :: nat
  cr_crc :: "bytes option"

definition cr_new :: "bytes \<Rightarrow> bool \<Rightarrow> CrcCountingReader" where
  "cr_new s track_crc =
     \<lparr>cr_inner = s, cr_bytes_read = 0, cr_crc = (if track_crc then Some [] else None)\<rparr>"

definition cr_consume :: "nat \<Rightarrow> CrcCountingReader \<Rightarrow> CrcCountingReader" where
  "cr_consume amt r =
     \<lparr>cr_inner = drop amt (cr_inner r), cr_bytes_read = cr_bytes_read r + amt,
      cr_crc = map_option (\<lambda>fed. fed @ take amt (cr_inner r)) (cr_crc r)\<rparr>"

definition counted ::
  "(bytes \<Rightarrow> 'e + 'a \<times> bytes) \<Rightarrow> CrcCountingReader \<Rightarrow> 'e + 'a \<times> CrcCountingReader" where
  "counted rd r =
     and_then (rd (cr_inner r)) (\<lambda>(v, rest). Inr (v, cr_consume (length (cr_inner r) - length rest) r))"

definition cr_crc32 :: "Crates \<Rightarrow> CrcCountingReader \<Rightarrow> nat" where
  "cr_crc32 X r = (case cr_crc r of None \<Rightarrow> 0 | Some fed \<Rightarrow> x_crc X fed)"

section \<open>Reading (\<open>decode.rs\<close>)\<close>

definition magic_string :: "bytes \<Rightarrow> string" where
  "magic_string magic =
     decimal_string (unat (magic ! 0)) @ '','' @ decimal_string (unat (magic ! 1)) @ '',''
     @ decimal_string (unat (magic ! 2)) @ '','' @ decimal_string (unat (magic ! 3))"

definition check_header :: "bytes \<Rightarrow> GitError + (nat \<times> bytes) \<times> bytes" where
  "check_header pack =
     and_then (map_err (pack_error ''Error reading magic identifier: '') (read_exact 4 pack)) (\<lambda>(magic, pack).
     let header_data = magic in
     if magic \<noteq> PACK_MAGIC then Inl (GE_InvalidPackHeader (magic_string magic))
     else
       and_then (map_err (pack_error ''Error reading version number: '') (read_exact 4 pack)) (\<lambda>(version_bytes, pack).
       let header_data = header_data @ version_bytes; version = be_value version_bytes in
       if version \<noteq> 2
       then Inl (GE_InvalidPackFile (''Version Number is '' @ decimal_string version @ '', not 2''))
       else
         and_then (map_err (pack_error ''Error reading object number: '') (read_exact 4 pack)) (\<lambda>(num_bytes, pack).
           Inr ((be_value num_bytes, header_data @ num_bytes), pack))))"

text \<open>\<open>vec![0; expected_size]\<close> panics when the size exceeds \<open>isize::MAX\<close>.  \<open>read_exact\<close> fails when the
  stream ends early; the extra \<open>read\<close> sees either more output or the end of the stream.\<close>

definition decompress_data :: "Crates \<Rightarrow> nat \<Rightarrow> bytes \<Rightarrow> GitError + (bytes \<times> nat) \<times> bytes" where
  "decompress_data X expected_size pack =
     (if expected_size > 2 ^ 63 - 1 then Inl (git_panic ''capacity overflow'')
      else
        let (out, fin) = x_inflate X pack in
        if length out < expected_size
        then Inl (pack_error ''Decompression error: ''
                    (case fin of Inl e \<Rightarrow> e | Inr _ \<Rightarrow> UnexpectedEof))
        else if length out > expected_size
        then Inl (GE_InvalidPackFile (''The object size exceeds the expected size ''
                    @ decimal_string expected_size))
        else
          and_then (map_err (pack_error ''Decompression error: '') fin) (\<lambda>rest.
            Inr ((out, length pack - length rest), rest)))"

definition SKIP_INFLATE_BUFFER_SIZE :: nat where
  "SKIP_INFLATE_BUFFER_SIZE = 20 * 1024"

text \<open>One \<open>read\<close> into a buffer of \<open>n\<close> bytes: the decoder has the output still to deliver and the end of
  the stream.  It delivers at least one byte while there is one.\<close>

definition deflate_read ::
  "Crates \<Rightarrow> nat \<Rightarrow> bytes \<times> (io_error + bytes) \<Rightarrow> io_error + bytes \<times> bytes \<times> (io_error + bytes)" where
  "deflate_read X n st =
     (let (out, fin) = st in
      if n = 0 then Inr ([], st)
      else if out = [] then and_then fin (\<lambda>_. Inr ([], st))
      else let k = min n (max 1 (x_grain X out)) in Inr (take k out, drop k out, fin))"

definition size_smaller :: "nat \<Rightarrow> GitError" where
  "size_smaller expected_size =
     GE_InvalidPackFile (''The object size is smaller than the expected size '' @ decimal_string expected_size)"

function hash_inflate_loop ::
  "Crates \<Rightarrow> nat \<Rightarrow> nat \<Rightarrow> HashAlgorithm \<Rightarrow> bytes \<times> (io_error + bytes) \<Rightarrow>
   GitError + HashAlgorithm \<times> bytes \<times> (io_error + bytes)" where
  "hash_inflate_loop X expected_size remaining hasher st =
     (if remaining > 0 then
        and_then (map_err (pack_error ''Decompression error: '')
            (deflate_read X (min remaining SKIP_INFLATE_BUFFER_SIZE) st)) (\<lambda>(scratch, st).
        if scratch = [] then Inl (size_smaller expected_size)
        else hash_inflate_loop X expected_size (remaining - length scratch) (hasher_update scratch hasher) st)
      else Inr (hasher, st))"
  by pat_completeness auto
termination by (relation "measure (\<lambda>(_, _, remaining, _). remaining)") simp_all

function skip_inflate_loop ::
  "Crates \<Rightarrow> nat \<Rightarrow> nat \<Rightarrow> bytes \<times> (io_error + bytes) \<Rightarrow> GitError + bytes \<times> (io_error + bytes)" where
  "skip_inflate_loop X expected_size remaining st =
     (if remaining > 0 then
        and_then (map_err (pack_error ''Decompression error: '')
            (deflate_read X (min remaining SKIP_INFLATE_BUFFER_SIZE) st)) (\<lambda>(scratch, st).
        if scratch = [] then Inl (size_smaller expected_size)
        else skip_inflate_loop X expected_size (remaining - length scratch) st)
      else Inr st)"
  by pat_completeness auto
termination by (relation "measure (\<lambda>(_, _, remaining, _). remaining)") simp_all

declare hash_inflate_loop.simps [simp del] skip_inflate_loop.simps [simp del]

text \<open>The read of one extra byte after the expected size, and the input position it leaves.\<close>

definition expect_stream_end ::
  "Crates \<Rightarrow> nat \<Rightarrow> bytes \<times> (io_error + bytes) \<Rightarrow> GitError + bytes" where
  "expect_stream_end X expected_size st =
     and_then (map_err (pack_error ''Decompression error: '') (deflate_read X 1 st)) (\<lambda>(extra, out, fin).
       if extra \<noteq> []
       then Inl (GE_InvalidPackFile (''The object size exceeds the expected size ''
                   @ decimal_string expected_size))
       else map_err (pack_error ''Decompression error: '') fin)"

definition hash_compressed_object ::
  "Crates \<Rightarrow> ObjectType \<Rightarrow> nat \<Rightarrow> HashKind \<Rightarrow> bytes \<Rightarrow> GitError + (ObjectHash \<times> nat) \<times> bytes" where
  "hash_compressed_object X obj_type expected_size kind pack =
     and_then (ok_or (GE_InvalidObjectType (ObjectType_display obj_type
           @ '' has no loose-object header and cannot be hashed as a base object''))
         (ObjectType_to_bytes obj_type)) (\<lambda>type_bytes.
     let hasher = new_for_kind kind;
         hasher = hasher_update type_bytes hasher;
         hasher = hasher_update (ascii '' '') hasher;
         hasher = hasher_update (decimal expected_size) hasher;
         hasher = hasher_update [0] hasher in
     and_then (hash_inflate_loop X expected_size expected_size hasher (x_inflate X pack)) (\<lambda>(hasher, st).
     and_then (expect_stream_end X expected_size st) (\<lambda>rest.
       Inr ((finalize_object_hash (x_digest X) hasher, length pack - length rest), rest))))"

definition skip_compressed_data :: "Crates \<Rightarrow> nat \<Rightarrow> bytes \<Rightarrow> GitError + nat \<times> bytes" where
  "skip_compressed_data X expected_size pack =
     and_then (skip_inflate_loop X expected_size expected_size (x_inflate X pack)) (\<lambda>st.
     and_then (expect_stream_end X expected_size st) (\<lambda>rest.
       Inr (length pack - length rest, rest)))"

section \<open>Dependency counts (\<open>DecodeRetention\<close>)\<close>

record DecodeRetention =
  offset_remaining :: "nat \<rightharpoonup> nat"
  hash_remaining :: "ObjectHash \<rightharpoonup> nat"

definition DecodeRetention_default :: DecodeRetention where
  "DecodeRetention_default = \<lparr>offset_remaining = Map.empty, hash_remaining = Map.empty\<rparr>"

definition bump :: "'k \<Rightarrow> ('k \<rightharpoonup> nat) \<Rightarrow> 'k \<rightharpoonup> nat" where
  "bump k m = m(k \<mapsto> (case m k of Some count \<Rightarrow> count + 1 | None \<Rightarrow> 1))"

definition unbump :: "'k \<Rightarrow> ('k \<rightharpoonup> nat) \<Rightarrow> 'k \<rightharpoonup> nat" where
  "unbump k m =
     (case m k of
        None \<Rightarrow> m
      | Some count \<Rightarrow> if count - 1 = 0 then m(k := None) else m(k \<mapsto> count - 1))"

definition add_offset_dependency :: "nat \<Rightarrow> DecodeRetention \<Rightarrow> DecodeRetention" where
  "add_offset_dependency off r = r\<lparr>offset_remaining := bump off (offset_remaining r)\<rparr>"

definition add_hash_dependency :: "ObjectHash \<Rightarrow> DecodeRetention \<Rightarrow> DecodeRetention" where
  "add_hash_dependency h r = r\<lparr>hash_remaining := bump h (hash_remaining r)\<rparr>"

definition consume_offset_dependency :: "nat \<Rightarrow> DecodeRetention \<Rightarrow> DecodeRetention" where
  "consume_offset_dependency off r = r\<lparr>offset_remaining := unbump off (offset_remaining r)\<rparr>"

definition consume_hash_dependency :: "ObjectHash \<Rightarrow> DecodeRetention \<Rightarrow> DecodeRetention" where
  "consume_hash_dependency h r = r\<lparr>hash_remaining := unbump h (hash_remaining r)\<rparr>"

definition should_retain :: "nat \<Rightarrow> ObjectHash \<Rightarrow> DecodeRetention \<Rightarrow> bool" where
  "should_retain off h r \<longleftrightarrow> offset_remaining r off \<noteq> None \<or> hash_remaining r h \<noteq> None"

section \<open>Decoding one entry\<close>

text \<open>\<open>CacheObjectInfo\<close> and \<open>CacheObject\<close> (\<open>cache_object.rs\<close>), without the memory recorder.\<close>

datatype CacheObjectInfo =
    CI_BaseObject ObjectType ObjectHash
  | CI_OffsetDelta nat nat
  | CI_OffsetZstdelta nat nat
  | CI_HashDelta ObjectHash nat

fun info_object_type :: "CacheObjectInfo \<Rightarrow> ObjectType" where
  "info_object_type (CI_BaseObject t _) = t"
| "info_object_type (CI_OffsetDelta _ _) = OT_OffsetDelta"
| "info_object_type (CI_OffsetZstdelta _ _) = OT_OffsetZstdelta"
| "info_object_type (CI_HashDelta _ _) = OT_HashDelta"

record CacheObject =
  co_info :: CacheObjectInfo
  co_offset :: nat
  co_crc32 :: nat
  co_data :: bytes
  co_is_delta_in_pack :: bool
  co_known_hash :: "ObjectHash option"

fun base_object_hash :: "CacheObject \<Rightarrow> ObjectHash option" where
  "base_object_hash obj = (case co_info obj of CI_BaseObject _ h \<Rightarrow> Some h | _ \<Rightarrow> None)"

definition hex_char :: "nat \<Rightarrow> char" where
  "hex_char d = (if d < 10 then char_of (48 + d) else char_of (87 + d))"

fun hex_digits :: "nat \<Rightarrow> nat \<Rightarrow> string" where
  "hex_digits 0 n = []"
| "hex_digits (Suc k) n = hex_digits k (n div 16) @ [hex_char (n mod 16)]"

definition verify_known_crc :: "bool \<Rightarrow> nat \<Rightarrow> nat \<Rightarrow> nat option \<Rightarrow> GitError + unit" where
  "verify_known_crc track_crc offset computed known_crc =
     (case known_crc of
        Some expected \<Rightarrow>
          if track_crc \<and> computed \<noteq> expected
          then Inl (GE_InvalidPackFile (''Object at offset '' @ decimal_string offset @ '' has CRC32 0x''
                      @ hex_digits 8 computed @ '' but the pack index records 0x'' @ hex_digits 8 expected))
          else Inr ()
      | None \<Rightarrow> Inr ())"

definition verify_known_hash :: "Crates \<Rightarrow> nat \<Rightarrow> ObjectHash \<Rightarrow> ObjectHash option \<Rightarrow> GitError + unit" where
  "verify_known_hash X offset computed known_hash =
     (case known_hash of
        Some expected \<Rightarrow>
          if expected \<noteq> computed
          then Inl (GE_InvalidPackFile (''Object at offset '' @ decimal_string offset @ '' hashes to ''
                      @ latin (hash_to_string (x_hex X) computed)
                      @ '' ('' @ latin (HashKind_as_str (hash_kind computed))
                      @ '') but the pack index names it '' @ latin (hash_to_string (x_hex X) expected)
                      @ '' ('' @ latin (HashKind_as_str (hash_kind expected)) @ '')''))
          else Inr ()
      | None \<Rightarrow> Inr ())"

definition should_skip_no_callback_object ::
  "bool \<Rightarrow> ObjectHash option \<Rightarrow> DecodeRetention option \<Rightarrow> nat \<Rightarrow> bool" where
  "should_skip_no_callback_object skip_unneeded_objects known_hash retention offset =
     (if \<not> skip_unneeded_objects then False
      else (case (known_hash, retention) of
              (Some h, Some ret) \<Rightarrow> \<not> should_retain offset h ret
            | _ \<Rightarrow> False))"

text \<open>The options of \<open>decode_pack_object_with_crc\<close>.\<close>

record EntryOptions =
  eo_track_crc :: bool
  eo_skip_unneeded :: bool
  eo_emit_skipped :: bool
  eo_known_hash :: "ObjectHash option"
  eo_known_crc :: "nat option"
  eo_retention :: "DecodeRetention option"

text \<open>The arm of base objects that nothing depends on: the payload is streamed through the hasher.\<close>

definition skip_base_object ::
  "Crates \<Rightarrow> HashKind \<Rightarrow> EntryOptions \<Rightarrow> ObjectType \<Rightarrow> nat \<Rightarrow> nat \<Rightarrow> nat \<Rightarrow> CrcCountingReader \<Rightarrow>
   GitError + (CacheObject option \<times> nat) \<times> bytes" where
  "skip_base_object X kind opts t sz init_offset offset reader =
     and_then (case eo_known_hash opts of
         Some expected \<Rightarrow>
           and_then (counted (hash_compressed_object X t sz kind) reader) (\<lambda>((computed, raw_size), reader).
           and_then (verify_known_hash X init_offset computed (Some expected)) (\<lambda>_. Inr (raw_size, reader)))
       | None \<Rightarrow> counted (skip_compressed_data X sz) reader) (\<lambda>(raw_size, reader).
     let offset = offset + raw_size; crc32 = cr_crc32 X reader in
     and_then (verify_known_crc (eo_track_crc opts) init_offset crc32 (eo_known_crc opts)) (\<lambda>_.
     if eo_emit_skipped opts then
       and_then (ok_or (GE_InvalidPackFile ''Missing object hash for skipped callback entry'')
           (eo_known_hash opts)) (\<lambda>h.
         Inr ((Some \<lparr>co_info = CI_BaseObject t h, co_offset = init_offset, co_crc32 = crc32, co_data = [],
                     co_is_delta_in_pack = False, co_known_hash = None\<rparr>, offset), cr_inner reader))
     else Inr ((None, offset), cr_inner reader)))"

definition decode_base_object ::
  "Crates \<Rightarrow> HashKind \<Rightarrow> EntryOptions \<Rightarrow> ObjectType \<Rightarrow> nat \<Rightarrow> nat \<Rightarrow> nat \<Rightarrow> CrcCountingReader \<Rightarrow>
   GitError + (CacheObject option \<times> nat) \<times> bytes" where
  "decode_base_object X kind opts t sz init_offset offset reader =
     and_then (counted (decompress_data X sz) reader) (\<lambda>((data, raw_size), reader).
     let offset = offset + raw_size; crc32 = cr_crc32 X reader in
     and_then (verify_known_crc (eo_track_crc opts) init_offset crc32 (eo_known_crc opts)) (\<lambda>_.
     and_then (map_err GitError_of_hash (calculate_object_hash_for_kind (x_digest X) kind t data)) (\<lambda>h.
     and_then (verify_known_hash X init_offset h (eo_known_hash opts)) (\<lambda>_.
       Inr ((Some \<lparr>co_info = CI_BaseObject t h, co_offset = init_offset, co_crc32 = crc32, co_data = data,
                   co_is_delta_in_pack = False, co_known_hash = None\<rparr>, offset), cr_inner reader)))))"

text \<open>What the two delta arms share after they have read the base reference.\<close>

definition decode_delta_payload ::
  "Crates \<Rightarrow> EntryOptions \<Rightarrow> (nat \<Rightarrow> CacheObjectInfo) \<Rightarrow> nat \<Rightarrow> nat \<Rightarrow> nat \<Rightarrow> CrcCountingReader \<Rightarrow>
   GitError + (CacheObject option \<times> nat) \<times> bytes" where
  "decode_delta_payload X opts info sz init_offset offset reader =
     and_then (counted (decompress_data X sz) reader) (\<lambda>((data, raw_size), reader).
     let offset = offset + raw_size in
     and_then (map_err GE_IOError (read_delta_object_size data)) (\<lambda>((_, final_size), _).
     let crc32 = cr_crc32 X reader in
     and_then (verify_known_crc (eo_track_crc opts) init_offset crc32 (eo_known_crc opts)) (\<lambda>_.
       Inr ((Some \<lparr>co_info = info final_size, co_offset = init_offset, co_crc32 = crc32, co_data = data,
                   co_is_delta_in_pack = True, co_known_hash = eo_known_hash opts\<rparr>, offset),
            cr_inner reader))))"

definition invalid_delta_offset :: GitError where
  "invalid_delta_offset = GE_InvalidObjectInfo ''Invalid OffsetDelta offset''"

definition decode_pack_object_with_crc ::
  "Crates \<Rightarrow> HashKind \<Rightarrow> EntryOptions \<Rightarrow> nat \<Rightarrow> bytes \<Rightarrow>
   GitError + (CacheObject option \<times> nat) \<times> bytes" where
  "decode_pack_object_with_crc X kind opts init_offset pack =
     (let reader = cr_new pack (eo_track_crc opts) in
      and_then (map_err (pack_error ''Read error: '')
          (counted (\<lambda>s. read_type_and_varint_size s init_offset) reader))
        (\<lambda>((type_bits, sz, offset), reader).
      and_then (from_pack_type_u8 type_bits) (\<lambda>t.
      if t \<in> {OT_Commit, OT_Tree, OT_Blob, OT_Tag} then
        if should_skip_no_callback_object (eo_skip_unneeded opts) (eo_known_hash opts)
             (eo_retention opts) init_offset
        then skip_base_object X kind opts t sz init_offset offset reader
        else decode_base_object X kind opts t sz init_offset offset reader
      else if t = OT_OffsetDelta \<or> t = OT_OffsetZstdelta then
        and_then (map_err (pack_error ''Read offset-delta base error: '')
            (counted read_offset_encoding reader)) (\<lambda>((delta_offset, n), reader).
        let offset = offset + n in
        if init_offset < delta_offset then Inl invalid_delta_offset
        else
          let base_offset = init_offset - delta_offset;
              info = (if t = OT_OffsetDelta then CI_OffsetDelta base_offset
                      else CI_OffsetZstdelta base_offset) in
          decode_delta_payload X opts info sz init_offset offset reader)
      else if t = OT_HashDelta then
        and_then (map_err (\<lambda>e. GE_InvalidPackFile (''Read hash-delta base hash error: '' @ HashError_display e))
            (counted (from_stream_for_kind kind) reader)) (\<lambda>(ref_sha, reader).
          decode_delta_payload X opts (CI_HashDelta ref_sha) sz init_offset (offset + hash_size kind) reader)
      else Inl (GE_InvalidPackFile (''AI object type `'' @ ObjectType_display t
             @ ''` cannot appear in a pack file'')))))"

definition decode_pack_object_with_kind ::
  "Crates \<Rightarrow> HashKind \<Rightarrow> nat \<Rightarrow> bytes \<Rightarrow> GitError + (CacheObject option \<times> nat) \<times> bytes" where
  "decode_pack_object_with_kind X kind offset pack =
     decode_pack_object_with_crc X kind
       \<lparr>eo_track_crc = True, eo_skip_unneeded = False, eo_emit_skipped = False, eo_known_hash = None,
        eo_known_crc = None, eo_retention = None\<rparr> offset pack"

section \<open>Rebuilding deltas\<close>

fun delta_error_string :: "GitDeltaError \<Rightarrow> string" where
  "delta_error_string (DeltaEncoderError m) = ''Delta encoder error: '' @ m"
| "delta_error_string (DeltaDecoderError m) = ''Delta decoder error: '' @ m"

text \<open>What both rebuild functions do with the rebuilt bytes.\<close>

definition finish_rebuild ::
  "Crates \<Rightarrow> CacheObject \<Rightarrow> CacheObject \<Rightarrow> ObjectHash option \<Rightarrow> bytes \<Rightarrow> GitError + CacheObject" where
  "finish_rebuild X delta_obj base_obj known_hash result =
     and_then (ok_or (GE_DeltaObjectError ''delta base is not a resolved base object'')
         (base_object_hash base_obj)) (\<lambda>base_h.
     let kind = hash_kind base_h; t = info_object_type (co_info base_obj) in
     and_then (map_err GitError_of_hash (calculate_object_hash_for_kind (x_digest X) kind t result)) (\<lambda>h.
     and_then (verify_known_hash X (co_offset delta_obj) h known_hash) (\<lambda>_.
       Inr \<lparr>co_info = CI_BaseObject t h, co_offset = co_offset delta_obj, co_crc32 = co_crc32 delta_obj,
            co_data = result, co_is_delta_in_pack = co_is_delta_in_pack delta_obj, co_known_hash = None\<rparr>)))"

definition rebuild_delta_with_hash ::
  "Crates \<Rightarrow> CacheObject \<Rightarrow> CacheObject \<Rightarrow> ObjectHash option \<Rightarrow> GitError + CacheObject" where
  "rebuild_delta_with_hash X delta_obj base_obj known_hash =
     and_then (map_err (\<lambda>e. GE_DeltaObjectError (delta_error_string e))
         (delta_decode (co_data delta_obj) (co_data base_obj)))
       (finish_rebuild X delta_obj base_obj known_hash)"

definition rebuild_zstdelta_with_hash ::
  "Crates \<Rightarrow> CacheObject \<Rightarrow> CacheObject \<Rightarrow> ObjectHash option \<Rightarrow> GitError + CacheObject" where
  "rebuild_zstdelta_with_hash X delta_obj base_obj known_hash =
     and_then (map_err (\<lambda>e. GE_DeltaObjectError (''Failed to apply zstdelta: '' @ e))
         (x_zapply X (co_data base_obj) (co_data delta_obj)))
       (finish_rebuild X delta_obj base_obj known_hash)"

end
