(* ===== verification/Pack_Entry_Proofs.thy ===== *)
theory Pack_Entry_Proofs
  imports Pack_Entry Pack_Index_Proofs
begin

text \<open>
  What the reader of pack entries does with a byte stream: exact specifications of the inflating
  readers, of the counting reader and of the header check, the round trip of an entry through
  \<open>encode_one_object\<close> and \<open>decode_pack_object_with_kind\<close>, and the equivalence of the skipping decoder
  with the full one.
\<close>

section \<open>Inflating readers\<close>

lemma decompress_data_iff:
  "decompress_data X n s = Inr ((d, k), r) \<longleftrightarrow>
   n < 2 ^ 63 \<and> length d = n \<and> x_inflate X s = (d, Inr r) \<and> k = length s - length r"
  by (cases "x_inflate X s"; cases "snd (x_inflate X s)") (auto simp: decompress_data_def)

lemma deflate_read_step:
  assumes "0 < n" "out \<noteq> []"
  obtains k where "0 < k" "k \<le> n" "deflate_read X n (out, fin) = Inr (take k out, drop k out, fin)"
    "take k out \<noteq> []" "length (take k out) = min k (length out)"
  by (rule that[of "min n (max 1 (x_grain X out))"]) (use assms in \<open>auto simp: deflate_read_def Let_def\<close>)

lemma hash_inflate_loop_eq:
  "hash_inflate_loop X e n hasher (out, fin) =
   (if n \<le> length out then Inr (hasher_update (take n out) hasher, drop n out, fin)
    else Inl (case fin of Inl err \<Rightarrow> pack_error ''Decompression error: '' err | Inr _ \<Rightarrow> size_smaller e))"
proof (induction n arbitrary: hasher out rule: less_induct)
  case (less n)
  show ?case
  proof (cases "n = 0 \<or> out = []")
    case True
    then show ?thesis
      by (subst hash_inflate_loop.simps)
        (auto simp: deflate_read_def hasher_update_def SKIP_INFLATE_BUFFER_SIZE_def split: sum.split)
  next
    case False
    then have "0 < min n SKIP_INFLATE_BUFFER_SIZE" by (simp add: SKIP_INFLATE_BUFFER_SIZE_def)
    then obtain k where k: "0 < k" "k \<le> min n SKIP_INFLATE_BUFFER_SIZE"
        "deflate_read X (min n SKIP_INFLATE_BUFFER_SIZE) (out, fin) = Inr (take k out, drop k out, fin)"
        "take k out \<noteq> []" "length (take k out) = min k (length out)"
      using False deflate_read_step[of "min n SKIP_INFLATE_BUFFER_SIZE" out X fin] by metis
    have "k \<le> n" using k(2) by simp
    let ?m = "n - length (take k out)"
    have "?m < n" using k False by simp
    then have ih: "hash_inflate_loop X e ?m (hasher_update (take k out) hasher) (drop k out, fin) =
       (if ?m \<le> length (drop k out)
        then Inr (hasher_update (take ?m (drop k out)) (hasher_update (take k out) hasher),
               drop ?m (drop k out), fin)
        else Inl (case fin of Inl err \<Rightarrow> pack_error ''Decompression error: '' err | Inr _ \<Rightarrow> size_smaller e))"
      by (rule less)
    have split: "?m \<le> length (drop k out) \<longleftrightarrow> n \<le> length out"
      using \<open>k \<le> n\<close> k(1) by (cases "k \<le> length out") auto
    have cut: "take k out @ take ?m (drop k out) = take n out" "drop ?m (drop k out) = drop n out"
      if "n \<le> length out"
      using that \<open>k \<le> n\<close> by (simp_all add: take_add[symmetric])
    show ?thesis
      using False k(3,4) ih split cut
      by (subst hash_inflate_loop.simps) (simp add: hasher_update_def)
  qed
qed

lemma skip_inflate_loop_eq:
  "skip_inflate_loop X e n st = and_then (hash_inflate_loop X e n hasher st) (\<lambda>(_, st). Inr st)"
proof (induction n arbitrary: hasher st rule: less_induct)
  case (less n)
  then have "0 < n \<Longrightarrow> a \<noteq> [] \<Longrightarrow> skip_inflate_loop X e (n - length a) st' =
      and_then (hash_inflate_loop X e (n - length a) (hasher_update a hasher) st') (\<lambda>(_, st). Inr st)"
    for a st' by simp
  then show ?case
    by (subst skip_inflate_loop.simps, subst hash_inflate_loop.simps)
      (auto simp: and_then_def map_err_def split: sum.splits)
qed

lemma expect_stream_end_iff:
  "expect_stream_end X e (out, fin) = Inr r \<longleftrightarrow> out = [] \<and> fin = Inr r"
  by (cases fin) (auto simp: expect_stream_end_def deflate_read_def Let_def)

lemma expect_stream_end_Inr [simp]: "expect_stream_end X e ([], Inr r) = Inr r"
  by (simp add: expect_stream_end_iff)

lemma hash_compressed_object_iff:
  "hash_compressed_object X t n kind s = Inr ((h, k), r) \<longleftrightarrow>
   (\<exists>d tb. ObjectType_to_bytes t = Some tb \<and> length d = n \<and> x_inflate X s = (d, Inr r) \<and>
      k = length s - length r \<and> h = hash_of kind (x_digest X kind (loose_object tb d)))"
  by (cases "x_inflate X s"; cases "ObjectType_to_bytes t")
    (auto simp: hash_compressed_object_def Let_def hash_inflate_loop_eq expect_stream_end_iff
      finalize_object_hash_def hasher_finalize_def loose_object_def and_then_def split: sum.splits if_splits)

lemma skip_compressed_data_iff:
  "skip_compressed_data X n s = Inr (k, r) \<longleftrightarrow>
   (\<exists>d. length d = n \<and> x_inflate X s = (d, Inr r) \<and> k = length s - length r)"
  by (cases "x_inflate X s")
    (auto simp: skip_compressed_data_def skip_inflate_loop_eq[where hasher = "new_for_kind KSha1"]
      hash_inflate_loop_eq expect_stream_end_iff and_then_def split: sum.splits if_splits)

lemma calculate_object_hash_iff:
  "calculate_object_hash_for_kind digest kind t d = Inr h \<longleftrightarrow>
   (\<exists>tb. ObjectType_to_bytes t = Some tb \<and> h = hash_of kind (digest kind (loose_object tb d)))"
  by (auto simp: calculate_object_hash_for_kind_def hash_loose_object_eq split: option.splits)
    (cases "ObjectType_to_bytes t"; simp)+


section \<open>The counting reader\<close>

text \<open>The reader after it has read \<open>fed\<close>, with \<open>s\<close> unread.\<close>

definition cr_at :: "bool \<Rightarrow> bytes \<Rightarrow> bytes \<Rightarrow> CrcCountingReader" where
  "cr_at track fed s =
     \<lparr>cr_inner = s, cr_bytes_read = length fed, cr_crc = (if track then Some fed else None)\<rparr>"

lemma cr_new_at: "cr_new s track = cr_at track [] s"
  by (simp add: cr_new_def cr_at_def)

lemma cr_at_simps [simp]:
  "cr_inner (cr_at track fed s) = s"
  "cr_crc32 X (cr_at track fed s) = (if track then x_crc X fed else 0)"
  by (simp_all add: cr_at_def cr_crc32_def)

lemma counted_at:
  "f (p @ r) = Inr (v, r) \<Longrightarrow> counted f (cr_at track fed (p @ r)) = Inr (v, cr_at track (fed @ p) r)"
  by (simp add: counted_def cr_at_def cr_consume_def)

lemma counted_iff:
  "counted f c = Inr (v, c') \<longleftrightarrow>
   (\<exists>r. f (cr_inner c) = Inr (v, r) \<and> c' = cr_consume (length (cr_inner c) - length r) c)"
  by (auto simp: counted_def and_then_def split: sum.splits)

lemma counted_hash_compressed:
  "n < 2 ^ 63 \<Longrightarrow>
   counted (hash_compressed_object X t n kind) c = Inr ((h, k), c') \<longleftrightarrow>
   (\<exists>d. counted (decompress_data X n) c = Inr ((d, k), c') \<and>
      calculate_object_hash_for_kind (x_digest X) kind t d = Inr h)"
  by (auto simp: counted_iff hash_compressed_object_iff decompress_data_iff calculate_object_hash_iff) 

section \<open>Checks against the index\<close>

lemma verify_known_crc_iff [simp]:
  "verify_known_crc track off c known = Inr u \<longleftrightarrow> (track \<longrightarrow> known = None \<or> known = Some c)"
  by (auto simp: verify_known_crc_def split: option.splits)

lemma verify_known_hash_iff [simp]:
  "verify_known_hash X off h known = Inr u \<longleftrightarrow> known = None \<or> known = Some h"
  by (auto simp: verify_known_hash_def split: option.splits)

lemma decode_base_object_iff:
  "decode_base_object X kind opts t n init off c = Inr ((res, off'), r) \<longleftrightarrow>
   (\<exists>d k c' h. counted (decompress_data X n) c = Inr ((d, k), c') \<and>
      (eo_track_crc opts \<longrightarrow> eo_known_crc opts \<in> {None, Some (cr_crc32 X c')}) \<and>
      calculate_object_hash_for_kind (x_digest X) kind t d = Inr h \<and>
      eo_known_hash opts \<in> {None, Some h} \<and> off' = off + k \<and> r = cr_inner c' \<and>
      res = Some \<lparr>co_info = CI_BaseObject t h, co_offset = init, co_crc32 = cr_crc32 X c', co_data = d,
                  co_is_delta_in_pack = False, co_known_hash = None\<rparr>)"
  by (auto simp: decode_base_object_def Let_def and_then_eq_Inr_iff map_err_eq_Inr_iff; blast)

lemma skip_base_object_iff:
  assumes "n < 2 ^ 63" "eo_known_hash opts = Some e"
  shows "skip_base_object X kind opts t n init off c = Inr ((res, off'), r) \<longleftrightarrow>
   (\<exists>obj. decode_base_object X kind opts t n init off c = Inr ((Some obj, off'), r) \<and>
      res = (if eo_emit_skipped opts then Some (obj\<lparr>co_data := []\<rparr>) else None))"
  using assms(2)
  by (auto simp: skip_base_object_def decode_base_object_iff counted_hash_compressed[OF assms(1)] Let_def
      and_then_eq_Inr_iff) 


lemma decode_delta_payload_delta:
  "decode_delta_payload X opts info n init off c = Inr ((res, off'), r) \<Longrightarrow>
   \<exists>obj. res = Some obj \<and> co_is_delta_in_pack obj"
  by (auto simp: decode_delta_payload_def Let_def and_then_eq_Inr_iff)

lemma decode_delta_payload_cong:
  "decode_delta_payload X (opts\<lparr>eo_skip_unneeded := b\<rparr>) = decode_delta_payload X opts"
  by (intro ext) (simp add: decode_delta_payload_def Let_def)

lemma decode_base_object_cong:
  "decode_base_object X kind (opts\<lparr>eo_skip_unneeded := b\<rparr>) = decode_base_object X kind opts"
  by (intro ext) (simp add: decode_base_object_def Let_def)

lemma skip_base_object_cong:
  "skip_base_object X kind (opts\<lparr>eo_skip_unneeded := b\<rparr>) = skip_base_object X kind opts"
  by (intro ext) (simp add: skip_base_object_def Let_def cong: if_cong)

lemmas entry_option_congs = decode_delta_payload_cong decode_base_object_cong skip_base_object_cong

section \<open>Writing and reading back\<close>

lemma PACK_MAGIC_length [simp]: "length PACK_MAGIC = 4"
  by (simp add: PACK_MAGIC_def)

lemma be_bytes_two: "be_bytes 4 2 = [0, 0, 0, 2]"
  by (simp add: be_bytes_4)

lemma be_value_eq_iff: "length bs = 4 \<Longrightarrow> be_value bs = n \<longleftrightarrow> n < 2 ^ 32 \<and> bs = be_bytes 4 n"
  using be_value_less[of bs] be_bytes_value[of bs] by auto

lemma check_header_iff:
  "check_header s = Inr ((n, hdr), r) \<longleftrightarrow>
   n < 2 ^ 32 \<and> hdr = PACK_MAGIC @ [0, 0, 0, 2] @ be_bytes 4 n \<and> s = hdr @ r"
proof
  assume "check_header s = Inr ((n, hdr), r)"
  then obtain v nb where "s = PACK_MAGIC @ v @ nb @ r" "length v = 4" "be_value v = 2" "length nb = 4"
      "be_value nb = n" "hdr = PACK_MAGIC @ v @ nb"
    by (auto simp: check_header_def Let_def and_then_eq_Inr_iff read_exact_eq_Inr_iff split: if_splits)
  then show "n < 2 ^ 32 \<and> hdr = PACK_MAGIC @ [0, 0, 0, 2] @ be_bytes 4 n \<and> s = hdr @ r"
    by (auto simp: be_value_eq_iff be_bytes_two)
next
  assume "n < 2 ^ 32 \<and> hdr = PACK_MAGIC @ [0, 0, 0, 2] @ be_bytes 4 n \<and> s = hdr @ r"
  then have n: "n < 2 ^ 32" and h: "hdr = PACK_MAGIC @ be_bytes 4 2 @ be_bytes 4 n" "s = hdr @ r"
    by (simp_all add: be_bytes_two)
  have rd: "read_exact 4 (PACK_MAGIC @ t) = Inr (PACK_MAGIC, t)" "read_exact 4 (be_bytes 4 m @ t) = Inr (be_bytes 4 m, t)"
    for m t by (simp_all add: read_exact_append')
  show "check_header s = Inr ((n, hdr), r)"
    using n by (simp add: h check_header_def rd)
qed

lemma from_pack_base:
  assumes "to_pack_type_u8 t = Inr n"
  shows "from_pack_type_u8 n = Inr t" "n < 8"
  using assms from_pack_to_pack to_pack_type_bounds by blast+

lemma counted_entry_header:
  assumes "to_pack_type_u8 t = Inr tn" "n < 2 ^ 63"
  shows "counted (\<lambda>s. read_type_and_varint_size s off) (cr_new (entry_header tn n @ s) track) =
     Inr ((tn, n, off + length (entry_header tn n)), cr_at track (entry_header tn n) s)"
  using counted_at[of "\<lambda>s. read_type_and_varint_size s off", OF
      read_type_and_varint_size_entry_header[OF from_pack_base(2)[OF assms(1)]], of n track "[]" s] assms(2)
  by (simp add: cr_new_at)

lemma counted_deflated:
  assumes "zlib_ok X" "length d < 2 ^ 63"
  shows "counted (decompress_data X (length d)) (cr_at track fed (x_deflate X d @ s)) =
     Inr ((d, length (x_deflate X d)), cr_at track (fed @ x_deflate X d) s)"
  using assms by (intro counted_at) (simp add: decompress_data_iff zlib_ok_def)

lemma decode_encoded_base:
  assumes "zlib_ok X" "en_obj_type e \<in> {OT_Commit, OT_Tree, OT_Blob, OT_Tag}" "length (en_data e) < 2 ^ 63"
  shows "\<exists>bs h. encode_one_object X e dist = Inr bs \<and>
    calculate_object_hash_for_kind (x_digest X) kind (en_obj_type e) (en_data e) = Inr h \<and>
    (\<forall>s. decode_pack_object_with_kind X kind off (bs @ s) =
      Inr ((Some \<lparr>co_info = CI_BaseObject (en_obj_type e) h, co_offset = off, co_crc32 = x_crc X bs,
                  co_data = en_data e, co_is_delta_in_pack = False, co_known_hash = None\<rparr>,
            off + length bs), s))"
proof -
  obtain tn where tn: "to_pack_type_u8 (en_obj_type e) = Inr tn"
    using assms(2) by (auto simp: to_pack_type_u8_def)
  obtain h where h: "calculate_object_hash_for_kind (x_digest X) kind (en_obj_type e) (en_data e) = Inr h"
    using assms(2) by (auto simp: calculate_object_hash_for_kind_def)
  define bs where "bs = entry_header tn (length (en_data e)) @ x_deflate X (en_data e)"
  have bs: "encode_one_object X e dist = Inr bs"
    using assms(2) tn by (auto simp: bs_def encode_one_object_def entry_offset_bytes_def Let_def)
  have "decode_pack_object_with_kind X kind off (bs @ s) =
      Inr ((Some \<lparr>co_info = CI_BaseObject (en_obj_type e) h, co_offset = off, co_crc32 = x_crc X bs,
                  co_data = en_data e, co_is_delta_in_pack = False, co_known_hash = None\<rparr>,
            off + length bs), s)" for s
    using assms(2) h counted_entry_header[OF tn assms(3)] counted_deflated[OF assms(1,3)]
    by (simp add: bs_def decode_pack_object_with_kind_def decode_pack_object_with_crc_def
        from_pack_base(1)[OF tn] should_skip_no_callback_object_def decode_base_object_def
        verify_known_crc_def verify_known_hash_def)
  with bs h show ?thesis by blast
qed

definition offset_info :: "ObjectType \<Rightarrow> nat \<Rightarrow> nat \<Rightarrow> CacheObjectInfo" where
  "offset_info t = (if t = OT_OffsetDelta then CI_OffsetDelta else CI_OffsetZstdelta)"

lemma decode_encoded_delta:
  assumes "zlib_ok X" "en_obj_type e \<in> {OT_OffsetDelta, OT_OffsetZstdelta}" "length (en_data e) < 2 ^ 63"
    "0 < dist" "dist \<le> off" "off < 2 ^ 64" "read_delta_object_size (en_data e) = Inr ((base_size, result_size), rest)"
  shows "\<exists>bs. encode_one_object X e (Some dist) = Inr bs \<and>
    (\<forall>s. decode_pack_object_with_kind X kind off (bs @ s) =
      Inr ((Some \<lparr>co_info = offset_info (en_obj_type e) (off - dist) result_size, co_offset = off,
                  co_crc32 = x_crc X bs, co_data = en_data e, co_is_delta_in_pack = True, co_known_hash = None\<rparr>,
            off + length bs), s))"
proof -
  have "dist < 2 ^ 64" using assms(5,6) by simp
  then obtain ob where ob: "encode_offset dist = Inr ob"
      "\<And>s. read_offset_encoding (ob @ s) = Inr ((dist, length ob), s)"
    using read_offset_encoding_encode_offset[OF assms(4)] by blast
  have rd_off: "counted read_offset_encoding (cr_at track fed (ob @ s)) =
      Inr ((dist, length ob), cr_at track (fed @ ob) s)" for track fed s
    by (rule counted_at, rule ob(2))
  obtain tn where tn: "to_pack_type_u8 (en_obj_type e) = Inr tn"
    using assms(2) by (auto simp: to_pack_type_u8_def)
  define bs where "bs = entry_header tn (length (en_data e)) @ ob @ x_deflate X (en_data e)"
  have bs: "encode_one_object X e (Some dist) = Inr bs"
    using assms(2) tn ob(1) by (auto simp: bs_def encode_one_object_def entry_offset_bytes_def Let_def)
  have "decode_pack_object_with_kind X kind off (bs @ s) =
      Inr ((Some \<lparr>co_info = offset_info (en_obj_type e) (off - dist) result_size, co_offset = off,
                  co_crc32 = x_crc X bs, co_data = en_data e, co_is_delta_in_pack = True, co_known_hash = None\<rparr>,
            off + length bs), s)" for s
    using assms(2,5,7) counted_entry_header[OF tn assms(3)] counted_deflated[OF assms(1,3)] rd_off
    by (auto simp add: bs_def decode_pack_object_with_kind_def decode_pack_object_with_crc_def
        from_pack_base(1)[OF tn] decode_delta_payload_def offset_info_def verify_known_crc_def)
  with bs show ?thesis by blast
qed

lemma decode_skip_iff:
  assumes "\<And>tn n o' r. read_type_and_varint_size s off = Inr ((tn, n, o'), r) \<Longrightarrow> n < 2 ^ 63"
  shows "decode_pack_object_with_crc X kind (opts\<lparr>eo_skip_unneeded := True\<rparr>) off s = Inr ((res, off'), r) \<longleftrightarrow>
    (\<exists>obj. decode_pack_object_with_crc X kind (opts\<lparr>eo_skip_unneeded := False\<rparr>) off s = Inr ((Some obj, off'), r) \<and>
      res = (if should_skip_no_callback_object True (eo_known_hash opts) (eo_retention opts) off
               \<and> \<not> co_is_delta_in_pack obj
             then (if eo_emit_skipped opts then Some (obj\<lparr>co_data := []\<rparr>) else None)
             else Some obj))"
    (is "?L \<longleftrightarrow> ?R")
proof (cases "counted (\<lambda>s. read_type_and_varint_size s off) (cr_new s (eo_track_crc opts))")
  case (Inl err)
  then show ?thesis by (simp add: decode_pack_object_with_crc_def)
next
  case (Inr hdr)
  then obtain tn n o' c where hdr: "counted (\<lambda>s. read_type_and_varint_size s off) (cr_new s (eo_track_crc opts)) =
      Inr ((tn, n, o'), c)" by (metis prod.exhaust)
  then have n: "n < 2 ^ 63" using assms by (auto simp: counted_iff cr_new_def)
  show ?thesis
  proof (cases "from_pack_type_u8 tn")
    case (Inl err)
    with hdr show ?thesis by (simp add: decode_pack_object_with_crc_def)
  next
    case t: (Inr t)
    show ?thesis
    proof (cases "t \<in> {OT_Commit, OT_Tree, OT_Blob, OT_Tag}")
      case True
      let ?skip = "should_skip_no_callback_object True (eo_known_hash opts) (eo_retention opts) off"
      have full: "decode_pack_object_with_crc X kind (opts\<lparr>eo_skip_unneeded := False\<rparr>) off s =
          decode_base_object X kind opts t n off o' c"
        using hdr t True
        by (simp add: decode_pack_object_with_crc_def entry_option_congs should_skip_no_callback_object_def)
      have skip: "decode_pack_object_with_crc X kind (opts\<lparr>eo_skip_unneeded := True\<rparr>) off s =
          (if ?skip then skip_base_object X kind opts t n off o' c
           else decode_base_object X kind opts t n off o' c)"
        using hdr t True by (simp add: decode_pack_object_with_crc_def entry_option_congs)
      have known: "?skip \<Longrightarrow> \<exists>e. eo_known_hash opts = Some e"
        by (auto simp: should_skip_no_callback_object_def split: option.splits)
      have base: "\<exists>obj. res' = Some obj \<and> \<not> co_is_delta_in_pack obj"
        if "decode_base_object X kind opts t n off o' c = Inr ((res', off'), r)" for res'
        using that by (auto simp: decode_base_object_iff)
      show ?thesis
      proof (cases ?skip)
        case True
        then obtain e where "eo_known_hash opts = Some e" using known by blast
        then show ?thesis unfolding full skip using True base by (auto simp: skip_base_object_iff[OF n])
      next
        case False
        then show ?thesis unfolding full skip using base by auto
      qed
    next
      case False
      have "\<exists>obj. res' = Some obj \<and> co_is_delta_in_pack obj"
        if "decode_pack_object_with_crc X kind (opts\<lparr>eo_skip_unneeded := False\<rparr>) off s = Inr ((res', off'), r)" for res'
        using that hdr t False
        by (auto simp: decode_pack_object_with_crc_def entry_option_congs and_then_eq_Inr_iff Let_def
            split: if_splits dest: decode_delta_payload_delta)
      moreover have "decode_pack_object_with_crc X kind (opts\<lparr>eo_skip_unneeded := True\<rparr>) off s =
          decode_pack_object_with_crc X kind (opts\<lparr>eo_skip_unneeded := False\<rparr>) off s"
        using hdr t False by (auto simp: decode_pack_object_with_crc_def entry_option_congs Let_def cong: if_cong)
      ultimately show ?thesis by auto
    qed
  qed
qed

lemma encode_one_object_ok_iff:
  "is_ok (encode_one_object X e offset) \<longleftrightarrow> en_obj_type e \<in> {OT_Commit, OT_Tree, OT_Blob, OT_Tag} \<or>
     en_obj_type e \<in> {OT_OffsetDelta, OT_OffsetZstdelta} \<and> (\<exists>d > 0. offset = Some d)"
  by (cases "en_obj_type e"; cases offset)
    (auto simp: encode_one_object_def entry_offset_bytes_def to_pack_type_u8_def encode_offset_def Let_def)

section \<open>Properties\<close>

text \<open>the pack header.  The header written for \<open>n\<close> objects is read back as \<open>n\<close>, with the
  twelve bytes the checksum starts from, whenever \<open>n\<close> is a positive 32-bit number; the writer panics on
  every other count.  The reader accepts nothing but a version 2 header.\<close>

theorem pack_header_roundtrip:
  "if 0 < n \<and> n \<le> u32_max
   then \<exists>hdr. encode_header n = Inr hdr \<and> length hdr = 12 \<and>
     (\<forall>s m h r. check_header (hdr @ s) = Inr ((n, hdr), s) \<and>
        (check_header s = Inr ((n, h), r) \<longleftrightarrow> h = hdr \<and> s = hdr @ r))
   else \<exists>msg. encode_header n = Inl (GE_IOError (Panic msg))"
  by (auto simp: encode_header_def git_panic_def check_header_iff)

text \<open>C20: pack entries round trip.  \<open>encode_one_object\<close> writes an entry exactly for a commit, tree, blob or tag, and
  for an offset delta or a zstd offset delta with a nonzero distance to its base.  What it writes for a
  base object is decoded to an object of the same type and content, named by the canonical id of the
  repository's kind; what it writes for a delta of either kind at distance \<open>dist\<close> is decoded to a delta of that
  kind on the object that starts \<open>dist\<close> bytes before it, with the same data and the result size that the
  data declares (a zstd delta whose data cannot be read as a git delta header is a finding).  In all
  cases the decoder consumes exactly the written bytes, wherever in the pack they stand, and their CRC is
  the recorded one.\<close>

theorem pack_entry_roundtrip:
  assumes "zlib_ok X" "length (en_data e) < 2 ^ 63" "off < 2 ^ 64"
  shows "(is_ok (encode_one_object X e offset) \<longleftrightarrow> en_obj_type e \<in> {OT_Commit, OT_Tree, OT_Blob, OT_Tag} \<or>
      en_obj_type e \<in> {OT_OffsetDelta, OT_OffsetZstdelta} \<and> (\<exists>d > 0. offset = Some d)) \<and>
    (en_obj_type e \<in> {OT_Commit, OT_Tree, OT_Blob, OT_Tag} \<longrightarrow>
     (\<exists>bs h. encode_one_object X e offset = Inr bs \<and>
       calculate_object_hash_for_kind (x_digest X) kind (en_obj_type e) (en_data e) = Inr h \<and>
       (\<forall>s. decode_pack_object_with_kind X kind off (bs @ s) =
         Inr ((Some \<lparr>co_info = CI_BaseObject (en_obj_type e) h, co_offset = off, co_crc32 = x_crc X bs,
                     co_data = en_data e, co_is_delta_in_pack = False, co_known_hash = None\<rparr>,
               off + length bs), s)))) \<and>
    (\<forall>base_size result_size rest.
     en_obj_type e \<in> {OT_OffsetDelta, OT_OffsetZstdelta} \<and> 0 < dist \<and> dist \<le> off \<and>
     read_delta_object_size (en_data e) = Inr ((base_size, result_size), rest) \<longrightarrow>
     (\<exists>bs. encode_one_object X e (Some dist) = Inr bs \<and>
       (\<forall>s. decode_pack_object_with_kind X kind off (bs @ s) =
         Inr ((Some \<lparr>co_info = (if en_obj_type e = OT_OffsetDelta then CI_OffsetDelta (off - dist) result_size
                       else CI_OffsetZstdelta (off - dist) result_size), co_offset = off,
                     co_crc32 = x_crc X bs, co_data = en_data e, co_is_delta_in_pack = True,
                     co_known_hash = None\<rparr>,
               off + length bs), s))))"
proof (intro conjI allI impI)
  show "is_ok (encode_one_object X e offset) \<longleftrightarrow> en_obj_type e \<in> {OT_Commit, OT_Tree, OT_Blob, OT_Tag} \<or>
      en_obj_type e \<in> {OT_OffsetDelta, OT_OffsetZstdelta} \<and> (\<exists>d > 0. offset = Some d)"
    by (rule encode_one_object_ok_iff)
next
  assume base: "en_obj_type e \<in> {OT_Commit, OT_Tree, OT_Blob, OT_Tag}"
  then have "encode_one_object X e offset = encode_one_object X e None"
    by (auto simp: encode_one_object_def entry_offset_bytes_def)
  then show "\<exists>bs h. encode_one_object X e offset = Inr bs \<and>
       calculate_object_hash_for_kind (x_digest X) kind (en_obj_type e) (en_data e) = Inr h \<and>
       (\<forall>s. decode_pack_object_with_kind X kind off (bs @ s) =
         Inr ((Some \<lparr>co_info = CI_BaseObject (en_obj_type e) h, co_offset = off, co_crc32 = x_crc X bs,
                     co_data = en_data e, co_is_delta_in_pack = False, co_known_hash = None\<rparr>,
               off + length bs), s))"
    using decode_encoded_base[OF assms(1) _ assms(2)] base by metis
next
  fix base_size result_size rest
  assume "en_obj_type e \<in> {OT_OffsetDelta, OT_OffsetZstdelta} \<and> 0 < dist \<and> dist \<le> off \<and>
     read_delta_object_size (en_data e) = Inr ((base_size, result_size), rest)"
  then show "\<exists>bs. encode_one_object X e (Some dist) = Inr bs \<and>
       (\<forall>s. decode_pack_object_with_kind X kind off (bs @ s) =
         Inr ((Some \<lparr>co_info = (if en_obj_type e = OT_OffsetDelta then CI_OffsetDelta (off - dist) result_size
                       else CI_OffsetZstdelta (off - dist) result_size), co_offset = off,
                     co_crc32 = x_crc X bs, co_data = en_data e, co_is_delta_in_pack = True,
                     co_known_hash = None\<rparr>,
               off + length bs), s))"
    using decode_encoded_delta[of X e dist off base_size result_size rest kind] assms
    by (auto simp: offset_info_def)
qed


text \<open>Crates for the witnesses: a self-delimiting encoding that inflates exactly, a constant digest and
  a length as checksum.\<close>

fun sample_deflate :: "bytes \<Rightarrow> bytes" where
  "sample_deflate [] = [0]"
| "sample_deflate (b # d) = 1 # b # sample_deflate d"

fun sample_inflate :: "bytes \<Rightarrow> bytes \<times> (io_error + bytes)" where
  "sample_inflate (c # s) =
     (if c = 0 then ([], Inr s)
      else (case s of [] \<Rightarrow> ([], Inl UnexpectedEof)
            | b # s' \<Rightarrow> (let (out, fin) = sample_inflate s' in (b # out, fin))))"
| "sample_inflate [] = ([], Inl UnexpectedEof)"

definition sample_crates :: Crates where
  "sample_crates = \<lparr>x_digest = sample_digest, x_hex = sample_hex_encode, x_deflate = sample_deflate,
     x_inflate = sample_inflate, x_grain = (\<lambda>_. 1), x_crc = length,
     x_zapply = (\<lambda>base delta. Inl ''unsupported'')\<rparr>"

lemma sample_inflate_deflate: "sample_inflate (sample_deflate d @ s) = (d, Inr s)"
  by (induction d) simp_all

lemma sample_inflate_suffix: "sample_inflate s = (out, Inr r) \<Longrightarrow> suffix r s"
proof (induction s arbitrary: out rule: sample_inflate.induct)
  case (1 c s)
  then show ?case
    by (auto simp: suffix_Cons split: if_splits list.splits prod.splits)
qed simp

lemma sample_crates_ok: "zlib_ok sample_crates"
  using sample_inflate_suffix by (simp add: zlib_ok_def sample_crates_def sample_inflate_deflate) 

theorem pack_entry_roundtrip_witness:
  "\<exists>bs zs. encode_one_object sample_crates
      \<lparr>en_obj_type = OT_OffsetDelta, en_data = [3, 2, 0x90, 2], en_hash = HSha1 [], en_chain_len = 1\<rparr> (Some 40) = Inr bs \<and>
    (\<forall>s. decode_pack_object_with_kind sample_crates KSha1 100 (bs @ s) =
      Inr ((Some \<lparr>co_info = CI_OffsetDelta 60 2, co_offset = 100, co_crc32 = length bs,
                  co_data = [3, 2, 0x90, 2], co_is_delta_in_pack = True, co_known_hash = None\<rparr>,
            100 + length bs), s)) \<and>
    encode_one_object sample_crates
      \<lparr>en_obj_type = OT_OffsetZstdelta, en_data = [3, 2, 0x90, 2], en_hash = HSha1 [], en_chain_len = 1\<rparr> (Some 40) = Inr zs \<and>
    (\<forall>s. decode_pack_object_with_kind sample_crates KSha1 100 (zs @ s) =
      Inr ((Some \<lparr>co_info = CI_OffsetZstdelta 60 2, co_offset = 100, co_crc32 = length zs,
                  co_data = [3, 2, 0x90, 2], co_is_delta_in_pack = True, co_known_hash = None\<rparr>,
            100 + length zs), s))"
proof -
  let ?e = "\<lambda>t. \<lparr>en_obj_type = t, en_data = [3, 2, 0x90, 2], en_hash = HSha1 [], en_chain_len = 1\<rparr>"
  have sizes: "read_delta_object_size [3, 2, 0x90, 2] = Inr ((3, 2), [0x90, 2])"
    by (simp add: read_delta_object_size_def read_varint_le_def)
  have crc: "x_crc sample_crates = length" by (simp add: sample_crates_def)
  have "zlib_ok sample_crates" "length (en_data (?e t)) < 2 ^ 63" "(100 :: nat) < 2 ^ 64" for t
    using sample_crates_ok by simp_all
  note rt = pack_entry_roundtrip[OF this, where kind = KSha1 and dist = 40, unfolded crc]
  show ?thesis using rt[of OT_OffsetDelta] rt[of OT_OffsetZstdelta] sizes by simp
qed

text \<open>C19: skipping is as strict as decoding.  With idx-supplied names, an object that nothing depends on
  is streamed through the hasher instead of being decoded.  Whatever the granularity of the reads, the
  skipping decoder accepts exactly the entries the full decoder accepts, with the same next offset and
  rest of the stream, and reports the same object without its content (or nothing): names and CRCs of
  skipped objects are checked all the same.  The declared size has to be one that can be allocated.\<close>

theorem skip_is_as_strict_as_decode:
  assumes "\<And>tn n o' r. read_type_and_varint_size s off = Inr ((tn, n, o'), r) \<Longrightarrow> n < 2 ^ 63"
  shows "decode_pack_object_with_crc X kind (opts\<lparr>eo_skip_unneeded := True\<rparr>) off s = Inr ((res, off'), r) \<longleftrightarrow>
    (\<exists>obj. decode_pack_object_with_crc X kind (opts\<lparr>eo_skip_unneeded := False\<rparr>) off s = Inr ((Some obj, off'), r) \<and>
      res = (if should_skip_no_callback_object True (eo_known_hash opts) (eo_retention opts) off
               \<and> \<not> co_is_delta_in_pack obj
             then (if eo_emit_skipped opts then Some (obj\<lparr>co_data := []\<rparr>) else None)
             else Some obj))"
  by (rule decode_skip_iff[OF assms])

theorem skip_is_as_strict_as_decode_witness:
  "decode_pack_object_with_crc sample_crates KSha1
     \<lparr>eo_track_crc = True, eo_skip_unneeded = True, eo_emit_skipped = False,
      eo_known_hash = Some (HSha1 (replicate 20 8)), eo_known_crc = Some 5,
      eo_retention = Some DecodeRetention_default\<rparr> 12 [0xb1, 0, 1, 7, 0] = Inr ((None, 17), [])"
proof -
  let ?opts = "\<lparr>eo_track_crc = True, eo_skip_unneeded = False, eo_emit_skipped = False,
      eo_known_hash = Some (HSha1 (replicate 20 8)), eo_known_crc = Some 5,
      eo_retention = Some DecodeRetention_default\<rparr>"
  let ?obj = "\<lparr>co_info = CI_BaseObject OT_Blob (HSha1 (replicate 20 8)), co_offset = 12, co_crc32 = 5,
      co_data = [7], co_is_delta_in_pack = False, co_known_hash = None\<rparr>"
  have eh: "[0xb1, 0, 1, 7, 0] = entry_header 3 1 @ sample_deflate [7]"
    by (simp add: entry_header_def)
  have t: "to_pack_type_u8 OT_Blob = Inr 3" by (simp add: to_pack_type_u8_def)
  have hdr: "read_type_and_varint_size [0xb1, 0, 1, 7, 0] 12 = Inr ((3, 1, 14), [1, 7, 0])"
    using read_type_and_varint_size_entry_header[of 3 1 "[1, 7, 0]" 12] by (simp add: entry_header_def)
  have dg: "calculate_object_hash_for_kind (x_digest sample_crates) KSha1 OT_Blob [7] = Inr (HSha1 (replicate 20 8))"
    by (simp add: calculate_object_hash_iff loose_object_def sample_crates_def sample_digest_def decimal.simps)
  have full: "decode_pack_object_with_crc sample_crates KSha1 ?opts 12 [0xb1, 0, 1, 7, 0] = Inr ((Some ?obj, 17), [])"
    unfolding eh using counted_entry_header[OF t, of 1 12 "sample_deflate [7]" True] dg
      counted_deflated[OF sample_crates_ok, of "[7]" True "entry_header 3 1" "[]"]
    by (simp add: decode_pack_object_with_crc_def from_pack_base(1)[OF t] should_skip_no_callback_object_def
        decode_base_object_iff sample_crates_def entry_header_def)
  show ?thesis
    using skip_is_as_strict_as_decode[of "[0xb1, 0, 1, 7, 0]" 12 sample_crates KSha1 ?opts None 17 "[]"] hdr full
    by (simp add: should_skip_no_callback_object_def should_retain_def DecodeRetention_default_def)
qed

end
