(* ===== verification/Pack_Cache.thy ===== *)
theory Pack_Cache
  imports Pack_Entry_Proofs "HOL-Library.AList"
begin

text \<open>
  The shared structures of the pack decoder: the object cache (\<open>src/src/internal/pack/cache.rs\<close>), the
  waitlist of deltas whose base is not there yet (\<open>waitlist.rs\<close>) and the conversions of cache objects
  (\<open>cache_object.rs\<close>).

  \<^item> A \<open>DashMap\<close> is an association list; its operations are atomic.
  \<^item> \<open>cs_lru\<close> is what a look-up by id finds: the LRU entry or, with a memory limit, the temporary file an
    evicted entry was written to.  Sizes, evictions and the files themselves are not modelled.
  \<^item> A base is addressed by a key: its offset in the pack or its id.  The locale \<open>object_cache\<close> is the
    contract the decoder relies on; both configurations of the cache, with and without a memory limit,
    implement it.
\<close>

section \<open>Cache objects\<close>

definition new_for_undeltified_with_kind ::
  "Crates \<Rightarrow> HashKind \<Rightarrow> ObjectType \<Rightarrow> bytes \<Rightarrow> nat \<Rightarrow> nat \<Rightarrow> GitError + CacheObject" where
  "new_for_undeltified_with_kind X kind obj_type data offset crc32 =
     and_then (map_err GitError_of_hash (calculate_object_hash_for_kind (x_digest X) kind obj_type data)) (\<lambda>h.
       Inr \<lparr>co_info = CI_BaseObject obj_type h, co_offset = offset, co_crc32 = crc32, co_data = data,
            co_is_delta_in_pack = False, co_known_hash = None\<rparr>)"

definition offset_delta :: "CacheObject \<Rightarrow> nat option" where
  "offset_delta obj = (case co_info obj of CI_OffsetDelta off _ \<Rightarrow> Some off | _ \<Rightarrow> None)"

definition hash_delta :: "CacheObject \<Rightarrow> ObjectHash option" where
  "hash_delta obj = (case co_info obj of CI_HashDelta h _ \<Rightarrow> Some h | _ \<Rightarrow> None)"

definition to_entry :: "CacheObject \<Rightarrow> GitError + Entry" where
  "to_entry obj =
     (case co_info obj of
        CI_BaseObject t h \<Rightarrow>
          Inr \<lparr>en_obj_type = t, en_data = co_data obj, en_hash = h, en_chain_len = 0\<rparr>
      | _ \<Rightarrow> Inl (git_panic ''delta object should not persist!''))"

record MetaEntry =
  me_inner :: Entry
  me_pack_offset :: "nat option"
  me_crc32 :: "nat option"
  me_is_delta :: "bool option"

definition to_entry_metadata :: "CacheObject \<Rightarrow> GitError + MetaEntry" where
  "to_entry_metadata obj =
     (case co_info obj of
        CI_BaseObject t h \<Rightarrow>
          Inr \<lparr>me_inner = \<lparr>en_obj_type = t, en_data = co_data obj, en_hash = h, en_chain_len = 0\<rparr>,
               me_pack_offset = Some (co_offset obj), me_crc32 = Some (co_crc32 obj),
               me_is_delta = Some (co_is_delta_in_pack obj)\<rparr>
      | _ \<Rightarrow> Inl (git_panic ''delta object should not persist!''))"

text \<open>\<open>into_entry_metadata\<close> gives the same entry without copying the data.\<close>

definition into_entry_metadata :: "CacheObject \<Rightarrow> GitError + MetaEntry" where
  "into_entry_metadata obj =
     (case co_info obj of
        CI_BaseObject t h \<Rightarrow>
          (let entry = \<lparr>en_obj_type = t, en_data = co_data obj, en_hash = h, en_chain_len = 0\<rparr> in
           Inr \<lparr>me_inner = entry, me_pack_offset = Some (co_offset obj), me_crc32 = Some (co_crc32 obj),
                me_is_delta = Some (co_is_delta_in_pack obj)\<rparr>)
      | _ \<Rightarrow> Inl (git_panic ''delta object should not persist!''))"

section \<open>The waitlist\<close>

record Waitlist =
  map_offset :: "(nat \<times> CacheObject list) list"
  map_ref :: "(ObjectHash \<times> CacheObject list) list"

definition Waitlist_new :: Waitlist where
  "Waitlist_new = \<lparr>map_offset = [], map_ref = []\<rparr>"

definition push_waiter :: "'k \<Rightarrow> CacheObject \<Rightarrow> ('k \<times> CacheObject list) list \<Rightarrow> ('k \<times> CacheObject list) list" where
  "push_waiter k obj m =
     AList.update k ((case map_of m k of Some objs \<Rightarrow> objs | None \<Rightarrow> []) @ [obj]) m"

definition insert_offset :: "nat \<Rightarrow> CacheObject \<Rightarrow> Waitlist \<Rightarrow> Waitlist" where
  "insert_offset off obj w = w\<lparr>map_offset := push_waiter off obj (map_offset w)\<rparr>"

definition insert_ref :: "ObjectHash \<Rightarrow> CacheObject \<Rightarrow> Waitlist \<Rightarrow> Waitlist" where
  "insert_ref h obj w = w\<lparr>map_ref := push_waiter h obj (map_ref w)\<rparr>"

text \<open>\<open>take\<close> removes the waiters of the offset and then those of the id, two accesses to two maps.\<close>

definition take_by_offset :: "nat \<Rightarrow> Waitlist \<Rightarrow> CacheObject list \<times> Waitlist" where
  "take_by_offset off w =
     (case map_of (map_offset w) off of
        Some objs \<Rightarrow> (objs, w\<lparr>map_offset := AList.delete off (map_offset w)\<rparr>)
      | None \<Rightarrow> ([], w))"

definition take_by_ref :: "ObjectHash \<Rightarrow> Waitlist \<Rightarrow> CacheObject list \<times> Waitlist" where
  "take_by_ref h w =
     (case map_of (map_ref w) h of
        Some objs \<Rightarrow> (objs, w\<lparr>map_ref := AList.delete h (map_ref w)\<rparr>)
      | None \<Rightarrow> ([], w))"

definition has_waiters :: "nat \<Rightarrow> ObjectHash \<Rightarrow> Waitlist \<Rightarrow> bool" where
  "has_waiters off h w \<longleftrightarrow> map_of (map_offset w) off \<noteq> None \<or> map_of (map_ref w) h \<noteq> None"

section \<open>The caches\<close>

record Caches =
  cs_mem_size :: "nat option"
  cs_map_offset :: "(nat \<times> ObjectHash) list"
  cs_hash_set :: "ObjectHash list"
  cs_lru :: "(ObjectHash \<times> CacheObject) list"
  cs_unbounded_cache :: "(ObjectHash \<times> CacheObject) list"
  cs_unbounded_offset_cache :: "(nat \<times> CacheObject) list"

definition Caches_new :: "nat option \<Rightarrow> Caches" where
  "Caches_new mem_size =
     \<lparr>cs_mem_size = mem_size, cs_map_offset = [], cs_hash_set = [], cs_lru = [],
      cs_unbounded_cache = [], cs_unbounded_offset_cache = []\<rparr>"

definition is_unbounded :: "Caches \<Rightarrow> bool" where
  "is_unbounded c \<longleftrightarrow> cs_mem_size c = None"

definition try_get :: "ObjectHash \<Rightarrow> Caches \<Rightarrow> CacheObject option" where
  "try_get h c = map_of (cs_lru c) h"

definition cache_get_hash :: "nat \<Rightarrow> Caches \<Rightarrow> ObjectHash option" where
  "cache_get_hash off c =
     (if is_unbounded c then Option.bind (map_of (cs_unbounded_offset_cache c) off) base_object_hash
      else map_of (cs_map_offset c) off)"

definition cache_insert :: "nat \<Rightarrow> ObjectHash \<Rightarrow> CacheObject \<Rightarrow> Caches \<Rightarrow> Caches" where
  "cache_insert off h obj c =
     (if is_unbounded c then
        c\<lparr>cs_unbounded_cache := AList.update h obj (cs_unbounded_cache c),
          cs_unbounded_offset_cache := AList.update off obj (cs_unbounded_offset_cache c),
          cs_lru := AList.update h obj (cs_lru c)\<rparr>
      else
        c\<lparr>cs_lru := AList.update h obj (cs_lru c),
          cs_hash_set := List.insert h (cs_hash_set c),
          cs_map_offset := AList.update off h (cs_map_offset c)\<rparr>)"

definition get_by_hash :: "ObjectHash \<Rightarrow> Caches \<Rightarrow> CacheObject option" where
  "get_by_hash h c =
     (if is_unbounded c then
        (if map_of (cs_unbounded_cache c) h = None then None else try_get h c)
      else if h \<in> set (cs_hash_set c) then try_get h c
      else None)"

definition get_by_offset :: "nat \<Rightarrow> Caches \<Rightarrow> CacheObject option" where
  "get_by_offset off c =
     (if is_unbounded c then
        Option.bind (Option.bind (map_of (cs_unbounded_offset_cache c) off) base_object_hash) (\<lambda>h. try_get h c)
      else Option.bind (map_of (cs_map_offset c) off) (\<lambda>h. get_by_hash h c))"

definition remove_unbounded :: "nat \<Rightarrow> ObjectHash \<Rightarrow> Caches \<Rightarrow> Caches" where
  "remove_unbounded off h c =
     (if is_unbounded c then
        c\<lparr>cs_lru := AList.delete h (cs_lru c),
          cs_unbounded_offset_cache := AList.delete off (cs_unbounded_offset_cache c),
          cs_unbounded_cache := AList.delete h (cs_unbounded_cache c)\<rparr>
      else c)"

definition total_inserted :: "Caches \<Rightarrow> nat" where
  "total_inserted c =
     (if is_unbounded c then length (cs_unbounded_offset_cache c) else length (cs_hash_set c))"

definition cache_clear :: "Caches \<Rightarrow> Caches" where
  "cache_clear c =
     c\<lparr>cs_lru := [], cs_unbounded_cache := [], cs_unbounded_offset_cache := [], cs_hash_set := [],
       cs_map_offset := []\<rparr>"

section \<open>Keys\<close>

text \<open>How a delta names its base, and the keys an object is known by.\<close>

datatype dep_key = K_Offset nat | K_Hash ObjectHash

fun key_of :: "CacheObjectInfo \<Rightarrow> dep_key option" where
  "key_of (CI_BaseObject _ _) = None"
| "key_of (CI_OffsetDelta off _) = Some (K_Offset off)"
| "key_of (CI_OffsetZstdelta off _) = Some (K_Offset off)"
| "key_of (CI_HashDelta h _) = Some (K_Hash h)"

fun has_key :: "CacheObject \<Rightarrow> dep_key \<Rightarrow> bool" where
  "has_key obj (K_Offset off) \<longleftrightarrow> co_offset obj = off"
| "has_key obj (K_Hash h) \<longleftrightarrow> base_object_hash obj = Some h"

fun cache_get :: "dep_key \<Rightarrow> Caches \<Rightarrow> CacheObject option" where
  "cache_get (K_Offset off) c = get_by_offset off c"
| "cache_get (K_Hash h) c = get_by_hash h c"

fun waiting :: "dep_key \<Rightarrow> Waitlist \<Rightarrow> CacheObject list" where
  "waiting (K_Offset off) w = (case map_of (map_offset w) off of Some objs \<Rightarrow> objs | None \<Rightarrow> [])"
| "waiting (K_Hash h) w = (case map_of (map_ref w) h of Some objs \<Rightarrow> objs | None \<Rightarrow> [])"

fun wait_insert :: "dep_key \<Rightarrow> CacheObject \<Rightarrow> Waitlist \<Rightarrow> Waitlist" where
  "wait_insert (K_Offset off) obj w = insert_offset off obj w"
| "wait_insert (K_Hash h) obj w = insert_ref h obj w"

lemma waiting_insert [simp]:
  "waiting k (wait_insert k' obj w) = waiting k w @ (if k = k' then [obj] else [])"
  by (cases k; cases k')
    (auto simp: insert_offset_def insert_ref_def push_waiter_def update_conv' split: option.splits)

lemma take_by_offset_waiting:
  "fst (take_by_offset off w) = waiting (K_Offset off) w"
  "waiting k (snd (take_by_offset off w)) = (if k = K_Offset off then [] else waiting k w)"
  by (cases k; auto simp: take_by_offset_def delete_conv' split: option.splits)+

lemma take_by_ref_waiting:
  "fst (take_by_ref h w) = waiting (K_Hash h) w"
  "waiting k (snd (take_by_ref h w)) = (if k = K_Hash h then [] else waiting k w)"
  by (cases k; auto simp: take_by_ref_def delete_conv' split: option.splits)+

section \<open>The contract of the cache\<close>

text \<open>The caches hold a set of base objects, each found by both of its keys.  The laws hold as long as
  no two objects share an offset or an id, which is what \<open>fresh_in\<close> says of an object to be inserted.\<close>

definition fresh_in :: "CacheObject set \<Rightarrow> CacheObject \<Rightarrow> bool" where
  "fresh_in C b \<longleftrightarrow> (\<forall>b' \<in> C. \<forall>k. has_key b' k \<longrightarrow> has_key b k \<longrightarrow> b' = b)"

locale object_cache =
  fixes inv :: "'c \<Rightarrow> bool"
    and content :: "'c \<Rightarrow> CacheObject set"
    and get :: "dep_key \<Rightarrow> 'c \<Rightarrow> CacheObject option"
    and put :: "nat \<Rightarrow> ObjectHash \<Rightarrow> CacheObject \<Rightarrow> 'c \<Rightarrow> 'c"
    and del :: "nat \<Rightarrow> ObjectHash \<Rightarrow> 'c \<Rightarrow> 'c"
  assumes get_iff: "inv c \<Longrightarrow> get k c = Some b \<longleftrightarrow> b \<in> content c \<and> has_key b k"
    and put_inv: "inv c \<Longrightarrow> base_object_hash b = Some h \<Longrightarrow>
      fresh_in (content c) b \<Longrightarrow>
      inv (put (co_offset b) h b c)"
    and put_content: "inv c \<Longrightarrow> base_object_hash b = Some h \<Longrightarrow>
      fresh_in (content c) b \<Longrightarrow>
      content (put (co_offset b) h b c) = insert b (content c)"
    and del_inv: "inv c \<Longrightarrow> b \<in> content c \<Longrightarrow> base_object_hash b = Some h \<Longrightarrow> inv (del (co_offset b) h c)"
    and del_content: "inv c \<Longrightarrow> b \<in> content c \<Longrightarrow> base_object_hash b = Some h \<Longrightarrow>
      content (del (co_offset b) h c) \<subseteq> content c \<and> content c - {b} \<subseteq> content (del (co_offset b) h c)"
begin

lemma get_SomeD: "inv c \<Longrightarrow> get k c = Some b \<Longrightarrow> b \<in> content c \<and> has_key b k"
  by (simp add: get_iff)

lemma get_NoneD: "inv c \<Longrightarrow> get k c = None \<Longrightarrow> b \<in> content c \<Longrightarrow> \<not> has_key b k"
  by (metis get_iff option.distinct(1))

lemma content_unique: "inv c \<Longrightarrow> b \<in> content c \<Longrightarrow> b' \<in> content c \<Longrightarrow> has_key b k \<Longrightarrow> has_key b' k \<Longrightarrow> b = b'"
  using get_iff[of c k b] get_iff[of c k b'] by simp

end


definition caches_content :: "Caches \<Rightarrow> CacheObject set" where
  "caches_content c = ran (map_of (cs_lru c))"

definition lru_ok :: "Caches \<Rightarrow> bool" where
  "lru_ok c \<longleftrightarrow> (\<forall>h b. map_of (cs_lru c) h = Some b \<longleftrightarrow> b \<in> caches_content c \<and> base_object_hash b = Some h)"

definition unbounded_inv :: "Caches \<Rightarrow> bool" where
  "unbounded_inv c \<longleftrightarrow> is_unbounded c \<and> lru_ok c \<and> map_of (cs_unbounded_cache c) = map_of (cs_lru c) \<and>
     (\<forall>off b. map_of (cs_unbounded_offset_cache c) off = Some b \<longleftrightarrow> b \<in> caches_content c \<and> co_offset b = off)"

definition bounded_inv :: "Caches \<Rightarrow> bool" where
  "bounded_inv c \<longleftrightarrow> \<not> is_unbounded c \<and> lru_ok c \<and> set (cs_hash_set c) = dom (map_of (cs_lru c)) \<and>
     (\<forall>off h. map_of (cs_map_offset c) off = Some h \<longleftrightarrow>
        (\<exists>b \<in> caches_content c. co_offset b = off \<and> base_object_hash b = Some h))"

declare base_object_hash.simps [simp del]

lemma lru_okD:
  assumes "lru_ok c"
  shows "map_of (cs_lru c) h = Some b \<longleftrightarrow> b \<in> caches_content c \<and> base_object_hash b = Some h"
    and "b \<in> caches_content c \<Longrightarrow> \<exists>h. base_object_hash b = Some h"
    and "b \<in> caches_content c \<Longrightarrow> b' \<in> caches_content c \<Longrightarrow> base_object_hash b = base_object_hash b' \<Longrightarrow> b = b'"
proof -
  show 1: "map_of (cs_lru c) h = Some b \<longleftrightarrow> b \<in> caches_content c \<and> base_object_hash b = Some h" for h b
    using assms by (simp add: lru_ok_def)
  show 2: "\<exists>h. base_object_hash b = Some h" if "b \<in> caches_content c" for b
  proof -
    obtain h where "map_of (cs_lru c) h = Some b" using \<open>b \<in> caches_content c\<close> by (auto simp: caches_content_def ran_def)
    then show ?thesis using 1 by blast
  qed
  show "b = b'" if bb: "b \<in> caches_content c" "b' \<in> caches_content c" "base_object_hash b = base_object_hash b'"
  proof -
    obtain h where "base_object_hash b = Some h" using 2[of b] bb(1) by blast
    then have "map_of (cs_lru c) h = Some b" "map_of (cs_lru c) h = Some b'" using 1 bb by metis+
    then show ?thesis by simp
  qed
qed

lemma lru_ok_same_offset:
  assumes "lru_ok c"
  shows "(\<exists>h. (\<exists>y \<in> caches_content c. co_offset y = off \<and> base_object_hash y = Some h) \<and>
      b \<in> caches_content c \<and> base_object_hash b = Some h) \<longleftrightarrow> b \<in> caches_content c \<and> co_offset b = off"
  by (metis lru_okD(2,3)[OF assms])

lemma unbounded_get_iff:
  assumes "unbounded_inv c"
  shows "cache_get k c = Some b \<longleftrightarrow> b \<in> caches_content c \<and> has_key b k"
proof -
  have ok: "lru_ok c" using assms by (simp add: unbounded_inv_def)
  show ?thesis
  proof (cases k)
    case (K_Offset off)
    have "get_by_offset off c = Some b \<longleftrightarrow> (\<exists>h. (\<exists>y \<in> caches_content c. co_offset y = off \<and>
        base_object_hash y = Some h) \<and> b \<in> caches_content c \<and> base_object_hash b = Some h)"
      using assms unfolding unbounded_inv_def get_by_offset_def try_get_def
      by (auto simp: bind_eq_Some_conv lru_okD(1)[OF ok])
    then show ?thesis using K_Offset by (simp add: lru_ok_same_offset[OF ok])
  next
    case (K_Hash h)
    then show ?thesis
      using assms lru_okD(1)[OF ok, of h b] by (auto simp: unbounded_inv_def get_by_hash_def try_get_def)
  qed
qed

lemma bounded_get_iff:
  assumes "bounded_inv c"
  shows "cache_get k c = Some b \<longleftrightarrow> b \<in> caches_content c \<and> has_key b k"
proof -
  have ok: "lru_ok c" using assms by (simp add: bounded_inv_def)
  have hash: "get_by_hash h c = Some b \<longleftrightarrow> b \<in> caches_content c \<and> base_object_hash b = Some h" for h
    using assms by (auto simp: bounded_inv_def get_by_hash_def try_get_def lru_okD(1)[OF ok])
  show ?thesis
  proof (cases k)
    case (K_Offset off)
    have "get_by_offset off c = Some b \<longleftrightarrow> (\<exists>h. (\<exists>y \<in> caches_content c. co_offset y = off \<and>
        base_object_hash y = Some h) \<and> b \<in> caches_content c \<and> base_object_hash b = Some h)"
      using assms unfolding bounded_inv_def get_by_offset_def
      by (simp add: bind_eq_Some_conv hash)
    then show ?thesis using K_Offset by (simp add: lru_ok_same_offset[OF ok])
  qed (use hash in simp)
qed


text \<open>Inserting an object whose keys are new, or that is there already.\<close>

lemma insert_lru:
  assumes "lru_ok c" "base_object_hash b = Some h"
    and "fresh_in (caches_content c) b"
  shows "caches_content (cache_insert off h b c) = insert b (caches_content c)"
    and "lru_ok (cache_insert off h b c)"
proof -
  have lru: "map_of (cs_lru (cache_insert off h b c)) = (map_of (cs_lru c))(h \<mapsto> b)"
    by (simp add: cache_insert_def update_conv')
  have same: "b' = b" if "b' \<in> caches_content c" "base_object_hash b' = Some h" for b'
    using that assms(2,3) unfolding fresh_in_def by (metis has_key.simps(2))
  then have "ran ((map_of (cs_lru c))(h \<mapsto> b)) = insert b (ran (map_of (cs_lru c)))"
    using lru_okD(1)[OF assms(1)] by (auto simp: ran_def split: if_splits) metis
  then show content: "caches_content (cache_insert off h b c) = insert b (caches_content c)"
    unfolding caches_content_def lru .
  show "lru_ok (cache_insert off h b c)"
    unfolding lru_ok_def lru content using lru_okD(1)[OF assms(1)] assms(2) same by auto
qed

lemma unbounded_put_inv:
  assumes "unbounded_inv c" "base_object_hash b = Some h"
    and "fresh_in (caches_content c) b"
  shows "unbounded_inv (cache_insert (co_offset b) h b c)"
proof -
  have "lru_ok c" using assms(1) by (simp add: unbounded_inv_def)
  note ins = insert_lru[OF this assms(2,3), of "co_offset b"]
  have "b' = b" if "b' \<in> caches_content c" "co_offset b' = co_offset b" for b'
    using that assms(3) unfolding fresh_in_def by (metis has_key.simps(1))
  then show ?thesis
    using assms(1) ins unfolding unbounded_inv_def
    by (auto simp: cache_insert_def is_unbounded_def update_conv')
qed

lemma bounded_put_inv:
  assumes "bounded_inv c" "base_object_hash b = Some h"
    and "fresh_in (caches_content c) b"
  shows "bounded_inv (cache_insert (co_offset b) h b c)"
proof -
  have "lru_ok c" using assms(1) by (simp add: bounded_inv_def)
  note ins = insert_lru[OF this assms(2,3), of "co_offset b"]
  have "base_object_hash b' = Some h" if "b' \<in> caches_content c" "co_offset b' = co_offset b" for b'
    using that assms(2,3) unfolding fresh_in_def by (metis has_key.simps(1))
  then show ?thesis
    using assms(1,2) ins unfolding bounded_inv_def
    by (auto simp: cache_insert_def is_unbounded_def update_conv')
qed

text \<open>Removing an object that is in the cache.\<close>

lemma remove_lru:
  assumes "lru_ok c" "is_unbounded c" "b \<in> caches_content c" "base_object_hash b = Some h"
  shows "caches_content (remove_unbounded off h c) = caches_content c - {b}"
    and "lru_ok (remove_unbounded off h c)"
proof -
  have lru: "map_of (cs_lru (remove_unbounded off h c)) = (map_of (cs_lru c))(h := None)"
    using assms(2) by (simp add: remove_unbounded_def delete_conv')
  have "ran ((map_of (cs_lru c))(h := None)) = ran (map_of (cs_lru c)) - {b}"
    using lru_okD(1)[OF assms(1)] assms(3,4) by (auto simp: ran_def) (metis option.inject)+
  then show content: "caches_content (remove_unbounded off h c) = caches_content c - {b}"
    unfolding caches_content_def lru .
  show "lru_ok (remove_unbounded off h c)"
    unfolding lru_ok_def lru content using lru_okD[OF assms(1)] assms(3,4) by auto
qed

lemma unbounded_del_inv:
  assumes "unbounded_inv c" "b \<in> caches_content c" "base_object_hash b = Some h"
  shows "unbounded_inv (remove_unbounded (co_offset b) h c)"
proof -
  have ok: "lru_ok c" "is_unbounded c" using assms(1) by (simp_all add: unbounded_inv_def)
  have "b' = b" if "b' \<in> caches_content c" "co_offset b' = co_offset b" for b'
    using that assms(1,2) unfolding unbounded_inv_def by (metis option.inject)
  then show ?thesis
    using assms(1) remove_lru[OF ok assms(2,3), of "co_offset b"] ok(2) unfolding unbounded_inv_def
    by (auto simp: remove_unbounded_def is_unbounded_def delete_conv' split: if_splits)
qed

interpretation unbounded_caches: object_cache unbounded_inv caches_content cache_get cache_insert remove_unbounded
proof unfold_locales
  fix c b h
  assume c: "unbounded_inv c" "b \<in> caches_content c" "base_object_hash b = Some h"
  then show "unbounded_inv (remove_unbounded (co_offset b) h c)" by (rule unbounded_del_inv)
  show "caches_content (remove_unbounded (co_offset b) h c) \<subseteq> caches_content c \<and>
      caches_content c - {b} \<subseteq> caches_content (remove_unbounded (co_offset b) h c)"
    using remove_lru(1)[of c b h "co_offset b"] c by (simp add: unbounded_inv_def)
next
  fix c b h
  assume c: "unbounded_inv c" "base_object_hash b = Some h"
    "fresh_in (caches_content c) b"
  show "caches_content (cache_insert (co_offset b) h b c) = insert b (caches_content c)"
    using insert_lru(1)[OF _ c(2,3)] c(1) by (simp add: unbounded_inv_def)
qed (fact unbounded_get_iff unbounded_put_inv)+

interpretation bounded_caches: object_cache bounded_inv caches_content cache_get cache_insert remove_unbounded
proof unfold_locales
  fix c b h
  assume c: "bounded_inv c" "b \<in> caches_content c" "base_object_hash b = Some h"
  then have same: "remove_unbounded (co_offset b) h c = c" by (simp add: bounded_inv_def remove_unbounded_def)
  then show "bounded_inv (remove_unbounded (co_offset b) h c)" using c by simp
  show "caches_content (remove_unbounded (co_offset b) h c) \<subseteq> caches_content c \<and>
      caches_content c - {b} \<subseteq> caches_content (remove_unbounded (co_offset b) h c)"
    unfolding same by blast
next
  fix c b h
  assume c: "bounded_inv c" "base_object_hash b = Some h"
    "fresh_in (caches_content c) b"
  show "caches_content (cache_insert (co_offset b) h b c) = insert b (caches_content c)"
    using insert_lru(1)[OF _ c(2,3)] c(1) by (simp add: bounded_inv_def)
qed (fact bounded_get_iff bounded_put_inv)+

end
