(* ===== verification/Pack_Decode.thy ===== *)
theory Pack_Decode
  imports Pack_Cache
begin

text \<open>
  The concurrent part of the pack decoder (\<open>decode_inner\<close> and the functions it runs on the thread pool,
  \<open>src/src/internal/pack/decode.rs\<close>) as a state machine.

  \<^item> The state holds what the threads share (\<open>SharedParams\<close>: waitlist, caches, dependency counts, first
    error), the entries handed to the callback, the objects the reading loop has still to hand over and
    the pool.  A pool element is a task at one of its program points; each access to a shared structure
    is one step.
  \<^item> \<open>task_step\<close> executes one step of one task; \<open>decode_step\<close> lets the reading loop or any task of the
    pool make its next step, so its executions are the interleavings of all threads.  A base object
    that the reading loop processes itself is a task like the others, which only adds interleavings.
  \<^item> \<open>ds_done\<close> is a ghost: the objects that have been resolved so far.
  \<^item> Memory accounting, back-pressure and the mode that is keyed on the name of the executable
    (\<open>low_memory_callback_entries\<close>) are not modelled.
\<close>

section \<open>State\<close>

datatype task =
    T_Store CacheObject
  | T_Insert CacheObject
  | T_Take CacheObject bool
  | T_TakeRef CacheObject bool "CacheObject list"
  | T_Depend CacheObject
  | T_Release dep_key CacheObject CacheObject
  | T_Remove CacheObject CacheObject
  | T_Wait dep_key CacheObject
  | T_Consume dep_key
  | T_Recheck dep_key
  | T_Wake CacheObject
  | T_Rebuild CacheObject CacheObject

record DecodeState =
  ds_input :: "CacheObject list"
  ds_pool :: "task list"
  ds_waitlist :: Waitlist
  ds_caches :: Caches
  ds_retention :: "DecodeRetention option"
  ds_error :: "GitError option"
  ds_emitted :: "MetaEntry list"
  ds_panicked :: bool
  ds_done :: "CacheObject list"

text \<open>What does not change during a decode: whether there is a callback, whether objects that nothing
  depends on are skipped, and whether an index supplied the names.\<close>

record DecodeParams =
  dp_crates :: Crates
  dp_callback :: bool
  dp_skip_unneeded :: bool
  dp_known_names :: bool

section \<open>Operations on the shared state\<close>

definition spawn :: "task list \<Rightarrow> DecodeState \<Rightarrow> DecodeState" where
  "spawn ts s = s\<lparr>ds_pool := ds_pool s @ ts\<rparr>"

definition worker_panic :: "DecodeState \<Rightarrow> DecodeState" where
  "worker_panic s = s\<lparr>ds_panicked := True\<rparr>"

definition run_callback :: "DecodeParams \<Rightarrow> CacheObject \<Rightarrow> DecodeState \<Rightarrow> DecodeState" where
  "run_callback p obj s =
     (if dp_callback p then
        (case to_entry_metadata obj of
           Inr entry \<Rightarrow> s\<lparr>ds_emitted := ds_emitted s @ [entry]\<rparr>
         | Inl _ \<Rightarrow> worker_panic s)
      else s)"

fun consume_key :: "dep_key \<Rightarrow> DecodeRetention \<Rightarrow> DecodeRetention" where
  "consume_key (K_Offset off) r = consume_offset_dependency off r"
| "consume_key (K_Hash h) r = consume_hash_dependency h r"

definition consume_dependency :: "dep_key \<Rightarrow> DecodeState \<Rightarrow> DecodeState" where
  "consume_dependency k s = s\<lparr>ds_retention := map_option (consume_key k) (ds_retention s)\<rparr>"

definition maybe_remove_released_base :: "CacheObject \<Rightarrow> DecodeState \<Rightarrow> DecodeState" where
  "maybe_remove_released_base base_obj s =
     (case (ds_retention s, base_object_hash base_obj) of
        (Some r, Some h) \<Rightarrow>
          if \<not> should_retain (co_offset base_obj) h r
          then s\<lparr>ds_caches := remove_unbounded (co_offset base_obj) h (ds_caches s)\<rparr>
          else s
      | _ \<Rightarrow> s)"

text \<open>\<open>process_waitlist_objects\<close>: every waiter becomes a rebuild task on the new base.\<close>

definition process_waitlist_objects :: "CacheObject list \<Rightarrow> CacheObject \<Rightarrow> DecodeState \<Rightarrow> DecodeState" where
  "process_waitlist_objects wait_objs base_obj s = spawn (map (\<lambda>d. T_Rebuild d base_obj) wait_objs) s"

definition rebuild :: "Crates \<Rightarrow> CacheObject \<Rightarrow> CacheObject \<Rightarrow> GitError + CacheObject" where
  "rebuild X d b =
     (case co_info d of
        CI_OffsetDelta _ _ \<Rightarrow> rebuild_delta_with_hash X d b (co_known_hash d)
      | CI_HashDelta _ _ \<Rightarrow> rebuild_delta_with_hash X d b (co_known_hash d)
      | CI_OffsetZstdelta _ _ \<Rightarrow> rebuild_zstdelta_with_hash X d b (co_known_hash d)
      | CI_BaseObject _ _ \<Rightarrow> Inl (git_panic ''internal error: entered unreachable code''))"

section \<open>One step of a task\<close>

text \<open>\<open>cache_obj_and_process_waitlist\<close> is \<open>T_Store\<close>, \<open>T_Insert\<close>, \<open>T_Take\<close> and \<open>T_TakeRef\<close> (the flag says
  that the callback runs after the waiters were taken); \<open>process_delta_dependency\<close> is \<open>T_Depend\<close> with
  \<open>T_Release\<close> and \<open>T_Remove\<close> when the base is cached, and \<open>T_Wait\<close>, \<open>T_Consume\<close>, \<open>T_Recheck\<close> and
  \<open>T_Wake\<close> when it is not; \<open>process_delta\<close> is \<open>T_Rebuild\<close>.\<close>

fun task_step :: "DecodeParams \<Rightarrow> task \<Rightarrow> DecodeState \<Rightarrow> DecodeState" where
  "task_step p (T_Store obj) s =
     (case ds_retention s of
        None \<Rightarrow> spawn [T_Insert obj] s
      | Some r \<Rightarrow>
          (case base_object_hash obj of
             None \<Rightarrow> worker_panic s
           | Some h \<Rightarrow>
               if should_retain (co_offset obj) h r then spawn [T_Insert obj] s
               else spawn [T_Take obj True] s))"
| "task_step p (T_Insert obj) s =
     (let s = run_callback p obj s in
      case base_object_hash obj of
        None \<Rightarrow> worker_panic s
      | Some h \<Rightarrow>
          spawn [T_Take obj False] (s\<lparr>ds_caches := cache_insert (co_offset obj) h obj (ds_caches s)\<rparr>))"
| "task_step p (T_Take obj late) s =
     (let (objs, w) = take_by_offset (co_offset obj) (ds_waitlist s) in
      spawn [T_TakeRef obj late objs] (s\<lparr>ds_waitlist := w\<rparr>))"
| "task_step p (T_TakeRef obj late objs) s =
     (case base_object_hash obj of
        None \<Rightarrow> worker_panic s
      | Some h \<Rightarrow>
          (let (objs', w) = take_by_ref h (ds_waitlist s); s = s\<lparr>ds_waitlist := w\<rparr> in
           process_waitlist_objects (objs @ objs') obj (if late then run_callback p obj s else s)))"
| "task_step p (T_Depend obj) s =
     (case key_of (co_info obj) of
        None \<Rightarrow> worker_panic s
      | Some k \<Rightarrow>
          (case cache_get k (ds_caches s) of
             Some base_obj \<Rightarrow> spawn [T_Release k obj base_obj] s
           | None \<Rightarrow> spawn [T_Wait k obj] s))"
| "task_step p (T_Release k obj base_obj) s = spawn [T_Remove obj base_obj] (consume_dependency k s)"
| "task_step p (T_Remove obj base_obj) s =
     spawn [T_Rebuild obj base_obj] (maybe_remove_released_base base_obj s)"
| "task_step p (T_Wait k obj) s =
     spawn [T_Consume k] (s\<lparr>ds_waitlist := wait_insert k obj (ds_waitlist s)\<rparr>)"
| "task_step p (T_Consume k) s = spawn [T_Recheck k] (consume_dependency k s)"
| "task_step p (T_Recheck k) s =
     (case cache_get k (ds_caches s) of
        Some base_obj \<Rightarrow> spawn [T_Wake base_obj] s
      | None \<Rightarrow> s)"
| "task_step p (T_Wake base_obj) s = spawn [T_Take base_obj False] (maybe_remove_released_base base_obj s)"
| "task_step p (T_Rebuild delta_obj base_obj) s =
     (case rebuild (dp_crates p) delta_obj base_obj of
        Inl e \<Rightarrow> (if ds_error s = None then s\<lparr>ds_error := Some e\<rparr> else s)
      | Inr new_obj \<Rightarrow> spawn [T_Store new_obj] (s\<lparr>ds_done := ds_done s @ [new_obj]\<rparr>))"

section \<open>The reading loop\<close>

definition should_drop_no_callback_base :: "DecodeParams \<Rightarrow> CacheObject \<Rightarrow> DecodeState \<Rightarrow> bool" where
  "should_drop_no_callback_base p base_obj s =
     (if dp_callback p then False
      else
        case ds_retention s of
          None \<Rightarrow> False
        | Some r \<Rightarrow>
            (case base_object_hash base_obj of
               None \<Rightarrow> False
             | Some h \<Rightarrow> \<not> should_retain (co_offset base_obj) h r
                          \<and> \<not> has_waiters (co_offset base_obj) h (ds_waitlist s)))"

text \<open>One iteration for an object that was read successfully.  An object the entry reader skips is
  verified and dropped there.\<close>

definition reader_step :: "DecodeParams \<Rightarrow> CacheObject \<Rightarrow> DecodeState \<Rightarrow> DecodeState" where
  "reader_step p obj s =
     (case base_object_hash obj of
        Some h \<Rightarrow>
          (let s = s\<lparr>ds_done := ds_done s @ [obj]\<rparr> in
           if should_skip_no_callback_object (dp_skip_unneeded p)
                (if dp_known_names p then Some h else None) (ds_retention s) (co_offset obj)
           then s
           else if should_drop_no_callback_base p obj s then s
           else spawn [T_Store obj] s)
      | None \<Rightarrow> spawn [T_Depend obj] s)"

section \<open>Interleavings\<close>

definition pick_task :: "nat \<Rightarrow> DecodeState \<Rightarrow> DecodeState" where
  "pick_task i s = s\<lparr>ds_pool := take i (ds_pool s) @ drop (Suc i) (ds_pool s)\<rparr>"

inductive decode_step :: "DecodeParams \<Rightarrow> DecodeState \<Rightarrow> DecodeState \<Rightarrow> bool" for p where
  reading: "ds_input s = obj # rest \<Longrightarrow> decode_step p s (reader_step p obj (s\<lparr>ds_input := rest\<rparr>))"
| working: "i < length (ds_pool s) \<Longrightarrow>
    decode_step p s (task_step p (ds_pool s ! i) (pick_task i s))"

inductive_cases decode_stepE: "decode_step p s s'"

definition finished :: "DecodeState \<Rightarrow> bool" where
  "finished s \<longleftrightarrow> ds_input s = [] \<and> ds_pool s = []"

definition decode_init :: "CacheObject list \<Rightarrow> nat option \<Rightarrow> DecodeRetention option \<Rightarrow> DecodeState" where
  "decode_init objs mem_size retention =
     \<lparr>ds_input = objs, ds_pool = [], ds_waitlist = Waitlist_new, ds_caches = Caches_new mem_size,
      ds_retention = retention, ds_error = None, ds_emitted = [], ds_panicked = False, ds_done = []\<rparr>"

text \<open>Back-pressure: before each entry the reading loop waits while the queue of the pool is too long or too
  much memory is used.  The length of the queue and the memory in use are functions of the state; a cache
  without a limit switches the second condition off.\<close>

definition MAX_QUEUED_DECODE_TASKS :: nat where
  "MAX_QUEUED_DECODE_TASKS = 1024"

definition reader_waits :: "(DecodeState \<Rightarrow> nat) \<Rightarrow> (DecodeState \<Rightarrow> nat) \<Rightarrow> nat option \<Rightarrow> DecodeState \<Rightarrow> bool" where
  "reader_waits queued_count memory_used mem_limit s \<longleftrightarrow>
     (case (if is_unbounded (ds_caches s) then None else mem_limit) of
        Some limit \<Rightarrow> MAX_QUEUED_DECODE_TASKS < queued_count s \<or> limit < memory_used s
      | None \<Rightarrow> MAX_QUEUED_DECODE_TASKS < queued_count s)"

inductive paced_step ::
  "DecodeParams \<Rightarrow> (DecodeState \<Rightarrow> nat) \<Rightarrow> (DecodeState \<Rightarrow> nat) \<Rightarrow> nat option \<Rightarrow> DecodeState \<Rightarrow> DecodeState \<Rightarrow> bool"
  for p queued_count memory_used mem_limit where
  paced_reading: "ds_input s = obj # rest \<Longrightarrow> \<not> reader_waits queued_count memory_used mem_limit s \<Longrightarrow>
    paced_step p queued_count memory_used mem_limit s (reader_step p obj (s\<lparr>ds_input := rest\<rparr>))"
| paced_working: "i < length (ds_pool s) \<Longrightarrow>
    paced_step p queued_count memory_used mem_limit s (task_step p (ds_pool s ! i) (pick_task i s))"

text \<open>A schedule, for running the machine: \<open>None\<close> lets the reading loop go on, \<open>Some i\<close> the task \<open>i\<close>.\<close>

fun run_schedule :: "DecodeParams \<Rightarrow> nat option list \<Rightarrow> DecodeState \<Rightarrow> DecodeState option" where
  "run_schedule p [] s = Some s"
| "run_schedule p (None # sched) s =
     (case ds_input s of
        [] \<Rightarrow> None
      | obj # rest \<Rightarrow> run_schedule p sched (reader_step p obj (s\<lparr>ds_input := rest\<rparr>)))"
| "run_schedule p (Some i # sched) s =
     (if i < length (ds_pool s) then run_schedule p sched (task_step p (ds_pool s ! i) (pick_task i s))
      else None)"

lemma run_schedule_steps: "run_schedule p sched s = Some s' \<Longrightarrow> (decode_step p)\<^sup>*\<^sup>* s s'"
proof (induction p sched s rule: run_schedule.induct)
  case (2 p sched s)
  then show ?case
    by (auto split: list.splits
        intro: converse_rtranclp_into_rtranclp[where r = "decode_step p"] decode_step.reading)
next
  case (3 p i sched s)
  then show ?case
    by (auto split: if_splits
        intro: converse_rtranclp_into_rtranclp[where r = "decode_step p"] decode_step.working)
qed simp

section \<open>After the threads are done\<close>

text \<open>The checks at the end of \<open>decode_inner\<close>, once \<open>pool.join\<close> has returned.\<close>

definition decode_outcome :: "(bytes \<Rightarrow> bytes) \<Rightarrow> nat \<Rightarrow> DecodeState \<Rightarrow> GitError + Caches" where
  "decode_outcome hex number s =
     (case ds_error s of
        Some e \<Rightarrow> Inl e
      | None \<Rightarrow>
          let pending_offset = length (map_offset (ds_waitlist s));
              pending_ref = length (map_ref (ds_waitlist s)) in
          if pending_offset \<noteq> 0 \<or> pending_ref \<noteq> 0 then
            let first_offset = (case map_offset (ds_waitlist s) of [] \<Rightarrow> []
                  | (off, _) # _ \<Rightarrow> ''; first missing base offset '' @ decimal_string off);
                first_ref = (case map_ref (ds_waitlist s) of [] \<Rightarrow> []
                  | (h, _) # _ \<Rightarrow> ''; first missing base object '' @ latin (hash_to_string hex h)) in
            Inl (GE_InvalidPackFile (''Pack references bases that are not in the pack (thin pack?): ''
                   @ decimal_string pending_offset @ '' offset-delta and '' @ decimal_string pending_ref
                   @ '' ref-delta object(s) unresolved'' @ first_offset @ first_ref))
          else if number < total_inserted (ds_caches s)
          then Inl (GE_InvalidPackFile (''Pack header declares '' @ decimal_string number @ '' objects but ''
                      @ decimal_string (total_inserted (ds_caches s)) @ '' were decoded''))
          else Inr (cache_clear (ds_caches s)))"

end
