(* ===== verification/Pack_Decode_Inv.thy ===== *)
theory Pack_Decode_Inv
  imports Pack_Decode "HOL-Library.Multiset"
begin

text \<open>
  Invariants of the decoder's state machine.

  \<^item> \<open>resolves\<close> is the specification: which objects a pack contains, base objects as they are and
    deltas rebuilt on the object that their key names.
  \<^item> \<open>safe\<close>: every object in any thread, in the cache or emitted is one of these.
  \<^item> \<open>conserved\<close>: every entry of the pack is in exactly one place.
  \<^item> \<open>counted_deps\<close>: the dependency counts are the deltas that have not consumed theirs.
  \<^item> \<open>stored\<close> and \<open>wakeable\<close>: a resolved object is found by everyone who still has to look for it,
    and a delta that waits for a resolved object will be woken.
\<close>

section \<open>Specification\<close>

inductive resolves :: "Crates \<Rightarrow> CacheObject list \<Rightarrow> CacheObject \<Rightarrow> bool" for X objs where
  base: "b \<in> set objs \<Longrightarrow> base_object_hash b = Some h \<Longrightarrow> resolves X objs b"
| delta: "d \<in> set objs \<Longrightarrow> key_of (co_info d) = Some k \<Longrightarrow> resolves X objs b \<Longrightarrow> has_key b k \<Longrightarrow>
    rebuild X d b = Inr obj \<Longrightarrow> resolves X objs obj"

text \<open>The packs the theorems are about: no two entries start at the same offset, no two objects have the
  same id, and every entry can be resolved inside the pack.\<close>

definition pack_ok :: "Crates \<Rightarrow> CacheObject list \<Rightarrow> bool" where
  "pack_ok X objs \<longleftrightarrow> distinct (map co_offset objs) \<and>
     (\<forall>x y. resolves X objs x \<longrightarrow> resolves X objs y \<longrightarrow> base_object_hash x = base_object_hash y \<longrightarrow>
        co_offset x = co_offset y) \<and>
     (\<forall>e \<in> set objs. \<exists>x. resolves X objs x \<and> co_offset x = co_offset e)"

lemma key_of_None_iff: "key_of (co_info d) = None \<longleftrightarrow> (\<exists>h. base_object_hash d = Some h)"
  by (cases "co_info d") (simp_all add: base_object_hash.simps)

lemma rebuild_result:
  assumes "rebuild X d b = Inr obj"
  shows "co_offset obj = co_offset d" "\<exists>h. base_object_hash obj = Some h"
proof -
  obtain result kh where "finish_rebuild X d b kh result = Inr obj"
    using assms by (auto simp: rebuild_def rebuild_delta_with_hash_def rebuild_zstdelta_with_hash_def
        and_then_eq_Inr_iff split: CacheObjectInfo.splits)
  then show "co_offset obj = co_offset d" "\<exists>h. base_object_hash obj = Some h"
    by (auto simp: finish_rebuild_def Let_def and_then_eq_Inr_iff base_object_hash.simps)
qed

lemma resolves_hash: "resolves X objs x \<Longrightarrow> \<exists>h. base_object_hash x = Some h"
  by (induction rule: resolves.induct) (auto dest: rebuild_result)

lemma resolves_offset: "resolves X objs x \<Longrightarrow> \<exists>e \<in> set objs. co_offset e = co_offset x"
  by (induction rule: resolves.induct) (force simp: rebuild_result(1))+

lemma pack_okD:
  assumes "pack_ok X objs"
  shows "distinct (map co_offset objs)"
    and "resolves X objs x \<Longrightarrow> resolves X objs y \<Longrightarrow> base_object_hash x = base_object_hash y \<Longrightarrow> co_offset x = co_offset y"
    and "e \<in> set objs \<Longrightarrow> \<exists>x. resolves X objs x \<and> co_offset x = co_offset e"
  using assms unfolding pack_ok_def by blast+

lemma same_offset_same_entry:
  "distinct (map co_offset objs) \<Longrightarrow> d \<in> set objs \<Longrightarrow> e \<in> set objs \<Longrightarrow> co_offset d = co_offset e \<Longrightarrow> d = e"
  by (meson distinct_map inj_onD)

lemma resolves_unique:
  assumes "pack_ok X objs" "resolves X objs x" "resolves X objs y" "co_offset x = co_offset y"
  shows "x = y"
  using assms(2-4)
proof (induction arbitrary: y rule: resolves.induct)
  case (base b h)
  have d: "distinct (map co_offset objs)" by (rule pack_okD(1)[OF assms(1)])
  from base(3) show ?case
  proof cases
    case base2: (base h')
    then show ?thesis using same_offset_same_entry[OF d] base by metis
  next
    case (delta d' k b')
    then have "co_offset d' = co_offset b" using base rebuild_result(1) by simp
    then have "d' = b" using same_offset_same_entry[OF d] delta base by blast
    then show ?thesis using delta base key_of_None_iff[of b] by simp
  qed
next
  case (delta d k b obj)
  have ds: "distinct (map co_offset objs)" by (rule pack_okD(1)[OF assms(1)])
  from delta(7) show ?case
  proof cases
    case (base h')
    then have "y = d"
      using same_offset_same_entry[OF ds _ delta.hyps(1), of y] delta.prems(2) rebuild_result(1)[OF delta.hyps(5)] by simp
    then show ?thesis using base delta.hyps(2) key_of_None_iff[of d] by simp
  next
    case d2: (delta d' k' b')
    then have "d' = d"
      using same_offset_same_entry[OF ds _ delta.hyps(1), of d'] delta.prems(2)
        rebuild_result(1)[OF delta.hyps(5)] rebuild_result(1)[OF d2(5)] by simp
    then have k: "has_key b' k" using d2(2,4) delta.hyps(2) by simp
    have "co_offset b = co_offset b'"
    proof (cases k)
      case (K_Offset off)
      then show ?thesis using k delta.hyps(4) by simp
    next
      case (K_Hash h)
      then have "base_object_hash b = base_object_hash b'" using k delta.hyps(4) by simp
      then show ?thesis by (rule pack_okD(2)[OF assms(1) delta(3) d2(3)])
    qed
    then have "b = b'" by (rule delta.IH[OF d2(3)])
    then show ?thesis using d2(5) delta.hyps(5) \<open>d' = d\<close> by simp
  qed
qed

lemma resolves_key_unique:
  assumes "pack_ok X objs" "resolves X objs x" "resolves X objs y" "has_key x k" "has_key y k"
  shows "x = y"
proof -
  have "co_offset x = co_offset y"
    using assms pack_okD(2)[OF assms(1-3)] by (cases k) auto
  then show ?thesis using resolves_unique assms by blast
qed

text \<open>The right base of an entry rebuilds it.\<close>

lemma rebuild_ok:
  assumes "pack_ok X objs" "d \<in> set objs" "key_of (co_info d) = Some k" "resolves X objs b" "has_key b k"
  shows "\<exists>obj. rebuild X d b = Inr obj \<and> resolves X objs obj \<and> co_offset obj = co_offset d"
proof -
  have ds: "distinct (map co_offset objs)" by (rule pack_okD(1)[OF assms(1)])
  obtain x where x: "resolves X objs x" "co_offset x = co_offset d"
    using pack_okD(3)[OF assms(1,2)] by blast
  from x(1) show ?thesis
  proof cases
    case (base h)
    then have "x = d" using same_offset_same_entry[OF ds _ assms(2)] x(2) by blast
    then show ?thesis using base assms(3) key_of_None_iff[of d] by simp
  next
    case (delta d' k' b')
    then have "d' = d" using same_offset_same_entry[OF ds _ assms(2)] x(2) rebuild_result(1) by metis
    then have "b' = b" using delta assms resolves_key_unique[OF assms(1), of b' b k] by simp
    then show ?thesis using delta \<open>d' = d\<close> x by blast
  qed
qed


section \<open>Steps\<close>

lemma decode_step_cases [consumes 1, case_names reading working]:
  assumes "decode_step p s s'"
  obtains obj rest where "ds_input s = obj # rest" "s' = reader_step p obj (s\<lparr>ds_input := rest\<rparr>)"
  | xs t ys where "ds_pool s = xs @ t # ys" "s' = task_step p t (s\<lparr>ds_pool := xs @ ys\<rparr>)"
  using assms
proof cases
  case (reading obj rest)
  then show ?thesis using that(1) by blast
next
  case (working i)
  have "ds_pool s = take i (ds_pool s) @ ds_pool s ! i # drop (Suc i) (ds_pool s)"
    using working(2) by (rule id_take_nth_drop)
  from that(2)[OF this] show ?thesis using working(1) by (simp add: pick_task_def)
qed

lemma spawn_simps [simp]:
  "ds_input (spawn ts s) = ds_input s" "ds_pool (spawn ts s) = ds_pool s @ ts"
  "ds_waitlist (spawn ts s) = ds_waitlist s" "ds_caches (spawn ts s) = ds_caches s"
  "ds_retention (spawn ts s) = ds_retention s" "ds_error (spawn ts s) = ds_error s"
  "ds_emitted (spawn ts s) = ds_emitted s" "ds_panicked (spawn ts s) = ds_panicked s"
  "ds_done (spawn ts s) = ds_done s"
  by (simp_all add: spawn_def)

lemma run_callback_simps [simp]:
  "ds_input (run_callback p obj s) = ds_input s" "ds_pool (run_callback p obj s) = ds_pool s"
  "ds_waitlist (run_callback p obj s) = ds_waitlist s" "ds_caches (run_callback p obj s) = ds_caches s"
  "ds_retention (run_callback p obj s) = ds_retention s" "ds_error (run_callback p obj s) = ds_error s"
  "ds_done (run_callback p obj s) = ds_done s"
  by (simp_all add: run_callback_def worker_panic_def split: sum.split)

lemma consume_dependency_simps [simp]:
  "ds_input (consume_dependency k s) = ds_input s" "ds_pool (consume_dependency k s) = ds_pool s"
  "ds_waitlist (consume_dependency k s) = ds_waitlist s" "ds_caches (consume_dependency k s) = ds_caches s"
  "ds_retention (consume_dependency k s) = map_option (consume_key k) (ds_retention s)"
  "ds_error (consume_dependency k s) = ds_error s" "ds_emitted (consume_dependency k s) = ds_emitted s"
  "ds_panicked (consume_dependency k s) = ds_panicked s" "ds_done (consume_dependency k s) = ds_done s"
  by (simp_all add: consume_dependency_def)

lemma maybe_remove_simps [simp]:
  "ds_input (maybe_remove_released_base b s) = ds_input s" "ds_pool (maybe_remove_released_base b s) = ds_pool s"
  "ds_waitlist (maybe_remove_released_base b s) = ds_waitlist s"
  "ds_retention (maybe_remove_released_base b s) = ds_retention s"
  "ds_error (maybe_remove_released_base b s) = ds_error s"
  "ds_emitted (maybe_remove_released_base b s) = ds_emitted s"
  "ds_panicked (maybe_remove_released_base b s) = ds_panicked s"
  "ds_done (maybe_remove_released_base b s) = ds_done s"
  by (simp_all add: maybe_remove_released_base_def split: option.split)

section \<open>Safety\<close>

definition cache_ok :: "Caches \<Rightarrow> bool" where
  "cache_ok c \<longleftrightarrow> (if is_unbounded c then unbounded_inv c else bounded_inv c)"

lemma cache_get_iff: "cache_ok c \<Longrightarrow> cache_get k c = Some b \<longleftrightarrow> b \<in> caches_content c \<and> has_key b k"
  by (auto simp: cache_ok_def unbounded_caches.get_iff bounded_caches.get_iff split: if_splits)

lemma is_unbounded_insert [simp]: "is_unbounded (cache_insert off h b c) = is_unbounded c"
  by (simp add: cache_insert_def is_unbounded_def)

lemma is_unbounded_remove [simp]: "is_unbounded (remove_unbounded off h c) = is_unbounded c"
  by (simp add: remove_unbounded_def is_unbounded_def)

lemma cache_ok_insert:
  "cache_ok c \<Longrightarrow> base_object_hash b = Some h \<Longrightarrow> fresh_in (caches_content c) b \<Longrightarrow>
   cache_ok (cache_insert (co_offset b) h b c) \<and>
   caches_content (cache_insert (co_offset b) h b c) = insert b (caches_content c)"
  by (auto simp: cache_ok_def unbounded_caches.put_inv bounded_caches.put_inv unbounded_caches.put_content
      bounded_caches.put_content split: if_splits)

fun base_ok :: "Crates \<Rightarrow> CacheObject list \<Rightarrow> CacheObject \<Rightarrow> CacheObject \<Rightarrow> bool" where
  "base_ok X objs d b \<longleftrightarrow> resolves X objs b \<and> d \<in> set objs \<and> (\<exists>k. key_of (co_info d) = Some k \<and> has_key b k)"

fun task_ok :: "Crates \<Rightarrow> CacheObject list \<Rightarrow> task \<Rightarrow> bool" where
  "task_ok X objs (T_Store b) \<longleftrightarrow> resolves X objs b"
| "task_ok X objs (T_Insert b) \<longleftrightarrow> resolves X objs b"
| "task_ok X objs (T_Take b late) \<longleftrightarrow> resolves X objs b"
| "task_ok X objs (T_TakeRef b late ds) \<longleftrightarrow> resolves X objs b \<and> (\<forall>d \<in> set ds. base_ok X objs d b)"
| "task_ok X objs (T_Depend d) \<longleftrightarrow> d \<in> set objs \<and> key_of (co_info d) \<noteq> None"
| "task_ok X objs (T_Release k d b) \<longleftrightarrow> base_ok X objs d b \<and> key_of (co_info d) = Some k"
| "task_ok X objs (T_Remove d b) \<longleftrightarrow> base_ok X objs d b"
| "task_ok X objs (T_Wait k d) \<longleftrightarrow> d \<in> set objs \<and> key_of (co_info d) = Some k"
| "task_ok X objs (T_Consume k) \<longleftrightarrow> True"
| "task_ok X objs (T_Recheck k) \<longleftrightarrow> True"
| "task_ok X objs (T_Wake b) \<longleftrightarrow> resolves X objs b"
| "task_ok X objs (T_Rebuild d b) \<longleftrightarrow> base_ok X objs d b"

definition waiters_ok :: "CacheObject list \<Rightarrow> Waitlist \<Rightarrow> bool" where
  "waiters_ok objs w \<longleftrightarrow> (\<forall>k. \<forall>d \<in> set (waiting k w). d \<in> set objs \<and> key_of (co_info d) = Some k)"

definition safe :: "Crates \<Rightarrow> CacheObject list \<Rightarrow> DecodeState \<Rightarrow> bool" where
  "safe X objs s \<longleftrightarrow> (\<forall>t \<in> set (ds_pool s). task_ok X objs t) \<and> waiters_ok objs (ds_waitlist s) \<and>
     cache_ok (ds_caches s) \<and> (\<forall>b \<in> caches_content (ds_caches s). resolves X objs b) \<and>
     (\<forall>b \<in> set (ds_done s). resolves X objs b) \<and> set (ds_input s) \<subseteq> set objs \<and>
     \<not> ds_panicked s \<and> ds_error s = None"

lemma to_entry_metadata_base: "base_object_hash b = Some h \<Longrightarrow> \<exists>m. to_entry_metadata b = Inr m"
  by (cases "co_info b") (simp_all add: base_object_hash.simps to_entry_metadata_def)

lemma run_callback_ok: "resolves X objs b \<Longrightarrow> ds_panicked (run_callback p b s) = ds_panicked s"
  using resolves_hash[of X objs b] to_entry_metadata_base[of b] by (auto simp: run_callback_def)

lemma remove_absent:
  assumes "unbounded_inv c" "fresh_in (caches_content c) b" "b \<notin> caches_content c" "base_object_hash b = Some h"
  shows "remove_unbounded (co_offset b) h c = c"
proof -
  have no_key: "\<not> has_key b' k" if "b' \<in> caches_content c" "has_key b k" for b' k
    using that assms(2,3) unfolding fresh_in_def by blast
  have ok: "lru_ok c" using assms(1) by (simp add: unbounded_inv_def)
  have "map_of (cs_lru c) h = None"
    using lru_okD(1)[OF ok, of h] no_key[of _ "K_Hash h"] assms(4) by (cases "map_of (cs_lru c) h") auto
  moreover have "map_of (cs_unbounded_offset_cache c) (co_offset b) = None"
    using assms(1) no_key[of _ "K_Offset (co_offset b)"] unfolding unbounded_inv_def
    by (cases "map_of (cs_unbounded_offset_cache c) (co_offset b)") auto
  moreover have "map_of (cs_unbounded_cache c) h = None"
    using assms(1) calculation(1) by (simp add: unbounded_inv_def)
  ultimately show ?thesis
    by (simp add: remove_unbounded_def map_of_eq_None_iff)
qed

lemma remove_cache:
  assumes "cache_ok c" "fresh_in (caches_content c) b" "base_object_hash b = Some h"
  shows "cache_ok (remove_unbounded (co_offset b) h c) \<and>
    caches_content (remove_unbounded (co_offset b) h c) \<subseteq> caches_content c"
proof (cases "is_unbounded c")
  case True
  then have c: "unbounded_inv c" using assms(1) by (simp add: cache_ok_def)
  show ?thesis
  proof (cases "b \<in> caches_content c")
    case b: True
    then show ?thesis
      using True unbounded_caches.del_inv[OF c b assms(3)] unbounded_caches.del_content[OF c b assms(3)]
      by (auto simp: cache_ok_def)
  next
    case False
    then show ?thesis using remove_absent[OF c assms(2) False assms(3)] assms(1) by simp
  qed
next
  case False
  then show ?thesis using assms(1) by (simp add: remove_unbounded_def)
qed

lemma maybe_remove_cache:
  assumes "cache_ok (ds_caches s)" "fresh_in (caches_content (ds_caches s)) b"
  shows "cache_ok (ds_caches (maybe_remove_released_base b s)) \<and>
    caches_content (ds_caches (maybe_remove_released_base b s)) \<subseteq> caches_content (ds_caches s)"
  using assms remove_cache by (auto simp: maybe_remove_released_base_def split: option.splits)

lemma resolved_fresh:
  "pack_ok X objs \<Longrightarrow> (\<forall>b \<in> C. resolves X objs b) \<Longrightarrow> resolves X objs b \<Longrightarrow> fresh_in C b"
  unfolding fresh_in_def by (blast intro: resolves_key_unique)

lemma waiters_ok_take:
  "waiters_ok objs w \<Longrightarrow> waiters_ok objs (snd (take_by_offset off w))"
  "waiters_ok objs w \<Longrightarrow> waiters_ok objs (snd (take_by_ref h w))"
  by (auto simp: waiters_ok_def take_by_offset_waiting take_by_ref_waiting split: if_splits)

lemma waiters_ok_insert:
  "waiters_ok objs w \<Longrightarrow> d \<in> set objs \<Longrightarrow> key_of (co_info d) = Some k \<Longrightarrow> waiters_ok objs (wait_insert k d w)"
  by (auto simp: waiters_ok_def split: if_splits)

lemma waiters_base_ok:
  "waiters_ok objs w \<Longrightarrow> resolves X objs b \<Longrightarrow> has_key b k \<Longrightarrow> d \<in> set (waiting k w) \<Longrightarrow> base_ok X objs d b"
  by (auto simp: waiters_ok_def)

declare waiting.simps [simp del] base_ok.simps [simp del]

lemma safe_task:
  assumes "pack_ok X objs" "dp_crates p = X" "safe X objs s" "ds_pool s = xs @ t # ys"
  shows "safe X objs (task_step p t (s\<lparr>ds_pool := xs @ ys\<rparr>))"
proof -
  have t: "task_ok X objs t" and rest: "\<forall>t \<in> set (xs @ ys). task_ok X objs t"
    and w: "waiters_ok objs (ds_waitlist s)" and c: "cache_ok (ds_caches s)"
    and cont: "\<forall>b \<in> caches_content (ds_caches s). resolves X objs b"
    and others: "\<forall>b \<in> set (ds_done s). resolves X objs b" "set (ds_input s) \<subseteq> set objs" "\<not> ds_panicked s"
      "ds_error s = None"
    using assms(3,4) by (auto simp: safe_def)
  note fresh = resolved_fresh[OF assms(1) cont]
  show ?thesis
  proof (cases t)
    case (T_Store obj)
    obtain h where "base_object_hash obj = Some h" using resolves_hash t T_Store by fastforce
    then show ?thesis using t rest w c cont others T_Store by (auto simp: safe_def split: option.split)
  next
    case (T_Insert obj)
    then have r: "resolves X objs obj" using t by simp
    obtain h where h: "base_object_hash obj = Some h" using resolves_hash[OF r] by blast
    then show ?thesis using T_Insert t rest w c cont others cache_ok_insert[OF c h fresh[OF r]] r
      by (auto simp: safe_def run_callback_ok[OF r])
  next
    case (T_Take obj late)
    then show ?thesis using t rest c cont others waiters_ok_take(1)[OF w]
        waiters_base_ok[OF w, of X obj "K_Offset (co_offset obj)"]
      by (auto simp: safe_def case_prod_beta take_by_offset_waiting(1))
  next
    case (T_TakeRef obj late objs')
    then have r: "resolves X objs obj" using t by simp
    obtain h where h: "base_object_hash obj = Some h" using resolves_hash[OF r] by blast
    then show ?thesis using T_TakeRef t rest c cont others waiters_ok_take(2)[OF w]
        waiters_base_ok[OF w r, of "K_Hash h"] r
      by (auto simp: safe_def case_prod_beta take_by_ref_waiting(1) process_waitlist_objects_def
          run_callback_ok[OF r] Let_def)
  next
    case (T_Depend d)
    then show ?thesis using t rest w c cont others
      by (auto simp: safe_def cache_get_iff base_ok.simps split: option.split)
  next
    case (T_Release k d b)
    then show ?thesis using t rest w c cont others by (auto simp: safe_def)
  next
    case (T_Remove d b)
    then show ?thesis using t rest w cont others maybe_remove_cache[of "s\<lparr>ds_pool := xs @ ys\<rparr>" b] fresh[of b] c
      by (auto simp: safe_def base_ok.simps)
  next
    case (T_Wait k d)
    then show ?thesis using t rest c cont others waiters_ok_insert[OF w] by (auto simp: safe_def)
  next
    case (T_Consume k)
    then show ?thesis using t rest w c cont others by (auto simp: safe_def)
  next
    case (T_Recheck k)
    then show ?thesis using t rest w c cont others by (auto simp: safe_def cache_get_iff split: option.split)
  next
    case (T_Wake b)
    then show ?thesis using t rest w cont others maybe_remove_cache[of "s\<lparr>ds_pool := xs @ ys\<rparr>" b] fresh[of b] c
      by (auto simp: safe_def base_ok.simps)
  next
    case (T_Rebuild d b)
    then obtain k where "key_of (co_info d) = Some k" "d \<in> set objs" "resolves X objs b" "has_key b k"
      using t by (auto simp: base_ok.simps)
    then obtain obj where "rebuild X d b = Inr obj" "resolves X objs obj"
      using rebuild_ok[OF assms(1)] by blast
    then show ?thesis using T_Rebuild t rest w c cont others assms(2) by (auto simp: safe_def)
  qed
qed


lemma safe_reader:
  assumes "pack_ok X objs" "safe X objs s" "ds_input s = obj # rest"
  shows "safe X objs (reader_step p obj (s\<lparr>ds_input := rest\<rparr>))"
proof -
  have obj: "obj \<in> set objs" using assms(2,3) by (auto simp: safe_def)
  show ?thesis
  proof (cases "base_object_hash obj")
    case None
    then have "key_of (co_info obj) \<noteq> None" using key_of_None_iff[of obj] by simp
    then show ?thesis using assms None obj by (auto simp: reader_step_def safe_def)
  next
    case (Some h)
    then have "resolves X objs obj" by (rule resolves.base[OF obj])
    then show ?thesis using assms Some by (auto simp: reader_step_def safe_def Let_def)
  qed
qed

lemma safe_step:
  assumes "decode_step p s s'" "pack_ok (dp_crates p) objs" "safe (dp_crates p) objs s"
  shows "safe (dp_crates p) objs s'"
  using assms by (cases rule: decode_step_cases) (auto intro: safe_reader safe_task)

lemma caches_new_ok: "cache_ok (Caches_new m)" "caches_content (Caches_new m) = {}"
  by (auto simp: cache_ok_def unbounded_inv_def bounded_inv_def lru_ok_def caches_content_def Caches_new_def)

lemma waiting_new [simp]: "waiting k Waitlist_new = []"
  by (cases k) (simp_all add: waiting.simps Waitlist_new_def)

lemma safe_init: "safe X objs (decode_init objs m ret)"
  by (simp add: safe_def decode_init_def caches_new_ok waiters_ok_def)

section \<open>Where the entries are\<close>

fun carried :: "task \<Rightarrow> CacheObject list" where
  "carried (T_Depend d) = [d]"
| "carried (T_Release k d b) = [d]"
| "carried (T_Remove d b) = [d]"
| "carried (T_Wait k d) = [d]"
| "carried (T_Rebuild d b) = [d]"
| "carried (T_TakeRef b late ds) = ds"
| "carried _ = []"

definition all_waiting :: "Waitlist \<Rightarrow> CacheObject list" where
  "all_waiting w = concat (map snd (map_offset w)) @ concat (map snd (map_ref w))"

definition waitlist_distinct :: "Waitlist \<Rightarrow> bool" where
  "waitlist_distinct w \<longleftrightarrow> distinct (map fst (map_offset w)) \<and> distinct (map fst (map_ref w)) \<and>
     [] \<notin> snd ` set (map_offset w) \<and> [] \<notin> snd ` set (map_ref w)"

lemma mset_push_waiter:
  "mset (concat (map snd (push_waiter k d m))) = add_mset d (mset (concat (map snd m)))"
  unfolding push_waiter_def by (induction m) (auto split: option.splits)

lemma mset_delete_waiters:
  "distinct (map fst m) \<Longrightarrow> map_of m k = Some ds \<Longrightarrow>
   mset (concat (map snd m)) = mset ds + mset (concat (map snd (AList.delete k m)))"
  by (induction m) (auto simp: image_iff split: if_splits)

lemma distinct_push_waiter: "distinct (map fst m) \<Longrightarrow> distinct (map fst (push_waiter k d m))"
  unfolding push_waiter_def by (rule distinct_update)

lemma nonempty_push_waiter: "[] \<notin> snd ` set m \<Longrightarrow> [] \<notin> snd ` set (push_waiter k d m)"
  unfolding push_waiter_def by (induction m) (auto split: option.splits)

lemma nonempty_delete_waiters: "[] \<notin> snd ` set m \<Longrightarrow> [] \<notin> snd ` set (AList.delete k m)"
  by (auto simp: AList.delete_eq)

lemma waitlist_insert:
  "mset (all_waiting (wait_insert k d w)) = add_mset d (mset (all_waiting w))"
  "waitlist_distinct w \<Longrightarrow> waitlist_distinct (wait_insert k d w)"
proof -
  show "mset (all_waiting (wait_insert k d w)) = add_mset d (mset (all_waiting w))"
    by (cases k) (simp_all add: all_waiting_def insert_offset_def insert_ref_def mset_push_waiter)
  show "waitlist_distinct w \<Longrightarrow> waitlist_distinct (wait_insert k d w)"
    by (cases k) (simp_all add: waitlist_distinct_def insert_offset_def insert_ref_def distinct_push_waiter nonempty_push_waiter)
qed

lemma waitlist_take_offset:
  assumes "waitlist_distinct w"
  shows "mset (all_waiting w) = mset (fst (take_by_offset off w)) + mset (all_waiting (snd (take_by_offset off w)))"
    "waitlist_distinct (snd (take_by_offset off w))"
proof (atomize (full), cases "map_of (map_offset w) off")
  case (Some ds)
  then show "mset (all_waiting w) = mset (fst (take_by_offset off w)) + mset (all_waiting (snd (take_by_offset off w))) \<and>
      waitlist_distinct (snd (take_by_offset off w))"
    using assms mset_delete_waiters[OF _ Some]
    by (simp add: take_by_offset_def all_waiting_def waitlist_distinct_def distinct_delete nonempty_delete_waiters)
qed (use assms in \<open>simp add: take_by_offset_def\<close>)

lemma waitlist_take_ref:
  assumes "waitlist_distinct w"
  shows "mset (all_waiting w) = mset (fst (take_by_ref h w)) + mset (all_waiting (snd (take_by_ref h w)))"
    "waitlist_distinct (snd (take_by_ref h w))"
proof (atomize (full), cases "map_of (map_ref w) h")
  case (Some ds)
  then show "mset (all_waiting w) = mset (fst (take_by_ref h w)) + mset (all_waiting (snd (take_by_ref h w))) \<and>
      waitlist_distinct (snd (take_by_ref h w))"
    using assms mset_delete_waiters[OF _ Some]
    by (simp add: take_by_ref_def all_waiting_def waitlist_distinct_def distinct_delete nonempty_delete_waiters)
qed (use assms in \<open>simp add: take_by_ref_def\<close>)

definition conserved :: "CacheObject list \<Rightarrow> DecodeState \<Rightarrow> bool" where
  "conserved objs s \<longleftrightarrow> waitlist_distinct (ds_waitlist s) \<and>
     image_mset co_offset (mset objs) = image_mset co_offset
       (mset (ds_input s) + mset (concat (map carried (ds_pool s))) + mset (all_waiting (ds_waitlist s))
        + mset (ds_done s))"

lemma conserved_task:
  assumes "safe X objs s" "pack_ok X objs" "dp_crates p = X" "conserved objs s" "ds_pool s = xs @ t # ys"
  shows "conserved objs (task_step p t (s\<lparr>ds_pool := xs @ ys\<rparr>))"
proof -
  have t: "task_ok X objs t" using assms(1,5) by (simp add: safe_def)
  have wd: "waitlist_distinct (ds_waitlist s)" using assms(4) by (simp add: conserved_def)
  have eq: "image_mset co_offset (mset objs) = image_mset co_offset
       (mset (ds_input s) + mset (carried t) + mset (concat (map carried (xs @ ys)))
        + mset (all_waiting (ds_waitlist s)) + mset (ds_done s))"
    using assms(4,5) by (simp add: conserved_def ac_simps)
  show ?thesis
  proof (cases t)
    case (T_Store obj)
    obtain h where "base_object_hash obj = Some h" using resolves_hash t T_Store by fastforce
    then show ?thesis using eq wd T_Store by (auto simp: conserved_def split: option.split)
  next
    case (T_Insert obj)
    obtain h where "base_object_hash obj = Some h" using resolves_hash t T_Insert by fastforce
    then show ?thesis using eq wd T_Insert by (simp add: conserved_def)
  next
    case (T_Take obj late)
    then show ?thesis using eq waitlist_take_offset[OF wd, of "co_offset obj"]
      by (simp add: conserved_def case_prod_beta ac_simps)
  next
    case (T_TakeRef obj late ds)
    obtain h where "base_object_hash obj = Some h" using resolves_hash t T_TakeRef by fastforce
    then show ?thesis using T_TakeRef eq waitlist_take_ref[OF wd, of h]
      by (simp add: conserved_def case_prod_beta ac_simps Let_def process_waitlist_objects_def comp_def)
  next
    case (T_Rebuild d b)
    then obtain k where "key_of (co_info d) = Some k" "d \<in> set objs" "resolves X objs b" "has_key b k"
      using t by (auto simp: base_ok.simps)
    then obtain obj where "rebuild X d b = Inr obj" "co_offset obj = co_offset d"
      using rebuild_ok[OF assms(2)] by blast
    then show ?thesis using T_Rebuild eq wd assms(3) by (simp add: conserved_def)
  qed (use eq wd t in \<open>auto simp: conserved_def waitlist_insert split: option.split\<close>)
qed

lemma conserved_reader:
  assumes "conserved objs s" "ds_input s = obj # rest"
  shows "conserved objs (reader_step p obj (s\<lparr>ds_input := rest\<rparr>))"
  using assms by (auto simp: conserved_def reader_step_def Let_def split: option.split)

lemma conserved_step:
  assumes "decode_step p s s'" "pack_ok (dp_crates p) objs" "safe (dp_crates p) objs s" "conserved objs s"
  shows "conserved objs s'"
  using assms by (cases rule: decode_step_cases) (auto intro: conserved_reader conserved_task)

lemma conserved_init: "conserved objs (decode_init objs m ret)"
  by (simp add: conserved_def decode_init_def waitlist_distinct_def all_waiting_def Waitlist_new_def)

end
