(* ===== verification/Pack_Decode_Live.thy ===== *)
theory Pack_Decode_Live
  imports Pack_Decode_Inv
begin

text \<open>
  Every schedule of the decoder resolves the whole pack: no wake-up is lost when there are no
  dependency counts or the cache has a memory limit (nothing is evicted from the index then), the number of
  steps is bounded, and no state but a finished one is stuck.  Without a memory limit the dependency
  counts let a base be removed between the two look-ups of a waiting delta; a schedule that loses a
  wake-up this way is exhibited.
\<close>

section \<open>Dependency counts\<close>

fun dep_count :: "dep_key \<Rightarrow> DecodeRetention \<Rightarrow> nat" where
  "dep_count (K_Offset off) r = (case offset_remaining r off of None \<Rightarrow> 0 | Some n \<Rightarrow> n)"
| "dep_count (K_Hash h) r = (case hash_remaining r h of None \<Rightarrow> 0 | Some n \<Rightarrow> n)"

definition retention_wf :: "DecodeRetention \<Rightarrow> bool" where
  "retention_wf r \<longleftrightarrow> (\<forall>off. offset_remaining r off \<noteq> Some 0) \<and> (\<forall>h. hash_remaining r h \<noteq> Some 0)"

definition retention_for :: "CacheObject list \<Rightarrow> DecodeRetention \<Rightarrow> bool" where
  "retention_for objs r \<longleftrightarrow> retention_wf r \<and>
     (\<forall>k. dep_count k r = length (filter (\<lambda>d. key_of (co_info d) = Some k) objs))"

lemmas retention_ops = consume_offset_dependency_def consume_hash_dependency_def unbump_def

lemma dep_count_consume:
  "dep_count k (consume_key k' r) = (if k = k' then dep_count k r - 1 else dep_count k r)"
  by (cases k; cases k') (auto simp: retention_ops split: option.splits)

lemma retention_wf_consume: "retention_wf r \<Longrightarrow> retention_wf (consume_key k r)"
  by (cases k) (auto simp: retention_wf_def retention_ops split: option.splits)

lemma should_retain_iff:
  "retention_wf r \<Longrightarrow> should_retain off h r \<longleftrightarrow> dep_count (K_Offset off) r \<noteq> 0 \<or> dep_count (K_Hash h) r \<noteq> 0"
  unfolding should_retain_def retention_wf_def
  by (cases "offset_remaining r off"; cases "hash_remaining r h") (simp_all, (metis gr0I)+)

lemma not_retained:
  assumes "retention_wf r" "\<not> should_retain (co_offset b) h r" "base_object_hash b = Some h" "has_key b k"
  shows "dep_count k r = 0"
  using assms by (cases k) (auto simp: should_retain_iff)

fun unconsumed :: "task \<Rightarrow> dep_key option" where
  "unconsumed (T_Depend d) = key_of (co_info d)"
| "unconsumed (T_Release k d b) = Some k"
| "unconsumed (T_Wait k d) = Some k"
| "unconsumed (T_Consume k) = Some k"
| "unconsumed _ = None"

definition counted_deps :: "DecodeState \<Rightarrow> bool" where
  "counted_deps s \<longleftrightarrow> (\<forall>r. ds_retention s = Some r \<longrightarrow> retention_wf r \<and>
     (\<forall>k. dep_count k r = length (filter (\<lambda>d. key_of (co_info d) = Some k) (ds_input s))
                        + length (filter (\<lambda>t. unconsumed t = Some k) (ds_pool s))))"

lemma counted_wf: "counted_deps s \<Longrightarrow> ds_retention s = Some r \<Longrightarrow> retention_wf r"
  by (simp add: counted_deps_def)

lemma counted_task:
  assumes "safe X objs s" "counted_deps s" "ds_pool s = xs @ t # ys"
  shows "counted_deps (task_step p t (s\<lparr>ds_pool := xs @ ys\<rparr>))"
proof (cases "ds_retention s")
  case None
  then have "ds_retention (task_step p t (s\<lparr>ds_pool := xs @ ys\<rparr>)) = None"
    by (cases t) (auto simp: Let_def case_prod_beta worker_panic_def process_waitlist_objects_def split: option.split sum.split)
  then show ?thesis by (simp add: counted_deps_def)
next
  case (Some r)
  have t: "task_ok X objs t" using assms(1,3) by (simp add: safe_def)
  have cnt: "retention_wf r" "dep_count k r = length (filter (\<lambda>d. key_of (co_info d) = Some k) (ds_input s))
      + length (filter (\<lambda>t. unconsumed t = Some k) (xs @ ys)) + (if unconsumed t = Some k then 1 else 0)" for k
    using assms(2,3) Some by (auto simp: counted_deps_def)
  show ?thesis
  proof (cases t)
    case (T_Store obj)
    obtain h where "base_object_hash obj = Some h" using resolves_hash t T_Store by fastforce
    then show ?thesis using cnt Some T_Store by (auto simp: counted_deps_def)
  next
    case (T_Insert obj)
    obtain h where "base_object_hash obj = Some h" using resolves_hash t T_Insert by fastforce
    then show ?thesis using cnt Some T_Insert by (simp add: counted_deps_def)
  next
    case (T_TakeRef obj late ds)
    obtain h where "base_object_hash obj = Some h" using resolves_hash t T_TakeRef by fastforce
    then show ?thesis using cnt Some T_TakeRef
      by (simp add: counted_deps_def case_prod_beta Let_def process_waitlist_objects_def filter_map comp_def)
  qed (use cnt Some t in \<open>auto simp: counted_deps_def case_prod_beta dep_count_consume retention_wf_consume
      split: option.split sum.split\<close>)
qed

lemma counted_reader:
  assumes "counted_deps s" "ds_input s = obj # rest"
  shows "counted_deps (reader_step p obj (s\<lparr>ds_input := rest\<rparr>))"
proof (cases "base_object_hash obj")
  case None
  then show ?thesis using assms by (auto simp: counted_deps_def reader_step_def)
next
  case (Some h)
  then have "key_of (co_info obj) = None" using key_of_None_iff[of obj] by simp
  then show ?thesis using assms Some by (auto simp: counted_deps_def reader_step_def Let_def)
qed

lemma counted_step:
  assumes "decode_step p s s'" "safe X objs s" "counted_deps s"
  shows "counted_deps s'"
  using assms by (cases rule: decode_step_cases) (auto intro: counted_reader counted_task)

lemma counted_init: "(\<forall>r. ret = Some r \<longrightarrow> retention_for objs r) \<Longrightarrow> counted_deps (decode_init objs m ret)"
  by (simp add: counted_deps_def decode_init_def retention_for_def)


section \<open>No lost wake-ups\<close>

definition mode_ok :: "DecodeParams \<Rightarrow> DecodeState \<Rightarrow> bool" where
  "mode_ok p s \<longleftrightarrow> \<not> dp_skip_unneeded p \<and> (ds_retention s = None \<or> \<not> is_unbounded (ds_caches s))"

lemma maybe_remove_mode [simp]: "mode_ok p s \<Longrightarrow> ds_caches (maybe_remove_released_base b s) = ds_caches s"
  by (auto simp: mode_ok_def maybe_remove_released_base_def remove_unbounded_def split: option.split)

lemma mode_step:
  assumes "decode_step p s s'" "mode_ok p s"
  shows "mode_ok p s'"
  using assms(1)
proof (cases rule: decode_step_cases)
  case (reading obj rest)
  then show ?thesis using assms(2) by (auto simp: mode_ok_def reader_step_def Let_def split: option.split)
next
  case (working xs t ys)
  then show ?thesis using assms(2)
    by (cases t) (auto simp: mode_ok_def Let_def case_prod_beta worker_panic_def process_waitlist_objects_def
        maybe_remove_released_base_def split: option.split sum.split)
qed

definition covered :: "CacheObject \<Rightarrow> dep_key \<Rightarrow> DecodeState \<Rightarrow> bool" where
  "covered b k s \<longleftrightarrow>
     T_Store b \<in> set (ds_pool s) \<or> T_Insert b \<in> set (ds_pool s) \<or> T_Wake b \<in> set (ds_pool s) \<or>
     (\<exists>late. T_Take b late \<in> set (ds_pool s)) \<or>
     (\<exists>h late ds. k = K_Hash h \<and> T_TakeRef b late ds \<in> set (ds_pool s)) \<or>
     (b \<in> caches_content (ds_caches s) \<and> (T_Consume k \<in> set (ds_pool s) \<or> T_Recheck k \<in> set (ds_pool s)))"

definition wakeable :: "DecodeState \<Rightarrow> bool" where
  "wakeable s \<longleftrightarrow> (\<forall>k b. waiting k (ds_waitlist s) \<noteq> [] \<longrightarrow> b \<in> set (ds_done s) \<longrightarrow> has_key b k \<longrightarrow> covered b k s)"

definition stored :: "DecodeState \<Rightarrow> bool" where
  "stored s \<longleftrightarrow> (\<forall>b \<in> set (ds_done s).
     T_Store b \<in> set (ds_pool s) \<or> T_Insert b \<in> set (ds_pool s) \<or> b \<in> caches_content (ds_caches s) \<or>
     (\<exists>r. ds_retention s = Some r \<and> (\<forall>k. has_key b k \<longrightarrow> dep_count k r = 0)))"

lemma stored_task:
  assumes "pack_ok X objs" "dp_crates p = X" "safe X objs s" "counted_deps s" "mode_ok p s" "stored s"
    "ds_pool s = xs @ t # ys"
  shows "stored (task_step p t (s\<lparr>ds_pool := xs @ ys\<rparr>))"
proof -
  let ?s = "s\<lparr>ds_pool := xs @ ys\<rparr>"
  have t: "task_ok X objs t" and cont: "\<forall>b \<in> caches_content (ds_caches s). resolves X objs b"
      and c: "cache_ok (ds_caches s)"
    using assms(3,7) by (auto simp: safe_def)
  have mode: "mode_ok p ?s" using assms(5) by (simp add: mode_ok_def)
  have st: "b \<in> set (ds_done s) \<Longrightarrow> T_Store b \<in> set (xs @ ys) \<or> T_Insert b \<in> set (xs @ ys) \<or> t = T_Store b \<or> t = T_Insert b \<or>
     b \<in> caches_content (ds_caches s) \<or>
     (\<exists>r. ds_retention s = Some r \<and> (\<forall>k. has_key b k \<longrightarrow> dep_count k r = 0))" for b
    using assms(6,7) by (auto simp: stored_def)
  show ?thesis
  proof (cases t)
    case (T_Store obj)
    obtain h where h: "base_object_hash obj = Some h" using resolves_hash t T_Store by fastforce
    have "ds_retention s = Some r \<Longrightarrow> \<not> should_retain (co_offset obj) h r \<Longrightarrow> has_key obj k \<Longrightarrow> dep_count k r = 0" for r k
      using counted_wf[OF assms(4)] not_retained[OF _ _ h] by blast
    then show ?thesis using st h T_Store by (fastforce simp: stored_def split: option.split)
  next
    case (T_Insert obj)
    then have r: "resolves X objs obj" using t by simp
    obtain h where h: "base_object_hash obj = Some h" using resolves_hash[OF r] by blast
    then show ?thesis using st T_Insert cache_ok_insert[OF c h resolved_fresh[OF assms(1) cont r]]
      by (fastforce simp: stored_def)
  next
    case (T_TakeRef obj late ds)
    obtain h where "base_object_hash obj = Some h" using resolves_hash t T_TakeRef by fastforce
    then show ?thesis using st T_TakeRef
      by (fastforce simp: stored_def case_prod_beta Let_def process_waitlist_objects_def)
  next
    case (T_Release k d b)
    then show ?thesis using st by (fastforce simp: stored_def dep_count_consume)
  next
    case (T_Consume k)
    then show ?thesis using st by (fastforce simp: stored_def dep_count_consume)
  next
    case (T_Rebuild d b)
    then show ?thesis using st by (fastforce simp: stored_def split: sum.split)
  qed (use st t mode in \<open>fastforce simp: stored_def case_prod_beta split: option.split\<close>)+
qed


lemma stored_reader:
  assumes "counted_deps s" "mode_ok p s" "stored s" "ds_input s = obj # rest"
  shows "stored (reader_step p obj (s\<lparr>ds_input := rest\<rparr>))"
proof (cases "base_object_hash obj")
  case None
  then show ?thesis using assms by (auto simp: stored_def reader_step_def)
next
  case (Some h)
  have skip: "\<not> should_skip_no_callback_object (dp_skip_unneeded p) kh ret off" for kh ret off
    using assms(2) by (simp add: mode_ok_def should_skip_no_callback_object_def)
  have "ds_retention s = Some r \<Longrightarrow> \<not> should_retain (co_offset obj) h r \<Longrightarrow> has_key obj k \<Longrightarrow> dep_count k r = 0" for r k
    using counted_wf[OF assms(1)] not_retained[OF _ _ Some] by blast
  then show ?thesis using assms(3) Some skip
    by (auto simp: stored_def reader_step_def Let_def should_drop_no_callback_base_def split: option.splits if_splits)
qed

lemma covered_task:
  assumes "pack_ok X objs" "dp_crates p = X" "safe X objs s" "mode_ok p s" "ds_pool s = xs @ t # ys"
    "covered b k s" "resolves X objs b" "has_key b k"
    "waiting k (ds_waitlist (task_step p t (s\<lparr>ds_pool := xs @ ys\<rparr>))) \<noteq> []"
  shows "covered b k (task_step p t (s\<lparr>ds_pool := xs @ ys\<rparr>))"
proof -
  let ?s = "s\<lparr>ds_pool := xs @ ys\<rparr>"
  have t: "task_ok X objs t" and cont: "\<forall>b \<in> caches_content (ds_caches s). resolves X objs b"
      and c: "cache_ok (ds_caches s)"
    using assms(3,5) by (auto simp: safe_def)
  have mode: "mode_ok p ?s" using assms(4) by (simp add: mode_ok_def)
  obtain h where h: "base_object_hash b = Some h" using resolves_hash[OF assms(7)] by blast
  note cov = assms(6)[unfolded covered_def assms(5)]
  note ne = assms(9)
  show ?thesis
  proof (cases t)
    case (T_Store obj)
    then obtain h' where "base_object_hash obj = Some h'" using resolves_hash t by fastforce
    then show ?thesis using cov T_Store by (auto simp: covered_def split: option.split)
  next
    case (T_Insert obj)
    then have r: "resolves X objs obj" using t by simp
    obtain h' where h': "base_object_hash obj = Some h'" using resolves_hash[OF r] by blast
    then show ?thesis using cov T_Insert cache_ok_insert[OF c h' resolved_fresh[OF assms(1) cont r]]
      by (auto simp: covered_def)
  next
    case (T_Take obj late)
    then show ?thesis using cov ne assms(8)
      by (cases k) (auto simp: covered_def case_prod_beta take_by_offset_waiting split: if_splits)
  next
    case (T_TakeRef obj late ds)
    then obtain h' where "base_object_hash obj = Some h'" using resolves_hash t by fastforce
    then show ?thesis using cov ne assms(8) T_TakeRef
      by (cases k) (auto simp: covered_def case_prod_beta Let_def process_waitlist_objects_def take_by_ref_waiting
          split: if_splits)
  next
    case (T_Recheck k')
    have "cache_get k (ds_caches s) = Some b" if "b \<in> caches_content (ds_caches s)"
      using that assms(8) cache_get_iff[OF c] by simp
    then show ?thesis using cov T_Recheck by (auto simp: covered_def split: option.split)
  next
    case (T_Depend d)
    then obtain k' where "key_of (co_info d) = Some k'" using t by auto
    then show ?thesis using cov T_Depend by (auto simp: covered_def split: option.split)
  next
    case (T_Release k' d b')
    then show ?thesis using cov by (auto simp: covered_def)
  next
    case (T_Remove d b')
    then show ?thesis using cov mode by (auto simp: covered_def)
  next
    case (T_Wait k' d)
    then show ?thesis using cov by (auto simp: covered_def)
  next
    case (T_Consume k')
    then show ?thesis using cov by (auto simp: covered_def)
  next
    case (T_Wake b')
    then show ?thesis using cov mode by (auto simp: covered_def)
  next
    case (T_Rebuild d b')
    then show ?thesis using cov by (cases "rebuild (dp_crates p) d b'") (auto simp: covered_def)
  qed
qed


lemma task_step_done:
  assumes "safe X objs s" "ds_pool s = xs @ t # ys" "b \<in> set (ds_done (task_step p t (s\<lparr>ds_pool := xs @ ys\<rparr>)))"
  shows "b \<in> set (ds_done s) \<or> T_Store b \<in> set (ds_pool (task_step p t (s\<lparr>ds_pool := xs @ ys\<rparr>)))"
  using assms
  by (cases t) (auto simp: Let_def case_prod_beta worker_panic_def process_waitlist_objects_def
      split: option.splits sum.splits if_splits)

lemma task_step_waiting:
  assumes "waiting k (ds_waitlist (task_step p t s)) \<noteq> []"
  shows "waiting k (ds_waitlist s) \<noteq> [] \<or> (\<exists>d. t = T_Wait k d)"
  using assms
  by (cases t) (auto simp: Let_def case_prod_beta worker_panic_def process_waitlist_objects_def
      take_by_offset_waiting take_by_ref_waiting split: option.splits sum.splits if_splits)

lemma wakeable_task:
  assumes "pack_ok X objs" "dp_crates p = X" "safe X objs s" "counted_deps s" "mode_ok p s" "stored s"
    "wakeable s" "ds_pool s = xs @ t # ys"
  shows "wakeable (task_step p t (s\<lparr>ds_pool := xs @ ys\<rparr>))"
  unfolding wakeable_def
proof (intro allI impI)
  let ?s = "s\<lparr>ds_pool := xs @ ys\<rparr>"
  let ?s' = "task_step p t ?s"
  fix k b
  assume w: "waiting k (ds_waitlist ?s') \<noteq> []" and b: "b \<in> set (ds_done ?s')" and k: "has_key b k"
  show "covered b k ?s'"
  proof (cases "T_Store b \<in> set (ds_pool ?s')")
    case False
    then have b: "b \<in> set (ds_done s)" using task_step_done[OF assms(3,8)] b by blast
    then have r: "resolves X objs b" using assms(3) by (simp add: safe_def)
    show ?thesis
    proof (cases "waiting k (ds_waitlist s) = []")
      case False
      then have "covered b k s" using assms(7) b k by (simp add: wakeable_def)
      then show ?thesis by (rule covered_task[OF assms(1,2,3,5,8) _ r k w])
    next
      case True
      then obtain d where t: "t = T_Wait k d" using task_step_waiting[OF w] by auto
      have "dep_count k ret \<noteq> 0" if "ds_retention s = Some ret" for ret
        using assms(4,8) that t by (auto simp: counted_deps_def)
      then show ?thesis using assms(6,8) b k t unfolding stored_def covered_def by auto
    qed
  qed (simp add: covered_def)
qed

lemma wakeable_reader:
  assumes "mode_ok p s" "wakeable s" "ds_input s = obj # rest"
  shows "wakeable (reader_step p obj (s\<lparr>ds_input := rest\<rparr>))"
proof (cases "base_object_hash obj")
  case None
  then show ?thesis using assms by (auto simp: wakeable_def covered_def reader_step_def)
next
  case (Some h)
  have skip: "\<not> should_skip_no_callback_object (dp_skip_unneeded p) kh ret off" for kh ret off
    using assms(1) by (simp add: mode_ok_def should_skip_no_callback_object_def)
  have "waiting k (ds_waitlist s) = []" if "has_key obj k" "\<not> has_waiters (co_offset obj) h (ds_waitlist s)" for k
    using that Some by (cases k) (auto simp: has_waiters_def waiting.simps)
  then show ?thesis using assms(2) Some skip
    by (auto simp: wakeable_def covered_def reader_step_def Let_def should_drop_no_callback_base_def
        split: option.splits if_splits)
qed


section \<open>All invariants together\<close>

definition decode_inv :: "DecodeParams \<Rightarrow> CacheObject list \<Rightarrow> DecodeState \<Rightarrow> bool" where
  "decode_inv p objs s \<longleftrightarrow> safe (dp_crates p) objs s \<and> conserved objs s \<and> counted_deps s \<and> mode_ok p s \<and>
     stored s \<and> wakeable s"

lemma decode_inv_step:
  assumes "decode_step p s s'" "pack_ok (dp_crates p) objs" "decode_inv p objs s"
  shows "decode_inv p objs s'"
proof -
  have i: "safe (dp_crates p) objs s" "conserved objs s" "counted_deps s" "mode_ok p s" "stored s" "wakeable s"
    using assms(3) by (simp_all add: decode_inv_def)
  have "stored s' \<and> wakeable s'"
    using assms(1)
  proof (cases rule: decode_step_cases)
    case (reading obj rest)
    then show ?thesis using stored_reader[OF i(3,4,5)] wakeable_reader[OF i(4,6)] by simp
  next
    case (working xs t ys)
    then show ?thesis
      using stored_task[OF assms(2) refl i(1,3,4,5)] wakeable_task[OF assms(2) refl i(1,3,4,5,6)] by simp
  qed
  then show ?thesis
    using safe_step[OF assms(1,2) i(1)] conserved_step[OF assms(1,2) i(1,2)] counted_step[OF assms(1) i(1,3)]
      mode_step[OF assms(1) i(4)]
    by (simp add: decode_inv_def)
qed

lemma decode_inv_init:
  assumes "\<not> dp_skip_unneeded p" "ret = None \<or> m \<noteq> None" "\<And>r. ret = Some r \<Longrightarrow> retention_for objs r"
  shows "decode_inv p objs (decode_init objs m ret)"
proof -
  have "mode_ok p (decode_init objs m ret)"
    using assms(1,2) by (auto simp: mode_ok_def decode_init_def is_unbounded_def Caches_new_def)
  moreover have "stored (decode_init objs m ret) \<and> wakeable (decode_init objs m ret)"
    by (simp add: stored_def wakeable_def decode_init_def)
  ultimately show ?thesis
    using assms(3) counted_init[of ret objs m] by (simp add: decode_inv_def safe_init conserved_init)
qed

lemma decode_inv_steps:
  "(decode_step p)\<^sup>*\<^sup>* s s' \<Longrightarrow> pack_ok (dp_crates p) objs \<Longrightarrow> decode_inv p objs s \<Longrightarrow> decode_inv p objs s'"
  by (induction rule: rtranclp_induct) (auto intro: decode_inv_step)

section \<open>Finished runs\<close>

lemma alist_waiters:
  "distinct (map fst m) \<Longrightarrow> (\<exists>ds. (k, ds) \<in> set m \<and> d \<in> set ds) \<longleftrightarrow>
   d \<in> set (case map_of m k of Some objs \<Rightarrow> objs | None \<Rightarrow> [])"
  by (cases "map_of m k") (auto simp: map_of_eq_None_iff image_iff dest: eq_key_imp_eq_value)

lemma all_waiting_iff:
  assumes "waitlist_distinct w"
  shows "d \<in> set (all_waiting w) \<longleftrightarrow> (\<exists>k. d \<in> set (waiting k w))"
proof -
  have d: "distinct (map fst (map_offset w))" "distinct (map fst (map_ref w))"
    using assms by (simp_all add: waitlist_distinct_def)
  have "d \<in> set (all_waiting w) \<longleftrightarrow> (\<exists>off ds. (off, ds) \<in> set (map_offset w) \<and> d \<in> set ds) \<or>
      (\<exists>h ds. (h, ds) \<in> set (map_ref w) \<and> d \<in> set ds)"
    by (force simp: all_waiting_def)
  also have "\<dots> \<longleftrightarrow> (\<exists>off. d \<in> set (waiting (K_Offset off) w)) \<or> (\<exists>h. d \<in> set (waiting (K_Hash h) w))"
    by (simp only: waiting.simps flip: alist_waiters[OF d(1)] alist_waiters[OF d(2)])
  also have "\<dots> \<longleftrightarrow> (\<exists>k. d \<in> set (waiting k w))"
    by (metis dep_key.exhaust)
  finally show ?thesis .
qed

lemma no_waiters_empty:
  "waitlist_distinct w \<Longrightarrow> all_waiting w = [] \<Longrightarrow> map_offset w = [] \<and> map_ref w = []"
  unfolding waitlist_distinct_def all_waiting_def
  by (cases "map_offset w"; cases "map_ref w") force+

lemma finished_all_done:
  assumes "decode_inv p objs s" "pack_ok (dp_crates p) objs" "finished s" "resolves (dp_crates p) objs x"
  shows "x \<in> set (ds_done s)"
proof -
  let ?X = "dp_crates p"
  have safe: "safe ?X objs s" and cons: "conserved objs s" and wake: "wakeable s"
    using assms(1) by (simp_all add: decode_inv_def)
  have fin: "ds_input s = []" "ds_pool s = []" using assms(3) by (simp_all add: finished_def)
  have wd: "waitlist_distinct (ds_waitlist s)" using cons by (simp add: conserved_def)
  have "image_mset co_offset (mset objs) =
      image_mset co_offset (mset (all_waiting (ds_waitlist s)) + mset (ds_done s))"
    using cons fin by (simp add: conserved_def)
  then have offs: "co_offset ` set objs = co_offset ` (set (all_waiting (ds_waitlist s)) \<union> set (ds_done s))"
    by (metis set_image_mset set_mset_mset set_mset_union)
  have place: "\<exists>y. co_offset y = co_offset e \<and> (y \<in> set (all_waiting (ds_waitlist s)) \<or> y \<in> set (ds_done s))"
    if "e \<in> set objs" for e
  proof -
    have "co_offset e \<in> co_offset ` (set (all_waiting (ds_waitlist s)) \<union> set (ds_done s))"
      unfolding offs[symmetric] using that by (rule imageI)
    then show ?thesis by (auto simp: image_iff)
  qed
  have wait: "d \<in> set objs \<and> key_of (co_info d) = Some k" if "d \<in> set (waiting k (ds_waitlist s))" for d k
    using safe that by (simp add: safe_def waiters_ok_def)
  have same: "d = e" if "d \<in> set objs" "e \<in> set objs" "co_offset d = co_offset e" for d e
    using same_offset_same_entry[OF pack_okD(1)[OF assms(2)]] that by blast
  have uniq: "y = z" if "y \<in> set (ds_done s)" "resolves ?X objs z" "co_offset y = co_offset z" for y z
    using safe that resolves_unique[OF assms(2)] by (simp add: safe_def)
  from assms(4) show ?thesis
  proof (induction rule: resolves.induct)
    case (base b h)
    then obtain y where "co_offset y = co_offset b" "y \<in> set (all_waiting (ds_waitlist s)) \<or> y \<in> set (ds_done s)"
      using place by blast
    moreover have "y \<notin> set (all_waiting (ds_waitlist s))"
    proof
      assume "y \<in> set (all_waiting (ds_waitlist s))"
      then obtain k where "y \<in> set objs" "key_of (co_info y) = Some k"
        using all_waiting_iff[OF wd] wait by blast
      moreover then have "y = b" using same \<open>co_offset y = co_offset b\<close> base(1) by blast
      ultimately show False using key_of_None_iff[of b] base(2) by simp
    qed
    ultimately show ?case using uniq[OF _ resolves.base[OF base], of y] by metis
  next
    case (delta d k b obj)
    have obj: "resolves ?X objs obj" by (rule resolves.delta[OF delta.hyps])
    obtain y where y: "co_offset y = co_offset d" "y \<in> set (all_waiting (ds_waitlist s)) \<or> y \<in> set (ds_done s)"
      using place[OF delta.hyps(1)] by blast
    have "\<not> covered b k s" using fin by (simp add: covered_def)
    then have "waiting k (ds_waitlist s) = []" using wake delta.IH delta.hyps(4) by (auto simp: wakeable_def)
    then have "y \<notin> set (all_waiting (ds_waitlist s))"
      using all_waiting_iff[OF wd, of y] wait same[of y d] y(1) delta.hyps(1,2) by fastforce
    then show ?case using y uniq[OF _ obj, of y] rebuild_result(1)[OF delta.hyps(5)] by metis
  qed
qed

end
