(* ===== verification/Pack_Decode_Sound.thy ===== *)
theory Pack_Decode_Sound
  imports Pack_Decode_Live
begin

text \<open>
  What a finished run of the decoder has produced: the callback has seen every object of the pack
  exactly once and the final checks succeed.  The number of steps of any run is bounded.
\<close>

section \<open>Callbacks\<close>

fun to_emit :: "task \<Rightarrow> CacheObject list" where
  "to_emit (T_Store b) = [b]"
| "to_emit (T_Insert b) = [b]"
| "to_emit (T_Take b late) = (if late then [b] else [])"
| "to_emit (T_TakeRef b late ds) = (if late then [b] else [])"
| "to_emit _ = []"

definition emitted_inv :: "DecodeState \<Rightarrow> bool" where
  "emitted_inv s \<longleftrightarrow> mset (map Inr (ds_emitted s)) + mset (map to_entry_metadata (concat (map to_emit (ds_pool s)))) =
     mset (map to_entry_metadata (ds_done s))"

lemma run_callback_emits:
  assumes "resolves X objs b" "dp_callback p"
  shows "mset (map Inr (ds_emitted (run_callback p b s))) =
    add_mset (to_entry_metadata b) (mset (map Inr (ds_emitted s)))"
proof -
  obtain m where "to_entry_metadata b = Inr m"
    using resolves_hash[OF assms(1)] to_entry_metadata_base by blast
  then show ?thesis using assms(2) by (simp add: run_callback_def)
qed

lemma concat_map_Nil [simp]: "concat (map (\<lambda>x. []) xs) = []"
  by (induction xs) simp_all

lemma emitted_task:
  assumes "safe X objs s" "dp_callback p" "emitted_inv s" "ds_pool s = xs @ t # ys"
  shows "emitted_inv (task_step p t (s\<lparr>ds_pool := xs @ ys\<rparr>))"
proof -
  let ?s = "s\<lparr>ds_pool := xs @ ys\<rparr>"
  have t: "task_ok X objs t" using assms(1,4) by (simp add: safe_def)
  have eq: "mset (map Inr (ds_emitted s)) + mset (map to_entry_metadata (to_emit t))
      + mset (map to_entry_metadata (concat (map to_emit (xs @ ys)))) = mset (map to_entry_metadata (ds_done s))"
    using assms(3,4) by (simp add: emitted_inv_def ac_simps)
  show ?thesis
  proof (cases t)
    case (T_Store obj)
    then obtain h where "base_object_hash obj = Some h" using resolves_hash t by fastforce
    then show ?thesis using eq T_Store by (auto simp: emitted_inv_def ac_simps split: option.split)
  next
    case (T_Insert obj)
    then have r: "resolves X objs obj" using t by simp
    obtain h where "base_object_hash obj = Some h" using resolves_hash[OF r] by blast
    then show ?thesis using eq T_Insert run_callback_emits[OF r assms(2), of ?s]
      by (simp add: emitted_inv_def ac_simps)
  next
    case (T_TakeRef obj late ds)
    then have r: "resolves X objs obj" using t by simp
    obtain h where "base_object_hash obj = Some h" using resolves_hash[OF r] by blast
    then show ?thesis using eq T_TakeRef
        run_callback_emits[OF r assms(2), of "?s\<lparr>ds_waitlist := snd (take_by_ref h (ds_waitlist s))\<rparr>"]
      by (cases late) (simp_all add: emitted_inv_def case_prod_beta Let_def process_waitlist_objects_def
          comp_def ac_simps)
  next
    case (T_Rebuild d b)
    then show ?thesis using eq
      by (cases "rebuild (dp_crates p) d b") (auto simp: emitted_inv_def ac_simps)
  next
    case (T_Depend d)
    then obtain k where "key_of (co_info d) = Some k" using t by auto
    then show ?thesis using eq T_Depend by (auto simp: emitted_inv_def split: option.split)
  qed (use eq in \<open>auto simp: emitted_inv_def case_prod_beta split: option.split\<close>)
qed

lemma emitted_step:
  assumes "decode_step p s s'" "safe X objs s" "dp_callback p" "\<not> dp_skip_unneeded p" "emitted_inv s"
  shows "emitted_inv s'"
  using assms(1)
proof (cases rule: decode_step_cases)
  case (reading obj rest)
  then show ?thesis using assms(3-5)
    by (auto simp: emitted_inv_def reader_step_def Let_def should_skip_no_callback_object_def
        should_drop_no_callback_base_def split: option.split)
next
  case (working xs t ys)
  then show ?thesis using emitted_task[OF assms(2,3,5)] by simp
qed

lemma emitted_steps:
  assumes "(decode_step p)\<^sup>*\<^sup>* s s'" "pack_ok (dp_crates p) objs" "decode_inv p objs s" "dp_callback p" "emitted_inv s"
  shows "emitted_inv s'"
  using assms
proof (induction rule: rtranclp_induct)
  case (step y z)
  have "decode_inv p objs y" using decode_inv_steps step.hyps(1) step.prems by blast
  then have "safe (dp_crates p) objs y" "\<not> dp_skip_unneeded p" by (simp_all add: decode_inv_def mode_ok_def)
  then show ?case using emitted_step step by blast
qed simp

section \<open>The number of cached objects\<close>

definition caches_distinct :: "Caches \<Rightarrow> bool" where
  "caches_distinct c \<longleftrightarrow> distinct (map fst (cs_unbounded_offset_cache c)) \<and> distinct (cs_hash_set c)"

lemma caches_distinct_ops:
  "caches_distinct c \<Longrightarrow> caches_distinct (cache_insert off h b c)"
  "caches_distinct c \<Longrightarrow> caches_distinct (remove_unbounded off h c)"
  by (simp_all add: caches_distinct_def cache_insert_def remove_unbounded_def distinct_update distinct_delete)

lemma caches_distinct_step:
  assumes "decode_step p s s'" "caches_distinct (ds_caches s)"
  shows "caches_distinct (ds_caches s')"
  using assms(1)
proof (cases rule: decode_step_cases)
  case (reading obj rest)
  then show ?thesis using assms(2) by (auto simp: reader_step_def Let_def split: option.split)
next
  case (working xs t ys)
  then show ?thesis using assms(2) caches_distinct_ops
    by (cases t) (auto simp: Let_def case_prod_beta worker_panic_def process_waitlist_objects_def
        maybe_remove_released_base_def split: option.split sum.split)
qed

lemma caches_distinct_steps:
  "(decode_step p)\<^sup>*\<^sup>* s s' \<Longrightarrow> caches_distinct (ds_caches s) \<Longrightarrow> caches_distinct (ds_caches s')"
  by (induction rule: rtranclp_induct) (auto intro: caches_distinct_step)

lemma card_content:
  assumes "pack_ok X objs" "\<forall>b \<in> C. resolves X objs b"
  shows "finite C \<and> card C \<le> length objs"
proof -
  have inj: "inj_on co_offset C" using resolves_unique[OF assms(1)] assms(2) by (auto simp: inj_on_def)
  have "co_offset b \<in> co_offset ` set objs" if "b \<in> C" for b
    using resolves_offset[of X objs b] assms(2) that by (metis image_eqI)
  then have sub: "co_offset ` C \<subseteq> co_offset ` set objs" by blast
  then have fin: "finite C" using inj finite_imageD finite_subset by blast
  have "card C = card (co_offset ` C)" using inj by (simp add: card_image)
  also have "\<dots> \<le> card (co_offset ` set objs)" using sub by (intro card_mono) auto
  also have "\<dots> \<le> length objs" by (meson card_image_le card_length finite_set le_trans)
  finally show ?thesis using fin by simp
qed

lemma total_inserted_le:
  assumes "pack_ok X objs" "cache_ok c" "caches_distinct c" "\<forall>b \<in> caches_content c. resolves X objs b"
  shows "total_inserted c \<le> length objs"
proof -
  have C: "finite (caches_content c)" "card (caches_content c) \<le> length objs"
    using card_content[OF assms(1,4)] by simp_all
  have "total_inserted c \<le> card (caches_content c)"
  proof (cases "is_unbounded c")
    case True
    then have "unbounded_inv c" using assms(2) by (simp add: cache_ok_def)
    then have "fst ` set (cs_unbounded_offset_cache c) \<subseteq> co_offset ` caches_content c"
      using assms(3) by (force simp: unbounded_inv_def caches_distinct_def)
    then have "card (fst ` set (cs_unbounded_offset_cache c)) \<le> card (caches_content c)"
      using C(1) by (meson card_image_le card_mono finite_imageI le_trans)
    then show ?thesis using True assms(3)
      by (simp add: total_inserted_def caches_distinct_def) (metis distinct_card length_map list.set_map)
  next
    case False
    then have "bounded_inv c" using assms(2) by (simp add: cache_ok_def)
    then have "set (cs_hash_set c) \<subseteq> (\<lambda>b. the (base_object_hash b)) ` caches_content c"
      using lru_okD(1)[of c] by (force simp: bounded_inv_def)
    then have "card (set (cs_hash_set c)) \<le> card (caches_content c)"
      using C(1) by (meson card_image_le card_mono finite_imageI le_trans)
    then show ?thesis using False assms(3) by (simp add: total_inserted_def caches_distinct_def distinct_card)
  qed
  then show ?thesis using C(2) by simp
qed


section \<open>Termination\<close>

fun weight :: "task \<Rightarrow> nat" where
  "weight (T_Store b) = 5"
| "weight (T_Insert b) = 4"
| "weight (T_Take b late) = 3"
| "weight (T_TakeRef b late ds) = 2 + 7 * length ds"
| "weight (T_Depend d) = 15"
| "weight (T_Release k d b) = 8"
| "weight (T_Remove d b) = 7"
| "weight (T_Wait k d) = 14"
| "weight (T_Consume k) = 6"
| "weight (T_Recheck k) = 5"
| "weight (T_Wake b) = 4"
| "weight (T_Rebuild d b) = 6"

definition work_left :: "DecodeState \<Rightarrow> nat" where
  "work_left s = 16 * length (ds_input s) + sum_list (map weight (ds_pool s)) + 7 * length (all_waiting (ds_waitlist s))"

lemma waitlist_step:
  assumes "waitlist_distinct (ds_waitlist s)"
  shows "waitlist_distinct (ds_waitlist (task_step p t s))"
  using assms waitlist_take_offset(2)[OF assms] waitlist_take_ref(2)[OF assms] waitlist_insert(2)
  by (cases t) (auto simp: Let_def case_prod_beta worker_panic_def process_waitlist_objects_def
      split: option.split sum.split)

lemma work_left_task:
  assumes "waitlist_distinct (ds_waitlist s)" "ds_pool s = xs @ t # ys"
  shows "work_left (task_step p t (s\<lparr>ds_pool := xs @ ys\<rparr>)) < work_left s"
proof -
  have before: "work_left s = weight t + work_left (s\<lparr>ds_pool := xs @ ys\<rparr>)"
    using assms(2) by (simp add: work_left_def)
  have len_off: "length (all_waiting (ds_waitlist s)) = length (fst (take_by_offset off (ds_waitlist s)))
      + length (all_waiting (snd (take_by_offset off (ds_waitlist s))))" for off
    using arg_cong[OF waitlist_take_offset(1)[OF assms(1), of off], of size] by simp
  have len_ref: "length (all_waiting (ds_waitlist s)) = length (fst (take_by_ref h (ds_waitlist s)))
      + length (all_waiting (snd (take_by_ref h (ds_waitlist s))))" for h
    using arg_cong[OF waitlist_take_ref(1)[OF assms(1), of h], of size] by simp
  have len_ins: "length (all_waiting (wait_insert k d w)) = Suc (length (all_waiting w))" for k d w
    using arg_cong[OF waitlist_insert(1)[of k d w], of size] by simp
  show ?thesis
  proof (cases t)
    case (T_Take b late)
    then show ?thesis using before len_off[of "co_offset b"] by (simp add: work_left_def case_prod_beta)
  next
    case (T_TakeRef b late ds)
    show ?thesis
    proof (cases "base_object_hash b")
      case None
      then show ?thesis using before T_TakeRef by (simp add: work_left_def worker_panic_def)
    next
      case (Some h)
      then show ?thesis using before T_TakeRef len_ref[of h]
        by (simp add: work_left_def case_prod_beta Let_def process_waitlist_objects_def comp_def sum_list_triv)
    qed
  next
    case (T_Wait k d)
    then show ?thesis using before len_ins[of k d "ds_waitlist s"] by (simp add: work_left_def)
  qed (use before in \<open>auto simp: work_left_def worker_panic_def Let_def split: option.split sum.split\<close>)
qed

lemma work_left_step:
  assumes "decode_step p s s'" "waitlist_distinct (ds_waitlist s)"
  shows "work_left s' < work_left s" "waitlist_distinct (ds_waitlist s')"
proof -
  show "work_left s' < work_left s"
    using assms(1)
  proof (cases rule: decode_step_cases)
    case (reading obj rest)
    then show ?thesis by (auto simp: work_left_def reader_step_def Let_def split: option.split)
  next
    case (working xs t ys)
    then show ?thesis using work_left_task[OF assms(2)] by simp
  qed
  show "waitlist_distinct (ds_waitlist s')"
    using assms(1)
  proof (cases rule: decode_step_cases)
    case (reading obj rest)
    then show ?thesis using assms(2) by (auto simp: reader_step_def Let_def split: option.split)
  next
    case (working xs t ys)
    then show ?thesis using waitlist_step[of "s\<lparr>ds_pool := xs @ ys\<rparr>"] assms(2) by simp
  qed
qed

lemma work_left_steps:
  "(decode_step p ^^ n) s s' \<Longrightarrow> waitlist_distinct (ds_waitlist s) \<Longrightarrow>
   n + work_left s' \<le> work_left s \<and> waitlist_distinct (ds_waitlist s')"
proof (induction n arbitrary: s')
  case (Suc n)
  then obtain y where y: "(decode_step p ^^ n) s y" "decode_step p y s'" by auto
  then have "n + work_left y \<le> work_left s" "waitlist_distinct (ds_waitlist y)" using Suc by blast+
  then show ?case using work_left_step[OF y(2)] by simp
qed simp

lemma decode_progress: "\<not> finished s \<Longrightarrow> \<exists>s'. decode_step p s s'"
  unfolding finished_def
  by (metis decode_step.reading decode_step.working length_greater_0_conv list.exhaust)

lemma paced_decode: "paced_step p q m l s s' \<Longrightarrow> decode_step p s s'"
  by (induction rule: paced_step.induct) (auto intro: decode_step.intros)

lemma paced_decodes: "(paced_step p q m l)\<^sup>*\<^sup>* s s' \<Longrightarrow> (decode_step p)\<^sup>*\<^sup>* s s'"
  by (rule rtranclp_mono[THEN predicate2D]) (auto intro: paced_decode)

lemma paced_progress:
  assumes "q s \<le> length (ds_pool s)" "\<not> finished s" "\<nexists>s'. paced_step p q m l s s'"
  shows "ds_pool s = [] \<and> \<not> is_unbounded (ds_caches s) \<and> (\<exists>limit. l = Some limit \<and> limit < m s)"
proof -
  have pool: "ds_pool s = []" using assms(3) paced_step.paced_working[of 0 s p q m l] by (cases "ds_pool s") auto
  then obtain obj rest where "ds_input s = obj # rest" using assms(2) by (cases "ds_input s") (auto simp: finished_def)
  then have "reader_waits q m l s" using assms(3) paced_step.paced_reading by blast
  then show ?thesis
    using pool assms(1) by (auto simp: reader_waits_def MAX_QUEUED_DECODE_TASKS_def split: if_splits option.splits)
qed

lemma decode_finishes:
  assumes "waitlist_distinct (ds_waitlist s)"
  shows "\<exists>s'. (decode_step p)\<^sup>*\<^sup>* s s' \<and> finished s'"
  using assms
proof (induction "work_left s" arbitrary: s rule: less_induct)
  case less
  show ?case
  proof (cases "finished s")
    case False
    then obtain y where y: "decode_step p s y" using decode_progress by blast
    then show ?thesis
      using less.hyps[of y] work_left_step[OF y less.prems] by (meson converse_rtranclp_into_rtranclp)
  qed blast
qed

lemma paced_finishes:
  assumes "l = None" "\<forall>s. q s \<le> length (ds_pool s)" "waitlist_distinct (ds_waitlist s)"
  shows "\<exists>s'. (paced_step p q m l)\<^sup>*\<^sup>* s s' \<and> finished s'"
  using assms(3)
proof (induction "work_left s" arbitrary: s rule: less_induct)
  case less
  show ?case
  proof (cases "finished s")
    case False
    then obtain t where t: "paced_step p q m l s t" using paced_progress[of q s p m l] assms(1,2) by blast
    have "(decode_step p ^^ 1) s t" using paced_decode[OF t] by (simp add: OO_def)
    then have "1 + work_left t \<le> work_left s" "waitlist_distinct (ds_waitlist t)" using work_left_steps less.prems by blast+
    then have "\<exists>s'. (paced_step p q m l)\<^sup>*\<^sup>* t s' \<and> finished s'" using less.hyps[of t] by simp
    then show ?thesis using t by (blast intro: converse_rtranclp_into_rtranclp[where r = "paced_step p q m l"])
  qed auto
qed

lemma init_waitlist: "waitlist_distinct (ds_waitlist (decode_init objs mem_size retention))"
  by (simp add: decode_init_def waitlist_distinct_def Waitlist_new_def)

lemma decode_complete:
  assumes "pack_ok (dp_crates p) objs" "\<not> dp_skip_unneeded p" "retention = None \<or> mem_size \<noteq> None"
    "\<And>r. retention = Some r \<Longrightarrow> retention_for objs r"
    "(decode_step p)\<^sup>*\<^sup>* (decode_init objs mem_size retention) s" "finished s"
  shows "set (ds_done s) = Collect (resolves (dp_crates p) objs)"
    "mset (map co_offset (ds_done s)) = mset (map co_offset objs)"
    "decode_outcome hex (length objs) s = Inr (cache_clear (ds_caches s))"
    "dp_callback p \<Longrightarrow> mset (map Inr (ds_emitted s)) = mset (map to_entry_metadata (ds_done s))"
proof -
  let ?X = "dp_crates p"
  have inv0: "decode_inv p objs (decode_init objs mem_size retention)"
    using decode_inv_init[OF assms(2,3,4)] by blast
  have inv: "decode_inv p objs s" by (rule decode_inv_steps[OF assms(5,1) inv0])
  have safe: "safe ?X objs s" and cons: "conserved objs s" using inv by (simp_all add: decode_inv_def)
  have fin: "ds_input s = []" "ds_pool s = []" using assms(6) by (simp_all add: finished_def)
  have wd: "waitlist_distinct (ds_waitlist s)" using cons by (simp add: conserved_def)
  show all: "set (ds_done s) = Collect (resolves ?X objs)"
    using safe finished_all_done[OF inv assms(1,6)] by (auto simp: safe_def)
  have eq: "image_mset co_offset (mset objs) =
      image_mset co_offset (mset (all_waiting (ds_waitlist s))) + image_mset co_offset (mset (ds_done s))"
    using cons fin by (simp add: conserved_def)
  have nowait: "all_waiting (ds_waitlist s) = []"
  proof (rule ccontr)
    assume "all_waiting (ds_waitlist s) \<noteq> []"
    then obtain d where d: "d \<in> set (all_waiting (ds_waitlist s))" by (meson last_in_set)
    then obtain k where "d \<in> set (waiting k (ds_waitlist s))" using all_waiting_iff[OF wd] by blast
    then have "d \<in> set objs" using safe by (auto simp: safe_def waiters_ok_def)
    then obtain x where x: "x \<in> set (ds_done s)" "co_offset x = co_offset d"
      using pack_okD(3)[OF assms(1)] all by blast
    have "co_offset d \<in># image_mset co_offset (mset (all_waiting (ds_waitlist s)))"
      "co_offset d \<in># image_mset co_offset (mset (ds_done s))"
      using imageI[OF d, of co_offset] imageI[OF x(1), of co_offset] x(2) by simp_all
    then have "count (image_mset co_offset (mset objs)) (co_offset d) \<ge> 1 + 1"
      unfolding eq count_union by (intro add_mono) (simp_all only: Suc_le_eq count_greater_zero_iff One_nat_def)
    moreover have "count (mset (map co_offset objs)) (co_offset d) \<le> 1"
      using pack_okD(1)[OF assms(1)] by (simp add: distinct_count_atmost_1)
    ultimately show False by simp
  qed
  then show "mset (map co_offset (ds_done s)) = mset (map co_offset objs)" using eq by simp
  have "caches_distinct (ds_caches s)"
    by (rule caches_distinct_steps[OF assms(5)]) (simp add: caches_distinct_def decode_init_def Caches_new_def)
  then have "total_inserted (ds_caches s) \<le> length objs"
    using total_inserted_le[OF assms(1)] safe by (simp add: safe_def)
  then show "decode_outcome hex (length objs) s = Inr (cache_clear (ds_caches s))"
    using no_waiters_empty[OF wd nowait] safe by (simp add: decode_outcome_def safe_def)
  show "mset (map Inr (ds_emitted s)) = mset (map to_entry_metadata (ds_done s))" if "dp_callback p"
  proof -
    have "emitted_inv (decode_init objs mem_size retention)" by (simp add: emitted_inv_def decode_init_def)
    then have "emitted_inv s" using emitted_steps[OF assms(5,1) inv0 that] by blast
    then show ?thesis using fin by (simp add: emitted_inv_def)
  qed
qed

end
