(* ===== verification/Pack_Scan.thy ===== *)
theory Pack_Scan
  imports Pack_Decode_Sound
begin

text \<open>
  Reading a whole pack: the hashing reader (\<open>src/src/internal/pack/wrapper.rs\<close>), the dependency scans
  that run before a file is decoded, the copying reader of the streaming path and the reading side of
  \<open>decode_inner\<close> (\<open>decode.rs\<close>).

  \<^item> A file is its content.  \<open>read_at\<close> delivers as much as the buffer holds; writing the temporary
    copy does not fail.
  \<^item> The bytes the copying reader passes on arrive in chunks of any size.
  \<^item> \<open>read_pack\<close> is what the reading loop does with the stream, from the header to the end; the objects
    it yields are the input of the state machine of the decoder.  The counts that decide whether an
    object is skipped are those of the scan; in a run they can be lower already.
\<close>

section \<open>The hashing reader (\<open>wrapper.rs\<close>)\<close>

record Wrapper =
  wr_inner :: bytes
  wr_hash :: "HashAlgorithm option"
  wr_bytes_read :: nat

definition Wrapper_new_with_kind :: "bytes \<Rightarrow> HashKind \<Rightarrow> Wrapper" where
  "Wrapper_new_with_kind inner kind =
     \<lparr>wr_inner = inner, wr_hash = Some (new_for_kind kind), wr_bytes_read = 0\<rparr>"

definition Wrapper_new_without_hash :: "bytes \<Rightarrow> Wrapper" where
  "Wrapper_new_without_hash inner = \<lparr>wr_inner = inner, wr_hash = None, wr_bytes_read = 0\<rparr>"

definition Wrapper_hash_kind :: "Wrapper \<Rightarrow> HashKind option" where
  "Wrapper_hash_kind w = map_option ha_kind (wr_hash w)"

text \<open>\<open>consume\<close> and \<open>read\<close>: the bytes taken from the inner reader go through the hash.\<close>

definition wrapper_consume :: "nat \<Rightarrow> Wrapper \<Rightarrow> Wrapper" where
  "wrapper_consume amt w =
     \<lparr>wr_inner = drop amt (wr_inner w),
      wr_hash = map_option (hasher_update (take amt (wr_inner w))) (wr_hash w),
      wr_bytes_read = wr_bytes_read w + amt\<rparr>"

definition final_hash :: "(HashKind \<Rightarrow> bytes \<Rightarrow> bytes) \<Rightarrow> Wrapper \<Rightarrow> GitError + ObjectHash" where
  "final_hash digest w =
     (case wr_hash w of
        None \<Rightarrow> Inl (git_panic ''Wrapper::final_hash called while hash tracking is disabled'')
      | Some h \<Rightarrow> Inr (finalize_object_hash digest h))"

definition wrapped :: "(bytes \<Rightarrow> 'e + 'a \<times> bytes) \<Rightarrow> Wrapper \<Rightarrow> 'e + 'a \<times> Wrapper" where
  "wrapped rd_inner w =
     and_then (rd_inner (wr_inner w)) (\<lambda>(v, rest).
       Inr (v, wrapper_consume (length (wr_inner w) - length rest) w))"

definition is_eof :: "bytes \<Rightarrow> bool" where
  "is_eof s \<longleftrightarrow> s = []"

section \<open>The copying reader (\<open>TeeReader\<close>)\<close>

record TeeReader =
  te_written :: bytes
  te_payload_hash :: HashAlgorithm
  te_hash_tail :: bytes
  te_hash_size :: nat

definition TeeReader_new :: "HashKind \<Rightarrow> TeeReader" where
  "TeeReader_new kind =
     \<lparr>te_written = [], te_payload_hash = new_for_kind kind, te_hash_tail = [], te_hash_size = hash_size kind\<rparr>"

definition record_pack_bytes :: "HashAlgorithm \<Rightarrow> bytes \<Rightarrow> nat \<Rightarrow> bytes \<Rightarrow> HashAlgorithm \<times> bytes" where
  "record_pack_bytes payload_hash hash_tail hash_sz chunk =
     (if chunk = [] then (payload_hash, hash_tail)
      else
        let total_len = length hash_tail + length chunk in
        if total_len \<le> hash_sz then (payload_hash, hash_tail @ chunk)
        else
          let hash_len = total_len - hash_sz in
          if hash_len \<le> length hash_tail
          then (hasher_update (take hash_len hash_tail) payload_hash, drop hash_len hash_tail @ chunk)
          else
            let tail_len = length hash_tail;
                payload_hash = (if hash_tail \<noteq> [] then hasher_update hash_tail payload_hash else payload_hash);
                bytes_hash_len = hash_len - tail_len in
            (hasher_update (take bytes_hash_len chunk) payload_hash, drop bytes_hash_len chunk))"

definition tee_chunk :: "TeeReader \<Rightarrow> bytes \<Rightarrow> TeeReader" where
  "tee_chunk te chunk =
     (let (payload_hash, hash_tail) =
            record_pack_bytes (te_payload_hash te) (te_hash_tail te) (te_hash_size te) chunk in
      te\<lparr>te_written := te_written te @ chunk, te_payload_hash := payload_hash, te_hash_tail := hash_tail\<rparr>)"

record PackHashCheck =
  phc_payload_hash :: ObjectHash
  phc_trailer_hash :: ObjectHash

definition finish_pack_hash_check :: "(HashKind \<Rightarrow> bytes \<Rightarrow> bytes) \<Rightarrow> TeeReader \<Rightarrow> GitError + PackHashCheck" where
  "finish_pack_hash_check digest te =
     (if length (te_hash_tail te) \<noteq> te_hash_size te
      then Inl (GE_InvalidPackFile ''Pack file is too small to contain a trailer hash'')
      else
        let kind = ha_kind (te_payload_hash te);
            payload_hash = finalize_object_hash digest (te_payload_hash te) in
        and_then (map_err (\<lambda>e. GE_InvalidPackFile (''Read pack file error: '' @ HashError_display e))
            (from_bytes_for_kind kind (te_hash_tail te))) (\<lambda>trailer_hash.
          Inr \<lparr>phc_payload_hash = payload_hash, phc_trailer_hash = trailer_hash\<rparr>))"

definition verify_pack_hash_check :: "Crates \<Rightarrow> PackHashCheck \<Rightarrow> ObjectHash \<Rightarrow> GitError + unit" where
  "verify_pack_hash_check X hash_check signature =
     (if phc_trailer_hash hash_check \<noteq> signature
      then Inl (GE_InvalidPackFile (''The pack file trailer hash ''
                  @ latin (hash_to_string (x_hex X) (phc_trailer_hash hash_check))
                  @ '' does not match decoded trailer hash '' @ latin (hash_to_string (x_hex X) signature)))
      else if phc_payload_hash hash_check \<noteq> signature
      then Inl (GE_InvalidPackFile (''The pack file hash ''
                  @ latin (hash_to_string (x_hex X) (phc_payload_hash hash_check))
                  @ '' does not match the trailer hash '' @ latin (hash_to_string (x_hex X) signature)))
      else Inr ())"

section \<open>Dependency scans\<close>

record DecodeScan =
  sc_retention :: DecodeRetention
  sc_object_hashes :: "ObjectHash list option"
  sc_object_crcs :: "nat list option"
  sc_object_offsets :: "nat list option"
  sc_pack_hash :: "ObjectHash option"
  sc_pack_hash_check :: "PackHashCheck option"

definition ai_in_pack :: "ObjectType \<Rightarrow> GitError" where
  "ai_in_pack t = GE_InvalidPackFile (''AI object type `'' @ ObjectType_display t
     @ ''` cannot appear in a pack file'')"

definition hash_read_error :: "HashError \<Rightarrow> GitError" where
  "hash_read_error e = GE_InvalidPackFile (''Read error: '' @ HashError_display e)"

definition scan_object_dependency ::
  "HashKind \<Rightarrow> nat \<Rightarrow> DecodeRetention \<Rightarrow> bytes \<Rightarrow> GitError + DecodeRetention" where
  "scan_object_dependency kind init_offset retention pack =
     and_then (map_err (pack_error ''Read error: '') (read_type_and_varint_size pack init_offset))
       (\<lambda>((type_bits, _, _), pack).
     and_then (from_pack_type_u8 type_bits) (\<lambda>t.
     if t = OT_OffsetDelta \<or> t = OT_OffsetZstdelta then
       and_then (map_err (pack_error ''Read error: '') (read_offset_encoding pack)) (\<lambda>((delta_offset, _), _).
         if init_offset < delta_offset then Inl invalid_delta_offset
         else Inr (add_offset_dependency (init_offset - delta_offset) retention))
     else if t = OT_HashDelta then
       and_then (map_err hash_read_error (from_stream_for_kind kind pack)) (\<lambda>(ref_sha, _).
         Inr (add_hash_dependency ref_sha retention))
     else if t \<in> {OT_Commit, OT_Tree, OT_Blob, OT_Tag} then Inr retention
     else Inl (ai_in_pack t)))"

text \<open>One iteration of \<open>scan_decode_retention\<close>: the dependency, and the payload is skipped.\<close>

definition scan_entry ::
  "Crates \<Rightarrow> HashKind \<Rightarrow> nat \<Rightarrow> DecodeRetention \<Rightarrow> bytes \<Rightarrow> GitError + (DecodeRetention \<times> nat) \<times> bytes" where
  "scan_entry X kind init_offset retention pack =
     and_then (map_err (pack_error ''Read error: '') (read_type_and_varint_size pack init_offset))
       (\<lambda>((type_bits, sz, offset), pack).
     and_then (from_pack_type_u8 type_bits) (\<lambda>t.
     and_then
       (if t = OT_OffsetDelta \<or> t = OT_OffsetZstdelta then
          and_then (map_err (pack_error ''Read error: '') (read_offset_encoding pack)) (\<lambda>((delta_offset, n), pack).
            let offset = offset + n in
            if init_offset < delta_offset then Inl invalid_delta_offset
            else Inr ((add_offset_dependency (init_offset - delta_offset) retention, offset), pack))
        else if t = OT_HashDelta then
          and_then (map_err hash_read_error (from_stream_for_kind kind pack)) (\<lambda>(ref_sha, pack).
            Inr ((add_hash_dependency ref_sha retention, offset + hash_size kind), pack))
        else if t \<in> {OT_Commit, OT_Tree, OT_Blob, OT_Tag} then Inr ((retention, offset), pack)
        else Inl (ai_in_pack t)) (\<lambda>((retention, offset), pack).
     and_then (skip_compressed_data X sz pack) (\<lambda>(raw_size, pack).
       Inr ((retention, offset + raw_size), pack)))))"

fun scan_loop ::
  "Crates \<Rightarrow> HashKind \<Rightarrow> nat \<Rightarrow> nat \<Rightarrow> DecodeRetention \<Rightarrow> bytes \<Rightarrow> GitError + DecodeRetention \<times> bytes" where
  "scan_loop X kind 0 offset retention pack = Inr (retention, pack)"
| "scan_loop X kind (Suc n) offset retention pack =
     and_then (scan_entry X kind offset retention pack) (\<lambda>((retention, offset), pack).
       scan_loop X kind n offset retention pack)"

definition not_at_end :: GitError where
  "not_at_end = GE_InvalidPackFile ''The pack file is not at the end''"

definition scan_decode_retention :: "Crates \<Rightarrow> HashKind \<Rightarrow> bytes \<Rightarrow> GitError + DecodeScan" where
  "scan_decode_retention X kind pack =
     and_then (check_header pack) (\<lambda>((object_num, _), pack).
     and_then (scan_loop X kind object_num 12 DecodeRetention_default pack) (\<lambda>(retention, pack).
     and_then (map_err (pack_error ''Read error: '') (read_exact (hash_size kind) pack)) (\<lambda>(_, pack).
     if \<not> is_eof pack then Inl not_at_end
     else Inr \<lparr>sc_retention = retention, sc_object_hashes = None, sc_object_crcs = None,
               sc_object_offsets = None, sc_pack_hash = None, sc_pack_hash_check = None\<rparr>)))"

text \<open>The scan of a stream that is copied to a temporary file on the way, in the given chunks.\<close>

definition scan_decode_retention_and_copy ::
  "Crates \<Rightarrow> HashKind \<Rightarrow> bytes list \<Rightarrow> GitError + DecodeScan \<times> bytes" where
  "scan_decode_retention_and_copy X kind chunks =
     and_then (scan_decode_retention X kind (concat chunks)) (\<lambda>scan.
     let tee = foldl tee_chunk (TeeReader_new kind) chunks in
     and_then (finish_pack_hash_check (x_digest X) tee) (\<lambda>check.
       Inr (scan\<lparr>sc_pack_hash_check := Some check\<rparr>, te_written tee)))"

section \<open>The scan with an index\<close>

definition PACK_OBJECT_PREFIX_READ_SIZE :: nat where
  "PACK_OBJECT_PREFIX_READ_SIZE = 96"

definition PACK_SCAN_WINDOW_SIZE :: nat where
  "PACK_SCAN_WINDOW_SIZE = 8 * 1024"

definition scan_eof :: GitError where
  "scan_eof = GE_InvalidPackFile ''Unexpected EOF while scanning pack dependencies''"

text \<open>The objects in the order of their offsets, read through a window of the file that is refilled
  when it does not hold the whole prefix of the next object.\<close>

definition scan_window :: "bytes \<Rightarrow> nat \<Rightarrow> nat \<Rightarrow> bytes \<Rightarrow> GitError + nat \<times> bytes" where
  "scan_window pack_file object_offset window_start window =
     (let required_end = object_offset + PACK_OBJECT_PREFIX_READ_SIZE;
          window_end = window_start + length window in
      if window = [] \<or> object_offset < window_start \<or> required_end > window_end then
        let window = take (max PACK_SCAN_WINDOW_SIZE PACK_OBJECT_PREFIX_READ_SIZE) (drop object_offset pack_file) in
        if window = [] then Inl scan_eof else Inr (object_offset, window)
      else Inr (window_start, window))"

fun scan_window_loop ::
  "HashKind \<Rightarrow> bytes \<Rightarrow> (nat \<times> ObjectHash \<times> nat) list \<Rightarrow> nat \<Rightarrow> bytes \<Rightarrow> DecodeRetention \<Rightarrow>
   GitError + DecodeRetention" where
  "scan_window_loop kind pack_file [] window_start window retention = Inr retention"
| "scan_window_loop kind pack_file (obj # objs) window_start window retention =
     and_then (scan_window pack_file (fst obj) window_start window) (\<lambda>(window_start, window).
     let prefix_start = fst obj - window_start;
         object_prefix = take PACK_OBJECT_PREFIX_READ_SIZE (drop prefix_start window) in
     if object_prefix = [] then Inl scan_eof
     else
       and_then (scan_object_dependency kind (fst obj) retention object_prefix)
         (scan_window_loop kind pack_file objs window_start window))"

definition scan_object_dependencies_from_index_window ::
  "HashKind \<Rightarrow> bytes \<Rightarrow> (nat \<times> ObjectHash \<times> nat) list \<Rightarrow> DecodeRetention \<Rightarrow> GitError + DecodeRetention" where
  "scan_object_dependencies_from_index_window kind pack_file objs retention =
     scan_window_loop kind pack_file objs 0 [] retention"

function chunks_of :: "nat \<Rightarrow> 'a list \<Rightarrow> 'a list list" where
  "chunks_of n xs = (if n = 0 \<or> xs = [] then [] else take n xs # chunks_of n (drop n xs))"
  by pat_completeness auto
termination by (relation "measure (\<lambda>(_, xs). length xs)") auto

declare chunks_of.simps [simp del]

fun scan_chunks ::
  "HashKind \<Rightarrow> bytes \<Rightarrow> (nat \<times> ObjectHash \<times> nat) list list \<Rightarrow> DecodeRetention \<Rightarrow> GitError + DecodeRetention" where
  "scan_chunks kind pack_file [] retention = Inr retention"
| "scan_chunks kind pack_file (c # cs) retention =
     and_then (scan_object_dependencies_from_index_window kind pack_file c retention)
       (scan_chunks kind pack_file cs)"

fun duplicate_offset :: "(nat \<times> ObjectHash \<times> nat) list \<Rightarrow> nat option" where
  "duplicate_offset ((a, _) # (b, x) # rest) =
     (if a = b then Some a else duplicate_offset ((b, x) # rest))"
| "duplicate_offset _ = None"

definition parse_index :: "Crates \<Rightarrow> HashKind \<Rightarrow> bytes \<Rightarrow> GitError + IdxV2 \<times> bool" where
  "parse_index X kind idx_file =
     and_then (map_err (pack_error ''Read pack index magic error: '') (read_exact 4 idx_file)) (\<lambda>(magic, _).
     if magic = be_bytes 4 IDX_MAGIC then
       and_then (parse_idx_v2_from (x_digest X) idx_file kind (length idx_file)) (\<lambda>parsed. Inr (parsed, True))
     else if kind = KSha1 then
       and_then (parse_idx_v1 (x_digest X) idx_file) (\<lambda>parsed. Inr (parsed, False))
     else Inl (GE_InvalidPackFile (''Pack index is neither v2 nor a SHA-1 v1 index (''
            @ latin (HashKind_as_str kind) @ '' repository)'')))"

definition objects_by_offset :: "IdxV2 \<Rightarrow> (nat \<times> ObjectHash \<times> nat) list" where
  "objects_by_offset parsed =
     sort_key fst (map (\<lambda>e. (ie_offset e, ie_hash e, ie_crc32 e)) (idx_entries parsed))"

definition scan_indexed_objects ::
  "HashKind \<Rightarrow> nat \<Rightarrow> bytes \<Rightarrow> (nat \<times> ObjectHash \<times> nat) list \<Rightarrow> GitError + DecodeRetention" where
  "scan_indexed_objects kind available_parallelism pack_file objs =
     (let scan_threads = min (min available_parallelism (length objs)) 2 in
      if scan_threads \<le> 1
      then scan_object_dependencies_from_index_window kind pack_file objs DecodeRetention_default
      else
        let chunk_size = length objs div scan_threads + (if length objs mod scan_threads > 0 then 1 else 0) in
        scan_chunks kind pack_file (chunks_of chunk_size objs) DecodeRetention_default)"

definition scan_decode_retention_from_index ::
  "Crates \<Rightarrow> HashKind \<Rightarrow> nat \<Rightarrow> bytes \<Rightarrow> bytes \<Rightarrow> GitError + DecodeScan" where
  "scan_decode_retention_from_index X kind available_parallelism idx_file pack_file =
     and_then (parse_index X kind idx_file) (\<lambda>(parsed, crcs_known).
     let objs = objects_by_offset parsed in
     case duplicate_offset objs of
       Some off \<Rightarrow> Inl (GE_InvalidPackFile (''Pack index lists offset '' @ decimal_string off
                     @ '' more than once''))
     | None \<Rightarrow>
         and_then (check_header pack_file) (\<lambda>((header_object_num, _), _).
         if header_object_num \<noteq> length objs
         then Inl (GE_InvalidPackFile (''Pack index object count '' @ decimal_string (length objs)
                     @ '' does not match pack header '' @ decimal_string header_object_num))
         else
           and_then (scan_indexed_objects kind available_parallelism pack_file objs) (\<lambda>retention.
             Inr \<lparr>sc_retention = retention, sc_object_hashes = Some (map (fst \<circ> snd) objs),
                  sc_object_crcs = (if crcs_known then Some (map (snd \<circ> snd) objs) else None),
                  sc_object_offsets = Some (map fst objs), sc_pack_hash = Some (idx_pack_hash parsed),
                  sc_pack_hash_check = None\<rparr>)))"

section \<open>Options of a decode\<close>

datatype FileDecodeMode = RetainAll | SkipUnneeded

record DecodeOptions =
  do_retention :: "DecodeRetention option"
  do_skip_unneeded :: bool
  do_known_hashes :: "ObjectHash list option"
  do_known_crcs :: "nat list option"
  do_known_offsets :: "nat list option"
  do_expected_pack_hash :: "ObjectHash option"
  do_verify_pack_stream_hash :: bool
  do_sync_base_callbacks :: bool

definition streaming :: DecodeOptions where
  "streaming =
     \<lparr>do_retention = None, do_skip_unneeded = False, do_known_hashes = None, do_known_crcs = None,
      do_known_offsets = None, do_expected_pack_hash = None, do_verify_pack_stream_hash = True,
      do_sync_base_callbacks = False\<rparr>"

text \<open>The options \<open>decode_file_inner_with_scan\<close> passes to \<open>decode_inner\<close>.\<close>

definition scan_options :: "FileDecodeMode \<Rightarrow> bool \<Rightarrow> DecodeScan \<Rightarrow> DecodeOptions" where
  "scan_options mode sync_base_callbacks scan =
     \<lparr>do_retention = Some (sc_retention scan), do_skip_unneeded = (mode = SkipUnneeded),
      do_known_hashes = sc_object_hashes scan, do_known_crcs = sc_object_crcs scan,
      do_known_offsets = sc_object_offsets scan,
      do_expected_pack_hash = (case sc_pack_hash scan of
          Some h \<Rightarrow> Some h | None \<Rightarrow> map_option phc_payload_hash (sc_pack_hash_check scan)),
      do_verify_pack_stream_hash = (sc_pack_hash_check scan = None),
      do_sync_base_callbacks = sync_base_callbacks\<rparr>"

section \<open>The reading loop of \<open>decode_inner\<close>\<close>

definition get_at :: "'a list option \<Rightarrow> nat \<Rightarrow> 'a option" where
  "get_at known i = Option.bind known (\<lambda>xs. if i < length xs then Some (xs ! i) else None)"

definition wrong_offset :: "nat \<Rightarrow> nat \<Rightarrow> nat \<Rightarrow> GitError" where
  "wrong_offset i offset expected =
     GE_InvalidPackFile (''Pack object '' @ decimal_string i @ '' starts at offset '' @ decimal_string offset
       @ '' but the pack index records offset '' @ decimal_string expected)"

definition check_offset :: "nat option \<Rightarrow> nat \<Rightarrow> nat \<Rightarrow> GitError + unit" where
  "check_offset known i offset =
     (case known of
        Some expected \<Rightarrow> if expected \<noteq> offset then Inl (wrong_offset i offset expected) else Inr ()
      | None \<Rightarrow> Inr ())"

definition entry_options :: "bool \<Rightarrow> DecodeOptions \<Rightarrow> nat \<Rightarrow> EntryOptions" where
  "entry_options callback opts i =
     \<lparr>eo_track_crc = (callback \<or> do_known_crcs opts \<noteq> None), eo_skip_unneeded = do_skip_unneeded opts,
      eo_emit_skipped = False, eo_known_hash = get_at (do_known_hashes opts) i,
      eo_known_crc = get_at (do_known_crcs opts) i, eo_retention = do_retention opts\<rparr>"

fun read_objects ::
  "Crates \<Rightarrow> HashKind \<Rightarrow> bool \<Rightarrow> DecodeOptions \<Rightarrow> nat \<Rightarrow> nat \<Rightarrow> nat \<Rightarrow> Wrapper \<Rightarrow>
   GitError + CacheObject list \<times> Wrapper" where
  "read_objects X kind callback opts 0 i offset reader = Inr ([], reader)"
| "read_objects X kind callback opts (Suc n) i offset reader =
     and_then (check_offset (get_at (do_known_offsets opts) i) i offset) (\<lambda>_.
     and_then (wrapped (decode_pack_object_with_crc X kind (entry_options callback opts i) offset) reader)
       (\<lambda>((res, offset), reader).
     and_then (read_objects X kind callback opts n (i + 1) offset reader) (\<lambda>(objs, reader).
       Inr ((case res of Some obj \<Rightarrow> obj # objs | None \<Rightarrow> objs), reader))))"

definition hash_text :: "Crates \<Rightarrow> ObjectHash \<Rightarrow> string" where
  "hash_text X h = latin (hash_to_string (x_hex X) h)"

definition check_trailer ::
  "Crates \<Rightarrow> ObjectHash option \<Rightarrow> ObjectHash option \<Rightarrow> ObjectHash \<Rightarrow> GitError + unit" where
  "check_trailer X expected_pack_hash render_hash signature =
     (if expected_pack_hash \<noteq> None \<and> the expected_pack_hash \<noteq> signature
      then Inl (GE_InvalidPackFile (''The pack index hash '' @ hash_text X (the expected_pack_hash)
                  @ '' does not match the trailer hash '' @ hash_text X signature))
      else if render_hash \<noteq> None \<and> the render_hash \<noteq> signature
      then Inl (GE_InvalidPackFile (''The pack file hash '' @ hash_text X (the render_hash)
                  @ '' does not match the trailer hash '' @ hash_text X signature))
      else Inr ())"

definition read_pack ::
  "Crates \<Rightarrow> HashKind \<Rightarrow> bool \<Rightarrow> DecodeOptions \<Rightarrow> bytes \<Rightarrow> GitError + CacheObject list \<times> ObjectHash" where
  "read_pack X kind callback opts pack =
     (let reader = (if do_verify_pack_stream_hash opts then Wrapper_new_with_kind pack kind
                    else Wrapper_new_without_hash pack) in
      and_then (wrapped check_header reader) (\<lambda>((object_num, _), reader).
      and_then (read_objects X kind callback opts object_num 0 12 reader) (\<lambda>(objs, reader).
      and_then (if do_verify_pack_stream_hash opts
                then map_sum id Some (final_hash (x_digest X) reader) else Inr None) (\<lambda>render_hash.
      and_then (map_err (\<lambda>e. GE_InvalidPackFile (''Error reading pack trailer hash: '' @ HashError_display e))
          (wrapped (from_stream_for_kind kind) reader)) (\<lambda>(signature, reader).
      and_then (check_trailer X (do_expected_pack_hash opts) render_hash signature) (\<lambda>_.
      if \<not> is_eof (wr_inner reader) then Inl not_at_end else Inr (objs, signature)))))))"

end
