(* ===== verification/Pack_Encode.thy ===== *)
theory Pack_Encode
  imports Complex_Main Rabin_Delta Pack_Entry
begin

text \<open>
  The pack encoder: \<open>src/src/internal/pack/encode/\<close> (\<open>mod.rs\<close>, \<open>sort.rs\<close>, \<open>delta_search.rs\<close>,
  \<open>parallel.rs\<close>) built with the default feature \<open>diff_rabin\<close>.

  \<^item> The crates it calls besides those of \<open>Crates\<close> are the fields of \<open>DeltaEngines\<close>: the sampling hash
    of the pre-filter, the zstd delta and the edit script of the diff crate.
  \<^item> The channels are lists: the entries that arrive, the chunks sent so far.  The receiver of the pack
    takes \<open>pk_accepts\<close> chunks; a further \<open>send\<close> fails and its \<open>unwrap\<close> panics.
  \<^item> Generating a Rabin delta may in principle not end (\<open>create_delta\<close> is a partial function); \<open>None\<close>
    stands for that, so every result is an option of a result.
  \<^item> Rates are rational numbers instead of \<open>f64\<close>.
  \<^item> Rayon runs the work items in any order and returns the results in theirs; only the results matter.
\<close>

section \<open>Computations that may not end\<close>

definition run_then :: "('e + 'a) option \<Rightarrow> ('a \<Rightarrow> ('e + 'b) option) \<Rightarrow> ('e + 'b) option" where
  "run_then r f = (case r of None \<Rightarrow> None | Some (Inl e) \<Rightarrow> Some (Inl e) | Some (Inr x) \<Rightarrow> f x)"

lemma run_then_simps [simp]:
  "run_then None f = None"
  "run_then (Some (Inl e)) f = Some (Inl e)"
  "run_then (Some (Inr x)) f = f x"
  by (simp_all add: run_then_def)

lemma run_then_cong [fundef_cong]:
  "r = s \<Longrightarrow> (\<And>x. s = Some (Inr x) \<Longrightarrow> f x = g x) \<Longrightarrow> run_then r f = run_then s g"
  by (auto simp: run_then_def split: option.splits sum.splits)

section \<open>Ordering (\<open>sort.rs\<close>)\<close>

record MetaAttached =
  ma_inner :: Entry
  ma_file_path :: "bytes option"

datatype ordering = O_Less | O_Equal | O_Greater

definition cmp_of :: "'a::linorder \<Rightarrow> 'a \<Rightarrow> ordering" where
  "cmp_of a b = (if a < b then O_Less else if a = b then O_Equal else O_Greater)"

fun lex_cmp :: "('a \<Rightarrow> 'a \<Rightarrow> ordering) \<Rightarrow> 'a list \<Rightarrow> 'a list \<Rightarrow> ordering" where
  "lex_cmp c [] [] = O_Equal"
| "lex_cmp c [] (_ # _) = O_Less"
| "lex_cmp c (_ # _) [] = O_Greater"
| "lex_cmp c (x # xs) (y # ys) = (case c x y of O_Equal \<Rightarrow> lex_cmp c xs ys | r \<Rightarrow> r)"

text \<open>\<open>std::path\<close>: the components of a path, \<open>parent\<close>, and the order of paths, which is that of their
  components.\<close>

datatype component = C_RootDir | C_CurDir | C_ParentDir | C_Normal bytes

fun split_slash :: "bytes \<Rightarrow> bytes list" where
  "split_slash [] = [[]]"
| "split_slash (c # s) =
     (if c = 0x2F then [] # split_slash s
      else case split_slash s of p # ps \<Rightarrow> (c # p) # ps | [] \<Rightarrow> [[c]])"

definition components :: "bytes \<Rightarrow> component list" where
  "components path =
     (let parts = split_slash path;
          rest = map (\<lambda>p. if p = [0x2E, 0x2E] then C_ParentDir else C_Normal p)
                   (filter (\<lambda>p. p \<noteq> [] \<and> p \<noteq> [0x2E]) parts) in
      if path \<noteq> [] \<and> hd path = 0x2F then C_RootDir # rest
      else if hd parts = [0x2E] then C_CurDir # rest
      else rest)"

definition path_parent :: "bytes \<Rightarrow> component list option" where
  "path_parent path =
     (let cs = components path in
      if cs = [] \<or> last cs = C_RootDir then None else Some (butlast cs))"

fun component_rank :: "component \<Rightarrow> nat" where
  "component_rank C_RootDir = 0"
| "component_rank C_CurDir = 1"
| "component_rank C_ParentDir = 2"
| "component_rank (C_Normal _) = 3"

fun component_cmp :: "component \<Rightarrow> component \<Rightarrow> ordering" where
  "component_cmp (C_Normal a) (C_Normal b) = lex_cmp cmp_of a b"
| "component_cmp a b =
     cmp_of (component_rank a) (component_rank b)"

fun parent_cmp :: "component list option \<Rightarrow> component list option \<Rightarrow> ordering" where
  "parent_cmp None None = O_Equal"
| "parent_cmp None (Some _) = O_Less"
| "parent_cmp (Some _) None = O_Greater"
| "parent_cmp (Some a) (Some b) = lex_cmp component_cmp a b"

text \<open>\<open>delta::pack_name_hash\<close>, over the last component of the path.\<close>

fun name_hash_loop :: "32 word \<Rightarrow> bytes \<Rightarrow> 32 word" where
  "name_hash_loop h [] = h"
| "name_hash_loop h (c # name) =
     (if c = 0x20 \<or> c = 0x09 \<or> c = 0x0A \<or> c = 0x0D then name_hash_loop h name
      else name_hash_loop (drop_bit 2 h + push_bit 24 (ucast c)) name)"

definition pack_name_hash :: "bytes \<Rightarrow> 32 word" where
  "pack_name_hash path_bytes = name_hash_loop 0 (last (split_slash path_bytes))"

fun sort_key_loop :: "64 word \<Rightarrow> bytes \<Rightarrow> 64 word" where
  "sort_key_loop key [] = key"
| "sort_key_loop key (byte # rest) = sort_key_loop (push_bit 8 key OR ucast byte) rest"

definition content_sort_key :: "bytes \<Rightarrow> 64 word" where
  "content_sort_key data =
     (let len = min (length data) 8; key = sort_key_loop 0 (take len data) in
      push_bit ((8 - len) * 8) key)"

text \<open>The final comparison of addresses is the comparison of positions in the vector the sort starts
  from: ties keep their order under a stable sort.\<close>

definition magic_sort :: "MetaAttached \<Rightarrow> MetaAttached \<Rightarrow> ordering" where
  "magic_sort a b =
     (let by_size = cmp_of (length (en_data (ma_inner b))) (length (en_data (ma_inner a))) in
      case (ma_file_path a, ma_file_path b) of
        (Some pa, Some pb) \<Rightarrow>
          (let dir_ord = parent_cmp (path_parent pa) (path_parent pb) in
           if dir_ord \<noteq> O_Equal then dir_ord
           else
             let hash_a = pack_name_hash pa; hash_b = pack_name_hash pb in
             if hash_a \<noteq> hash_b then cmp_of hash_b hash_a else by_size)
      | (Some _, None) \<Rightarrow> O_Less
      | (None, Some _) \<Rightarrow> O_Greater
      | (None, None) \<Rightarrow>
          (let ord = cmp_of (content_sort_key (en_data (ma_inner a))) (content_sort_key (en_data (ma_inner b))) in
           if ord \<noteq> O_Equal then ord else by_size))"

text \<open>\<open>slice::sort_by\<close>, a stable sort.\<close>

fun insert_by :: "('a \<Rightarrow> 'a \<Rightarrow> ordering) \<Rightarrow> 'a \<Rightarrow> 'a list \<Rightarrow> 'a list" where
  "insert_by c x [] = [x]"
| "insert_by c x (y # ys) = (if c x y = O_Greater then y # insert_by c x ys else x # y # ys)"

definition sort_by :: "('a \<Rightarrow> 'a \<Rightarrow> ordering) \<Rightarrow> 'a list \<Rightarrow> 'a list" where
  "sort_by c xs = foldr (insert_by c) xs []"

section \<open>Delta search (\<open>delta_search.rs\<close>)\<close>

record DeltaEngines =
  de_calc_hash :: "bytes \<Rightarrow> nat"
  de_zdiff :: "bytes \<Rightarrow> bytes \<Rightarrow> string + bytes"
  de_script :: "bytes \<Rightarrow> bytes \<Rightarrow> diff_event list"

definition MAX_CHAIN_LEN :: nat where
  "MAX_CHAIN_LEN = 50"

definition MIN_DELTA_RATE :: rat where
  "MIN_DELTA_RATE = 1 / 2"

definition multi_point_similar :: "DeltaEngines \<Rightarrow> bytes \<Rightarrow> bytes \<Rightarrow> bool" where
  "multi_point_similar E a b =
     (let min_len = min (length a) (length b) in
      if min_len < 16 then False
      else
        let head_len = min 128 min_len in
        if de_calc_hash E (take head_len a) = de_calc_hash E (take head_len b) then True
        else
          let tail_start = min_len - 128 in
          de_calc_hash E (drop tail_start (take min_len a)) = de_calc_hash E (drop tail_start (take min_len b)))"

record DeltaWindowEntry =
  dw_entry :: Entry
  dw_offset :: nat
  dw_data_arc :: "bytes option"
  dw_rabin_index :: "RabinDeltaIndex option"

definition DeltaWindowEntry_new :: "Entry \<Rightarrow> nat \<Rightarrow> DeltaWindowEntry" where
  "DeltaWindowEntry_new entry offset =
     \<lparr>dw_entry = entry, dw_offset = offset, dw_data_arc = None, dw_rabin_index = None\<rparr>"

definition is_candidate :: "DeltaEngines \<Rightarrow> bool \<Rightarrow> Entry \<Rightarrow> DeltaWindowEntry \<Rightarrow> bool" where
  "is_candidate E disable_prefilter entry try_base =
     (let trg_size = length (en_data entry); src_size = length (en_data (dw_entry try_base)) in
      en_obj_type (dw_entry try_base) = en_obj_type entry
      \<and> en_chain_len (dw_entry try_base) < MAX_CHAIN_LEN
      \<and> en_hash (dw_entry try_base) \<noteq> en_hash entry
      \<and> trg_size \<ge> src_size div 32
      \<and> src_size - min trg_size src_size < trg_size div 2
      \<and> (disable_prefilter \<or> multi_point_similar E (en_data (dw_entry try_base)) (en_data entry)))"

definition pre_filtered_idxs :: "DeltaEngines \<Rightarrow> bool \<Rightarrow> Entry \<Rightarrow> DeltaWindowEntry list \<Rightarrow> nat list" where
  "pre_filtered_idxs E disable_prefilter entry window =
     filter (\<lambda>i. is_candidate E disable_prefilter entry (window ! i)) (rev [0..<length window])"

text \<open>The lazy construction of the index of a window entry.\<close>

definition build_index :: "DeltaWindowEntry \<Rightarrow> io_error + DeltaWindowEntry" where
  "build_index w =
     (case dw_rabin_index w of
        Some _ \<Rightarrow> Inr w
      | None \<Rightarrow>
          let data_arc = (case dw_data_arc w of Some arc \<Rightarrow> arc | None \<Rightarrow> en_data (dw_entry w)) in
          and_then (create_delta_index data_arc) (\<lambda>new_index.
            Inr (w\<lparr>dw_data_arc := Some data_arc, dw_rabin_index := new_index\<rparr>)))"

record DeltaSearch =
  sr_window :: "DeltaWindowEntry list"
  sr_best_delta_size :: nat
  sr_best_rate :: rat
  sr_best_idx :: "nat option"

definition consider_delta :: "Entry \<Rightarrow> nat \<Rightarrow> bytes option \<Rightarrow> DeltaSearch \<Rightarrow> DeltaSearch" where
  "consider_delta entry idx delta st =
     (case delta of
        None \<Rightarrow> st
      | Some delta_data \<Rightarrow>
          let delta_size = length delta_data in
          if delta_size < sr_best_delta_size st
          then st\<lparr>sr_best_delta_size := delta_size,
                  sr_best_rate := 1 - of_nat delta_size / of_nat (length (en_data entry)),
                  sr_best_idx := Some idx\<rparr>
          else st)"

fun score_loop :: "Entry \<Rightarrow> nat list \<Rightarrow> DeltaSearch \<Rightarrow> (GitError + DeltaSearch) option" where
  "score_loop entry [] st = Some (Inr st)"
| "score_loop entry (idx # idxs) st =
     (case build_index (sr_window st ! idx) of
        Inl e \<Rightarrow> Some (Inl (GE_IOError e))
      | Inr w \<Rightarrow>
          let st = st\<lparr>sr_window := (sr_window st)[idx := w]\<rparr> in
          (case dw_rabin_index w of
             None \<Rightarrow> score_loop entry idxs st
           | Some index \<Rightarrow>
               run_then (map_option (map_err GE_IOError)
                   (encode_rabin_with_index_and_max_size index (en_data entry) (sr_best_delta_size st)))
                 (\<lambda>delta. score_loop entry idxs (consider_delta entry idx delta st))))"

definition search_base ::
  "DeltaEngines \<Rightarrow> bool \<Rightarrow> Entry \<Rightarrow> DeltaWindowEntry list \<Rightarrow> (GitError + DeltaSearch) option" where
  "search_base E disable_prefilter entry window =
     (let trg_size = length (en_data entry);
          idxs = pre_filtered_idxs E disable_prefilter entry window;
          st = \<lparr>sr_window = window, sr_best_delta_size = trg_size - (trg_size div 2 + 20),
                sr_best_rate = 0, sr_best_idx = None\<rparr> in
      if idxs = [] then Some (Inr st) else score_loop entry idxs st)"

definition best_base :: "DeltaSearch \<Rightarrow> DeltaWindowEntry option" where
  "best_base st =
     (if sr_best_rate st < MIN_DELTA_RATE then None
      else map_option (\<lambda>i. sr_window st ! i) (sr_best_idx st))"

text \<open>The payload of the target against the chosen base.\<close>

definition delta_payload ::
  "DeltaEngines \<Rightarrow> bool \<Rightarrow> bool \<Rightarrow> DeltaWindowEntry \<Rightarrow> bytes \<Rightarrow> (GitError + bytes) option" where
  "delta_payload E enable_zstdelta enable_rabin base target =
     (if enable_zstdelta then
        Some (map_err (\<lambda>e. git_panic (''zstdelta diff failed: '' @ e)) (de_zdiff E (en_data (dw_entry base)) target))
      else if enable_rabin then
        (case dw_rabin_index base of
           None \<Rightarrow> Some (Inl (git_panic ''called `Option::unwrap()` on a `None` value''))
         | Some index \<Rightarrow> map_option (map_err GE_IOError) (encode_rabin_with_index index target))
      else
        let old = en_data (dw_entry base) in
        Some (map_err GE_IOError (DeltaDiff_encode (DeltaDiff_new (de_script E old target) old target))))"

text \<open>The entry as it is written, and its distance to the base.\<close>

definition deltify ::
  "DeltaEngines \<Rightarrow> bool \<Rightarrow> bool \<Rightarrow> DeltaWindowEntry option \<Rightarrow> nat \<Rightarrow> Entry \<Rightarrow>
   (GitError + Entry \<times> nat option) option" where
  "deltify E enable_zstdelta enable_rabin base current_offset entry =
     (case base of
        None \<Rightarrow> Some (Inr (entry, None))
      | Some b \<Rightarrow>
          run_then (delta_payload E enable_zstdelta enable_rabin b (en_data entry)) (\<lambda>delta.
            Some (Inr (entry\<lparr>en_obj_type := (if enable_zstdelta then OT_OffsetZstdelta else OT_OffsetDelta),
                            en_data := delta, en_chain_len := en_chain_len (dw_entry b) + 1\<rparr>,
                       Some (current_offset - dw_offset b)))))"

definition slide :: "nat \<Rightarrow> DeltaWindowEntry \<Rightarrow> DeltaWindowEntry list \<Rightarrow> DeltaWindowEntry list" where
  "slide window_size w window =
     (let window = window @ [w] in if length window > window_size then tl window else window)"

fun bucket_loop ::
  "Crates \<Rightarrow> DeltaEngines \<Rightarrow> nat \<Rightarrow> bool \<Rightarrow> bool \<Rightarrow> bool \<Rightarrow> Entry list \<Rightarrow> nat \<Rightarrow> DeltaWindowEntry list \<Rightarrow>
   (bytes \<times> IdxEntry) list \<Rightarrow> (GitError + (bytes \<times> IdxEntry) list) option" where
  "bucket_loop X E window_size ez er dp [] current_offset window res = Some (Inr res)"
| "bucket_loop X E window_size ez er dp (entry # bucket) current_offset window res =
     run_then (search_base E dp entry window) (\<lambda>st.
     run_then (deltify E ez er (best_base st) current_offset entry) (\<lambda>(written, offset).
     let entry_for_window = entry\<lparr>en_chain_len := en_chain_len written\<rparr> in
     run_then (Some (encode_one_object X written offset)) (\<lambda>obj_data.
       bucket_loop X E window_size ez er dp bucket (current_offset + length obj_data)
         (slide window_size (DeltaWindowEntry_new entry_for_window current_offset) (sr_window st))
         (res @ [(obj_data, IndexEntry_new X written 0)]))))"

definition try_as_offset_delta ::
  "Crates \<Rightarrow> DeltaEngines \<Rightarrow> Entry list \<Rightarrow> nat \<Rightarrow> bool \<Rightarrow> bool \<Rightarrow> bool \<Rightarrow>
   (GitError + (bytes \<times> IdxEntry) list) option" where
  "try_as_offset_delta X E bucket window_size enable_zstdelta enable_rabin disable_prefilter =
     bucket_loop X E window_size enable_zstdelta enable_rabin disable_prefilter bucket 0 [] []"

end
