(* ===== verification/BTree_Map.thy ===== *)
theory BTree_Map
  imports Main
begin

text \<open>
  The contract of an ordered map and its model.

  \<^item> \<open>ordered_map\<close>: the operations of a map that is iterated in the order of its keys, with the laws
    a client relies on.  Two such maps with the same look-ups list the same items.
  \<^item> \<open>BTreeMap\<close> of the standard library is the list of its items in the order of the keys.
\<close>

section \<open>The contract\<close>

locale ordered_map =
  fixes new :: 'm
    and insert :: "'k::linorder \<Rightarrow> 'v \<Rightarrow> 'm \<Rightarrow> 'm"
    and remove :: "'k \<Rightarrow> 'm \<Rightarrow> 'm"
    and get :: "'m \<Rightarrow> 'k \<Rightarrow> 'v option"
    and items :: "'m \<Rightarrow> ('k \<times> 'v) list"
    and inv :: "'m \<Rightarrow> bool"
  assumes inv_ops: "inv new" "inv m \<Longrightarrow> inv (insert k v m)" "inv m \<Longrightarrow> inv (remove k m)"
    and get_items: "inv m \<Longrightarrow> get m = map_of (items m)"
    and items_new: "items new = []"
    and items_sorted: "inv m \<Longrightarrow> sorted_wrt (<) (map fst (items m))"
    and get_insert: "inv m \<Longrightarrow> get (insert k v m) = (get m)(k \<mapsto> v)"
    and get_remove: "inv m \<Longrightarrow> get (remove k m) = (get m)(k := None)"
begin

lemma get_new: "get new = Map.empty"
  using get_items[OF inv_ops(1)] items_new by simp

lemma items_distinct: "inv m \<Longrightarrow> distinct (map fst (items m))"
  using items_sorted strict_sorted_iff by blast

lemma get_iff: "inv m \<Longrightarrow> get m k = Some v \<longleftrightarrow> (k, v) \<in> set (items m)"
  by (simp add: get_items items_distinct map_of_eq_Some_iff)

lemma items_eq:
  assumes "inv m" "inv n" "get m = get n"
  shows "items m = items n"
proof (rule map_sorted_distinct_set_unique[of fst])
  show "inj_on fst (set (items m) \<union> set (items n))"
  proof (rule inj_onI)
    fix x y assume "x \<in> set (items m) \<union> set (items n)" "y \<in> set (items m) \<union> set (items n)" "fst x = fst y"
    then have "get m (fst x) = Some (snd x)" "get m (fst x) = Some (snd y)"
      using get_iff[OF assms(1)] get_iff[OF assms(2)] assms(3) by (metis Un_iff surjective_pairing)+
    then show "x = y" using \<open>fst x = fst y\<close> by (simp add: prod_eq_iff)
  qed
  show "set (items m) = set (items n)" using assms get_iff by (metis subsetI subset_antisym surj_pair)
qed (use assms items_sorted strict_sorted_iff in blast)+

lemma inv_fold: "inv m \<Longrightarrow> inv (fold (\<lambda>(k, v). insert k v) xs m)"
  by (induction xs arbitrary: m) (auto simp: inv_ops)

lemma get_fold:
  "inv m \<Longrightarrow> distinct (map fst xs) \<Longrightarrow> get (fold (\<lambda>(k, v). insert k v) xs m) = get m ++ map_of xs"
proof (induction xs arbitrary: m)
  case (Cons x xs)
  obtain k v where x: "x = (k, v)" by (cases x)
  have "k \<notin> dom (map_of xs)" using Cons.prems(2) x by (simp add: dom_map_of_conv_image_fst)
  then have "(get m)(k \<mapsto> v) ++ map_of xs = get m ++ (map_of xs)(k \<mapsto> v)" by (simp add: map_add_upd_left)
  moreover have "get (fold (\<lambda>(k, v). insert k v) xs (insert k v m)) = get (insert k v m) ++ map_of xs"
    using Cons.prems x by (intro Cons.IH inv_ops) simp_all
  ultimately show ?case unfolding get_insert[OF Cons.prems(1)] by (simp add: x flip: fun_upd_def)
qed simp

text \<open>Reading the items back in their order rebuilds the map.\<close>

lemma rebuild_items:
  assumes "sorted_wrt (<) (map fst xs)"
  shows "items (fold (\<lambda>(k, v). insert k v) xs new) = xs"
proof (rule map_sorted_distinct_set_unique[of fst])
  let ?m = "fold (\<lambda>(k, v). insert k v) xs new"
  have inv: "inv ?m" by (rule inv_fold[OF inv_ops(1)])
  have d: "distinct (map fst xs)" using assms strict_sorted_iff by blast
  then have get: "get ?m = map_of xs" using get_fold[OF inv_ops(1), of xs] by (simp add: get_new)
  show s: "set (items ?m) = set xs"
    using get_iff[OF inv] get d by (auto simp: map_of_eq_Some_iff)
  show "inj_on fst (set (items ?m) \<union> set xs)" using s d by (simp add: distinct_map)
  show "sorted (map fst (items ?m))" "distinct (map fst (items ?m))"
    using items_sorted[OF inv] strict_sorted_iff by blast+
  show "sorted (map fst xs)" "distinct (map fst xs)" using assms strict_sorted_iff by blast+
qed

end

section \<open>\<open>BTreeMap\<close>\<close>

fun btree_insert :: "'k::linorder \<Rightarrow> 'v \<Rightarrow> ('k \<times> 'v) list \<Rightarrow> ('k \<times> 'v) list" where
  "btree_insert k v [] = [(k, v)]"
| "btree_insert k v ((j, w) # m) =
     (if j < k then (j, w) # btree_insert k v m else if j = k then (k, v) # m else (k, v) # (j, w) # m)"

definition btree_remove :: "'k \<Rightarrow> ('k \<times> 'v) list \<Rightarrow> ('k \<times> 'v) list" where
  "btree_remove k m = filter (\<lambda>(j, _). j \<noteq> k) m"

definition btree_ok :: "('k::linorder \<times> 'v) list \<Rightarrow> bool" where
  "btree_ok m \<longleftrightarrow> sorted_wrt (<) (map fst m)"

lemma set_btree_insert: "fst ` set (btree_insert k v m) = Set.insert k (fst ` set m)"
proof (induction m)
  case (Cons x m)
  then show ?case by (cases x) (simp add: insert_commute)
qed simp

lemma btree_ok_insert: "btree_ok m \<Longrightarrow> btree_ok (btree_insert k v m)"
proof (induction m)
  case (Cons x m)
  obtain j w where x: "x = (j, w)" by (cases x)
  have ok: "btree_ok m" "\<forall>i \<in> fst ` set m. j < i" using Cons.prems x by (auto simp: btree_ok_def)
  have "\<forall>i \<in> fst ` set (btree_insert k v m). j < i" if "j < k" using ok(2) that unfolding set_btree_insert by auto
  then show ?case using Cons.IH[OF ok(1)] ok Cons.prems x by (auto simp: btree_ok_def)
qed (simp add: btree_ok_def)

lemma btree_ok_filter: "btree_ok m \<Longrightarrow> btree_ok (filter P m)"
  by (induction m) (auto simp: btree_ok_def)

lemma map_of_btree_insert: "btree_ok m \<Longrightarrow> map_of (btree_insert k v m) = (map_of m)(k \<mapsto> v)"
  by (induction m) (auto simp: btree_ok_def fun_eq_iff)

lemma map_of_btree_remove: "map_of (btree_remove k m) = (map_of m)(k := None)"
  by (induction m) (auto simp: btree_remove_def fun_eq_iff)

interpretation btree: ordered_map "[]" btree_insert btree_remove map_of "\<lambda>m. m" btree_ok
proof
  show "btree_ok (btree_remove k m)" if "btree_ok m" for k and m :: "('a::linorder \<times> 'b) list"
    using that unfolding btree_remove_def by (rule btree_ok_filter)
qed (simp_all add: btree_ok_insert map_of_btree_insert map_of_btree_remove, simp_all add: btree_ok_def)

text \<open>Inserting a key that is there already replaces its value and keeps the number of items.\<close>

lemma length_btree_insert:
  "btree_ok m \<Longrightarrow> length (btree_insert k v m) = (if k \<in> fst ` set m then length m else Suc (length m))"
proof (induction m)
  case (Cons x m)
  obtain j w where x: "x = (j, w)" by (cases x)
  have "btree_ok m" "\<forall>i \<in> fst ` set m. j < i" using Cons.prems x by (auto simp: btree_ok_def)
  then show ?case using Cons.IH x by auto
qed (simp add: btree_ok_def)

end
