(* ===== verification/Rust_Format.thy ===== *)
theory Rust_Format
  imports Rust_Text
begin

text \<open>
  Hexadecimal formatting of the standard library: \<open>{:04x}\<close> and \<open>usize::from_str_radix(s, 16)\<close>.
\<close>

section \<open>Printing\<close>

definition hex_char :: "nat \<Rightarrow> byte" where
  "hex_char d = (if d < 10 then word_of_nat (48 + d) else word_of_nat (87 + d))"

fun lower_hex :: "nat \<Rightarrow> bytes" where
  "lower_hex n = (if n < 16 then [hex_char n] else lower_hex (n div 16) @ [hex_char (n mod 16)])"

declare lower_hex.simps [simp del]

definition format_04x :: "nat \<Rightarrow> bytes" where
  "format_04x n = (let h = lower_hex n in replicate (4 - length h) 48 @ h)"

section \<open>Parsing\<close>

definition hex_digit_value :: "byte \<Rightarrow> nat option" where
  "hex_digit_value b =
     (let n = unat b in
      if 48 \<le> n \<and> n \<le> 57 then Some (n - 48)
      else if 97 \<le> n \<and> n \<le> 102 then Some (n - 87)
      else if 65 \<le> n \<and> n \<le> 70 then Some (n - 55)
      else None)"

fun hex_digits_value :: "nat \<Rightarrow> bytes \<Rightarrow> nat option" where
  "hex_digits_value acc [] = Some acc"
| "hex_digits_value acc (b # s) =
     (case hex_digit_value b of
        None \<Rightarrow> None
      | Some d \<Rightarrow> if acc * 16 + d < 2 ^ 64 then hex_digits_value (acc * 16 + d) s else None)"

text \<open>\<open>from_str_radix\<close> accepts a leading plus sign in front of at least one digit.\<close>

definition from_str_radix_16 :: "bytes \<Rightarrow> nat option" where
  "from_str_radix_16 s =
     (let digits = (if s \<noteq> [] \<and> hd s = 43 \<and> length s > 1 then tl s else s) in
      if digits = [] then None else hex_digits_value 0 digits)"

section \<open>Round trip\<close>

lemma unat_hex_char: "d < 16 \<Longrightarrow> unat (hex_char d) = (if d < 10 then 48 + d else 87 + d)"
  unfolding hex_char_def by (simp del: of_nat_add)

lemma hex_char_value [simp]: "d < 16 \<Longrightarrow> hex_digit_value (hex_char d) = Some d"
  by (simp add: unat_hex_char hex_digit_value_def Let_def)

lemma hex_char_no_plus: "d < 16 \<Longrightarrow> hex_char d \<noteq> 43"
  by (simp add: unat_hex_char byte_eq_iff)

lemma length_lower_hex: "n < 16 ^ Suc k \<Longrightarrow> length (lower_hex n) \<le> Suc k"
proof (induction k arbitrary: n)
  case (Suc k)
  then show ?case by (subst lower_hex.simps) (simp add: div_less_iff_less_mult mult.commute)
qed (simp add: lower_hex.simps)

lemma lower_hex_not_Nil [simp]: "lower_hex n \<noteq> []"
  by (subst lower_hex.simps) simp

lemma hex_digits_value_append:
  "hex_digits_value acc (s @ t) = Option.bind (hex_digits_value acc s) (\<lambda>a. hex_digits_value a t)"
  by (induction acc s rule: hex_digits_value.induct) (auto split: option.splits)

lemma hex_digits_lower_hex: "n < 2 ^ 64 \<Longrightarrow> hex_digits_value 0 (lower_hex n) = Some n"
proof (induction n rule: lower_hex.induct)
  case (1 n)
  then show ?case
    by (subst lower_hex.simps) (auto simp: hex_digits_value_append mult.commute)
qed

lemma hex_digits_zeros: "hex_digits_value 0 (replicate k 48 @ s) = hex_digits_value 0 s"
  by (induction k) (simp_all add: hex_digit_value_def)

lemma lower_hex_hd: "hd (lower_hex n) \<noteq> 43"
proof (induction n rule: lower_hex.induct)
  case (1 n)
  then show ?case by (subst lower_hex.simps) (auto simp: hex_char_no_plus)
qed

lemma length_format_04x: "n < 2 ^ 16 \<Longrightarrow> length (format_04x n) = 4"
  using length_lower_hex[of n 3] by (simp add: format_04x_def Let_def)

lemma from_str_radix_format_04x: "n < 2 ^ 64 \<Longrightarrow> from_str_radix_16 (format_04x n) = Some n"
proof -
  assume n: "n < 2 ^ 64"
  let ?z = "replicate (4 - length (lower_hex n)) (48 :: byte)"
  have "hd (?z @ lower_hex n) \<noteq> 43" using lower_hex_hd[of n] by (cases "4 - length (lower_hex n)") simp_all
  then show ?thesis
    using n by (simp add: from_str_radix_16_def format_04x_def Let_def hex_digits_zeros hex_digits_lower_hex)
qed

end
