(* ===== verification/Git_Index.thy ===== *)
theory Git_Index
  imports Pack_Scan Pack_Encode BTree_Map Rust_Format "HOL-Library.Product_Lexorder"
begin

text \<open>
  The index of the working tree (\<open>src/src/internal/index.rs\<close>): entries, flag words, the file format,
  and the operations on the set of tracked files.

  \<^item> The map of entries is a \<open>BTreeMap\<close> keyed by name and stage.
  \<^item> A file is its content; the reader is the hashing \<open>Wrapper\<close> over it.  Writing returns the content
    of the file afterwards beside the result, so that what an error leaves behind is visible.
  \<^item> The file system of the working tree is given by its metadata (\<open>stat\<close>) and contents per path.
  \<^item> Unsigned machine integers are natural numbers below their bound; a narrowing cast is \<open>take_bit\<close>.
\<close>

section \<open>Times\<close>

record Time =
  ti_seconds :: nat
  ti_nanos :: nat

definition Time_from_stream :: "bytes \<Rightarrow> GitError + Time \<times> bytes" where
  "Time_from_stream s =
     and_then (map_err GE_IOError (read_be 4 s)) (\<lambda>(seconds, s).
     and_then (map_err GE_IOError (read_be 4 s)) (\<lambda>(nanos, s).
       Inr (\<lparr>ti_seconds = seconds, ti_nanos = nanos\<rparr>, s)))"

text \<open>A \<open>SystemTime\<close> is the seconds and nanoseconds since the epoch.\<close>

definition unix_metadata_time :: "int \<Rightarrow> int \<Rightarrow> int \<times> nat" where
  "unix_metadata_time seconds nanos =
     (if seconds < 0 then (0, 0)
      else (seconds, if 0 \<le> nanos \<and> nanos < 1000000000 then nat nanos else 0))"

definition from_system_time :: "int \<times> nat \<Rightarrow> GitError + Time" where
  "from_system_time t =
     (if fst t < 0 then Inl (git_panic ''Time is before the UNIX epoch'')
      else if fst t < 2 ^ 32 then Inr \<lparr>ti_seconds = nat (fst t), ti_nanos = snd t\<rparr>
      else Inl (git_panic ''Time is too far in the future''))"

section \<open>Flags\<close>

record Flags =
  fl_assume_valid :: bool
  fl_extended :: bool
  fl_stage :: nat
  fl_name_length :: nat
  fl_skip_worktree :: bool
  fl_intent_to_add :: bool

definition Flags_from :: "nat \<Rightarrow> Flags" where
  "Flags_from flags =
     \<lparr>fl_assume_valid = (flags AND 0x8000 \<noteq> 0), fl_extended = (flags AND 0x4000 \<noteq> 0),
      fl_stage = drop_bit 12 (flags AND 0x3000), fl_name_length = flags AND 0xFFF,
      fl_skip_worktree = False, fl_intent_to_add = False\<rparr>"

definition Flags_try_into :: "Flags \<Rightarrow> string + nat" where
  "Flags_try_into f =
     (let flags = 0;
          flags = (if fl_assume_valid f then flags OR 0x8000 else flags);
          flags = (if fl_extended f then flags OR 0x4000 else flags);
          flags = flags OR take_bit 16 (push_bit 12 (fl_stage f)) in
      if fl_name_length f > 0xFFF then Inl ''Name length is too long''
      else Inr (flags OR fl_name_length f))"

definition EXTENDED_FLAG_SKIP_WORKTREE :: nat where
  "EXTENDED_FLAG_SKIP_WORKTREE = 0x4000"

definition EXTENDED_FLAG_INTENT_TO_ADD :: nat where
  "EXTENDED_FLAG_INTENT_TO_ADD = 0x2000"

definition Flags_new :: "nat \<Rightarrow> Flags" where
  "Flags_new name_len =
     \<lparr>fl_assume_valid = False, fl_extended = False, fl_stage = 0, fl_name_length = name_len,
      fl_skip_worktree = False, fl_intent_to_add = False\<rparr>"

text \<open>\<open>word & !KNOWN != 0\<close> on sixteen bits: a bit of the word outside the two known ones.\<close>

definition from_extended_word :: "nat \<Rightarrow> GitError + bool \<times> bool" where
  "from_extended_word word =
     (let known = EXTENDED_FLAG_SKIP_WORKTREE OR EXTENDED_FLAG_INTENT_TO_ADD in
      if word AND (0xFFFF - known) \<noteq> 0
      then Inl (GE_InvalidIndexFile (''index entry has unknown extended flags 0x'' @ latin (format_04x word)))
      else Inr (word AND EXTENDED_FLAG_SKIP_WORKTREE \<noteq> 0, word AND EXTENDED_FLAG_INTENT_TO_ADD \<noteq> 0))"

definition extended_word :: "Flags \<Rightarrow> nat option" where
  "extended_word f =
     (let word = 0;
          word = (if fl_skip_worktree f then word OR EXTENDED_FLAG_SKIP_WORKTREE else word);
          word = (if fl_intent_to_add f then word OR EXTENDED_FLAG_INTENT_TO_ADD else word) in
      if word \<noteq> 0 then Some word else None)"

section \<open>Entries\<close>

record GitIndexEntry =
  gi_ctime :: Time
  gi_mtime :: Time
  gi_dev :: nat
  gi_ino :: nat
  gi_mode :: nat
  gi_uid :: nat
  gi_gid :: nat
  gi_size :: nat
  gi_hash :: ObjectHash
  gi_flags :: Flags
  gi_name :: bytes

text \<open>What \<open>fs::symlink_metadata\<close> tells of a file.\<close>

record Metadata =
  md_ctime :: int
  md_ctime_nsec :: int
  md_mtime :: int
  md_mtime_nsec :: int
  md_dev :: nat
  md_ino :: nat
  md_mode :: nat
  md_uid :: nat
  md_gid :: nat
  md_len :: nat

definition index_ctime :: "Metadata \<Rightarrow> int \<times> nat" where
  "index_ctime meta = unix_metadata_time (md_ctime meta) (md_ctime_nsec meta)"

definition index_mtime :: "Metadata \<Rightarrow> int \<times> nat" where
  "index_mtime meta = unix_metadata_time (md_mtime meta) (md_mtime_nsec meta)"

definition index_mode :: "nat \<Rightarrow> nat" where
  "index_mode mode =
     (let m = mode AND 0xF000 in
      if m = 0x8000 then (if mode AND 0x49 = 0 then 0x81A4 else 0x81ED)
      else if m = 0xA000 then 0xA000
      else 0x81A4)"

definition GitIndexEntry_new :: "Metadata \<Rightarrow> ObjectHash \<Rightarrow> bytes \<Rightarrow> GitError + GitIndexEntry" where
  "GitIndexEntry_new meta h name =
     and_then (from_system_time (index_ctime meta)) (\<lambda>ctime.
     and_then (from_system_time (index_mtime meta)) (\<lambda>mtime.
       Inr \<lparr>gi_ctime = ctime, gi_mtime = mtime, gi_dev = take_bit 32 (md_dev meta), gi_ino = take_bit 32 (md_ino meta),
            gi_mode = index_mode (md_mode meta), gi_uid = md_uid meta, gi_gid = md_gid meta,
            gi_size = take_bit 32 (md_len meta), gi_hash = h, gi_flags = Flags_new (take_bit 16 (length name)),
            gi_name = name\<rparr>))"

definition new_from_file ::
  "(bytes \<Rightarrow> io_error + Metadata) \<Rightarrow> bytes \<Rightarrow> ObjectHash \<Rightarrow> GitError + GitIndexEntry" where
  "new_from_file stat path h =
     and_then (ok_or (git_panic ''called `Option::unwrap()` on a `None` value'') (from_utf8 path)) (\<lambda>name.
     and_then (map_err GE_IOError (stat path)) (\<lambda>meta. GitIndexEntry_new meta h name))"

definition new_from_blob :: "bytes \<Rightarrow> ObjectHash \<Rightarrow> nat \<Rightarrow> GitIndexEntry" where
  "new_from_blob name h sz =
     (let zero = \<lparr>ti_seconds = 0, ti_nanos = 0\<rparr> in
      \<lparr>gi_ctime = zero, gi_mtime = zero, gi_dev = 0, gi_ino = 0, gi_mode = 0x81A4, gi_uid = 0, gi_gid = 0,
       gi_size = sz, gi_hash = h, gi_flags = Flags_new (take_bit 16 (length name)), gi_name = name\<rparr>)"

section \<open>Reading an index file\<close>

type_synonym Index = "((bytes \<times> nat) \<times> GitIndexEntry) list"

definition Index_new :: Index where
  "Index_new = []"

definition index_add :: "GitIndexEntry \<Rightarrow> Index \<Rightarrow> Index" where
  "index_add entry idx = btree_insert (gi_name entry, fl_stage (gi_flags entry)) entry idx"

definition DIRC :: bytes where
  "DIRC = [0x44, 0x49, 0x52, 0x43]"

definition index_check_header :: "bytes \<Rightarrow> GitError + (nat \<times> nat) \<times> bytes" where
  "index_check_header s =
     and_then (map_err GE_IOError (read_exact 4 s)) (\<lambda>(magic, s).
     if magic \<noteq> DIRC then Inl (GE_InvalidIndexHeader (latin (from_utf8_lossy magic)))
     else
       and_then (map_err GE_IOError (read_be 4 s)) (\<lambda>(version, s).
       if version \<noteq> 2 \<and> version \<noteq> 3 then Inl (GE_InvalidIndexHeader (decimal_string version))
       else
         and_then (map_err GE_IOError (read_be 4 s)) (\<lambda>(entries, s).
           Inr ((version, entries), s))))"

definition entry_padding :: "HashKind \<Rightarrow> bool \<Rightarrow> nat \<Rightarrow> nat" where
  "entry_padding kind extended name_len =
     (let entry_len = hash_size kind + 2 + (if extended then 2 else 0) + name_len in
      1 + ((8 - ((entry_len + 1) mod 8)) mod 8))"

text \<open>The flag words in front of the name.\<close>

definition read_index_flags :: "bytes \<Rightarrow> GitError + Flags \<times> bytes" where
  "read_index_flags s =
     and_then (map_err GE_IOError (read_be 2 s)) (\<lambda>(flags, s).
     let flags = Flags_from flags in
     if fl_extended flags then
       and_then (map_err GE_IOError (read_be 2 s)) (\<lambda>(word, s).
       and_then (from_extended_word word) (\<lambda>(skip_worktree, intent_to_add).
         Inr (flags\<lparr>fl_skip_worktree := skip_worktree, fl_intent_to_add := intent_to_add\<rparr>, s)))
     else Inr (flags, s))"

text \<open>One iteration of the loop over the entries, the padding included.\<close>

definition read_index_entry :: "HashKind \<Rightarrow> bytes \<Rightarrow> GitError + GitIndexEntry \<times> bytes" where
  "read_index_entry kind s =
     and_then (Time_from_stream s) (\<lambda>(ctime, s).
     and_then (Time_from_stream s) (\<lambda>(mtime, s).
     and_then (map_err GE_IOError (read_be 4 s)) (\<lambda>(dev, s).
     and_then (map_err GE_IOError (read_be 4 s)) (\<lambda>(ino, s).
     and_then (map_err GE_IOError (read_be 4 s)) (\<lambda>(mode, s).
     and_then (map_err GE_IOError (read_be 4 s)) (\<lambda>(uid, s).
     and_then (map_err GE_IOError (read_be 4 s)) (\<lambda>(gid, s).
     and_then (map_err GE_IOError (read_be 4 s)) (\<lambda>(sz, s).
     and_then (map_err GitError_of_hash (from_stream_for_kind kind s)) (\<lambda>(h, s).
     and_then (read_index_flags s) (\<lambda>(flags, s).
     and_then (map_err GE_IOError (read_exact (fl_name_length flags) s)) (\<lambda>(raw, s).
     and_then (ok_or (GE_ConversionError ''invalid utf-8 sequence'') (from_utf8 raw)) (\<lambda>name.
     and_then (map_err GE_IOError
         (read_exact (entry_padding kind (fl_extended flags) (fl_name_length flags)) s)) (\<lambda>(_, s).
       Inr (\<lparr>gi_ctime = ctime, gi_mtime = mtime, gi_dev = dev, gi_ino = ino, gi_mode = mode, gi_uid = uid,
             gi_gid = gid, gi_size = sz, gi_hash = h, gi_flags = flags, gi_name = name\<rparr>, s))))))))))))))"

fun read_index_entries :: "HashKind \<Rightarrow> nat \<Rightarrow> Index \<Rightarrow> Wrapper \<Rightarrow> GitError + Index \<times> Wrapper" where
  "read_index_entries kind 0 idx reader = Inr (idx, reader)"
| "read_index_entries kind (Suc n) idx reader =
     and_then (wrapped (read_index_entry kind) reader) (\<lambda>(entry, reader).
       read_index_entries kind n (index_add entry idx) reader)"

text \<open>One extension: its signature is printed, which requires it to be text; only optional ones are
  known, and they are skipped.\<close>

definition skip_extension :: "bytes \<Rightarrow> GitError + unit \<times> bytes" where
  "skip_extension s =
     and_then (map_err GE_IOError (read_exact 4 s)) (\<lambda>(sign, s).
     and_then (ok_or (GE_ConversionError ''invalid utf-8 sequence'') (from_utf8 sign)) (\<lambda>_.
     if 0x41 \<le> hd sign \<and> hd sign \<le> 0x5A then
       and_then (map_err GE_IOError (read_be 4 s)) (\<lambda>(sz, s).
       and_then (map_err GE_IOError (read_exact sz s)) (\<lambda>(_, s). Inr ((), s)))
     else Inl (GE_InvalidIndexFile ''Unsupported extension'')))"

lemma skip_extension_shorter: "skip_extension s = Inr (u, r) \<Longrightarrow> length r < length s"
  by (auto simp: skip_extension_def and_then_eq_Inr_iff read_exact_eq_Inr_iff read_be_eq_Inr_iff split: if_splits)

function read_extensions :: "HashKind \<Rightarrow> nat \<Rightarrow> Wrapper \<Rightarrow> GitError + Wrapper" where
  "read_extensions kind total_size reader =
     (if wr_bytes_read reader + hash_size kind < total_size then
        and_then (wrapped skip_extension reader) (\<lambda>(_, reader). read_extensions kind total_size reader)
      else Inr reader)"
  by pat_completeness auto
termination
proof (relation "measure (\<lambda>(_, _, reader). length (wr_inner reader))")
  fix kind total_size reader x u reader'
  assume "wrapped skip_extension reader = Inr x" "(u, reader') = x"
  then show "((kind, total_size, reader'), kind, total_size, reader) \<in> measure (\<lambda>(_, _, reader). length (wr_inner reader))"
    by (auto simp: wrapped_def and_then_eq_Inr_iff wrapper_consume_def dest: skip_extension_shorter)
qed simp

declare read_extensions.simps [simp del]

definition from_file_with_hash_kind ::
  "(HashKind \<Rightarrow> bytes \<Rightarrow> bytes) \<Rightarrow> HashKind \<Rightarrow> bytes \<Rightarrow> GitError + Index" where
  "from_file_with_hash_kind digest kind content =
     (let reader = Wrapper_new_with_kind content kind in
      and_then (wrapped index_check_header reader) (\<lambda>((_, num), reader).
      and_then (read_index_entries kind num Index_new reader) (\<lambda>(index, reader).
      and_then (read_extensions kind (length content) reader) (\<lambda>reader.
      and_then (final_hash digest reader) (\<lambda>file_hash.
      and_then (map_err GitError_of_hash (wrapped (from_stream_for_kind kind) reader)) (\<lambda>(check_sum, _).
      if file_hash \<noteq> check_sum then Inl (GE_InvalidIndexFile ''Check sum failed'')
      else if length index \<noteq> num then Inl (git_panic ''assertion `left == right` failed'')
      else Inr index))))))"

text \<open>A file that does not exist is the empty index.\<close>

definition load_with_hash_kind ::
  "(HashKind \<Rightarrow> bytes \<Rightarrow> bytes) \<Rightarrow> HashKind \<Rightarrow> bytes option \<Rightarrow> GitError + Index" where
  "load_with_hash_kind digest kind file =
     (case file of None \<Rightarrow> Inr Index_new | Some content \<Rightarrow> from_file_with_hash_kind digest kind content)"

section \<open>Writing an index file\<close>

definition written_extended_word :: "Flags \<Rightarrow> nat option" where
  "written_extended_word f =
     (case extended_word f of Some w \<Rightarrow> Some w | None \<Rightarrow> if fl_extended f then Some 0 else None)"

definition index_entry_bytes :: "HashKind \<Rightarrow> GitIndexEntry \<Rightarrow> GitError + bytes" where
  "index_entry_bytes kind e =
     (let word = written_extended_word (gi_flags e) in
      and_then (map_err (\<lambda>m. GE_InvalidIndexFile (''cannot encode index flags: '' @ m)) (Flags_try_into (gi_flags e)))
        (\<lambda>packed.
      let packed = (if word \<noteq> None then packed OR 0x4000 else packed) in
      Inr (be_bytes 4 (ti_seconds (gi_ctime e)) @ be_bytes 4 (ti_nanos (gi_ctime e))
         @ be_bytes 4 (ti_seconds (gi_mtime e)) @ be_bytes 4 (ti_nanos (gi_mtime e))
         @ be_bytes 4 (gi_dev e) @ be_bytes 4 (gi_ino e) @ be_bytes 4 (gi_mode e) @ be_bytes 4 (gi_uid e)
         @ be_bytes 4 (gi_gid e) @ be_bytes 4 (gi_size e) @ as_ref (gi_hash e)
         @ be_bytes 2 packed @ (case word of Some w \<Rightarrow> be_bytes 2 w | None \<Rightarrow> [])
         @ gi_name e @ replicate (entry_padding kind (word \<noteq> None) (length (gi_name e))) 0)))"

fun write_index_entries ::
  "HashKind \<Rightarrow> GitIndexEntry list \<Rightarrow> bytes \<Rightarrow> HashAlgorithm \<Rightarrow> (bytes \<times> HashAlgorithm) \<times> (GitError + unit)" where
  "write_index_entries kind [] file h = ((file, h), Inr ())"
| "write_index_entries kind (e # es) file h =
     (case index_entry_bytes kind e of
        Inl err \<Rightarrow> ((file, h), Inl err)
      | Inr entry_bytes \<Rightarrow> write_index_entries kind es (file @ entry_bytes) (hasher_update entry_bytes h))"

fun ensure_index_kinds :: "HashKind \<Rightarrow> GitIndexEntry list \<Rightarrow> GitError + unit" where
  "ensure_index_kinds kind [] = Inr ()"
| "ensure_index_kinds kind (e # es) =
     and_then (map_err GitError_of_hash (ensure_kind (gi_hash e) kind)) (\<lambda>_. ensure_index_kinds kind es)"

definition index_header :: "GitIndexEntry list \<Rightarrow> bytes" where
  "index_header es =
     (let any_extended = (\<exists>e \<in> set es. extended_word (gi_flags e) \<noteq> None \<or> fl_extended (gi_flags e)) in
      DIRC @ be_bytes 4 (if any_extended then 3 else 2) @ be_bytes 4 (length es))"

definition to_file_with_hash_kind ::
  "(HashKind \<Rightarrow> bytes \<Rightarrow> bytes) \<Rightarrow> HashKind \<Rightarrow> Index \<Rightarrow> bytes option \<Rightarrow> bytes option \<times> (GitError + unit)" where
  "to_file_with_hash_kind digest kind idx file =
     (let es = map snd idx in
      case ensure_index_kinds kind es of
        Inl err \<Rightarrow> (file, Inl err)
      | Inr _ \<Rightarrow>
          let header = index_header es in
          (case write_index_entries kind es header (hasher_update header (new_for_kind kind)) of
             ((content, _), Inl err) \<Rightarrow> (Some content, Inl err)
           | ((content, h), Inr _) \<Rightarrow> (Some (content @ as_ref (finalize_object_hash digest h)), Inr ())))"

definition save_with_hash_kind ::
  "(HashKind \<Rightarrow> bytes \<Rightarrow> bytes) \<Rightarrow> HashKind \<Rightarrow> Index \<Rightarrow> bytes option \<Rightarrow> bytes option \<times> (GitError + unit)" where
  "save_with_hash_kind digest kind idx file = to_file_with_hash_kind digest kind idx file"

section \<open>Operations\<close>

definition index_size :: "Index \<Rightarrow> nat" where
  "index_size idx = length idx"

definition index_update :: "GitIndexEntry \<Rightarrow> Index \<Rightarrow> Index" where
  "index_update entry idx = index_add entry idx"

definition index_get :: "bytes \<Rightarrow> nat \<Rightarrow> Index \<Rightarrow> GitIndexEntry option" where
  "index_get name stage idx = map_of idx (name, stage)"

definition index_remove :: "bytes \<Rightarrow> nat \<Rightarrow> Index \<Rightarrow> GitIndexEntry option \<times> Index" where
  "index_remove name stage idx = (index_get name stage idx, btree_remove (name, stage) idx)"

definition tracked :: "bytes \<Rightarrow> nat \<Rightarrow> Index \<Rightarrow> bool" where
  "tracked name stage idx \<longleftrightarrow> index_get name stage idx \<noteq> None"

definition index_get_hash :: "bytes \<Rightarrow> nat \<Rightarrow> Index \<Rightarrow> ObjectHash option" where
  "index_get_hash name stage idx = map_option gi_hash (index_get name stage idx)"

definition verify_hash :: "bytes \<Rightarrow> nat \<Rightarrow> ObjectHash \<Rightarrow> Index \<Rightarrow> bool" where
  "verify_hash name stage h idx =
     (case index_get_hash name stage idx of Some inner_hash \<Rightarrow> inner_hash = h | None \<Rightarrow> False)"

definition is_modified ::
  "(bytes \<Rightarrow> io_error + Metadata) \<Rightarrow> bytes \<Rightarrow> nat \<Rightarrow> Index \<Rightarrow> GitError + bool" where
  "is_modified stat name stage idx =
     (case index_get name stage idx of
        None \<Rightarrow> Inl (git_panic ''File not found in index'')
      | Some entry \<Rightarrow>
          and_then (map_err (\<lambda>_. git_panic ''called `Result::unwrap()` on an `Err` value'') (stat name)) (\<lambda>meta.
          and_then (from_system_time (index_ctime meta)) (\<lambda>ctime.
          if gi_ctime entry \<noteq> ctime then Inr True
          else
            and_then (from_system_time (index_mtime meta)) (\<lambda>mtime.
              Inr (\<not> (gi_mtime entry = mtime \<and> gi_size entry = take_bit 32 (md_len meta)))))))"

definition tracked_entries :: "nat \<Rightarrow> Index \<Rightarrow> GitIndexEntry list" where
  "tracked_entries stage idx = map snd (filter (\<lambda>(_, entry). fl_stage (gi_flags entry) = stage) idx)"

definition tracked_files :: "Index \<Rightarrow> bytes list" where
  "tracked_files idx = map gi_name (tracked_entries 0 idx)"

definition below_dir :: "bytes \<Rightarrow> bytes \<Rightarrow> bool" where
  "below_dir dir path \<longleftrightarrow> prefix (components dir) (components path) \<and> components path \<noteq> components dir"

definition contains_dir_file :: "bytes \<Rightarrow> Index \<Rightarrow> bool" where
  "contains_dir_file dir idx \<longleftrightarrow> (\<exists>((name, _), _) \<in> set idx. below_dir dir name)"

definition remove_dir_files :: "bytes \<Rightarrow> Index \<Rightarrow> bytes list \<times> Index" where
  "remove_dir_files dir idx =
     (map (fst \<circ> fst) (filter (\<lambda>((name, _), _). below_dir dir name) idx),
      filter (\<lambda>((name, _), _). \<not> below_dir dir name) idx)"

text \<open>\<open>refresh_with_hash_kind\<close>: the index afterwards and the result.\<close>

definition refreshed ::
  "(HashKind \<Rightarrow> bytes \<Rightarrow> bytes) \<Rightarrow> HashKind \<Rightarrow> (bytes \<Rightarrow> io_error + Metadata) \<Rightarrow> (bytes \<Rightarrow> io_error + bytes) \<Rightarrow>
   bytes \<Rightarrow> GitIndexEntry \<Rightarrow> GitError + GitIndexEntry \<times> bool" where
  "refreshed digest kind stat contents path entry =
     and_then (map_err GitError_of_hash (ensure_kind (gi_hash entry) kind)) (\<lambda>_.
     and_then (map_err GE_IOError (stat path)) (\<lambda>meta.
     and_then (from_system_time (index_ctime meta)) (\<lambda>new_ctime.
     and_then (from_system_time (index_mtime meta)) (\<lambda>new_mtime.
     let new_size = take_bit 32 (md_len meta) in
     and_then (ok_or (GE_InvalidObjectType ''Blob'') (ObjectType_to_bytes OT_Blob)) (\<lambda>type_label.
     let hasher = hasher_update [0] (hasher_update (decimal (md_len meta))
           (hasher_update [0x20] (hasher_update type_label (new_for_kind kind)))) in
     and_then (map_err GE_IOError (contents path)) (\<lambda>data.
     let new_hash = finalize_object_hash digest (hasher_update data hasher) in
     if gi_ctime entry \<noteq> new_ctime \<or> gi_mtime entry \<noteq> new_mtime \<or> gi_size entry \<noteq> new_size \<or> gi_hash entry \<noteq> new_hash
     then Inr (entry\<lparr>gi_ctime := new_ctime, gi_mtime := new_mtime, gi_size := new_size, gi_hash := new_hash\<rparr>, True)
     else Inr (entry, False)))))))"

definition refresh_with_hash_kind ::
  "(HashKind \<Rightarrow> bytes \<Rightarrow> bytes) \<Rightarrow> HashKind \<Rightarrow> (bytes \<Rightarrow> io_error + Metadata) \<Rightarrow> (bytes \<Rightarrow> io_error + bytes) \<Rightarrow>
   bytes \<Rightarrow> Index \<Rightarrow> Index \<times> (GitError + bool)" where
  "refresh_with_hash_kind digest kind stat contents path idx =
     (case from_utf8 path of
        None \<Rightarrow> (idx, Inl (GE_InvalidPathError (latin path)))
      | Some name \<Rightarrow>
          (case index_get name 0 idx of
             None \<Rightarrow> (idx, Inr False)
           | Some entry \<Rightarrow>
               (case refreshed digest kind stat contents path entry of
                  Inl err \<Rightarrow> (idx, Inl err)
                | Inr (entry', changed) \<Rightarrow> (btree_insert (name, 0) entry' idx, Inr changed))))"

end
