(* ===== verification/Pack_Scan_Proofs.thy ===== *)
theory Pack_Scan_Proofs
  imports Pack_Scan
begin

text \<open>
  The scans and the reading loop agree: a pack that the reading loop accepts is accepted by the scan,
  which counts exactly the dependencies of the objects the loop yields, and the copying reader splits
  every stream into payload and trailer whatever the chunks are.
\<close>

section \<open>Readers leave a suffix\<close>

lemma size_loop_suffix: "type_and_varint_size_loop c sz sh off s = Inr (v, r) \<Longrightarrow> suffix r s"
  by (induction c sz sh off s rule: type_and_varint_size_loop.induct)
    (auto simp: Let_def suffix_Cons split: prod.splits if_splits)

lemma read_type_suffix: "read_type_and_varint_size s off = Inr (v, r) \<Longrightarrow> suffix r s"
  by (cases s) (auto simp: read_type_and_varint_size_def read_byte_and_check_continuation_def Let_def
      and_then_eq_Inr_iff suffix_Cons split: prod.splits dest: size_loop_suffix)

lemma offset_loop_suffix: "read_offset_encoding_loop n k s = Inr (v, r) \<Longrightarrow> suffix r s"
  by (induction n k s rule: read_offset_encoding_loop.induct)
    (auto simp: Let_def suffix_Cons split: prod.splits if_splits)

lemma read_offset_suffix: "read_offset_encoding s = Inr (v, r) \<Longrightarrow> suffix r s"
  by (simp add: read_offset_encoding_def offset_loop_suffix)

lemma read_hash_suffix: "from_stream_for_kind kind s = Inr (h, r) \<Longrightarrow> suffix r s"
  by (auto simp: from_stream_for_kind_eq_Inr_iff suffix_def)

lemma inflate_suffix: "zlib_ok X \<Longrightarrow> decompress_data X n s = Inr (v, r) \<Longrightarrow> suffix r s"
  by (cases v) (auto simp: decompress_data_iff zlib_ok_def)

lemma drop_suffix: "suffix r s \<Longrightarrow> drop (length s - length r) s = r"
  by (auto simp: suffix_def)

lemma counted_suffix:
  assumes "counted f c = Inr (v, c')" "\<And>v r. f (cr_inner c) = Inr (v, r) \<Longrightarrow> suffix r (cr_inner c)"
  shows "f (cr_inner c) = Inr (v, cr_inner c')"
  using assms by (auto simp: counted_iff cr_consume_def drop_suffix)

section \<open>The scan of one entry\<close>

fun add_key :: "dep_key option \<Rightarrow> DecodeRetention \<Rightarrow> DecodeRetention" where
  "add_key None r = r"
| "add_key (Some (K_Offset off)) r = add_offset_dependency off r"
| "add_key (Some (K_Hash h)) r = add_hash_dependency h r"

lemma skip_of_decompress:
  "decompress_data X n s = Inr ((d, k), r) \<Longrightarrow> skip_compressed_data X n s = Inr (k, r)"
  by (auto simp: decompress_data_iff skip_compressed_data_iff)

lemma delta_payload_scan:
  assumes "zlib_ok X" "decode_delta_payload X opts info sz init off c = Inr ((res, off'), r)"
  shows "\<exists>obj n k. res = Some obj \<and> co_info obj = info n \<and> skip_compressed_data X sz (cr_inner c) = Inr (k, r) \<and>
    off' = off + k"
proof -
  obtain d k c' n x where p: "counted (decompress_data X sz) c = Inr ((d, k), c')"
    and res: "r = cr_inner c'" "off' = off + k" "res = Some x" "co_info x = info n"
    using assms(2) by (auto simp: decode_delta_payload_def Let_def and_then_eq_Inr_iff)
  have "decompress_data X sz (cr_inner c) = Inr ((d, k), cr_inner c')"
    by (rule counted_suffix[OF p]) (rule inflate_suffix[OF assms(1)])
  then show ?thesis using res skip_of_decompress by fastforce
qed

lemma base_object_scan:
  assumes "zlib_ok X" "decode_base_object X kind opts t sz init off c = Inr ((res, off'), r)"
  shows "\<exists>obj h k. res = Some obj \<and> co_info obj = CI_BaseObject t h \<and>
    skip_compressed_data X sz (cr_inner c) = Inr (k, r) \<and> off' = off + k"
proof -
  obtain d k c' h x where p: "counted (decompress_data X sz) c = Inr ((d, k), c')"
    and res: "r = cr_inner c'" "off' = off + k" "res = Some x" "co_info x = CI_BaseObject t h"
    using assms(2) by (auto simp: decode_base_object_iff)
  have "decompress_data X sz (cr_inner c) = Inr ((d, k), cr_inner c')"
    by (rule counted_suffix[OF p]) (rule inflate_suffix[OF assms(1)])
  then show ?thesis using res skip_of_decompress by fastforce
qed

text \<open>Nothing is skipped, whatever the counts: skipping is off, or no ids are known.\<close>

definition never_skips :: "EntryOptions \<Rightarrow> bool" where
  "never_skips opts \<longleftrightarrow> \<not> eo_skip_unneeded opts \<or> eo_known_hash opts = None"

definition reads_all :: "DecodeOptions \<Rightarrow> bool" where
  "reads_all opts \<longleftrightarrow> \<not> do_skip_unneeded opts \<or> do_known_hashes opts = None"

lemma reads_all_options: "reads_all opts \<Longrightarrow> never_skips (entry_options cb opts i)"
  by (auto simp: reads_all_def never_skips_def entry_options_def get_at_def)

lemma never_skips_iff [simp]:
  "never_skips opts \<Longrightarrow> \<not> should_skip_no_callback_object (eo_skip_unneeded opts) (eo_known_hash opts) ret off"
  by (auto simp: never_skips_def should_skip_no_callback_object_def)

lemma decode_scan_entry:
  assumes zlib: "zlib_ok X" and skip: "never_skips opts"
    and dec: "decode_pack_object_with_crc X kind opts off s = Inr ((res, off'), r)"
  shows "\<exists>obj. res = Some obj \<and> scan_entry X kind off ret s = Inr ((add_key (key_of (co_info obj)) ret, off'), r)"
proof -
  let ?c = "cr_new s (eo_track_crc opts)"
  obtain tn sz o1 c1 t where hdr: "counted (\<lambda>s. read_type_and_varint_size s off) ?c = Inr ((tn, sz, o1), c1)"
    and t: "from_pack_type_u8 tn = Inr t"
    using dec by (auto simp: decode_pack_object_with_crc_def Let_def and_then_eq_Inr_iff)
  have "cr_inner ?c = s" by (simp add: cr_new_def)
  then have hdr': "read_type_and_varint_size s off = Inr ((tn, sz, o1), cr_inner c1)"
    using counted_suffix[OF hdr] read_type_suffix by simp
  consider "t \<in> {OT_Commit, OT_Tree, OT_Blob, OT_Tag}" | "t = OT_OffsetDelta \<or> t = OT_OffsetZstdelta" | "t = OT_HashDelta"
    using dec hdr t by (auto simp: decode_pack_object_with_crc_def Let_def split: if_splits)
  then show ?thesis
  proof cases
    case 1
    then have "decode_base_object X kind opts t sz off o1 c1 = Inr ((res, off'), r)"
      using dec hdr t skip by (auto simp: decode_pack_object_with_crc_def Let_def)
    from base_object_scan[OF zlib this] 1 show ?thesis
      using hdr' t by (auto simp: scan_entry_def Let_def)
  next
    case 2
    obtain d n c2 where c2: "counted read_offset_encoding c1 = Inr ((d, n), c2)" "\<not> off < d"
      and pay: "decode_delta_payload X opts (if t = OT_OffsetDelta then CI_OffsetDelta (off - d) else CI_OffsetZstdelta (off - d))
          sz off (o1 + n) c2 = Inr ((res, off'), r)"
      using dec hdr t 2 by (auto simp: decode_pack_object_with_crc_def Let_def and_then_eq_Inr_iff split: if_splits)
    have "read_offset_encoding (cr_inner c1) = Inr ((d, n), cr_inner c2)"
      by (rule counted_suffix[OF c2(1)]) (rule read_offset_suffix)
    with delta_payload_scan[OF zlib pay] 2 show ?thesis
      using hdr' t c2(2) by (auto simp: scan_entry_def Let_def split: if_splits)
  next
    case 3
    obtain h c2 where c2: "counted (from_stream_for_kind kind) c1 = Inr (h, c2)"
      and pay: "decode_delta_payload X opts (CI_HashDelta h) sz off (o1 + hash_size kind) c2 = Inr ((res, off'), r)"
      using dec hdr t 3 by (auto simp: decode_pack_object_with_crc_def Let_def and_then_eq_Inr_iff split: if_splits)
    have "from_stream_for_kind kind (cr_inner c1) = Inr (h, cr_inner c2)"
      by (rule counted_suffix[OF c2]) (rule read_hash_suffix)
    with delta_payload_scan[OF zlib pay] 3 show ?thesis
      using hdr' t by (auto simp: scan_entry_def Let_def)
  qed
qed

section \<open>The scan of a pack\<close>

lemma dep_count_add: "dep_count k (add_key k' r) = dep_count k r + (if k' = Some k then 1 else 0)"
  by (cases "(k', r)" rule: add_key.cases; cases k)
    (auto simp: add_offset_dependency_def add_hash_dependency_def bump_def split: option.splits)

lemma retention_wf_add: "retention_wf r \<Longrightarrow> retention_wf (add_key k r)"
  by (cases "(k, r)" rule: add_key.cases)
    (auto simp: retention_wf_def add_offset_dependency_def add_hash_dependency_def bump_def split: option.splits)

text \<open>A reader with hash tracking on or off, after the bytes \<open>fed\<close>.\<close>

definition wr_at :: "HashKind option \<Rightarrow> bytes \<Rightarrow> bytes \<Rightarrow> Wrapper" where
  "wr_at k fed s =
     \<lparr>wr_inner = s, wr_hash = map_option (\<lambda>kind. \<lparr>ha_kind = kind, absorbed = fed\<rparr>) k, wr_bytes_read = length fed\<rparr>"

lemma wr_at_new:
  "Wrapper_new_with_kind s kind = wr_at (Some kind) [] s" "Wrapper_new_without_hash s = wr_at None [] s"
  by (simp_all add: Wrapper_new_with_kind_def Wrapper_new_without_hash_def wr_at_def new_for_kind_def)

lemma wr_at_inner [simp]: "wr_inner (wr_at k fed s) = s"
  by (simp add: wr_at_def)

lemma wrapped_at: "f (p @ r) = Inr (v, r) \<Longrightarrow> wrapped f (wr_at k fed (p @ r)) = Inr (v, wr_at k (fed @ p) r)"
  by (cases k) (simp_all add: wrapped_def wr_at_def wrapper_consume_def hasher_update_def)

lemma wrapped_suffix:
  assumes "wrapped f (wr_at k fed s) = Inr (v, w)" "\<And>v r. f s = Inr (v, r) \<Longrightarrow> suffix r s"
  obtains p r where "f s = Inr (v, r)" "s = p @ r" "w = wr_at k (fed @ p) r"
proof -
  obtain r where r: "f s = Inr (v, r)" using assms(1) by (auto simp: wrapped_def and_then_eq_Inr_iff)
  then obtain p where "s = p @ r" using assms(2) by (auto simp: suffix_def)
  then show ?thesis using that r assms(1) wrapped_at[of f p r v k fed] by simp
qed

lemma scan_entry_suffix:
  assumes "zlib_ok X" "scan_entry X kind off ret s = Inr (v, r)"
  shows "suffix r s"
proof -
  have skip: "suffix r p" if "skip_compressed_data X n p = Inr (k, r)" for n p k r
    using that assms(1) by (auto simp: skip_compressed_data_iff zlib_ok_def)
  show ?thesis
    using assms(2) unfolding scan_entry_def
    by (auto simp: and_then_eq_Inr_iff Let_def split: if_splits prod.splits
        dest!: read_type_suffix read_offset_suffix read_hash_suffix skip intro: suffix_order.trans)
qed

lemma read_objects_scan:
  assumes zlib: "zlib_ok X" and all: "reads_all opts"
  shows "read_objects X kind cb opts n i off (wr_at k fed s) = Inr (objs, w) \<Longrightarrow> retention_wf ret \<Longrightarrow>
    length objs = n \<and> (\<exists>p r ret'. s = p @ r \<and> w = wr_at k (fed @ p) r \<and>
      scan_loop X kind n off ret s = Inr (ret', r) \<and> retention_wf ret' \<and>
      (\<forall>key. dep_count key ret' = dep_count key ret + length (filter (\<lambda>d. key_of (co_info d) = Some key) objs)))"
proof (induction n arbitrary: i off fed s objs ret)
  case 0
  then show ?case by (auto intro!: exI[of _ "[]"])
next
  case (Suc n)
  let ?f = "decode_pack_object_with_crc X kind (entry_options cb opts i) off"
  obtain res off' w1 objs' where dec: "wrapped ?f (wr_at k fed s) = Inr ((res, off'), w1)"
    and rest: "read_objects X kind cb opts n (i + 1) off' w1 = Inr (objs', w)"
    and objs: "objs = (case res of Some obj \<Rightarrow> obj # objs' | None \<Rightarrow> objs')"
    using Suc.prems(1) by (auto simp: and_then_eq_Inr_iff)
  have skip: "never_skips (entry_options cb opts i)" by (rule reads_all_options[OF all])
  have scan: "\<exists>obj. res = Some obj \<and> scan_entry X kind off ret s = Inr ((add_key (key_of (co_info obj)) ret, off'), r)"
    if "?f s = Inr ((res, off'), r)" for res off' r ret
    by (rule decode_scan_entry[OF zlib skip that])
  have "suffix r s" if f: "?f s = Inr (v, r)" for v r
  proof (cases v)
    case (Pair a b)
    then show ?thesis using scan[of a b r ret] f scan_entry_suffix[OF zlib] by blast
  qed
  then obtain p r where r: "?f s = Inr ((res, off'), r)" "s = p @ r" "w1 = wr_at k (fed @ p) r"
    using wrapped_suffix[OF dec] by metis
  obtain obj where obj: "res = Some obj"
    "scan_entry X kind off ret s = Inr ((add_key (key_of (co_info obj)) ret, off'), r)"
    using scan[OF r(1)] by blast
  have "read_objects X kind cb opts n (i + 1) off' (wr_at k (fed @ p) r) = Inr (objs', w)"
    using rest r(3) by simp
  from Suc.IH[OF this retention_wf_add[OF Suc.prems(2), of "key_of (co_info obj)"]]
  obtain p' r' ret' where IH: "length objs' = n" "r = p' @ r'" "w = wr_at k ((fed @ p) @ p') r'"
      "scan_loop X kind n off' (add_key (key_of (co_info obj)) ret) r = Inr (ret', r')" "retention_wf ret'"
      "\<And>key. dep_count key ret' = dep_count key (add_key (key_of (co_info obj)) ret) +
         length (filter (\<lambda>d. key_of (co_info d) = Some key) objs')"
    by blast
  then show ?case
    using obj objs r(2) by (intro conjI exI[of _ "p @ p'"] exI[of _ r'] exI[of _ ret']) (auto simp: dep_count_add)
qed

section \<open>The reading loop does not depend on the hash or the counts\<close>

lemma decode_ignores_retention:
  assumes "never_skips opts" "never_skips (opts\<lparr>eo_skip_unneeded := b\<rparr>)"
  shows "decode_pack_object_with_crc X kind (opts\<lparr>eo_retention := ret, eo_skip_unneeded := b\<rparr>) off s =
    decode_pack_object_with_crc X kind opts off s"
proof -
  let ?o = "opts\<lparr>eo_retention := ret, eo_skip_unneeded := b\<rparr>"
  have same: "decode_base_object X kind ?o = decode_base_object X kind opts"
    "decode_delta_payload X ?o = decode_delta_payload X opts"
    by (intro ext; simp add: decode_base_object_def decode_delta_payload_def Let_def)+
  have "\<not> should_skip_no_callback_object b (eo_known_hash opts) ret off"
    using never_skips_iff[OF assms(2), of ret off] by simp
  then show ?thesis
    using never_skips_iff[OF assms(1)] by (simp add: decode_pack_object_with_crc_def Let_def same cong: if_cong)
qed

definition same_known :: "DecodeOptions \<Rightarrow> DecodeOptions \<Rightarrow> bool" where
  "same_known o1 o2 \<longleftrightarrow> do_known_hashes o1 = do_known_hashes o2 \<and> do_known_crcs o1 = do_known_crcs o2 \<and>
     do_known_offsets o1 = do_known_offsets o2 \<and> reads_all o1 \<and> reads_all o2"

lemma same_known_decode:
  assumes "same_known o1 o2"
  shows "decode_pack_object_with_crc X kind (entry_options cb o1 i) off s =
    decode_pack_object_with_crc X kind (entry_options cb o2 i) off s"
proof -
  have eq: "entry_options cb o1 i = (entry_options cb o2 i)\<lparr>eo_retention := do_retention o1, eo_skip_unneeded := do_skip_unneeded o1\<rparr>"
    using assms by (simp add: entry_options_def same_known_def)
  have "never_skips (entry_options cb o2 i)" "never_skips ((entry_options cb o2 i)\<lparr>eo_skip_unneeded := do_skip_unneeded o1\<rparr>)"
    using assms by (auto simp: entry_options_def never_skips_def reads_all_def same_known_def get_at_def)
  then show ?thesis unfolding eq by (rule decode_ignores_retention)
qed

lemma decode_entry_suffix:
  assumes "zlib_ok X" "reads_all opts" "decode_pack_object_with_crc X kind (entry_options cb opts i) off s = Inr (v, r)"
  shows "suffix r s"
proof (cases v)
  case (Pair a b)
  from decode_scan_entry[OF assms(1) reads_all_options[OF assms(2)], of kind cb i off s a b r] assms(3) Pair
  obtain x where "scan_entry X kind off DecodeRetention_default s = Inr (x, r)" by metis
  then show ?thesis by (rule scan_entry_suffix[OF assms(1)])
qed

lemma read_objects_same:
  assumes "zlib_ok X" "same_known o1 o2"
  shows "read_objects X kind cb o1 n i off (wr_at k fed s) = Inr (objs, w) \<Longrightarrow>
    \<exists>p r. s = p @ r \<and> w = wr_at k (fed @ p) r \<and>
      read_objects X kind cb o2 n i off (wr_at k' fed' s) = Inr (objs, wr_at k' (fed' @ p) r)"
proof (induction n arbitrary: i off fed fed' s objs)
  case 0
  then show ?case by (intro exI[of _ "[]"] exI[of _ s]) simp
next
  case (Suc n)
  let ?f = "\<lambda>o'. decode_pack_object_with_crc X kind (entry_options cb o' i) off"
  obtain res off' w1 objs' where dec: "wrapped (?f o1) (wr_at k fed s) = Inr ((res, off'), w1)"
    and off: "check_offset (get_at (do_known_offsets o1) i) i off = Inr ()"
    and rest: "read_objects X kind cb o1 n (i + 1) off' w1 = Inr (objs', w)"
    and objs: "objs = (case res of Some obj \<Rightarrow> obj # objs' | None \<Rightarrow> objs')"
    using Suc.prems by (auto simp: and_then_eq_Inr_iff)
  obtain p r where r: "?f o1 s = Inr ((res, off'), r)" "s = p @ r" "w1 = wr_at k (fed @ p) r"
    using wrapped_suffix[OF dec] decode_entry_suffix[OF assms(1)] assms(2) unfolding same_known_def by metis
  have "wrapped (?f o2) (wr_at k' fed' s) = Inr ((res, off'), wr_at k' (fed' @ p) r)"
    using wrapped_at[of "?f o2" p r _ k' fed'] r same_known_decode[OF assms(2), of X kind cb i off s] by simp
  moreover obtain p' r' where "r = p' @ r'" "w = wr_at k ((fed @ p) @ p') r'"
      "read_objects X kind cb o2 n (i + 1) off' (wr_at k' (fed' @ p) r) = Inr (objs', wr_at k' ((fed' @ p) @ p') r')"
    using Suc.IH[of "i + 1" off' "fed @ p" r objs' "fed' @ p"] rest r(3) by blast
  ultimately show ?case
    using objs r(2) off assms(2) by (intro exI[of _ "p @ p'"] exI[of _ r']) (auto simp: same_known_def)
qed

section \<open>Reading a pack, unfolded\<close>

text \<open>The pack is a header, the entries and the trailer; the stream hash is over the first two.\<close>

definition entries_read ::
  "Crates \<Rightarrow> HashKind \<Rightarrow> bool \<Rightarrow> DecodeOptions \<Rightarrow> bytes \<Rightarrow> CacheObject list \<Rightarrow> bytes \<Rightarrow> ObjectHash \<Rightarrow> bool" where
  "entries_read X kind cb opts pack objs p sig \<longleftrightarrow>
     (\<exists>n hdr. check_header pack = Inr ((n, hdr), p @ as_ref sig) \<and> pack = hdr @ p @ as_ref sig \<and>
        hash_kind sig = kind \<and> wf_hash sig \<and>
        read_objects X kind cb opts n 0 12 (wr_at None [] (p @ as_ref sig)) = Inr (objs, wr_at None p (as_ref sig)))"

lemma check_trailer_iff [simp]:
  "check_trailer X e r sig = Inr u \<longleftrightarrow> (e = None \<or> e = Some sig) \<and> (r = None \<or> r = Some sig)"
  by (cases e; cases r) (auto simp: check_trailer_def)

lemma check_header_suffix: "check_header s = Inr (v, r) \<Longrightarrow> suffix r s"
  by (cases v) (auto simp: check_header_iff suffix_def)

lemma read_pack_iff:
  assumes zlib: "zlib_ok X" and all: "reads_all opts"
  shows "read_pack X kind cb opts pack = Inr (objs, sig) \<longleftrightarrow>
    (\<exists>p. entries_read X kind cb opts pack objs p sig \<and> do_expected_pack_hash opts \<in> {None, Some sig} \<and>
      (do_verify_pack_stream_hash opts \<longrightarrow>
        hash_of kind (x_digest X kind (take (length pack - hash_size kind) pack)) = sig))" (is "?L \<longleftrightarrow> ?R")
proof -
  let ?k = "if do_verify_pack_stream_hash opts then Some kind else None"
  have start: "(if do_verify_pack_stream_hash opts then Wrapper_new_with_kind pack kind
      else Wrapper_new_without_hash pack) = wr_at ?k [] pack" by (simp add: wr_at_new)
  have fin: "final_hash (x_digest X) (wr_at ?k fed s) = Inr (hash_of kind (x_digest X kind fed))"
    if "do_verify_pack_stream_hash opts" for fed s
    using that by (simp add: final_hash_def wr_at_def finalize_object_hash_def hasher_finalize_def)
  have same: "same_known opts opts" using all by (simp add: same_known_def)
  have len: "length (as_ref h) = hash_size kind" if "hash_kind h = kind" "wf_hash h" for h
    using that by (simp add: wf_hash_def)
  show ?thesis
  proof
    assume ?L
    then obtain n hdr w1 w2 w3 rh where 1: "wrapped check_header (wr_at ?k [] pack) = Inr ((n, hdr), w1)"
      and 2: "read_objects X kind cb opts n 0 12 w1 = Inr (objs, w2)"
      and rh: "(if do_verify_pack_stream_hash opts
                then map_sum id Some (final_hash (x_digest X) w2) else Inr None) = Inr rh"
      and 3: "wrapped (from_stream_for_kind kind) w2 = Inr (sig, w3)"
      and chk: "do_expected_pack_hash opts \<in> {None, Some sig}" "rh \<in> {None, Some sig}" and eof: "wr_inner w3 = []"
      unfolding read_pack_def Let_def start by (auto simp: and_then_eq_Inr_iff is_eof_def split: if_splits)
    obtain q r1 where r1: "check_header pack = Inr ((n, hdr), r1)" "pack = q @ r1" "w1 = wr_at ?k q r1"
      using wrapped_suffix[OF 1] check_header_suffix by (metis append_Nil)
    have q: "q = hdr" using r1(1,2) by (simp add: check_header_iff)
    obtain p r2 where r2: "r1 = p @ r2" "w2 = wr_at ?k (hdr @ p) r2"
      "read_objects X kind cb opts n 0 12 (wr_at None [] r1) = Inr (objs, wr_at None ([] @ p) r2)"
      using read_objects_same[OF zlib same, of kind cb n 0 12 ?k hdr r1 objs w2 None "[]"] 2 r1(3) q by blast
    obtain t r3 where r3: "from_stream_for_kind kind r2 = Inr (sig, r3)" "r2 = t @ r3" "w3 = wr_at ?k ((hdr @ p) @ t) r3"
      using wrapped_suffix[of "from_stream_for_kind kind"] 3 r2(2) read_hash_suffix by metis
    have sig: "r2 = as_ref sig" "hash_kind sig = kind" "wf_hash sig"
      using r3 eof by (auto simp: from_stream_for_kind_eq_Inr_iff)
    have pack: "pack = hdr @ p @ as_ref sig" using r1(2) r2(1) sig(1) q by simp
    then have "take (length pack - hash_size kind) pack = hdr @ p" using len[OF sig(2,3)] by simp
    moreover have "rh = Some (hash_of kind (x_digest X kind (hdr @ p)))" if "do_verify_pack_stream_hash opts"
      using rh that fin[OF that] r2(2) by simp
    ultimately show ?R
      using r1(1) r2 sig pack chk by (intro exI[of _ p]) (auto simp: entries_read_def)
  next
    assume ?R
    then obtain p n hdr where hdr: "check_header pack = Inr ((n, hdr), p @ as_ref sig)" "pack = hdr @ p @ as_ref sig"
      and sig: "hash_kind sig = kind" "wf_hash sig"
      and rd: "read_objects X kind cb opts n 0 12 (wr_at None [] (p @ as_ref sig)) = Inr (objs, wr_at None p (as_ref sig))"
      and exp: "do_expected_pack_hash opts \<in> {None, Some sig}"
      and hash: "do_verify_pack_stream_hash opts \<longrightarrow>
        hash_of kind (x_digest X kind (take (length pack - hash_size kind) pack)) = sig"
      by (auto simp: entries_read_def)
    have 1: "wrapped check_header (wr_at ?k [] pack) = Inr ((n, hdr), wr_at ?k hdr (p @ as_ref sig))"
      using wrapped_at[of check_header hdr "p @ as_ref sig" "(n, hdr)" ?k "[]"] hdr by simp
    obtain p' r' where p': "p @ as_ref sig = p' @ r'" "wr_at None p (as_ref sig) = wr_at None ([] @ p') r'"
        "read_objects X kind cb opts n 0 12 (wr_at ?k hdr (p @ as_ref sig)) = Inr (objs, wr_at ?k (hdr @ p') r')"
      using read_objects_same[OF zlib same rd, of ?k hdr] by blast
    then have "r' = as_ref sig" by (simp add: wr_at_def)
    then have 2: "read_objects X kind cb opts n 0 12 (wr_at ?k hdr (p @ as_ref sig)) =
        Inr (objs, wr_at ?k (hdr @ p) (as_ref sig))" using p' by simp
    have "from_stream_for_kind kind (as_ref sig @ []) = Inr (sig, [])"
      using sig by (simp add: from_stream_for_kind_eq_Inr_iff)
    then have 3: "wrapped (from_stream_for_kind kind) (wr_at ?k (hdr @ p) (as_ref sig)) =
        Inr (sig, wr_at ?k ((hdr @ p) @ as_ref sig) [])"
      using wrapped_at[of "from_stream_for_kind kind" "as_ref sig" "[]" sig ?k "hdr @ p"] by simp
    have "take (length pack - hash_size kind) pack = hdr @ p" using hdr(2) len[OF sig] by simp
    then show ?L
      unfolding read_pack_def Let_def start using 1 2 3 exp hash fin[of "hdr @ p" "as_ref sig"]
      by (auto simp: is_eof_def check_trailer_def)
  qed
qed

section \<open>The copying reader\<close>

lemma record_pack_bytes_split:
  "record_pack_bytes \<lparr>ha_kind = kind, absorbed = take (length fed - n) fed\<rparr> (drop (length fed - n) fed) n chunk =
   (\<lparr>ha_kind = kind, absorbed = take (length (fed @ chunk) - n) (fed @ chunk)\<rparr>,
    drop (length (fed @ chunk) - n) (fed @ chunk))"
proof -
  let ?l = "length fed" and ?c = "length chunk"
  consider "chunk = []" | "chunk \<noteq> []" "?l + ?c \<le> n"
    | "chunk \<noteq> []" "n < ?l + ?c" "?l \<le> n" "?l + ?c - n \<le> ?l"
    | "chunk \<noteq> []" "n < ?l + ?c" "?l \<le> n" "?l < ?l + ?c - n"
    | "chunk \<noteq> []" "n < ?l" by linarith
  then show ?thesis
  proof cases
    case 5
    have "?l - (?l - n) = n" using 5 by simp
    then show ?thesis
      using 5 by (cases "?c \<le> n")
        (auto simp: record_pack_bytes_def Let_def hasher_update_def take_add[symmetric] Nat.le_diff_conv2 add.commute)
  qed (auto simp: record_pack_bytes_def Let_def hasher_update_def)
qed

lemma tee_chunks:
  "foldl tee_chunk (TeeReader_new kind) chunks =
   (let all = concat chunks; k = length all - hash_size kind in
    \<lparr>te_written = all, te_payload_hash = \<lparr>ha_kind = kind, absorbed = take k all\<rparr>, te_hash_tail = drop k all,
     te_hash_size = hash_size kind\<rparr>)"
proof (induction chunks rule: rev_induct)
  case Nil
  then show ?case by (simp add: TeeReader_new_def new_for_kind_def Let_def)
next
  case (snoc c chunks)
  then show ?case
    using record_pack_bytes_split[of kind "concat chunks" "hash_size kind" c]
    by (simp add: tee_chunk_def Let_def)
qed

lemma finish_tee:
  assumes "hash_size kind \<le> length pack"
  shows "finish_pack_hash_check digest
     \<lparr>te_written = pack, te_payload_hash = \<lparr>ha_kind = kind, absorbed = take (length pack - hash_size kind) pack\<rparr>,
      te_hash_tail = drop (length pack - hash_size kind) pack, te_hash_size = hash_size kind\<rparr> =
   Inr \<lparr>phc_payload_hash = hash_of kind (digest kind (take (length pack - hash_size kind) pack)),
        phc_trailer_hash = hash_of kind (drop (length pack - hash_size kind) pack)\<rparr>"
  using assms by (simp add: finish_pack_hash_check_def Let_def finalize_object_hash_def hasher_finalize_def
      from_bytes_for_kind_def)

section \<open>The sequential scan accepts what the loop accepts\<close>

lemma entries_read_scan:
  assumes "zlib_ok X" "reads_all opts" "entries_read X kind cb opts pack objs p sig"
  shows "\<exists>ret. scan_decode_retention X kind pack = Inr \<lparr>sc_retention = ret, sc_object_hashes = None,
      sc_object_crcs = None, sc_object_offsets = None, sc_pack_hash = None, sc_pack_hash_check = None\<rparr> \<and>
    retention_for objs ret \<and> length objs < 2 ^ 32"
proof -
  obtain n hdr where hdr: "check_header pack = Inr ((n, hdr), p @ as_ref sig)" and sig: "hash_kind sig = kind" "wf_hash sig"
    and rd: "read_objects X kind cb opts n 0 12 (wr_at None [] (p @ as_ref sig)) = Inr (objs, wr_at None p (as_ref sig))"
    using assms(3) by (auto simp: entries_read_def)
  have wf: "retention_wf DecodeRetention_default" by (simp add: retention_wf_def DecodeRetention_default_def)
  have zero: "dep_count key DecodeRetention_default = 0" for key
    by (cases key) (simp_all add: DecodeRetention_default_def)
  obtain q r ret where len: "length objs = n" and ret: "wr_at None p (as_ref sig) = wr_at None ([] @ q) r"
      "scan_loop X kind n 12 DecodeRetention_default (p @ as_ref sig) = Inr (ret, r)" "retention_wf ret"
      "\<And>key. dep_count key ret = length (filter (\<lambda>d. key_of (co_info d) = Some key) objs)"
    using read_objects_scan[OF assms(1,2) rd wf] zero by auto
  have "r = as_ref sig" using ret(1) by (simp add: wr_at_def)
  moreover have "length (as_ref sig) = hash_size kind" using sig by (simp add: wf_hash_def)
  ultimately have "read_exact (hash_size kind) r = Inr (as_ref sig, [])" by (simp add: read_exact_def)
  then have "scan_decode_retention X kind pack = Inr \<lparr>sc_retention = ret, sc_object_hashes = None,
      sc_object_crcs = None, sc_object_offsets = None, sc_pack_hash = None, sc_pack_hash_check = None\<rparr>"
    using hdr ret(2) by (simp add: scan_decode_retention_def is_eof_def)
  moreover have "n < 2 ^ 32" using hdr by (simp add: check_header_iff)
  ultimately show ?thesis using ret(3,4) len by (auto simp: retention_for_def)
qed

section \<open>The scan with an index sees the same dependencies\<close>

text \<open>A reader that succeeds on a prefix of the stream succeeds on the stream.\<close>

lemma size_loop_local:
  "type_and_varint_size_loop c sz sh off s = Inr (v, r) \<Longrightarrow>
   type_and_varint_size_loop c sz sh off (s @ t) = Inr (v, r @ t)"
  by (induction c sz sh off s rule: type_and_varint_size_loop.induct)
    (auto simp: Let_def split: prod.splits if_splits)

lemma read_type_local:
  "read_type_and_varint_size s off = Inr (v, r) \<Longrightarrow> read_type_and_varint_size (s @ t) off = Inr (v, r @ t)"
  by (cases s) (auto simp: read_type_and_varint_size_def read_byte_and_check_continuation_def Let_def
      and_then_eq_Inr_iff split: prod.splits dest: size_loop_local)

lemma offset_loop_local:
  "read_offset_encoding_loop n k s = Inr (v, r) \<Longrightarrow> read_offset_encoding_loop n k (s @ t) = Inr (v, r @ t)"
  by (induction n k s rule: read_offset_encoding_loop.induct) (auto simp: Let_def split: prod.splits if_splits)

lemma read_offset_local: "read_offset_encoding s = Inr (v, r) \<Longrightarrow> read_offset_encoding (s @ t) = Inr (v, r @ t)"
  by (simp add: read_offset_encoding_def offset_loop_local)

lemma read_hash_local:
  "from_stream_for_kind kind s = Inr (h, r) \<Longrightarrow> from_stream_for_kind kind (s @ t) = Inr (h, r @ t)"
  by (simp add: from_stream_for_kind_eq_Inr_iff)

lemma dependency_local:
  assumes "scan_object_dependency kind off ret p = Inr ret'" "prefix p s"
  shows "scan_object_dependency kind off ret s = Inr ret'"
proof -
  obtain t where s: "s = p @ t" using assms(2) by (auto simp: prefix_def)
  obtain tn sz o1 r ty where hdr: "read_type_and_varint_size p off = Inr ((tn, sz, o1), r)"
    and ty: "from_pack_type_u8 tn = Inr ty"
    using assms(1) by (auto simp: scan_object_dependency_def and_then_eq_Inr_iff)
  note hdr' = read_type_local[OF hdr, of t]
  consider "ty = OT_OffsetDelta \<or> ty = OT_OffsetZstdelta" | "ty = OT_HashDelta"
    | "ty \<noteq> OT_OffsetDelta" "ty \<noteq> OT_OffsetZstdelta" "ty \<noteq> OT_HashDelta" by blast
  then show ?thesis
  proof cases
    case 1
    then obtain d n r2 where "read_offset_encoding r = Inr ((d, n), r2)"
      using assms(1) hdr ty by (auto simp: scan_object_dependency_def and_then_eq_Inr_iff)
    with read_offset_local[OF this, of t] 1 assms(1) hdr hdr' ty show ?thesis
      by (auto simp: scan_object_dependency_def s)
  next
    case 2
    then obtain h r2 where "from_stream_for_kind kind r = Inr (h, r2)"
      using assms(1) hdr ty by (auto simp: scan_object_dependency_def and_then_eq_Inr_iff)
    with read_hash_local[OF this, of t] 2 assms(1) hdr hdr' ty show ?thesis
      by (auto simp: scan_object_dependency_def s)
  next
    case 3
    then show ?thesis using assms(1) hdr hdr' ty by (auto simp: scan_object_dependency_def s split: if_splits)
  qed
qed

lemma scan_entry_dependency:
  "scan_entry X kind off ret s = Inr ((ret', off'), r) \<Longrightarrow> scan_object_dependency kind off ret s = Inr ret'"
  by (auto simp: scan_entry_def scan_object_dependency_def and_then_eq_Inr_iff Let_def split: if_splits)

text \<open>The offsets count the bytes.\<close>

lemma size_loop_offset:
  "type_and_varint_size_loop c sz sh off s = Inr ((n, off'), r) \<Longrightarrow> off' + length r = off + length s"
  by (induction c sz sh off s rule: type_and_varint_size_loop.induct)
    (auto simp: Let_def split: prod.splits if_splits)

lemma read_type_offset:
  "read_type_and_varint_size s off = Inr ((t, n, off'), r) \<Longrightarrow> off' + length r = off + length s"
  by (cases s) (auto simp: read_type_and_varint_size_def read_byte_and_check_continuation_def Let_def
      and_then_eq_Inr_iff split: prod.splits dest: size_loop_offset)

lemma offset_loop_count:
  "read_offset_encoding_loop n k s = Inr ((v, k'), r) \<Longrightarrow> k' + length r = k + length s"
  by (induction n k s rule: read_offset_encoding_loop.induct) (auto simp: Let_def split: prod.splits if_splits)

lemma read_offset_count: "read_offset_encoding s = Inr ((v, n), r) \<Longrightarrow> n + length r = length s"
  using offset_loop_count[of 0 0 s v n r] by (simp add: read_offset_encoding_def)

lemma read_hash_count: "from_stream_for_kind kind s = Inr (h, r) \<Longrightarrow> hash_size kind + length r = length s"
  by (auto simp: from_stream_for_kind_eq_Inr_iff wf_hash_def)

lemma skip_count: "zlib_ok X \<Longrightarrow> skip_compressed_data X n s = Inr (k, r) \<Longrightarrow> k + length r = length s"
  using suffix_length_le[of r s] by (auto simp: skip_compressed_data_iff zlib_ok_def)

lemma scan_entry_offset:
  assumes "zlib_ok X" "scan_entry X kind off ret s = Inr ((ret', off'), r)"
  shows "off' + length r = off + length s"
  using assms(2) unfolding scan_entry_def
  by (auto simp: and_then_eq_Inr_iff Let_def split: if_splits
      dest!: read_type_offset read_offset_count read_hash_count skip_count[OF assms(1)])

fun add_dependencies :: "HashKind \<Rightarrow> bytes \<Rightarrow> nat list \<Rightarrow> DecodeRetention \<Rightarrow> GitError + DecodeRetention" where
  "add_dependencies kind pack [] ret = Inr ret"
| "add_dependencies kind pack (off # offs) ret =
     and_then (scan_object_dependency kind off ret (drop off pack)) (add_dependencies kind pack offs)"

lemma add_dependencies_append:
  "add_dependencies kind pack (xs @ ys) ret = and_then (add_dependencies kind pack xs ret) (add_dependencies kind pack ys)"
  by (induction xs arbitrary: ret) (auto simp: and_then_def split: sum.splits)

definition window_of :: "bytes \<Rightarrow> nat \<Rightarrow> bytes \<Rightarrow> bool" where
  "window_of pack start w \<longleftrightarrow> w = [] \<or> (\<exists>n. w = take n (drop start pack))"

lemma scan_window_ok:
  assumes "scan_window pack off start w = Inr (start', w')" "window_of pack start w"
  shows "window_of pack start' w'" "start' \<le> off" "prefix (take n (drop (off - start') w')) (drop off pack)"
proof -
  show win: "window_of pack start' w'" and le: "start' \<le> off"
    using assms by (auto simp: scan_window_def window_of_def Let_def split: if_splits)
  have "w' \<noteq> []" using assms(1) by (auto simp: scan_window_def Let_def split: if_splits)
  then obtain m where "w' = take m (drop start' pack)" using win by (auto simp: window_of_def)
  then have "take n (drop (off - start') w') = take (min n (m - (off - start'))) (drop off pack)"
    using le by (simp add: drop_take)
  then show "prefix (take n (drop (off - start') w')) (drop off pack)" by (simp add: take_is_prefix)
qed

lemma window_loop_deps:
  "scan_window_loop kind pack objs start w ret = Inr ret' \<Longrightarrow> window_of pack start w \<Longrightarrow>
   add_dependencies kind pack (map fst objs) ret = Inr ret'"
proof (induction objs arbitrary: start w ret)
  case (Cons obj objs)
  let ?off = "fst obj"
  obtain start' w' ret1 where w': "scan_window pack ?off start w = Inr (start', w')"
    and dep: "scan_object_dependency kind ?off ret (take PACK_OBJECT_PREFIX_READ_SIZE (drop (?off - start') w')) = Inr ret1"
    and rest: "scan_window_loop kind pack objs start' w' ret1 = Inr ret'"
    using Cons.prems(1) by (auto simp: and_then_eq_Inr_iff Let_def split: if_splits prod.splits)
  have "scan_object_dependency kind ?off ret (drop ?off pack) = Inr ret1"
    by (rule dependency_local[OF dep scan_window_ok(3)[OF w' Cons.prems(2)]])
  then show ?case using Cons.IH[OF rest scan_window_ok(1)[OF w' Cons.prems(2)]] by simp
qed simp

lemma scan_chunks_deps:
  "scan_chunks kind pack cs ret = Inr ret' \<Longrightarrow> add_dependencies kind pack (map fst (concat cs)) ret = Inr ret'"
proof (induction cs arbitrary: ret)
  case (Cons c cs)
  then show ?case
    by (auto simp: and_then_eq_Inr_iff scan_object_dependencies_from_index_window_def add_dependencies_append
        dest!: window_loop_deps simp: window_of_def)
qed simp

lemma concat_chunks_of: "n \<noteq> 0 \<Longrightarrow> concat (chunks_of n xs) = xs"
  by (induction n xs rule: chunks_of.induct) (subst chunks_of.simps, auto)

lemma suffix_drop:
  assumes "suffix r (drop off pack)" "off' + length r = off + length (drop off pack)" "off \<le> length pack"
  shows "r = drop off' pack" "off' \<le> length pack"
proof -
  obtain p where "drop off pack = p @ r" using assms(1) by (auto simp: suffix_def)
  moreover have "off' = off + length p" using calculation assms(2) by simp
  ultimately show "r = drop off' pack" by (metis append_eq_conv_conj drop_drop add.commute)
  show "off' \<le> length pack" using assms(2,3) by simp
qed

lemma read_objects_deps:
  assumes zlib: "zlib_ok X" and all: "reads_all opts" and known: "do_known_offsets opts = Some offs"
  shows "read_objects X kind cb opts n i off (wr_at k fed (drop off pack)) = Inr (objs, w) \<Longrightarrow> off \<le> length pack \<Longrightarrow>
    i + n \<le> length offs \<Longrightarrow> scan_loop X kind n off ret (drop off pack) = Inr (ret', r) \<Longrightarrow>
    add_dependencies kind pack (take n (drop i offs)) ret = Inr ret'"
proof (induction n arbitrary: i off fed objs ret)
  case (Suc n)
  let ?s = "drop off pack"
  let ?f = "decode_pack_object_with_crc X kind (entry_options cb opts i) off"
  obtain res off' w1 objs' where dec: "wrapped ?f (wr_at k fed ?s) = Inr ((res, off'), w1)"
    and off: "check_offset (get_at (do_known_offsets opts) i) i off = Inr ()"
    and rest: "read_objects X kind cb opts n (i + 1) off' w1 = Inr (objs', w)"
    using Suc.prems(1) by (auto simp: and_then_eq_Inr_iff)
  have i: "offs ! i = off" "i < length offs"
    using off known Suc.prems(3) by (auto simp: check_offset_def get_at_def split: if_splits)
  obtain p r1 where r1: "?f ?s = Inr ((res, off'), r1)" "?s = p @ r1" "w1 = wr_at k (fed @ p) r1"
    using wrapped_suffix[OF dec] decode_entry_suffix[OF zlib all] by metis
  from decode_scan_entry[OF zlib reads_all_options[OF all] r1(1), of ret] obtain ret1
    where scan: "scan_entry X kind off ret ?s = Inr ((ret1, off'), r1)" by blast
  have at: "r1 = drop off' pack" "off' \<le> length pack"
    by (rule suffix_drop[OF scan_entry_suffix[OF zlib scan] scan_entry_offset[OF zlib scan] Suc.prems(2)])+
  have "add_dependencies kind pack (take n (drop (i + 1) offs)) ret1 = Inr ret'"
    using Suc.IH[of "i + 1" off' "fed @ p" objs' ret1] rest r1(3) at Suc.prems(3,4) scan by simp
  moreover have "take (Suc n) (drop i offs) = off # take n (drop (i + 1) offs)"
    using i by (metis Cons_nth_drop_Suc Suc_eq_plus1 take_Suc_Cons)
  ultimately show ?case using scan_entry_dependency[OF scan] by simp
qed simp

lemma index_scan_deps:
  assumes "scan_decode_retention_from_index X kind threads idx pack = Inr scan"
  shows "\<exists>offs n hdr r. sc_object_offsets scan = Some offs \<and> check_header pack = Inr ((n, hdr), r) \<and> length offs = n \<and>
    add_dependencies kind pack offs DecodeRetention_default = Inr (sc_retention scan)"
proof -
  obtain objs n hdr r ret where hdr: "check_header pack = Inr ((n, hdr), r)" "n = length objs"
    and ret: "scan_indexed_objects kind threads pack objs = Inr ret"
    and scan: "sc_retention scan = ret" "sc_object_offsets scan = Some (map fst objs)"
    using assms by (auto simp: scan_decode_retention_from_index_def and_then_eq_Inr_iff Let_def split: option.splits if_splits)
  define m where "m = min (min threads (length objs)) 2"
  define c where "c = length objs div m + (if length objs mod m > 0 then 1 else 0)"
  have "add_dependencies kind pack (map fst objs) DecodeRetention_default = Inr ret"
  proof (cases "m \<le> 1")
    case True
    then show ?thesis
      using ret window_loop_deps[of kind pack objs 0 "[]"]
      by (simp add: scan_indexed_objects_def m_def[symmetric] Let_def
          scan_object_dependencies_from_index_window_def window_of_def)
  next
    case False
    then have "objs \<noteq> []" "0 < m" by (auto simp: m_def)
    then have "c \<noteq> 0" unfolding c_def by (cases "length objs < m") (auto simp: div_eq_0_iff)
    moreover have "scan_chunks kind pack (chunks_of c objs) DecodeRetention_default = Inr ret"
      using ret False by (simp add: scan_indexed_objects_def m_def[symmetric] c_def[symmetric] Let_def)
    ultimately show ?thesis using scan_chunks_deps[of kind pack "chunks_of c objs"] by (simp add: concat_chunks_of)
  qed
  then show ?thesis using hdr scan by auto
qed

lemma index_retention:
  assumes zlib: "zlib_ok X" and scan: "scan_decode_retention_from_index X kind threads idx pack = Inr scan"
    and er: "entries_read X kind cb (scan_options RetainAll sync scan) pack objs p sig"
  shows "retention_for objs (sc_retention scan)"
proof -
  let ?opts = "scan_options RetainAll sync scan"
  have all: "reads_all ?opts" by (simp add: reads_all_def scan_options_def)
  obtain offs n hdr r where offs: "sc_object_offsets scan = Some offs" "check_header pack = Inr ((n, hdr), r)"
      "length offs = n" "add_dependencies kind pack offs DecodeRetention_default = Inr (sc_retention scan)"
    using index_scan_deps[OF scan] by blast
  have hdr: "length hdr = 12" "pack = hdr @ r" using offs(2) by (auto simp: check_header_iff)
  obtain ret where ret: "scan_decode_retention X kind pack = Inr \<lparr>sc_retention = ret, sc_object_hashes = None,
      sc_object_crcs = None, sc_object_offsets = None, sc_pack_hash = None, sc_pack_hash_check = None\<rparr>"
    "retention_for objs ret"
    using entries_read_scan[OF zlib all er] by blast
  obtain r' where loop: "scan_loop X kind n 12 DecodeRetention_default r = Inr (ret, r')"
    using ret(1) offs(2) by (auto simp: scan_decode_retention_def and_then_eq_Inr_iff split: if_splits)
  have "read_objects X kind cb ?opts n 0 12 (wr_at None [] (drop 12 pack)) = Inr (objs, wr_at None p (as_ref sig))"
    using er offs(2) hdr by (auto simp: entries_read_def)
  from read_objects_deps[OF zlib all _ this, of offs DecodeRetention_default ret r']
  have "add_dependencies kind pack offs DecodeRetention_default = Inr ret"
    using offs loop hdr by (simp add: scan_options_def)
  then show ?thesis using offs(4) ret(2) by simp
qed

lemma entries_read_same:
  assumes "zlib_ok X" "same_known o1 o2" "entries_read X kind cb o1 pack objs p sig"
  shows "entries_read X kind cb o2 pack objs p sig"
proof -
  obtain n hdr where rd: "check_header pack = Inr ((n, hdr), p @ as_ref sig)" "pack = hdr @ p @ as_ref sig"
      "hash_kind sig = kind" "wf_hash sig"
      "read_objects X kind cb o1 n 0 12 (wr_at None [] (p @ as_ref sig)) = Inr (objs, wr_at None p (as_ref sig))"
    using assms(3) by (auto simp: entries_read_def)
  obtain q r where "p @ as_ref sig = q @ r" "wr_at None p (as_ref sig) = wr_at None ([] @ q) r"
      "read_objects X kind cb o2 n 0 12 (wr_at None [] (p @ as_ref sig)) = Inr (objs, wr_at None ([] @ q) r)"
    using read_objects_same[OF assms(1,2) rd(5), of None "[]"] by blast
  then show ?thesis using rd by (auto simp: entries_read_def)
qed

lemma verify_pack_hash_check_iff [simp]:
  "verify_pack_hash_check X c sig = Inr u \<longleftrightarrow> phc_trailer_hash c = sig \<and> phc_payload_hash c = sig"
  by (auto simp: verify_pack_hash_check_def)

lemma entries_read_trailer:
  assumes "entries_read X kind cb opts pack objs p sig"
  shows "hash_size kind \<le> length pack" "hash_of kind (drop (length pack - hash_size kind) pack) = sig"
proof -
  obtain hdr where pack: "pack = hdr @ p @ as_ref sig" and sig: "hash_kind sig = kind" "wf_hash sig"
    using assms by (auto simp: entries_read_def)
  have len: "length (as_ref sig) = hash_size kind" using sig by (simp add: wf_hash_def)
  then show "hash_size kind \<le> length pack" using pack by simp
  have "drop (length pack - hash_size kind) pack = as_ref sig" using pack len by simp
  then show "hash_of kind (drop (length pack - hash_size kind) pack) = sig" using sig hash_of_as_ref by metis
qed

lemma streaming_reads_all: "reads_all streaming"
  by (simp add: reads_all_def streaming_def)

lemma spooled_reads_all:
  "scan_decode_retention_and_copy X kind chunks = Inr (scan, c) \<Longrightarrow> reads_all (scan_options mode sync scan)"
  by (auto simp: scan_decode_retention_and_copy_def scan_decode_retention_def and_then_eq_Inr_iff reads_all_def
      scan_options_def Let_def split: if_splits)

section \<open>A small pack\<close>

definition sample_pack :: bytes where
  "sample_pack = PACK_MAGIC @ [0, 0, 0, 2] @ be_bytes 4 1 @ [0xb1, 0, 1, 7, 0] @ replicate 20 17"

definition sample_object :: CacheObject where
  "sample_object = \<lparr>co_info = CI_BaseObject OT_Blob (HSha1 (replicate 20 8)), co_offset = 12, co_crc32 = 5,
     co_data = [7], co_is_delta_in_pack = False, co_known_hash = None\<rparr>"

lemma streaming_entry_options:
  "decode_pack_object_with_crc X kind (entry_options True streaming i) off s = decode_pack_object_with_kind X kind off s"
  by (simp add: entry_options_def streaming_def get_at_def decode_pack_object_with_kind_def)

lemma sample_pack_read:
  "read_pack sample_crates KSha1 True streaming sample_pack = Inr ([sample_object], HSha1 (replicate 20 17))"
proof -
  let ?e = "\<lparr>en_obj_type = OT_Blob, en_data = [7], en_hash = HSha1 [], en_chain_len = 0\<rparr>"
  let ?sig = "HSha1 (replicate 20 17)" and ?bs = "[0xb1, 0, 1, 7, 0] :: bytes"
  obtain bs h where bs: "encode_one_object sample_crates ?e None = Inr bs"
      "calculate_object_hash_for_kind (x_digest sample_crates) KSha1 OT_Blob [7] = Inr h"
    and dec: "\<And>s. decode_pack_object_with_kind sample_crates KSha1 12 (bs @ s) =
        Inr ((Some \<lparr>co_info = CI_BaseObject OT_Blob h, co_offset = 12, co_crc32 = x_crc sample_crates bs,
                  co_data = [7], co_is_delta_in_pack = False, co_known_hash = None\<rparr>, 12 + length bs), s)"
    using decode_encoded_base[OF sample_crates_ok, of ?e None KSha1 12] by auto
  have "bs = ?bs"
    using bs(1) by (simp add: encode_one_object_def to_pack_type_u8_def entry_offset_bytes_def entry_header_def
        sample_crates_def)
  moreover have "h = HSha1 (replicate 20 8)"
    using bs(2) by (simp add: calculate_object_hash_iff loose_object_def sample_crates_def sample_digest_def decimal.simps)
  ultimately have "decode_pack_object_with_kind sample_crates KSha1 12 (?bs @ as_ref ?sig) =
      Inr ((Some sample_object, 17), as_ref ?sig)"
    using dec[of "as_ref ?sig"] by (simp add: sample_object_def sample_crates_def)
  then have "wrapped (decode_pack_object_with_crc sample_crates KSha1 (entry_options True streaming 0) 12)
      (wr_at None [] (?bs @ as_ref ?sig)) = Inr ((Some sample_object, 17), wr_at None ([] @ ?bs) (as_ref ?sig))"
    by (intro wrapped_at) (simp only: streaming_entry_options)
  then have "read_objects sample_crates KSha1 True streaming (Suc 0) 0 12 (wr_at None [] (?bs @ as_ref ?sig)) =
      Inr ([sample_object], wr_at None ?bs (as_ref ?sig))"
    by (simp add: check_offset_def get_at_def streaming_def)
  then have "entries_read sample_crates KSha1 True streaming sample_pack [sample_object] ?bs ?sig"
    unfolding entries_read_def
    by (intro exI[of _ "Suc 0"] exI[of _ "PACK_MAGIC @ [0, 0, 0, 2] @ be_bytes 4 1"] conjI)
      (simp_all add: check_header_iff sample_pack_def wf_hash_def)
  moreover have "hash_of KSha1 (x_digest sample_crates KSha1 (take (length sample_pack - hash_size KSha1) sample_pack)) = ?sig"
    by (simp add: sample_pack_def sample_crates_def sample_digest_def)
  moreover have "do_expected_pack_hash streaming = None" by (simp add: streaming_def)
  ultimately show ?thesis unfolding read_pack_iff[OF sample_crates_ok streaming_reads_all] by blast
qed

section \<open>Properties\<close>

text \<open>C12: the dependency scans are exact.  A pack that the reading loop accepts when nothing is skipped is
  accepted by the sequential scan, and the counts it collects are exactly the deltas of the objects the
  loop yields; the scan that follows an index, with any number of threads and through its 8 KiB window,
  collects the same counts whenever it succeeds and the loop accepts the pack under the options made
  from it.  These are the counts the decoder releases its cached bases by.\<close>

theorem dependency_scans_exact:
  assumes "zlib_ok X" "\<not> do_skip_unneeded opts"
  shows "(read_pack X kind cb opts pack = Inr (objs, sig) \<longrightarrow>
      (\<exists>scan. scan_decode_retention X kind pack = Inr scan \<and> retention_for objs (sc_retention scan))) \<and>
    (scan_decode_retention_from_index X kind threads idx pack = Inr scan \<longrightarrow>
     read_pack X kind cb (scan_options RetainAll sync scan) pack = Inr (objs, sig) \<longrightarrow>
      retention_for objs (sc_retention scan))"
proof (intro conjI impI)
  have all: "reads_all opts" using assms(2) by (simp add: reads_all_def)
  assume "read_pack X kind cb opts pack = Inr (objs, sig)"
  then obtain p where "entries_read X kind cb opts pack objs p sig" by (auto simp: read_pack_iff[OF assms(1) all])
  from entries_read_scan[OF assms(1) all this]
  show "\<exists>scan. scan_decode_retention X kind pack = Inr scan \<and> retention_for objs (sc_retention scan)" by force
next
  assume scan: "scan_decode_retention_from_index X kind threads idx pack = Inr scan"
    and rd: "read_pack X kind cb (scan_options RetainAll sync scan) pack = Inr (objs, sig)"
  have all: "reads_all (scan_options RetainAll sync scan)" by (simp add: reads_all_def scan_options_def)
  obtain p where er: "entries_read X kind cb (scan_options RetainAll sync scan) pack objs p sig"
    using rd by (auto simp: read_pack_iff[OF assms(1) all])
  show "retention_for objs (sc_retention scan)" by (rule index_retention[OF assms(1) scan er])
qed

theorem dependency_scans_exact_witness:
  "\<exists>scan. scan_decode_retention sample_crates KSha1 sample_pack = Inr scan \<and>
    retention_for [sample_object] (sc_retention scan)"
  using dependency_scans_exact[OF sample_crates_ok, of streaming KSha1 True sample_pack "[sample_object]"
      "HSha1 (replicate 20 17)"] sample_pack_read by (simp add: streaming_def)

lemma spooled_reading:
  assumes "zlib_ok X"
  shows "read_pack X kind cb streaming (concat chunks) = Inr (objs, sig) \<longleftrightarrow>
    (\<exists>scan copy check. scan_decode_retention_and_copy X kind chunks = Inr (scan, copy) \<and>
       sc_pack_hash_check scan = Some check \<and>
       read_pack X kind cb (scan_options mode sync scan) copy = Inr (objs, sig) \<and>
       verify_pack_hash_check X check sig = Inr ())" (is "?L \<longleftrightarrow> ?R")
proof -
  let ?pack = "concat chunks"
  let ?h = "hash_of kind (x_digest X kind (take (length ?pack - hash_size kind) ?pack))"
  let ?t = "hash_of kind (drop (length ?pack - hash_size kind) ?pack)"
  define check where "check = \<lparr>phc_payload_hash = ?h, phc_trailer_hash = ?t\<rparr>"
  have L: "?L \<longleftrightarrow> (\<exists>p. entries_read X kind cb streaming ?pack objs p sig) \<and> ?h = sig"
    unfolding read_pack_iff[OF assms streaming_reads_all] by (auto simp: streaming_def)
  have copy: "scan_decode_retention_and_copy X kind chunks = Inr (scan, copy) \<longleftrightarrow>
      (\<exists>scan0. scan_decode_retention X kind ?pack = Inr scan0 \<and> scan = scan0\<lparr>sc_pack_hash_check := Some check\<rparr>) \<and>
      copy = ?pack" if "hash_size kind \<le> length ?pack" for scan copy
    using that by (auto simp: scan_decode_retention_and_copy_def and_then_eq_Inr_iff tee_chunks Let_def finish_tee check_def)
  have known: "same_known (scan_options mode sync scan) streaming \<and> same_known streaming (scan_options mode sync scan)"
    if "scan_decode_retention X kind ?pack = Inr scan0" "scan = scan0\<lparr>sc_pack_hash_check := Some check\<rparr>" for scan scan0
    using that by (auto simp: scan_decode_retention_def and_then_eq_Inr_iff same_known_def scan_options_def
        streaming_def reads_all_def split: if_splits)
  show ?thesis
  proof
    assume ?L
    then obtain p where p: "entries_read X kind cb streaming ?pack objs p sig" and h: "?h = sig" using L by blast
    obtain ret where ret: "scan_decode_retention X kind ?pack = Inr \<lparr>sc_retention = ret, sc_object_hashes = None,
        sc_object_crcs = None, sc_object_offsets = None, sc_pack_hash = None, sc_pack_hash_check = None\<rparr>" (is "_ = Inr ?s0")
      using entries_read_scan[OF assms streaming_reads_all p] by blast
    define scan where "scan = ?s0\<lparr>sc_pack_hash_check := Some check\<rparr>"
    have "entries_read X kind cb (scan_options mode sync scan) ?pack objs p sig"
      using entries_read_same[OF assms _ p] known[OF ret scan_def] by blast
    then have "read_pack X kind cb (scan_options mode sync scan) ?pack = Inr (objs, sig)"
      using h known[OF ret scan_def] unfolding same_known_def
      by (auto simp: read_pack_iff[OF assms] scan_options_def scan_def check_def)
    moreover have "verify_pack_hash_check X check sig = Inr ()"
      using entries_read_trailer(2)[OF p] h by (simp add: check_def)
    ultimately show ?R
      using copy[OF entries_read_trailer(1)[OF p], of scan ?pack] ret
      by (intro exI[of _ scan] exI[of _ ?pack] exI[of _ check]) (auto simp: scan_def)
  next
    assume ?R
    then obtain scan c ck where R: "scan_decode_retention_and_copy X kind chunks = Inr (scan, c)"
      "sc_pack_hash_check scan = Some ck" "read_pack X kind cb (scan_options mode sync scan) c = Inr (objs, sig)"
      "phc_payload_hash ck = sig" by auto
    have c: "c = ?pack"
      using R(1) by (auto simp: scan_decode_retention_and_copy_def and_then_eq_Inr_iff tee_chunks Let_def)
    then obtain p where p: "entries_read X kind cb (scan_options mode sync scan) ?pack objs p sig"
      using R(3) by (auto simp: read_pack_iff[OF assms spooled_reads_all[OF R(1)]])
    obtain scan0 where s0: "scan_decode_retention X kind ?pack = Inr scan0" "scan = scan0\<lparr>sc_pack_hash_check := Some check\<rparr>"
      using R(1) copy[OF entries_read_trailer(1)[OF p]] by blast
    have "entries_read X kind cb streaming ?pack objs p sig"
      using entries_read_same[OF assms _ p] known[OF s0] by blast
    moreover have "?h = sig" using R(2,4) s0(2) by (auto simp: check_def)
    ultimately show ?L using L by blast
  qed
qed

text \<open>Two complete runs hand out the same objects.\<close>

lemma complete_runs_same:
  assumes "pack_ok (dp_crates p) objs" "\<not> dp_skip_unneeded p" "dp_callback p"
    and "retention = None \<or> mem_size \<noteq> None" "\<And>r. retention = Some r \<Longrightarrow> retention_for objs r"
    and "(decode_step p)\<^sup>*\<^sup>* (decode_init objs mem_size' None) s" "finished s"
    and "(decode_step p)\<^sup>*\<^sup>* (decode_init objs mem_size retention) t" "finished t"
  shows "is_ok (decode_outcome hex (length objs) s)" "is_ok (decode_outcome hex (length objs) t)"
    "mset (ds_emitted s) = mset (ds_emitted t)"
proof -
  have no_counts: "retention_for objs r" if "None = Some r" for r using that by simp
  note s = decode_complete[OF assms(1,2) disjI1[OF refl] no_counts assms(6,7)]
  note t = decode_complete[OF assms(1,2,4,5,8,9)]
  show "is_ok (decode_outcome hex (length objs) s)" "is_ok (decode_outcome hex (length objs) t)"
    using s(3)[of hex] t(3)[of hex] by simp_all
  have "distinct (ds_done u)" if "mset (map co_offset (ds_done u)) = mset (map co_offset objs)" for u :: DecodeState
    using pack_okD(1)[OF assms(1)] mset_eq_imp_distinct_iff[OF that] by (simp add: distinct_map)
  then have "mset (ds_done s) = mset (ds_done t)" 
    using s(1,2) t(1,2) set_eq_iff_mset_eq_distinct[of "ds_done s" "ds_done t"] by simp
  then have "mset (map Inr (ds_emitted s) :: (GitError + MetaEntry) list) = mset (map Inr (ds_emitted t))"
    using s(4) t(4) assms(3) by simp
  from arg_cong[OF this, of "image_mset projr"] show "mset (ds_emitted s) = mset (ds_emitted t)"
    by (simp add: image_mset.compositionality comp_def)
qed

lemma spooled_retention:
  assumes "zlib_ok X" "read_pack X kind cb streaming (concat chunks) = Inr (objs, sig)"
    and "scan_decode_retention_and_copy X kind chunks = Inr (scan, copy)"
  shows "retention_for objs (sc_retention scan)"
proof -
  obtain p where "entries_read X kind cb streaming (concat chunks) objs p sig"
    using assms(2) unfolding read_pack_iff[OF assms(1) streaming_reads_all] by blast
  from entries_read_scan[OF assms(1) streaming_reads_all this] obtain ret where
    "scan_decode_retention X kind (concat chunks) = Inr \<lparr>sc_retention = ret, sc_object_hashes = None,
      sc_object_crcs = None, sc_object_offsets = None, sc_pack_hash = None, sc_pack_hash_check = None\<rparr>"
    "retention_for objs ret" by blast
  then show ?thesis
    using assms(3) by (auto simp: scan_decode_retention_and_copy_def and_then_eq_Inr_iff tee_chunks Let_def)
qed

text \<open>C11: spooling a stream is equivalent to decoding it directly.  However the bytes arrive, scanning the
  stream while it is copied to a temporary file, reading the copy with the scan's options and comparing the
  two hashes taken on the way accepts exactly the streams that the direct reading loop with its running
  hash accepts, and yields the same entries and the same trailer.  If moreover all entries of the pack are
  different objects that resolve inside the pack and the cache of the spooled decode is limited, then the
  threads resolve these entries without error in both ways and hand the same objects to the callback,
  although the spooled decode releases bases by the dependency counts of its scan.  (With an unlimited cache
  a wake-up can be lost, and a pack that stores an object twice can be treated differently.)\<close>

theorem spooled_decode_equiv:
  assumes "zlib_ok X"
  shows "(read_pack X kind cb streaming (concat chunks) = Inr (objs, sig) \<longleftrightarrow>
    (\<exists>scan copy check. scan_decode_retention_and_copy X kind chunks = Inr (scan, copy) \<and>
       sc_pack_hash_check scan = Some check \<and>
       read_pack X kind cb (scan_options mode sync scan) copy = Inr (objs, sig) \<and>
       verify_pack_hash_check X check sig = Inr ())) \<and>
    (\<forall>scan copy p s t.
       read_pack X kind cb streaming (concat chunks) = Inr (objs, sig) \<and>
       scan_decode_retention_and_copy X kind chunks = Inr (scan, copy) \<and>
       dp_crates p = X \<and> dp_callback p \<and> \<not> dp_skip_unneeded p \<and> pack_ok X objs \<and>
       (decode_step p)\<^sup>*\<^sup>* (decode_init objs mem_size None) s \<and> finished s \<and>
       (decode_step p)\<^sup>*\<^sup>* (decode_init objs (Some cache_size) (Some (sc_retention scan))) t \<and> finished t \<longrightarrow>
       is_ok (decode_outcome hex (length objs) s) \<and> is_ok (decode_outcome hex (length objs) t) \<and>
       mset (ds_emitted s) = mset (ds_emitted t))"
proof (intro conjI allI impI, rule spooled_reading[OF assms], goal_cases)
  case (1 scan copy p s t)
  then show ?case using complete_runs_same(1)[of p objs "Some (sc_retention scan)" "Some cache_size"] spooled_retention[OF assms] by blast
next
  case (2 scan copy p s t)
  then show ?case using complete_runs_same(2)[of p objs "Some (sc_retention scan)" "Some cache_size"] spooled_retention[OF assms] by blast
next
  case (3 scan copy p s t)
  then show ?case using complete_runs_same(3)[of p objs "Some (sc_retention scan)" "Some cache_size"] spooled_retention[OF assms] by blast
qed

lemma sample_pack_ok: "pack_ok sample_crates [sample_object]"
proof -
  have only: "x = sample_object" if "resolves sample_crates [sample_object] x" for x
    using that by (induction rule: resolves.induct) (simp_all add: sample_object_def)
  have "resolves sample_crates [sample_object] sample_object"
    by (rule resolves.base) (simp_all add: sample_object_def base_object_hash.simps)
  then show ?thesis using only by (auto simp: pack_ok_def)
qed

theorem spooled_decode_equiv_witness:
  "\<exists>scan copy check s t. scan_decode_retention_and_copy sample_crates KSha1 [take 5 sample_pack, drop 5 sample_pack] = Inr (scan, copy) \<and>
     sc_pack_hash_check scan = Some check \<and>
     read_pack sample_crates KSha1 True (scan_options RetainAll True scan) copy =
       Inr ([sample_object], HSha1 (replicate 20 17)) \<and>
     verify_pack_hash_check sample_crates check (HSha1 (replicate 20 17)) = Inr () \<and>
     finished s \<and> finished t \<and> mset (ds_emitted s) = mset (ds_emitted t)"
proof -
  let ?chunks = "[take 5 sample_pack, drop 5 sample_pack]" and ?sig = "HSha1 (replicate 20 17)"
  define p where "p = \<lparr>dp_crates = sample_crates, dp_callback = True, dp_skip_unneeded = False, dp_known_names = False\<rparr>"
  have "concat ?chunks = sample_pack" by simp
  then have rd: "read_pack sample_crates KSha1 True streaming (concat ?chunks) = Inr ([sample_object], ?sig)"
    using sample_pack_read by simp
  note equiv = spooled_decode_equiv[OF sample_crates_ok, where kind = KSha1 and cb = True and chunks = ?chunks and objs = "[sample_object]"
      and sig = ?sig and mode = RetainAll and sync = True and mem_size = None and cache_size = 1000 and hex = sample_hex_encode]
  then obtain scan copy check where scan: "scan_decode_retention_and_copy sample_crates KSha1 ?chunks = Inr (scan, copy)"
      "sc_pack_hash_check scan = Some check"
      "read_pack sample_crates KSha1 True (scan_options RetainAll True scan) copy = Inr ([sample_object], ?sig)"
      "verify_pack_hash_check sample_crates check ?sig = Inr ()"
    using rd by blast
  obtain s t where st: "(decode_step p)\<^sup>*\<^sup>* (decode_init [sample_object] None None) s" "finished s"
    "(decode_step p)\<^sup>*\<^sup>* (decode_init [sample_object] (Some 1000) (Some (sc_retention scan))) t" "finished t"
    using decode_finishes[OF init_waitlist] by metis
  have p: "dp_crates p = sample_crates" "dp_callback p" "\<not> dp_skip_unneeded p" by (simp_all add: p_def)
  have "mset (ds_emitted s) = mset (ds_emitted t)"
    using equiv rd scan(1) st p sample_pack_ok by blast
  then show ?thesis using scan st(2,4) by blast
qed

end
