(* ===== verification/Git_Index_Proofs.thy ===== *)
theory Git_Index_Proofs
  imports Git_Index Pack_Scan_Proofs
begin

text \<open>
  The index file round-trips through the contract of a wire format (\<open>byte_codec\<close>) and of an ordered
  map (\<open>ordered_map\<close>); the operations on the index refine those of a finite map; refreshing an entry
  recomputes the id of its blob.
\<close>

section \<open>Flag words\<close>

definition flag_bits :: "bool \<Rightarrow> bool \<Rightarrow> nat \<Rightarrow> nat" where
  "flag_bits av ext st = (if av then 8 else 0) + (if ext then 4 else 0) + st"

lemma flag_word_and:
  assumes "n < 4096" "c < (16 :: nat)"
  defines "m \<equiv> n + c * 4096"
  shows "m AND 0xFFF = n" "drop_bit 12 (m AND 0x3000) = c mod 4" "m AND 0x4000 \<noteq> 0 \<longleftrightarrow> odd (c div 4)"
    "m AND 0x8000 \<noteq> 0 \<longleftrightarrow> odd (c div 8)"
proof -
  have "(0xFFF :: nat) = mask 12" by (simp add: mask_eq_exp_minus_1)
  then have "m AND 0xFFF = m mod 4096" by (simp only: take_bit_eq_mask[symmetric] take_bit_eq_mod) simp
  then show "m AND 0xFFF = n" using assms(1) by (simp add: m_def)
  have shift: "drop_bit 12 m = c" using assms(1) by (simp add: m_def drop_bit_eq_div)
  have "(3 :: nat) = mask 2" by (simp add: mask_eq_exp_minus_1)
  then have "c AND 3 = c mod 4" by (simp only: take_bit_eq_mask[symmetric] take_bit_eq_mod) simp
  then show "drop_bit 12 (m AND 0x3000) = c mod 4" using shift by (simp add: drop_bit_eq_div[of 12 "0x3000"])
  have div: "m div 16384 = c div 4" "m div 32768 = c div 8"
    using assms(1) div_mult2_eq[of m 4096 4] div_mult2_eq[of m 4096 8] by (simp_all add: m_def)
  have "m AND 2 ^ 14 \<noteq> 0 \<longleftrightarrow> bit m 14" "m AND 2 ^ 15 \<noteq> 0 \<longleftrightarrow> bit m 15"
    by (simp_all only: and_exp_eq_0_iff_not_bit not_not)
  then show "m AND 0x4000 \<noteq> 0 \<longleftrightarrow> odd (c div 4)" "m AND 0x8000 \<noteq> 0 \<longleftrightarrow> odd (c div 8)"
    using div by (simp_all add: bit_iff_odd)
qed

lemma flag_word_or: "n < 4096 \<Longrightarrow> (c * 4096) OR n = n + c * (4096 :: nat)"
  using or_push_bit_eq_add[of n 12 c] by (simp add: push_bit_eq_mult or.commute)

lemma packed_flags:
  assumes "fl_stage f < 4" "fl_name_length f \<le> 0xFFF" "Flags_try_into f = Inr p"
  shows "(if x then p OR 0x4000 else p) =
    fl_name_length f + flag_bits (fl_assume_valid f) (fl_extended f \<or> x) (fl_stage f) * 4096"
proof -
  have st: "fl_stage f = 0 \<or> fl_stage f = 1 \<or> fl_stage f = 2 \<or> fl_stage f = 3" using assms(1) by linarith
  have n: "fl_name_length f < 4096" using assms(2) by simp
  let ?c = "\<lambda>x. flag_bits (fl_assume_valid f) (fl_extended f \<or> x) (fl_stage f)"
  have base: "p = (?c False * 4096) OR fl_name_length f"
    using assms(2,3) st
    by (elim disjE; cases "fl_assume_valid f"; cases "fl_extended f")
      (simp_all add: Flags_try_into_def flag_bits_def push_bit_eq_mult take_bit_eq_mod)
  have "(?c False * 4096) OR 0x4000 = ?c True * 4096"
    using st by (elim disjE; cases "fl_assume_valid f"; cases "fl_extended f") (simp_all add: flag_bits_def)
  then have "p OR 0x4000 = (?c True * 4096) OR fl_name_length f"
    unfolding base by (metis or.assoc or.commute)
  then show ?thesis using base flag_word_or[OF n] by simp
qed

lemma Flags_from_packed:
  assumes "n < 4096" "st < 4"
  shows "Flags_from (n + flag_bits av ext st * 4096) =
    \<lparr>fl_assume_valid = av, fl_extended = ext, fl_stage = st, fl_name_length = n, fl_skip_worktree = False,
     fl_intent_to_add = False\<rparr>"
proof -
  have st: "st = 0 \<or> st = 1 \<or> st = 2 \<or> st = 3" using assms(2) by linarith
  have "flag_bits av ext st < 16" using assms(2) by (simp add: flag_bits_def)
  from flag_word_and[OF assms(1) this] show ?thesis
    unfolding Flags_from_def using st by (elim disjE; cases av; cases ext) (simp_all add: flag_bits_def)
qed

lemma extended_word_cases:
  "extended_word f = (if fl_skip_worktree f \<or> fl_intent_to_add f
     then Some ((if fl_skip_worktree f then 0x4000 else 0) + (if fl_intent_to_add f then 0x2000 else 0)) else None)"
  by (auto simp: extended_word_def EXTENDED_FLAG_SKIP_WORKTREE_def EXTENDED_FLAG_INTENT_TO_ADD_def)

lemma from_extended_word_bits:
  "from_extended_word ((if s then 0x4000 else 0) + (if i then 0x2000 else 0)) = Inr (s, i)"
  by (auto simp: from_extended_word_def EXTENDED_FLAG_SKIP_WORKTREE_def EXTENDED_FLAG_INTENT_TO_ADD_def Let_def)

text \<open>The flags an entry has once it has been written: the extended bit announces the second word.\<close>

definition canonical_flags :: "Flags \<Rightarrow> Flags" where
  "canonical_flags f = f\<lparr>fl_extended := fl_extended f \<or> fl_skip_worktree f \<or> fl_intent_to_add f\<rparr>"

lemma written_word:
  "written_extended_word f =
    (if fl_extended (canonical_flags f)
     then Some ((if fl_skip_worktree f then 0x4000 else 0) + (if fl_intent_to_add f then 0x2000 else 0)) else None)"
  by (auto simp: written_extended_word_def extended_word_cases canonical_flags_def)

lemma read_written_flags:
  assumes "fl_stage f < 4" "fl_name_length f \<le> 0xFFF"
  defines "word \<equiv> written_extended_word f"
  shows "\<exists>p. Flags_try_into f = Inr p \<and>
    (\<forall>s. read_index_flags (be_bytes 2 (if word \<noteq> None then p OR 0x4000 else p)
        @ (case word of Some w \<Rightarrow> be_bytes 2 w | None \<Rightarrow> []) @ s) = Inr (canonical_flags f, s))"
proof -
  obtain p where p: "Flags_try_into f = Inr p" using assms(2) by (auto simp: Flags_try_into_def Let_def)
  let ?n = "fl_name_length f" and ?ext = "fl_extended (canonical_flags f)"
  have ext: "(word \<noteq> None) = ?ext" "(fl_extended f \<or> word \<noteq> None) = ?ext"
    by (auto simp: word_def written_word) (auto simp: canonical_flags_def)
  define v where "v = ?n + flag_bits (fl_assume_valid f) ?ext (fl_stage f) * 4096"
  have v: "(if word \<noteq> None then p OR 0x4000 else p) = v"
    using packed_flags[OF assms(1,2) p, of "word \<noteq> None"] ext(2) by (simp add: v_def)
  have "flag_bits (fl_assume_valid f) ?ext (fl_stage f) < 16" using assms(1) by (simp add: flag_bits_def)
  then have "v < 2 ^ 16" using assms(2) by (simp add: v_def)
  then have rd_v: "read_be 2 (be_bytes 2 v @ s) = Inr (v, s)" for s by (rule be_u16.dec_enc)
  have from_v: "Flags_from v = \<lparr>fl_assume_valid = fl_assume_valid f, fl_extended = ?ext, fl_stage = fl_stage f,
      fl_name_length = ?n, fl_skip_worktree = False, fl_intent_to_add = False\<rparr>"
    using Flags_from_packed[of ?n "fl_stage f"] assms(1,2) by (simp add: v_def)
  let ?w = "(if fl_skip_worktree f then 0x4000 else 0) + (if fl_intent_to_add f then 0x2000 else 0) :: nat"
  have rd_w: "read_be 2 (be_bytes 2 ?w @ s) = Inr (?w, s)" for s by (intro be_u16.dec_enc) simp
  have w: "word = (if ?ext then Some ?w else None)" by (simp only: word_def written_word)
  have "read_index_flags (be_bytes 2 v @ (case word of Some w \<Rightarrow> be_bytes 2 w | None \<Rightarrow> []) @ s) = Inr (canonical_flags f, s)" for s
  proof (cases ?ext)
    case True
    then show ?thesis
      unfolding read_index_flags_def w using rd_v rd_w from_v from_extended_word_bits
      by (simp add: canonical_flags_def)
  next
    case False
    then show ?thesis
      unfolding read_index_flags_def w using rd_v from_v by (simp add: canonical_flags_def)
  qed
  then show ?thesis using p by (intro exI[of _ p]) (simp only: v simp_thms)
qed

section \<open>Entries\<close>

definition wf_time :: "Time \<Rightarrow> bool" where
  "wf_time t \<longleftrightarrow> ti_seconds t < 2 ^ 32 \<and> ti_nanos t < 2 ^ 32"

definition wf_index_entry :: "HashKind \<Rightarrow> GitIndexEntry \<Rightarrow> bool" where
  "wf_index_entry kind e \<longleftrightarrow> wf_time (gi_ctime e) \<and> wf_time (gi_mtime e) \<and> gi_dev e < 2 ^ 32 \<and> gi_ino e < 2 ^ 32 \<and>
     gi_mode e < 2 ^ 32 \<and> gi_uid e < 2 ^ 32 \<and> gi_gid e < 2 ^ 32 \<and> gi_size e < 2 ^ 32 \<and>
     hash_kind (gi_hash e) = kind \<and> wf_hash (gi_hash e) \<and> fl_stage (gi_flags e) < 4 \<and>
     fl_name_length (gi_flags e) = length (gi_name e) \<and> length (gi_name e) \<le> 0xFFF \<and> utf8_valid (gi_name e)"

definition canonical_entry :: "GitIndexEntry \<Rightarrow> GitIndexEntry" where
  "canonical_entry e = e\<lparr>gi_flags := canonical_flags (gi_flags e)\<rparr>"

lemma Time_from_stream_append:
  "wf_time t \<Longrightarrow> Time_from_stream (be_bytes 4 (ti_seconds t) @ be_bytes 4 (ti_nanos t) @ s) = Inr (t, s)"
  by (simp add: Time_from_stream_def wf_time_def be_u32.dec_enc)

lemma read_hash_append:
  "hash_kind h = kind \<Longrightarrow> wf_hash h \<Longrightarrow> from_stream_for_kind kind (as_ref h @ s) = Inr (h, s)"
  by (simp add: from_stream_for_kind_eq_Inr_iff)

lemma canonical_flags_simps [simp]:
  "fl_stage (canonical_flags f) = fl_stage f" "fl_name_length (canonical_flags f) = fl_name_length f"
  by (simp_all add: canonical_flags_def)

lemma read_written_index_entry:
  assumes "wf_index_entry kind e"
  shows "\<exists>bs. index_entry_bytes kind e = Inr bs \<and> bs \<noteq> [] \<and>
    (\<forall>s. read_index_entry kind (bs @ s) = Inr (canonical_entry e, s))"
proof -
  let ?f = "gi_flags e" and ?word = "written_extended_word (gi_flags e)"
  have wf: "fl_stage ?f < 4" "fl_name_length ?f \<le> 0xFFF" "fl_name_length ?f = length (gi_name e)" "utf8_valid (gi_name e)"
    using assms by (simp_all add: wf_index_entry_def)
  obtain p where p: "Flags_try_into ?f = Inr p"
    and rd: "\<And>s. read_index_flags (be_bytes 2 (if ?word \<noteq> None then p OR 0x4000 else p)
        @ (case ?word of Some w \<Rightarrow> be_bytes 2 w | None \<Rightarrow> []) @ s) = Inr (canonical_flags ?f, s)"
    using read_written_flags[OF wf(1,2)] by blast
  define fw where "fw = be_bytes 2 (if ?word \<noteq> None then p OR 0x4000 else p)
        @ (case ?word of Some w \<Rightarrow> be_bytes 2 w | None \<Rightarrow> [])"
  have rd_flags: "read_index_flags (fw @ s) = Inr (canonical_flags ?f, s)" for s
    using rd[of s] by (simp only: fw_def append_assoc)
  have ext: "(?word \<noteq> None) = fl_extended (canonical_flags ?f)" by (simp add: written_word)
  define pad where "pad = replicate (entry_padding kind (?word \<noteq> None) (length (gi_name e))) (0 :: byte)"
  define bs where "bs = be_bytes 4 (ti_seconds (gi_ctime e)) @ be_bytes 4 (ti_nanos (gi_ctime e))
     @ be_bytes 4 (ti_seconds (gi_mtime e)) @ be_bytes 4 (ti_nanos (gi_mtime e))
     @ be_bytes 4 (gi_dev e) @ be_bytes 4 (gi_ino e) @ be_bytes 4 (gi_mode e) @ be_bytes 4 (gi_uid e)
     @ be_bytes 4 (gi_gid e) @ be_bytes 4 (gi_size e) @ as_ref (gi_hash e) @ fw @ gi_name e @ pad"
  have bs: "index_entry_bytes kind e = Inr bs"
    unfolding bs_def fw_def pad_def index_entry_bytes_def Let_def p by simp
  have rd_pad: "read_exact (entry_padding kind (fl_extended (canonical_flags ?f)) (length (gi_name e))) (pad @ s) = Inr (pad, s)" for s
    unfolding ext[symmetric] by (rule read_exact_append') (simp add: pad_def)
  have rd_name: "read_exact (length (gi_name e)) (gi_name e @ s) = Inr (gi_name e, s)" for s
    by (rule read_exact_append') simp
  have "read_index_entry kind (bs @ s) = Inr (canonical_entry e, s)" for s
    using assms wf unfolding read_index_entry_def bs_def append_assoc
    by (simp add: wf_index_entry_def Time_from_stream_append be_u32.dec_enc read_hash_append rd_flags rd_pad rd_name
        from_utf8_def canonical_entry_def)
  moreover have "bs \<noteq> []" unfolding bs_def using length_be_bytes[of 4] by (metis append_is_Nil_conv list.size(3) zero_neq_numeral)
  ultimately show ?thesis using bs by blast
qed

lemma Flags_from_bounds: "fl_stage (Flags_from m) < 4" "fl_name_length (Flags_from m) \<le> 0xFFF"
proof -
  have "(3 :: nat) = mask 2" "(0xFFF :: nat) = mask 12" by (simp_all add: mask_eq_exp_minus_1)
  then have "k AND 3 < 4" "m AND 0xFFF < 4096" for k :: nat
    by (simp_all only: take_bit_eq_mask[symmetric] take_bit_eq_mod) simp_all
  then show "fl_stage (Flags_from m) < 4" "fl_name_length (Flags_from m) \<le> 0xFFF"
    by (simp_all add: Flags_from_def drop_bit_eq_div[of 12 "0x3000"] less_Suc_eq_le[symmetric])
qed

lemma read_index_flags_sound:
  assumes "read_index_flags s = Inr (f, r)"
  shows "fl_stage f < 4 \<and> fl_name_length f \<le> 0xFFF \<and> canonical_flags f = f \<and> suffix r s"
proof -
  have "canonical_flags f = f" using assms
    by (auto simp: read_index_flags_def Let_def and_then_eq_Inr_iff canonical_flags_def Flags_from_def split: if_splits)
  moreover have "fl_stage f < 4 \<and> fl_name_length f \<le> 0xFFF" using assms Flags_from_bounds
    by (auto simp: read_index_flags_def Let_def and_then_eq_Inr_iff split: if_splits)
  moreover have "suffix r s" using assms
    by (auto simp: read_index_flags_def Let_def and_then_eq_Inr_iff read_be_eq_Inr_iff suffix_def split: if_splits)
  ultimately show ?thesis by blast
qed

lemma read_be_4_sound: "read_be 4 s = Inr (v, r) \<Longrightarrow> v < 2 ^ 32 \<and> suffix r s"
  using be_value_less[of "take 4 s"] by (auto simp: read_be_eq_Inr_iff suffix_def)

lemma Time_from_stream_sound: "Time_from_stream s = Inr (t, r) \<Longrightarrow> wf_time t \<and> strict_suffix r s"
  by (auto simp: Time_from_stream_def and_then_eq_Inr_iff wf_time_def dest: read_be_4_sound)
    (auto simp: read_be_eq_Inr_iff suffix_def strict_suffix_def)

lemma read_exact_suffix: "read_exact n s = Inr (v, r) \<Longrightarrow> suffix r s \<and> length v = n"
  by (auto simp: read_exact_eq_Inr_iff suffix_def)

text \<open>Whatever the reader accepts is well formed, of the kind of the file, and in the form it is
  written back.\<close>

lemma read_index_entry_sound:
  assumes "read_index_entry kind s = Inr (e, r)"
  shows "wf_index_entry kind e \<and> canonical_entry e = e \<and> strict_suffix r s"
proof -
  obtain s1 s2 s3 s4 s5 s6 s7 s8 s9 s10 s11 pad where
    t: "Time_from_stream s = Inr (gi_ctime e, s1)" "Time_from_stream s1 = Inr (gi_mtime e, s2)"
    and w: "read_be 4 s2 = Inr (gi_dev e, s3)" "read_be 4 s3 = Inr (gi_ino e, s4)" "read_be 4 s4 = Inr (gi_mode e, s5)"
      "read_be 4 s5 = Inr (gi_uid e, s6)" "read_be 4 s6 = Inr (gi_gid e, s7)" "read_be 4 s7 = Inr (gi_size e, s8)"
    and h: "from_stream_for_kind kind s8 = Inr (gi_hash e, s9)" and f: "read_index_flags s9 = Inr (gi_flags e, s10)"
    and n: "read_exact (fl_name_length (gi_flags e)) s10 = Inr (gi_name e, s11)" "utf8_valid (gi_name e)"
    and pad: "read_exact (entry_padding kind (fl_extended (gi_flags e)) (fl_name_length (gi_flags e))) s11 = Inr (pad, r)"
    using assms unfolding read_index_entry_def
    by (auto simp: and_then_eq_Inr_iff from_utf8_def split: if_splits)
  note flags = read_index_flags_sound[OF f] and name = read_exact_suffix[OF n(1)] and
    words = w[THEN read_be_4_sound] and times = t[THEN Time_from_stream_sound]
  have hash: "hash_kind (gi_hash e) = kind" "wf_hash (gi_hash e)" "suffix s9 s8"
    using h by (auto simp: from_stream_for_kind_eq_Inr_iff suffix_def)
  have "suffix r s1" using read_exact_suffix[OF pad] name flags hash(3) words times
    by (meson suffix_order.trans suffix_order.less_imp_le)
  then have "strict_suffix r s" using times by (meson suffix_order.le_less_trans)
  then show ?thesis using flags name words times hash n(2)
    by (simp add: wf_index_entry_def canonical_entry_def)
qed

section \<open>The file\<close>

definition keyed_entry :: "GitIndexEntry \<Rightarrow> (bytes \<times> nat) \<times> GitIndexEntry" where
  "keyed_entry e = ((gi_name e, fl_stage (gi_flags e)), e)"

text \<open>An index whose entries can be stored: the keys are those of the entries, in order.\<close>

definition wf_index :: "HashKind \<Rightarrow> Index \<Rightarrow> bool" where
  "wf_index kind idx \<longleftrightarrow> btree_ok idx \<and> map keyed_entry (map snd idx) = idx \<and>
     list_all (wf_index_entry kind) (map snd idx) \<and> length idx < 2 ^ 32"

definition canonical_index :: "Index \<Rightarrow> Index" where
  "canonical_index idx = map (\<lambda>(k, e). (k, canonical_entry e)) idx"

definition entry_image :: "HashKind \<Rightarrow> GitIndexEntry \<Rightarrow> bytes" where
  "entry_image kind e = (case index_entry_bytes kind e of Inl _ \<Rightarrow> [] | Inr bs \<Rightarrow> bs)"

lemma read_entry_image:
  assumes "wf_index_entry kind e"
  shows "index_entry_bytes kind e = Inr (entry_image kind e)"
    and "read_index_entry kind (entry_image kind e @ s) = Inr (canonical_entry e, s)"
  using read_written_index_entry[OF assms] by (auto simp: entry_image_def)

lemma ensure_index_kinds_ok: "list_all (wf_index_entry kind) es \<Longrightarrow> ensure_index_kinds kind es = Inr ()"
  by (induction es) (simp_all add: wf_index_entry_def ensure_kind_def)

lemma write_index_entries_ok:
  "list_all (wf_index_entry kind) es \<Longrightarrow> write_index_entries kind es content \<lparr>ha_kind = k, absorbed = content\<rparr> =
     (let c = content @ concat (map (entry_image kind) es) in ((c, \<lparr>ha_kind = k, absorbed = c\<rparr>), Inr ()))"
proof (induction es arbitrary: content)
  case (Cons e es)
  from Cons.IH[of "content @ entry_image kind e"] Cons.prems show ?case
    by (simp add: read_entry_image(1) hasher_update_def Let_def)
qed simp

lemma read_entry_images:
  "list_all (wf_index_entry kind) es \<Longrightarrow>
   read_index_entries kind (length es) idx (wr_at k fed (concat (map (entry_image kind) es) @ s)) =
     Inr (fold index_add (map canonical_entry es) idx, wr_at k (fed @ concat (map (entry_image kind) es)) s)"
proof (induction es arbitrary: idx fed)
  case (Cons e es)
  let ?rest = "concat (map (entry_image kind) es) @ s"
  have "wrapped (read_index_entry kind) (wr_at k fed (entry_image kind e @ ?rest)) =
      Inr (canonical_entry e, wr_at k (fed @ entry_image kind e) ?rest)"
    using Cons.prems by (intro wrapped_at read_entry_image) simp
  then show ?case using Cons.IH[of "index_add (canonical_entry e) idx" "fed @ entry_image kind e"] Cons.prems by simp
qed simp

lemma fold_index_add: "fold index_add es idx = fold (\<lambda>(k, v). btree_insert k v) (map keyed_entry es) idx"
  by (induction es arbitrary: idx) (simp_all add: index_add_def keyed_entry_def)

lemma canonical_index_keyed:
  assumes "map keyed_entry (map snd idx) = idx"
  shows "map keyed_entry (map canonical_entry (map snd idx)) = canonical_index idx"
    and "map fst (canonical_index idx) = map fst idx"
proof -
  have "keyed_entry (canonical_entry (snd x)) = (\<lambda>(k, e). (k, canonical_entry e)) x" if "x \<in> set idx" for x
  proof -
    have "map (\<lambda>x. keyed_entry (snd x)) idx = map id idx" using assms by (simp add: comp_def)
    then have "keyed_entry (snd x) = x" using that by (metis id_apply map_eq_conv)
    then have "fst x = (gi_name (snd x), fl_stage (gi_flags (snd x)))" by (metis fst_conv keyed_entry_def)
    then show ?thesis by (cases x) (simp add: keyed_entry_def canonical_entry_def)
  qed
  then show "map keyed_entry (map canonical_entry (map snd idx)) = canonical_index idx"
    by (simp add: canonical_index_def)
qed (simp add: canonical_index_def case_prod_beta comp_def)

text \<open>Adding the entries in the order of the file rebuilds the index.\<close>

lemma index_rebuilt:
  assumes "wf_index kind idx"
  shows "fold index_add (map canonical_entry (map snd idx)) Index_new = canonical_index idx"
  using assms btree.rebuild_items[of "canonical_index idx"] canonical_index_keyed
  by (simp add: fold_index_add wf_index_def btree_ok_def Index_new_def del: map_map)

lemma index_check_header_written:
  "length es < 2 ^ 32 \<Longrightarrow> \<exists>v. index_check_header (index_header es @ s) = Inr ((v, length es), s)"
proof -
  assume len: "length es < 2 ^ 32"
  have "read_exact 4 (DIRC @ t) = Inr (DIRC, t)" for t by (rule read_exact_append') (simp add: DIRC_def)
  moreover have "read_be 4 (be_bytes 4 v @ t) = Inr (v, t)" if "v < 2 ^ 32" for v t using that by (rule be_u32.dec_enc)
  ultimately show ?thesis using len unfolding index_check_header_def index_header_def Let_def
    by (cases "\<exists>e \<in> set es. extended_word (gi_flags e) \<noteq> None \<or> fl_extended (gi_flags e)") simp_all
qed

lemma index_saved:
  assumes "digest_ok digest" "wf_index kind idx"
  shows "\<exists>content. to_file_with_hash_kind digest kind idx old = (Some content, Inr ()) \<and>
    from_file_with_hash_kind digest kind content = Inr (canonical_index idx)"
proof -
  let ?es = "map snd idx"
  let ?hdr = "index_header ?es"
  define body where "body = concat (map (entry_image kind) ?es)"
  define h where "h = hash_of kind (digest kind (?hdr @ body))"
  have es: "list_all (wf_index_entry kind) ?es" and len: "length ?es < 2 ^ 32" using assms(2) by (simp_all add: wf_index_def)
  have fin: "finalize_object_hash digest \<lparr>ha_kind = kind, absorbed = ?hdr @ body\<rparr> = h"
    by (simp add: finalize_object_hash_def hasher_finalize_def h_def)
  have h: "hash_kind h = kind" "wf_hash h" using assms(1) by (simp_all add: h_def digest_ok_def wf_hash_def)
  have "to_file_with_hash_kind digest kind idx old = (Some (?hdr @ body @ as_ref h), Inr ())"
    using ensure_index_kinds_ok[OF es] write_index_entries_ok[OF es, of ?hdr kind] fin
    by (simp add: to_file_with_hash_kind_def Let_def new_for_kind_def hasher_update_def body_def)
  moreover have "from_file_with_hash_kind digest kind (?hdr @ body @ as_ref h) = Inr (canonical_index idx)"
  proof -
    obtain v where v: "index_check_header (?hdr @ body @ as_ref h) = Inr ((v, length ?es), body @ as_ref h)"
      using index_check_header_written[OF len] by blast
    have 1: "wrapped index_check_header (Wrapper_new_with_kind (?hdr @ body @ as_ref h) kind) =
        Inr ((v, length ?es), wr_at (Some kind) ?hdr (body @ as_ref h))"
      using wrapped_at[of index_check_header ?hdr "body @ as_ref h" _ "Some kind" "[]"] v by (simp add: wr_at_new)
    have 2: "read_index_entries kind (length ?es) Index_new (wr_at (Some kind) ?hdr (body @ as_ref h)) =
        Inr (canonical_index idx, wr_at (Some kind) (?hdr @ body) (as_ref h))"
      unfolding body_def using read_entry_images[OF es] index_rebuilt[OF assms(2)] by simp
    have 3: "read_extensions kind (length (?hdr @ body @ as_ref h)) (wr_at (Some kind) (?hdr @ body) (as_ref h)) =
        Inr (wr_at (Some kind) (?hdr @ body) (as_ref h))"
      using h by (subst read_extensions.simps) (simp add: wr_at_def wf_hash_def)
    have 4: "wrapped (from_stream_for_kind kind) (wr_at (Some kind) (?hdr @ body) (as_ref h)) =
        Inr (h, wr_at (Some kind) ((?hdr @ body) @ as_ref h) [])"
      using wrapped_at[of "from_stream_for_kind kind" "as_ref h" "[]" h "Some kind" "?hdr @ body"] h
      by (simp add: from_stream_for_kind_eq_Inr_iff)
    have 5: "final_hash digest (wr_at (Some kind) (?hdr @ body) (as_ref h)) = Inr h"
      using fin by (simp add: final_hash_def wr_at_def)
    have "length (canonical_index idx) = length ?es" by (simp add: canonical_index_def)
    then show ?thesis unfolding from_file_with_hash_kind_def Let_def using 1 2 3 4 5 by simp
  qed
  ultimately show ?thesis by blast
qed

lemma keyed_iff: "map keyed_entry (map snd idx) = idx \<longleftrightarrow> (\<forall>x \<in> set idx. keyed_entry (snd x) = x)"
  by (induction idx) auto

lemma index_add_inv:
  assumes "btree_ok idx" "map keyed_entry (map snd idx) = idx" "list_all P (map snd idx)" "P e"
  shows "btree_ok (index_add e idx)" "map keyed_entry (map snd (index_add e idx)) = index_add e idx"
    "list_all P (map snd (index_add e idx))"
proof -
  show "btree_ok (index_add e idx)" unfolding index_add_def by (rule btree_ok_insert[OF assms(1)])
  have sub: "set (btree_insert k v m) \<subseteq> insert (k, v) (set m)" for k v and m :: Index
    by (induction m) (auto split: if_splits)
  have "\<forall>x \<in> set (index_add e idx). keyed_entry (snd x) = x"
    using assms(2) sub unfolding index_add_def keyed_iff by (fastforce simp: keyed_entry_def)
  then show "map keyed_entry (map snd (index_add e idx)) = index_add e idx" by (simp only: keyed_iff)
  show "list_all P (map snd (index_add e idx))"
    using assms(3,4) sub unfolding index_add_def list_all_iff by fastforce
qed

lemma read_index_entries_sound:
  assumes "read_index_entries kind n idx reader = Inr (idx', reader')" "btree_ok idx"
    "map keyed_entry (map snd idx) = idx" "list_all (\<lambda>e. wf_index_entry kind e \<and> canonical_entry e = e) (map snd idx)"
  shows "btree_ok idx' \<and> map keyed_entry (map snd idx') = idx' \<and>
    list_all (\<lambda>e. wf_index_entry kind e \<and> canonical_entry e = e) (map snd idx')"
  using assms
proof (induction n arbitrary: idx reader)
  case (Suc n)
  then obtain e reader1 r where "read_index_entry kind (wr_inner reader) = Inr (e, r)"
    and rest: "read_index_entries kind n (index_add e idx) reader1 = Inr (idx', reader')"
    by (auto simp: and_then_eq_Inr_iff wrapped_def)
  then have "wf_index_entry kind e \<and> canonical_entry e = e" using read_index_entry_sound by blast
  from index_add_inv[OF Suc.prems(2-4) this] show ?case by (intro Suc.IH[OF rest])
qed simp

lemma index_loaded:
  assumes "from_file_with_hash_kind digest kind content = Inr idx"
  shows "wf_index kind idx \<and> canonical_index idx = idx"
proof -
  obtain v w1 w2 w0 where h: "index_check_header content = Inr ((v, length idx), w0)"
    and rd: "read_index_entries kind (length idx) Index_new w1 = Inr (idx, w2)"
    using assms unfolding from_file_with_hash_kind_def Let_def
    by (auto simp: and_then_eq_Inr_iff wrapped_def Wrapper_new_with_kind_def split: if_splits)
  have "length idx < 2 ^ 32" using h read_be_4_sound
    by (auto simp: index_check_header_def and_then_eq_Inr_iff split: if_splits)
  moreover have "btree_ok idx \<and> map keyed_entry (map snd idx) = idx \<and>
      list_all (\<lambda>e. wf_index_entry kind e \<and> canonical_entry e = e) (map snd idx)"
    by (rule read_index_entries_sound[OF rd]) (simp_all add: Index_new_def btree_ok_def)
  moreover from this have "canonical_index idx = idx"
    by (auto simp: canonical_index_def list_all_iff intro!: map_idI)
  ultimately show ?thesis by (auto simp: wf_index_def list_all_iff)
qed

section \<open>Operations\<close>

text \<open>What a client sees of an index: the entry of a name at a stage.\<close>

definition index_view :: "Index \<Rightarrow> bytes \<times> nat \<Rightarrow> GitIndexEntry option" where
  "index_view idx = (\<lambda>(name, stage). index_get name stage idx)"

lemma index_view_map_of: "index_view idx = map_of idx"
  by (auto simp: index_view_def index_get_def)

lemma keyed_stage:
  "map keyed_entry (map snd idx) = idx \<Longrightarrow> ((name, stage), e) \<in> set idx \<Longrightarrow> gi_name e = name \<and> fl_stage (gi_flags e) = stage"
  unfolding keyed_iff by (auto simp: keyed_entry_def)

lemma tracked_files_view:
  assumes "btree_ok idx" "map keyed_entry (map snd idx) = idx"
  shows "set (tracked_files idx) = {name. tracked name 0 idx}" "sorted_wrt (<) (tracked_files idx)"
proof -
  let ?m = "filter (\<lambda>(_, e). fl_stage (gi_flags e) = 0) idx"
  have m: "gi_name (snd x) = fst (fst x)" "snd (fst x) = 0" if "x \<in> set ?m" for x
    using keyed_stage[OF assms(2), of "fst (fst x)" "snd (fst x)" "snd x"] that by auto
  have zero: "\<forall>x \<in> set ?m. snd (fst x) = 0" using m(2) by blast
  have files: "tracked_files idx = map (fst \<circ> fst) ?m"
    unfolding tracked_files_def tracked_entries_def map_map
    by (rule map_cong[OF refl]) (simp only: comp_apply m(1))
  have "tracked name 0 idx \<longleftrightarrow> (\<exists>e. ((name, 0), e) \<in> set idx)" for name
    unfolding tracked_def index_get_def by (metis map_of_SomeD not_None_eq weak_map_of_SomeI)
  then show "set (tracked_files idx) = {name. tracked name 0 idx}"
    unfolding files using keyed_stage[OF assms(2)] by (force simp: image_iff)
  have "sorted_wrt (<) (map fst ?m)" using btree_ok_filter[OF assms(1)] by (simp only: btree_ok_def)
  then have "sorted_wrt (\<lambda>x y. fst x < fst y) ?m" by (simp only: sorted_wrt_map)
  then have "sorted_wrt (\<lambda>x y. fst (fst x) < fst (fst y)) ?m"
    by (rule sorted_wrt_mono_rel[rotated]) (use zero in \<open>auto simp: less_prod_def\<close>)
  then show "sorted_wrt (<) (tracked_files idx)" unfolding files by (simp add: sorted_wrt_map)
qed

lemma map_of_filter_keys: "map_of (filter (\<lambda>(k, _). P k) m) = map_of m |` {k. P k}"
  by (induction m) (auto simp: fun_eq_iff restrict_map_def)

lemma remove_dir_files_map:
  assumes "btree_ok idx" "remove_dir_files dir idx = (removed, idx')"
  shows "btree_ok idx'" "map_of idx' = map_of idx |` {(name, stage). \<not> below_dir dir name}"
    "set removed = {name. below_dir dir name \<and> (\<exists>stage. index_get name stage idx \<noteq> None)}"
    "\<not> contains_dir_file dir idx'"
proof -
  have idx': "idx' = filter (\<lambda>(k, _). \<not> below_dir dir (fst k)) idx"
    and rem: "removed = map (fst \<circ> fst) (filter (\<lambda>(k, _). below_dir dir (fst k)) idx)"
    using assms(2) by (auto simp: remove_dir_files_def case_prod_unfold)
  show "btree_ok idx'" unfolding idx' by (rule btree_ok_filter[OF assms(1)])
  show "map_of idx' = map_of idx |` {(name, stage). \<not> below_dir dir name}"
    unfolding idx' map_of_filter_keys by (intro arg_cong2[of _ _ _ _ restrict_map] refl) auto
  have "index_get name stage idx \<noteq> None \<longleftrightarrow> (\<exists>e. ((name, stage), e) \<in> set idx)" for name stage
    unfolding index_get_def by (metis map_of_SomeD not_None_eq weak_map_of_SomeI)
  then show "set removed = {name. below_dir dir name \<and> (\<exists>stage. index_get name stage idx \<noteq> None)}"
    unfolding rem by (force simp: image_iff)
  show "\<not> contains_dir_file dir idx'" unfolding idx' contains_dir_file_def by auto
qed

text \<open>Refreshing with the length of the content computes the id of the blob.\<close>

lemma refreshed_blob:
  assumes "hash_kind (gi_hash e) = kind" "stat path = Inr meta" "contents path = Inr data" "md_len meta = length data"
    "from_system_time (index_ctime meta) = Inr ct" "from_system_time (index_mtime meta) = Inr mt"
  obtains id where "from_type_and_data_for_kind digest kind OT_Blob data = Inr id"
    "refreshed digest kind stat contents path e =
       (let e' = e\<lparr>gi_ctime := ct, gi_mtime := mt, gi_size := take_bit 32 (length data), gi_hash := id\<rparr> in Inr (e', e' \<noteq> e))"
proof -
  obtain id where id: "from_type_and_data_for_kind digest kind OT_Blob data = Inr id"
    by (simp add: from_type_and_data_for_kind_def Let_def ObjectType_to_bytes_def)
  then have h: "finalize_object_hash digest (hasher_update data (hasher_update [0] (hasher_update (decimal (length data))
      (hasher_update [0x20] (hasher_update tb (new_for_kind kind)))))) = id" if "ObjectType_to_bytes OT_Blob = Some tb" for tb
    using that by (simp add: from_type_and_data_for_kind_def Let_def ascii_def byte_of_char_def)
  obtain tb where tb: "ObjectType_to_bytes OT_Blob = Some tb" by (simp add: ObjectType_to_bytes_def)
  have "refreshed digest kind stat contents path e =
       (let e' = e\<lparr>gi_ctime := ct, gi_mtime := mt, gi_size := take_bit 32 (length data), gi_hash := id\<rparr> in Inr (e', e' \<noteq> e))"
    using assms tb h[OF tb] by (cases e) (auto simp: refreshed_def Let_def ensure_kind_def)
  then show ?thesis using that id by blast
qed

section \<open>Properties\<close>

text \<open>C10: A well-formed index (entries of the kind, keys equal to name and stage, names of at most
  0xFFF bytes) is written and read back, whatever the file held before; the entries come back with the
  extended bit set exactly where a second flag word was stored.  Whatever the reader accepts is well
  formed, so it is written back and read again unchanged.\<close>

theorem index_file_roundtrip:
  assumes "digest_ok digest"
  shows "(wf_index kind idx \<longrightarrow>
      (\<exists>content. to_file_with_hash_kind digest kind idx old = (Some content, Inr ()) \<and>
         from_file_with_hash_kind digest kind content = Inr (canonical_index idx))) \<and>
    (from_file_with_hash_kind digest kind bs = Inr loaded \<longrightarrow>
      wf_index kind loaded \<and>
      (\<exists>content. to_file_with_hash_kind digest kind loaded old = (Some content, Inr ()) \<and>
         from_file_with_hash_kind digest kind content = Inr loaded))"
  using index_saved[OF assms] index_loaded[of digest kind bs loaded] by metis

definition sample_index_entry :: GitIndexEntry where
  "sample_index_entry = (new_from_blob [0x61, 0x62] (hash_of KSha1 (replicate 20 7)) 5)
     \<lparr>gi_flags := (Flags_new 2)\<lparr>fl_intent_to_add := True\<rparr>\<rparr>"

theorem index_file_roundtrip_witness:
  "\<exists>content. to_file_with_hash_kind sample_digest KSha1 (index_add sample_index_entry Index_new) None = (Some content, Inr ()) \<and>
     from_file_with_hash_kind sample_digest KSha1 content =
       Inr [(([0x61, 0x62], 0), sample_index_entry\<lparr>gi_flags := (Flags_new 2)\<lparr>fl_extended := True, fl_intent_to_add := True\<rparr>\<rparr>)]"
proof -
  let ?i = "index_add sample_index_entry Index_new"
  have i: "?i = [(([0x61, 0x62], 0), sample_index_entry)]"
    by (simp add: index_add_def Index_new_def sample_index_entry_def new_from_blob_def Flags_new_def Let_def)
  have "utf8_valid [0x61, 0x62]" by code_simp
  then have "wf_index KSha1 ?i" unfolding i
    by (simp add: wf_index_def btree_ok_def keyed_entry_def wf_index_entry_def wf_time_def sample_index_entry_def
        new_from_blob_def Flags_new_def Let_def wf_hash_def)
  moreover have "canonical_index ?i =
      [(([0x61, 0x62], 0), sample_index_entry\<lparr>gi_flags := (Flags_new 2)\<lparr>fl_extended := True, fl_intent_to_add := True\<rparr>\<rparr>)]"
    unfolding i by (simp add: canonical_index_def canonical_entry_def canonical_flags_def sample_index_entry_def
        new_from_blob_def Flags_new_def Let_def)
  ultimately show ?thesis using index_file_roundtrip[OF sample_digest_ok, of KSha1 ?i None] by simp
qed

text \<open>C18: The operations of the index are those of a finite map from name and stage to entries:
  adding and updating override one key, removing returns the old entry and deletes one key, removing a
  directory deletes exactly the entries below it and returns their names; every operation keeps the
  order of the keys, and the tracked files are the names at stage 0 in ascending order.\<close>

theorem index_operations_refine_map:
  assumes "btree_ok idx" "map keyed_entry (map snd idx) = idx" "remove_dir_files dir idx = (removed, idx')"
  shows "index_view Index_new = Map.empty \<and>
    btree_ok (index_add e idx) \<and>
    index_view (index_add e idx) = (index_view idx)((gi_name e, fl_stage (gi_flags e)) \<mapsto> e) \<and>
    index_update e idx = index_add e idx \<and>
    (case index_remove name stage idx of (old, idx'') \<Rightarrow> old = index_view idx (name, stage) \<and> btree_ok idx'' \<and>
       index_view idx'' = (index_view idx)((name, stage) := None)) \<and>
    btree_ok idx' \<and> index_view idx' = index_view idx |` {(name, stage). \<not> below_dir dir name} \<and>
    set removed = {name. below_dir dir name \<and> (\<exists>stage. tracked name stage idx)} \<and> \<not> contains_dir_file dir idx' \<and>
    set (tracked_files idx) = {name. tracked name 0 idx} \<and> sorted_wrt (<) (tracked_files idx)"
  using assms(1) remove_dir_files_map[OF assms(1,3)] tracked_files_view[OF assms(1,2)] btree.inv_ops(2)[OF assms(1)]
    btree.inv_ops(3)[OF assms(1)] btree.get_insert[OF assms(1)] btree.get_remove[OF assms(1)]
  by (simp add: index_view_map_of Index_new_def index_add_def index_update_def index_remove_def index_get_def tracked_def)

theorem index_operations_refine_map_witness:
  "let idx = index_add sample_index_entry Index_new in
   index_view (snd (index_remove [0x61, 0x62] 0 idx)) = (index_view idx)(([0x61, 0x62], 0) := None) \<and>
   set (tracked_files idx) = {name. tracked name 0 idx}"
proof -
  let ?i = "index_add sample_index_entry Index_new"
  have i: "?i = [(([0x61, 0x62], 0), sample_index_entry)]"
    by (simp add: index_add_def Index_new_def sample_index_entry_def new_from_blob_def Flags_new_def Let_def)
  have "btree_ok ?i" "map keyed_entry (map snd ?i) = ?i" unfolding i
    by (simp_all add: btree_ok_def keyed_entry_def sample_index_entry_def new_from_blob_def Flags_new_def Let_def)
  from index_operations_refine_map[OF this, of "[]" "fst (remove_dir_files [] ?i)" "snd (remove_dir_files [] ?i)" _ "[0x61, 0x62]" 0]
  show ?thesis by (simp add: Let_def case_prod_beta)
qed

text \<open>C27: Refreshing a tracked file whose metadata tells the length of its content stores the times, the
  size and the id of the blob with that content, in that entry alone, and reports a change exactly when
  the entry was different; afterwards the file is not modified and a second refresh changes nothing.\<close>

theorem index_refresh_blob:
  assumes "btree_ok idx" "utf8_valid path" "index_get path 0 idx = Some e" "hash_kind (gi_hash e) = kind"
    "digest_ok digest" "stat path = Inr meta" "contents path = Inr data" "md_len meta = length data"
    "from_system_time (index_ctime meta) = Inr ct" "from_system_time (index_mtime meta) = Inr mt"
  shows "\<exists>id e' idx'. from_type_and_data_for_kind digest kind OT_Blob data = Inr id \<and>
    e' = e\<lparr>gi_ctime := ct, gi_mtime := mt, gi_size := take_bit 32 (length data), gi_hash := id\<rparr> \<and>
    refresh_with_hash_kind digest kind stat contents path idx = (idx', Inr (e' \<noteq> e)) \<and>
    btree_ok idx' \<and> index_view idx' = (index_view idx)((path, 0) \<mapsto> e') \<and>
    is_modified stat path 0 idx' = Inr False \<and>
    refresh_with_hash_kind digest kind stat contents path idx' = (idx', Inr False)"
proof -
  obtain id where id: "from_type_and_data_for_kind digest kind OT_Blob data = Inr id"
    and rf: "refreshed digest kind stat contents path e =
       (let e' = e\<lparr>gi_ctime := ct, gi_mtime := mt, gi_size := take_bit 32 (length data), gi_hash := id\<rparr> in Inr (e', e' \<noteq> e))"
    using refreshed_blob[of e kind stat path meta contents data ct mt digest] assms(4,6-10) by metis
  let ?e = "e\<lparr>gi_ctime := ct, gi_mtime := mt, gi_size := take_bit 32 (length data), gi_hash := id\<rparr>"
  let ?i = "btree_insert (path, 0) ?e idx"
  have path: "from_utf8 path = Some path" using assms(2) by (simp add: from_utf8_def)
  have ok: "btree_ok ?i" using assms(1) by (rule btree.inv_ops(2))
  have view: "map_of ?i = (map_of idx)((path, 0) \<mapsto> ?e)" using assms(1) by (rule btree.get_insert)
  have kind: "hash_kind (gi_hash ?e) = kind" using id by (auto simp: from_type_and_data_for_kind_eq split: option.splits)
  obtain id' where "from_type_and_data_for_kind digest kind OT_Blob data = Inr id'"
    and "refreshed digest kind stat contents path ?e =
       (let e' = ?e\<lparr>gi_ctime := ct, gi_mtime := mt, gi_size := take_bit 32 (length data), gi_hash := id'\<rparr> in Inr (e', e' \<noteq> ?e))"
    using refreshed_blob[of ?e kind stat path meta contents data ct mt digest] kind assms(6-10) by metis
  then have again: "refreshed digest kind stat contents path ?e = Inr (?e, False)" using id by (simp add: Let_def)
  have same: "btree_insert (path, 0) ?e ?i = ?i"
    using btree.items_eq[OF btree.inv_ops(2)[OF ok] ok] btree.get_insert[OF ok] view by (metis fun_upd_upd)
  have "refresh_with_hash_kind digest kind stat contents path idx = (?i, Inr (?e \<noteq> e))"
    unfolding refresh_with_hash_kind_def path using assms(3) rf by (simp add: Let_def)
  moreover have "refresh_with_hash_kind digest kind stat contents path ?i = (?i, Inr False)"
    unfolding refresh_with_hash_kind_def path using again view same by (simp add: index_get_def)
  moreover have "is_modified stat path 0 ?i = Inr False"
    using assms(6,8-10) view by (simp add: is_modified_def index_get_def)
  ultimately show ?thesis using id ok view
    by (intro exI[of _ id] exI[of _ ?e] exI[of _ ?i]) (simp add: index_view_map_of)
qed

definition sample_meta :: Metadata where
  "sample_meta = \<lparr>md_ctime = 9, md_ctime_nsec = 1, md_mtime = 10, md_mtime_nsec = 2, md_dev = 0, md_ino = 0,
     md_mode = 0x81A4, md_uid = 0, md_gid = 0, md_len = 3\<rparr>"

theorem index_refresh_blob_witness:
  "\<exists>idx'. refresh_with_hash_kind sample_digest KSha1 (\<lambda>_. Inr sample_meta) (\<lambda>_. Inr [1, 2, 3]) [0x61, 0x62]
      (index_add sample_index_entry Index_new) = (idx', Inr True) \<and>
     is_modified (\<lambda>_. Inr sample_meta) [0x61, 0x62] 0 idx' = Inr False"
proof -
  let ?i = "index_add sample_index_entry Index_new"
  have i: "?i = [(([0x61, 0x62], 0), sample_index_entry)]"
    by (simp add: index_add_def Index_new_def sample_index_entry_def new_from_blob_def Flags_new_def Let_def)
  have ok: "btree_ok ?i" "index_get [0x61, 0x62] 0 ?i = Some sample_index_entry" unfolding i
    by (simp_all add: btree_ok_def index_get_def)
  have utf: "utf8_valid [0x61, 0x62]" by code_simp
  have kind: "hash_kind (gi_hash sample_index_entry) = KSha1" "gi_size sample_index_entry = 5"
    by (simp_all add: sample_index_entry_def new_from_blob_def Let_def)
  have ts: "from_system_time (index_ctime sample_meta) = Inr \<lparr>ti_seconds = 9, ti_nanos = 1\<rparr>"
      "from_system_time (index_mtime sample_meta) = Inr \<lparr>ti_seconds = 10, ti_nanos = 2\<rparr>"
      "md_len sample_meta = length [1 :: byte, 2, 3]"
    by (simp_all add: sample_meta_def from_system_time_def index_ctime_def index_mtime_def unix_metadata_time_def)
  obtain id e' idx' where r: "e' = sample_index_entry\<lparr>gi_ctime := \<lparr>ti_seconds = 9, ti_nanos = 1\<rparr>,
        gi_mtime := \<lparr>ti_seconds = 10, ti_nanos = 2\<rparr>, gi_size := take_bit 32 (length [1 :: byte, 2, 3]), gi_hash := id\<rparr>"
      "refresh_with_hash_kind sample_digest KSha1 (\<lambda>_. Inr sample_meta) (\<lambda>_. Inr [1, 2, 3]) [0x61, 0x62] ?i
        = (idx', Inr (e' \<noteq> sample_index_entry))"
      "is_modified (\<lambda>_. Inr sample_meta) [0x61, 0x62] 0 idx' = Inr False"
    using index_refresh_blob[OF ok(1) utf ok(2) kind(1) sample_digest_ok, of "\<lambda>_. Inr sample_meta" sample_meta "\<lambda>_. Inr [1, 2, 3]"] ts
    by blast
  have "e' \<noteq> sample_index_entry"
  proof
    assume "e' = sample_index_entry"
    then have "gi_size e' = 5" using kind(2) by simp
    then show False unfolding r(1) by (simp add: take_bit_eq_mod)
  qed
  then show ?thesis using r(2,3) by auto
qed

end
