(* ===== verification/Protocol_Types.thy ===== *)
theory Protocol_Types
  imports Object_Trait
begin

text \<open>
  The types of the smart protocol (\<open>src/src/protocol/types.rs\<close>): errors and their texts, transports,
  services, capabilities, side bands and reference commands; and the texts of the crate's errors
  (\<open>src/src/errors.rs\<close>), which the protocol's errors carry.

  Rust's \<open>String\<close> is the list of its bytes; a message is ASCII apart from the parts it quotes.
\<close>

section \<open>Texts of errors\<close>

fun GitError_display :: "GitError \<Rightarrow> string" where
  "GitError_display (GE_InvalidObjectType s) = ''The `'' @ s @ ''` is not a valid git object type.''"
| "GitError_display (GE_InvalidBlobObject s) = ''The `'' @ s @ ''` is not a valid git blob object.''"
| "GitError_display GE_InvalidTreeObject = ''Not a valid git tree object.''"
| "GitError_display (GE_InvalidTreeItem s) = ''The `'' @ s @ ''` is not a valid git tree item.''"
| "GitError_display (GE_EmptyTreeItems s) = ''`'' @ s @ ''`.''"
| "GitError_display (GE_InvalidSignatureType s) = ''The `'' @ s @ ''` is not a valid git commit signature.''"
| "GitError_display GE_InvalidCommitObject = ''Not a valid git commit object.''"
| "GitError_display (GE_InvalidCommit s) = ''Invalid Commit: '' @ s"
| "GitError_display (GE_InvalidTagObject s) = ''Not a valid git tag object: '' @ s"
| "GitError_display (GE_InvalidNoteObject s) = ''Not a valid git note object: '' @ s"
| "GitError_display (GE_InvalidContextSnapshotObject s) = ''Not a valid agent context snapshot object: '' @ s"
| "GitError_display (GE_InvalidDecisionObject s) = ''Not a valid agent decision object: '' @ s"
| "GitError_display (GE_InvalidEvidenceObject s) = ''Not a valid agent evidence object: '' @ s"
| "GitError_display (GE_InvalidPatchSetObject s) = ''Not a valid agent patch set object: '' @ s"
| "GitError_display (GE_InvalidPlanObject s) = ''Not a valid agent plan object: '' @ s"
| "GitError_display (GE_InvalidProvenanceObject s) = ''Not a valid agent provenance object: '' @ s"
| "GitError_display (GE_InvalidRunObject s) = ''Not a valid agent run object: '' @ s"
| "GitError_display (GE_InvalidTaskObject s) = ''Not a valid agent task object: '' @ s"
| "GitError_display (GE_InvalidIntentObject s) = ''Not a valid agent intent object: '' @ s"
| "GitError_display (GE_InvalidToolInvocationObject s) = ''Not a valid agent tool invocation object: '' @ s"
| "GitError_display (GE_InvalidContextFrameObject s) = ''Not a valid agent context frame object: '' @ s"
| "GitError_display (GE_InvalidIdxFile s) = ''The `'' @ s @ ''` is not a valid idx file.''"
| "GitError_display (GE_InvalidPackFile s) = ''The `'' @ s @ ''` is not a valid pack file.''"
| "GitError_display (GE_InvalidPackHeader s) = ''The `'' @ s @ ''` is not a valid pack header.''"
| "GitError_display (GE_InvalidIndexFile s) = ''The `'' @ s @ ''` is not a valid index file.''"
| "GitError_display (GE_InvalidIndexHeader s) = ''The `'' @ s @ ''` is not a valid index header.''"
| "GitError_display (GE_InvalidArgument s) = ''Argument parse failed: '' @ s"
| "GitError_display (GE_IOError e) = ''IO Error: '' @ io_error_string e"
| "GitError_display (GE_InvalidHashValue s) = ''The '' @ s @ '' is not a valid Hash value ''"
| "GitError_display (GE_DeltaObjectError s) = ''Delta Object Error Info:'' @ s"
| "GitError_display (GE_UnCompletedPackObject s) = ''The object to be packed is incomplete ,'' @ s"
| "GitError_display (GE_InvalidObjectInfo s) = ''Error decode in the Object ,info:'' @ s"
| "GitError_display (GE_NotFoundHashValue s) = ''Cannot find Hash value: '' @ s @ '' from current file''"
| "GitError_display (GE_EncodeObjectError s) = ''Can'' @ [CHR 0x27] @ ''t encode the object which id ['' @ s @ ''] to bytes''"
| "GitError_display (GE_ConversionError s) = ''UTF-8 conversion error: '' @ s"
| "GitError_display (GE_InvalidPathError s) = ''Can'' @ [CHR 0x27] @ ''t find parent tree by path: '' @ s"
| "GitError_display (GE_PackEncodeError s) = ''Can'' @ [CHR 0x27] @ ''t encode entries to pack: '' @ s"
| "GitError_display (GE_ObjectNotFound s) = ''Can'' @ [CHR 0x27] @ ''t find specific object: '' @ s"
| "GitError_display GE_RepoNotFound = ''Repository not found''"
| "GitError_display (GE_UnAuthorized s) = ''UnAuthorized: '' @ s"
| "GitError_display (GE_NetworkError s) = ''Network Error: '' @ s"
| "GitError_display (GE_CustomError s) = s"

datatype ProtocolError =
    PE_InvalidService bytes
  | PE_RepositoryNotFound bytes
  | PE_ObjectNotFound bytes
  | PE_InvalidRequest bytes
  | PE_Unauthorized bytes
  | PE_Io io_error
  | PE_Pack bytes
  | PE_Internal bytes

fun ProtocolError_display :: "ProtocolError \<Rightarrow> bytes" where
  "ProtocolError_display (PE_InvalidService m) = ascii ''Invalid service: '' @ m"
| "ProtocolError_display (PE_RepositoryNotFound m) = ascii ''Repository not found: '' @ m"
| "ProtocolError_display (PE_ObjectNotFound m) = ascii ''Object not found: '' @ m"
| "ProtocolError_display (PE_InvalidRequest m) = ascii ''Invalid request: '' @ m"
| "ProtocolError_display (PE_Unauthorized m) = ascii ''Unauthorized: '' @ m"
| "ProtocolError_display (PE_Io e) = ascii (''IO error: '' @ io_error_string e)"
| "ProtocolError_display (PE_Pack m) = ascii ''Pack error: '' @ m"
| "ProtocolError_display (PE_Internal m) = ascii ''Internal error: '' @ m"

definition invalid_service :: "bytes \<Rightarrow> ProtocolError" where
  "invalid_service service = PE_InvalidService service"

definition repository_error :: "bytes \<Rightarrow> ProtocolError" where
  "repository_error msg = PE_Internal msg"

definition invalid_request :: "bytes \<Rightarrow> ProtocolError" where
  "invalid_request msg = PE_InvalidRequest msg"

definition unauthorized :: "bytes \<Rightarrow> ProtocolError" where
  "unauthorized msg = PE_Unauthorized msg"

text \<open>\<open>chars().take(n)\<close> of a valid text: the bytes of its first characters.\<close>

fun take_chars :: "nat \<Rightarrow> bytes \<Rightarrow> bytes" where
  "take_chars 0 s = []"
| "take_chars (Suc n) [] = []"
| "take_chars (Suc n) (b # s) =
     (let k = snd (utf8_char b s) in take k (b # s) @ take_chars n (drop k (b # s)))"

definition unknown_object_format :: "bytes \<Rightarrow> ProtocolError" where
  "unknown_object_format v =
     PE_InvalidRequest (ascii ''unknown object-format capability `'' @ take_chars 64 v
       @ ascii ''` (accepted: sha1|sha256|blake3); refusing to negotiate'')"

definition object_format_mismatch :: "HashKind \<Rightarrow> HashKind \<Rightarrow> HashKind \<Rightarrow> ProtocolError" where
  "object_format_mismatch wire loc repository =
     PE_InvalidRequest (ascii ''object-format mismatch: wire='' @ HashKind_as_str wire @ ascii '' local=''
       @ HashKind_as_str loc @ ascii '' repository='' @ HashKind_as_str repository
       @ ascii ''; refusing to serve the repository under another object format'')"

definition invalid_wire_id :: "bytes \<Rightarrow> bytes \<Rightarrow> bytes \<Rightarrow> ProtocolError" where
  "invalid_wire_id command ident detail =
     PE_InvalidRequest (ascii ''invalid object ID in `'' @ command @ ascii ''` line (`'' @ take_chars 80 ident
       @ ascii ''`): '' @ detail)"

section \<open>Transports and services\<close>

datatype TransportProtocol = TP_Local | TP_Http | TP_Ssh | TP_Git

datatype ServiceType = UploadPack | ReceivePack

fun ServiceType_display :: "ServiceType \<Rightarrow> bytes" where
  "ServiceType_display UploadPack = ascii ''git-upload-pack''"
| "ServiceType_display ReceivePack = ascii ''git-receive-pack''"

definition ServiceType_from_str :: "bytes \<Rightarrow> ProtocolError + ServiceType" where
  "ServiceType_from_str s =
     (if s = ascii ''git-upload-pack'' then Inr UploadPack
      else if s = ascii ''git-receive-pack'' then Inr ReceivePack
      else Inl (PE_InvalidService s))"

section \<open>Capabilities\<close>

datatype Capability =
    Cap_MultiAck
  | Cap_MultiAckDetailed
  | Cap_NoDone
  | Cap_SideBand
  | Cap_SideBand64k
  | Cap_ReportStatus
  | Cap_ReportStatusv2
  | Cap_OfsDelta
  | Cap_DeepenSince
  | Cap_DeepenNot
  | Cap_DeepenRelative
  | Cap_ThinPack
  | Cap_Shallow
  | Cap_IncludeTag
  | Cap_DeleteRefs
  | Cap_Quiet
  | Cap_Atomic
  | Cap_NoThin
  | Cap_NoProgress
  | Cap_AllowTipSha1InWant
  | Cap_AllowReachableSha1InWant
  | Cap_PushCert bytes
  | Cap_PushOptions
  | Cap_ObjectFormat bytes
  | Cap_SessionId bytes
  | Cap_Filter bytes
  | Cap_Symref bytes
  | Cap_Agent bytes
  | Cap_Unknown bytes

definition Capability_from_str :: "bytes \<Rightarrow> Capability" where
  "Capability_from_str s =
     (case strip_prefix (ascii ''agent='') s of Some rest \<Rightarrow> Cap_Agent rest | None \<Rightarrow>
     (case strip_prefix (ascii ''session-id='') s of Some rest \<Rightarrow> Cap_SessionId rest | None \<Rightarrow>
     (case strip_prefix (ascii ''push-cert='') s of Some rest \<Rightarrow> Cap_PushCert rest | None \<Rightarrow>
     (case strip_prefix (ascii ''object-format='') s of Some rest \<Rightarrow> Cap_ObjectFormat rest | None \<Rightarrow>
     (case strip_prefix (ascii ''filter='') s of Some rest \<Rightarrow> Cap_Filter rest | None \<Rightarrow>
     (case strip_prefix (ascii ''symref='') s of Some rest \<Rightarrow> Cap_Symref rest | None \<Rightarrow>
      if s = ascii ''multi_ack'' then Cap_MultiAck
      else if s = ascii ''multi_ack_detailed'' then Cap_MultiAckDetailed
      else if s = ascii ''no-done'' then Cap_NoDone
      else if s = ascii ''side-band'' then Cap_SideBand
      else if s = ascii ''side-band-64k'' then Cap_SideBand64k
      else if s = ascii ''report-status'' then Cap_ReportStatus
      else if s = ascii ''report-status-v2'' then Cap_ReportStatusv2
      else if s = ascii ''ofs-delta'' then Cap_OfsDelta
      else if s = ascii ''deepen-since'' then Cap_DeepenSince
      else if s = ascii ''deepen-not'' then Cap_DeepenNot
      else if s = ascii ''deepen-relative'' then Cap_DeepenRelative
      else if s = ascii ''thin-pack'' then Cap_ThinPack
      else if s = ascii ''shallow'' then Cap_Shallow
      else if s = ascii ''include-tag'' then Cap_IncludeTag
      else if s = ascii ''delete-refs'' then Cap_DeleteRefs
      else if s = ascii ''quiet'' then Cap_Quiet
      else if s = ascii ''atomic'' then Cap_Atomic
      else if s = ascii ''no-thin'' then Cap_NoThin
      else if s = ascii ''no-progress'' then Cap_NoProgress
      else if s = ascii ''allow-tip-sha1-in-want'' then Cap_AllowTipSha1InWant
      else if s = ascii ''allow-reachable-sha1-in-want'' then Cap_AllowReachableSha1InWant
      else if s = ascii ''push-options'' then Cap_PushOptions
      else Cap_Unknown s))))))"

fun Capability_display :: "Capability \<Rightarrow> bytes" where
  "Capability_display Cap_MultiAck = ascii ''multi_ack''"
| "Capability_display Cap_MultiAckDetailed = ascii ''multi_ack_detailed''"
| "Capability_display Cap_NoDone = ascii ''no-done''"
| "Capability_display Cap_SideBand = ascii ''side-band''"
| "Capability_display Cap_SideBand64k = ascii ''side-band-64k''"
| "Capability_display Cap_ReportStatus = ascii ''report-status''"
| "Capability_display Cap_ReportStatusv2 = ascii ''report-status-v2''"
| "Capability_display Cap_OfsDelta = ascii ''ofs-delta''"
| "Capability_display Cap_DeepenSince = ascii ''deepen-since''"
| "Capability_display Cap_DeepenNot = ascii ''deepen-not''"
| "Capability_display Cap_DeepenRelative = ascii ''deepen-relative''"
| "Capability_display Cap_ThinPack = ascii ''thin-pack''"
| "Capability_display Cap_Shallow = ascii ''shallow''"
| "Capability_display Cap_IncludeTag = ascii ''include-tag''"
| "Capability_display Cap_DeleteRefs = ascii ''delete-refs''"
| "Capability_display Cap_Quiet = ascii ''quiet''"
| "Capability_display Cap_Atomic = ascii ''atomic''"
| "Capability_display Cap_NoThin = ascii ''no-thin''"
| "Capability_display Cap_NoProgress = ascii ''no-progress''"
| "Capability_display Cap_AllowTipSha1InWant = ascii ''allow-tip-sha1-in-want''"
| "Capability_display Cap_AllowReachableSha1InWant = ascii ''allow-reachable-sha1-in-want''"
| "Capability_display (Cap_PushCert v) = ascii ''push-cert='' @ v"
| "Capability_display Cap_PushOptions = ascii ''push-options''"
| "Capability_display (Cap_ObjectFormat v) = ascii ''object-format='' @ v"
| "Capability_display (Cap_SessionId v) = ascii ''session-id='' @ v"
| "Capability_display (Cap_Filter v) = ascii ''filter='' @ v"
| "Capability_display (Cap_Symref v) = ascii ''symref='' @ v"
| "Capability_display (Cap_Agent v) = ascii ''agent='' @ v"
| "Capability_display (Cap_Unknown v) = v"

section \<open>Side bands\<close>

datatype SideBand = SB_PackfileData | SB_ProgressInfo | SB_Error

fun SideBand_value :: "SideBand \<Rightarrow> byte" where
  "SideBand_value SB_PackfileData = 1"
| "SideBand_value SB_ProgressInfo = 2"
| "SideBand_value SB_Error = 3"

section \<open>References\<close>

datatype RefTypeEnum = RT_Branch | RT_Tag

datatype CommandStatus = CS_Pending | CS_Success | CS_Failed

record RefCommand =
  rc_old_hash :: bytes
  rc_new_hash :: bytes
  rc_ref_name :: bytes
  rc_ref_type :: RefTypeEnum
  rc_default_branch :: bool
  rc_status :: CommandStatus
  rc_error_message :: "bytes option"

definition RefCommand_new :: "bytes \<Rightarrow> bytes \<Rightarrow> bytes \<Rightarrow> RefCommand" where
  "RefCommand_new old_hash new_hash ref_name =
     \<lparr>rc_old_hash = old_hash, rc_new_hash = new_hash, rc_ref_name = ref_name,
      rc_ref_type = (if strip_prefix (ascii ''refs/tags/'') ref_name \<noteq> None then RT_Tag else RT_Branch),
      rc_default_branch = False, rc_status = CS_Pending, rc_error_message = None\<rparr>"

definition rc_failed :: "bytes \<Rightarrow> RefCommand \<Rightarrow> RefCommand" where
  "rc_failed err c = c\<lparr>rc_status := CS_Failed, rc_error_message := Some err\<rparr>"

definition rc_success :: "RefCommand \<Rightarrow> RefCommand" where
  "rc_success c = c\<lparr>rc_status := CS_Success, rc_error_message := None\<rparr>"

definition rc_get_status :: "RefCommand \<Rightarrow> bytes" where
  "rc_get_status c =
     (case rc_status c of
        CS_Success \<Rightarrow> ascii ''ok '' @ rc_ref_name c
      | CS_Failed \<Rightarrow>
          ascii ''ng '' @ rc_ref_name c @ ascii '' ''
          @ (case rc_error_message c of Some e \<Rightarrow> e | None \<Rightarrow> ascii ''unknown error'')
      | CS_Pending \<Rightarrow> ascii ''ok '' @ rc_ref_name c)"

section \<open>Constants\<close>

definition LF :: byte where
  "LF = 10"

definition SP :: byte where
  "SP = 32"

definition NUL :: byte where
  "NUL = 0"

definition PKT_LINE_END_MARKER :: bytes where
  "PKT_LINE_END_MARKER = ascii ''0000''"

definition RECEIVE_CAP_LIST :: bytes where
  "RECEIVE_CAP_LIST = ascii ''report-status report-status-v2 delete-refs quiet atomic no-thin ''"

definition COMMON_CAP_LIST :: bytes where
  "COMMON_CAP_LIST = ascii ''side-band-64k ofs-delta agent=git-internal/0.1.0''"

definition UPLOAD_CAP_LIST :: bytes where
  "UPLOAD_CAP_LIST = ascii ''multi_ack_detailed no-done include-tag ''"

section \<open>Properties\<close>

text \<open>Prefixes of literals are those of their characters.\<close>

lemma prefix_ascii: "prefix (ascii p) (ascii s) \<longleftrightarrow> prefix p s"
proof
  assume "prefix (ascii p) (ascii s)"
  then have "prefix (latin (ascii p)) (latin (ascii s))" by (rule map_mono_prefix)
  then show "prefix p s" by (simp only: ascii_simps)
qed (simp add: ascii_def map_mono_prefix)

lemma strip_prefix_ascii: "strip_prefix (ascii p) (ascii s) = (if prefix p s then Some (drop (length p) (ascii s)) else None)"
  by (simp add: strip_prefix_def prefix_ascii)

lemma strip_prefix_ascii_append:
  "strip_prefix (ascii p) (ascii p @ v) = Some v"
  "\<not> prefix p q \<Longrightarrow> \<not> prefix q p \<Longrightarrow> strip_prefix (ascii p) (ascii q @ v) = None"
proof -
  show "strip_prefix (ascii p) (ascii p @ v) = Some v" by (simp add: strip_prefix_def)
  assume "\<not> prefix p q" "\<not> prefix q p"
  moreover have "prefix (ascii p) (ascii q) \<or> prefix (ascii q) (ascii p)" if "prefix (ascii p) (ascii q @ v)"
    using that prefix_same_cases[of "ascii p" "ascii q @ v" "ascii q"] by simp
  ultimately show "strip_prefix (ascii p) (ascii q @ v) = None"
    by (auto simp: strip_prefix_def prefix_ascii)
qed

lemma Capability_display_from_str: "Capability_display (Capability_from_str s) = s"
proof -
  have out: "Capability_display (if b then c else d) = (if b then Capability_display c else Capability_display d)" for b c d
    by simp
  have outs: "Capability_display (case m of None \<Rightarrow> d | Some r \<Rightarrow> f r) = (case m of None \<Rightarrow> Capability_display d | Some r \<Rightarrow> Capability_display (f r))"
    for m d and f :: "bytes \<Rightarrow> Capability" by (cases m) simp_all
  have here: "(case strip_prefix p s of None \<Rightarrow> d | Some r \<Rightarrow> p @ r) = s" if "d = s" for p d
    using that by (cases "strip_prefix p s") (simp_all add: strip_prefix_eq_Some_iff)
  have lit: "(if s = v then v else d) = s" if "d = s" for v d using that by simp
  show ?thesis
    unfolding Capability_from_str_def outs out Capability_display.simps
    by (intro here lit refl)
qed

lemma Capability_from_str_display:
  "Capability_from_str (Capability_display c) = (case c of Cap_Unknown v \<Rightarrow> Capability_from_str v | _ \<Rightarrow> c)"
  by (cases c) (simp_all add: Capability_from_str_def strip_prefix_ascii strip_prefix_ascii_append)

text \<open>C40: Printing a parsed capability gives the text back, so nothing a peer announces is lost; parsing a
  printed capability gives the capability back, except that an unknown one whose text is that of a known
  one becomes the known one.  Service names round-trip, and any other name is refused.\<close>

theorem capability_roundtrip:
  "Capability_display (Capability_from_str s) = s \<and>
   Capability_from_str (Capability_display c) = (case c of Cap_Unknown v \<Rightarrow> Capability_from_str v | _ \<Rightarrow> c) \<and>
   ServiceType_from_str (ServiceType_display t) = Inr t \<and>
   (ServiceType_from_str s = Inr t \<longleftrightarrow> s = ServiceType_display t)"
proof (intro conjI)
  show "ServiceType_from_str (ServiceType_display t) = Inr t" by (cases t) (simp_all add: ServiceType_from_str_def)
  show "ServiceType_from_str s = Inr t \<longleftrightarrow> s = ServiceType_display t"
    by (cases t) (simp_all add: ServiceType_from_str_def)
qed (rule Capability_display_from_str Capability_from_str_display)+

end
