(* ===== verification/Pkt_Line.thy ===== *)
theory Pkt_Line
  imports Protocol_Types Rust_Format
begin

text \<open>
  Packet lines (\<open>src/src/protocol/utils.rs\<close>): reading and writing one line, words inside a line, the
  reply of the reference advertisement, and the search for a subsequence.

  \<^item> A buffer (\<open>Bytes\<close>) is the list of the bytes that remain; a reader returns the rest beside its result.
  \<^item> \<open>pkt_frame\<close> is the codec of one line (an instance of \<open>byte_codec\<close>); \<open>reads_lines\<close> is the sequence of
    calls of \<open>read_pkt_line\<close> that a handler's loop makes.
\<close>

section \<open>Reading and writing lines\<close>

definition read_pkt_line :: "bytes \<Rightarrow> (nat \<times> bytes) \<times> bytes" where
  "read_pkt_line bs =
     (if bs = [] then ((0, []), bs)
      else if length bs < 4 then ((0, []), bs)
      else
        (case from_utf8 (take 4 bs) of
           None \<Rightarrow> ((0, []), bs)
         | Some pkt_length_str \<Rightarrow>
             (case from_str_radix_16 pkt_length_str of
                None \<Rightarrow> ((0, []), bs)
              | Some pkt_length \<Rightarrow>
                  if pkt_length = 0 then ((4, []), drop 4 bs)
                  else if pkt_length < 4 then ((0, []), bs)
                  else if length bs < pkt_length then ((0, []), bs)
                  else ((pkt_length, take (pkt_length - 4) (drop 4 bs)), drop (pkt_length - 4) (drop 4 bs)))))"

definition add_pkt_line_string :: "bytes \<Rightarrow> bytes \<Rightarrow> bytes" where
  "add_pkt_line_string pkt_line_stream buf_str =
     pkt_line_stream @ format_04x (length buf_str + 4) @ buf_str"

text \<open>\<open>u8::is_ascii_whitespace\<close>.\<close>

definition is_ascii_whitespace :: "byte \<Rightarrow> bool" where
  "is_ascii_whitespace b \<longleftrightarrow> b \<in> {9, 10, 12, 13, 32}"

fun until_white_loop :: "bytes \<Rightarrow> bytes \<Rightarrow> bytes \<times> bytes" where
  "until_white_loop buf [] = (buf, [])"
| "until_white_loop buf (c # s) =
     (if is_ascii_whitespace c \<or> c = 0 then (buf, s) else until_white_loop (buf @ [c]) s)"

definition read_until_white_space :: "bytes \<Rightarrow> bytes \<times> bytes" where
  "read_until_white_space bs =
     (let (buf, rest) = until_white_loop [] bs in
      (case from_utf8 buf of Some s \<Rightarrow> s | None \<Rightarrow> [], rest))"

definition build_smart_reply :: "TransportProtocol \<Rightarrow> bytes list \<Rightarrow> bytes \<Rightarrow> bytes" where
  "build_smart_reply transport_protocol ref_list service =
     (let stream = [];
          stream = (if transport_protocol = TP_Http
                    then add_pkt_line_string stream (ascii ''# service='' @ service @ [LF]) @ PKT_LINE_END_MARKER
                    else stream);
          stream = fold (\<lambda>ref_line stream. add_pkt_line_string stream ref_line) ref_list stream in
      stream @ PKT_LINE_END_MARKER)"

text \<open>\<open>windows(n)\<close> panics on a length of zero and is empty on a shorter slice.\<close>

fun window_position :: "nat \<Rightarrow> bytes \<Rightarrow> bytes \<Rightarrow> nat option" where
  "window_position i [] needle = None"
| "window_position i (b # s) needle =
     (if length (b # s) < length needle then None
      else if take (length needle) (b # s) = needle then Some i
      else window_position (Suc i) s needle)"

definition search_subsequence :: "bytes \<Rightarrow> bytes \<Rightarrow> io_error + nat option" where
  "search_subsequence haystack needle =
     (if needle = [] then Inl (Panic ''window size must be non-zero'')
      else Inr (window_position 0 haystack needle))"

section \<open>Facts\<close>

lemma format_04x_digits: "n < 2 ^ 16 \<Longrightarrow> b \<in> set (format_04x n) \<Longrightarrow> unat b < 128"
proof -
  have hex: "b \<in> set (lower_hex m) \<Longrightarrow> unat b < 128" for m
  proof (induction m rule: lower_hex.induct)
    case (1 m)
    have "unat (hex_char d) < 128" if "d < 16" for d using unat_hex_char[OF that] that by simp
    then show ?case using 1 by (subst (asm) (2) lower_hex.simps) (auto split: if_splits)
  qed
  assume "b \<in> set (format_04x n)"
  then show "unat b < 128" using hex by (auto simp: format_04x_def Let_def)
qed

lemma from_utf8_format: "n < 2 ^ 16 \<Longrightarrow> from_utf8 (format_04x n) = Some (format_04x n)"
  using utf8_valid_ascii format_04x_digits by (simp add: from_utf8_def)

text \<open>The codec of one line.\<close>

definition pkt_frame :: "bytes \<Rightarrow> bytes" where
  "pkt_frame data = add_pkt_line_string [] data"

definition pkt_dec :: "bytes \<Rightarrow> unit + bytes \<times> bytes" where
  "pkt_dec s = (let ((n, data), r) = read_pkt_line s in if n = 0 then Inl () else Inr (data, r))"

lemma read_pkt_frame: "length data \<le> 0xFFFB \<Longrightarrow> read_pkt_line (pkt_frame data @ r) = ((length data + 4, data), r)"
proof -
  assume len: "length data \<le> 0xFFFB"
  let ?n = "length data + 4"
  have n: "?n < 2 ^ 16" using len by simp
  have "take 4 (format_04x ?n @ data @ r) = format_04x ?n" "drop 4 (format_04x ?n @ data @ r) = data @ r"
    using length_format_04x[OF n] by simp_all
  moreover have "from_str_radix_16 (format_04x ?n) = Some ?n"
    by (rule from_str_radix_format_04x[OF less_trans[OF n]]) simp
  moreover have "format_04x ?n \<noteq> []" using length_format_04x[OF n] by auto
  ultimately show ?thesis
    using length_format_04x[OF n] from_utf8_format[OF n]
    by (simp add: read_pkt_line_def pkt_frame_def add_pkt_line_string_def del: from_utf8_eq_Some_iff)
qed

interpretation pkt: byte_codec pkt_frame pkt_dec "\<lambda>data. length data \<le> 0xFFFB"
  by unfold_locales (simp add: pkt_dec_def read_pkt_frame)

lemma read_flush: "read_pkt_line (PKT_LINE_END_MARKER @ r) = ((4, []), r)"
proof -
  have "format_04x 0 = PKT_LINE_END_MARKER" unfolding PKT_LINE_END_MARKER_def by code_simp
  then show ?thesis
    using length_format_04x[of 0] from_utf8_format[of 0] from_str_radix_format_04x[of 0]
    by (auto simp: read_pkt_line_def from_utf8_def)
qed

lemma read_pkt_line_exact:
  assumes "read_pkt_line s = ((n, line), r)"
  shows "if n = 0 then line = [] \<and> r = s else r = drop n s \<and> line = drop 4 (take n s) \<and> 4 \<le> n \<and> n \<le> length s"
  using assms unfolding read_pkt_line_def by (auto simp: drop_take split: if_splits option.splits)

lemma read_pkt_line_shorter: "read_pkt_line s = ((n, line), r) \<Longrightarrow> n \<noteq> 0 \<Longrightarrow> length r < length s"
  using read_pkt_line_exact[of s n line r] by auto

lemma append_frames: "fold (\<lambda>l s. add_pkt_line_string s l) ls s = s @ concat (map pkt_frame ls)"
  by (induction ls arbitrary: s) (simp_all add: add_pkt_line_string_def pkt_frame_def)

text \<open>The calls of a loop over the lines; a flush is an empty line.\<close>

inductive reads_lines :: "bytes \<Rightarrow> bytes list \<Rightarrow> bytes \<Rightarrow> bool" where
  reads_none: "reads_lines s [] s"
| reads_line: "read_pkt_line s = ((n, data), r) \<Longrightarrow> n \<noteq> 0 \<Longrightarrow> reads_lines r ls t \<Longrightarrow> reads_lines s (data # ls) t"

lemma reads_lines_append: "reads_lines s ls r \<Longrightarrow> reads_lines r ms t \<Longrightarrow> reads_lines s (ls @ ms) t"
  by (induction rule: reads_lines.induct) (auto intro: reads_line)

lemma reads_frames: "(\<And>l. l \<in> set ls \<Longrightarrow> length l \<le> 0xFFFB) \<Longrightarrow> reads_lines (concat (map pkt_frame ls) @ r) ls r"
  by (induction ls) (auto intro!: reads_none reads_line[OF read_pkt_frame])

lemma reads_flush: "reads_lines (PKT_LINE_END_MARKER @ r) [[]] r"
  by (intro reads_line[OF read_flush] reads_none) simp

section \<open>Properties\<close>

text \<open>C29: Reading a packet line consumes exactly the announced bytes or nothing at all; a written line is
  read back whatever follows it; and the reply of the reference advertisement is read as the service line
  and a flush (over HTTP), the lines of the references in order, and a flush.\<close>

theorem smart_reply_roundtrip:
  assumes "\<And>l. l \<in> set ref_list \<Longrightarrow> length l \<le> 0xFFFB" "length service \<le> 0xFFF0"
  shows "reads_lines (build_smart_reply tp ref_list service @ rest)
      ((if tp = TP_Http then [ascii ''# service='' @ service @ [LF], []] else []) @ ref_list @ [[]]) rest \<and>
    (length data \<le> 0xFFFB \<longrightarrow> read_pkt_line (add_pkt_line_string [] data @ rest) = ((length data + 4, data), rest)) \<and>
    (case read_pkt_line s of ((n, line), r) \<Rightarrow>
       if n = 0 then line = [] \<and> r = s else r = drop n s \<and> line = drop 4 (take n s) \<and> 4 \<le> n \<and> n \<le> length s)"
proof (intro conjI impI)
  let ?svc = "ascii ''# service='' @ service @ [LF]"
  have refs: "reads_lines (concat (map pkt_frame ref_list) @ PKT_LINE_END_MARKER @ rest) (ref_list @ [[]]) rest"
    by (rule reads_lines_append[OF reads_frames reads_flush]) (rule assms(1))
  have svc: "reads_lines (pkt_frame ?svc @ PKT_LINE_END_MARKER @ r) [?svc, []] r" for r
    using reads_lines_append[OF reads_line[OF read_pkt_frame _ reads_none] reads_flush, of ?svc r] assms(2) by simp
  have "build_smart_reply tp ref_list service @ rest =
      (if tp = TP_Http then pkt_frame ?svc @ PKT_LINE_END_MARKER else []) @ concat (map pkt_frame ref_list) @ PKT_LINE_END_MARKER @ rest"
    unfolding build_smart_reply_def Let_def append_frames by (simp add: pkt_frame_def)
  then show "reads_lines (build_smart_reply tp ref_list service @ rest)
      ((if tp = TP_Http then [?svc, []] else []) @ ref_list @ [[]]) rest"
    using refs reads_lines_append[OF svc refs] by simp
  show "read_pkt_line (add_pkt_line_string [] data @ rest) = ((length data + 4, data), rest)" if "length data \<le> 0xFFFB"
    using read_pkt_frame[OF that] by (simp add: pkt_frame_def)
  obtain n line r where rd: "read_pkt_line s = ((n, line), r)" by (metis surj_pair)
  show "case read_pkt_line s of ((n, line), r) \<Rightarrow>
       if n = 0 then line = [] \<and> r = s else r = drop n s \<and> line = drop 4 (take n s) \<and> 4 \<le> n \<and> n \<le> length s"
    using read_pkt_line_exact[OF rd] by (simp add: rd)
qed

theorem smart_reply_roundtrip_witness:
  "reads_lines (build_smart_reply TP_Http [ascii ''a b'', ascii ''c''] (ascii ''git-upload-pack'') @ [7])
     [ascii ''# service='' @ ascii ''git-upload-pack'' @ [LF], [], ascii ''a b'', ascii ''c'', []] [7] \<and>
   read_pkt_line (add_pkt_line_string [] (ascii ''NAK'')) = ((7, ascii ''NAK''), [])"
proof -
  have "length l \<le> 0xFFFB" if "l \<in> set [ascii ''a b'', ascii ''c'']" for l using that by auto
  then show ?thesis using smart_reply_roundtrip[of "[ascii ''a b'', ascii ''c'']" "ascii ''git-upload-pack''" TP_Http "[7]"]
    smart_reply_roundtrip[of "[]" "[]" TP_Ssh "[]" "ascii ''NAK''"] by simp
qed

end
