(* ===== verification/Repo_Access.thy ===== *)
theory Repo_Access
  imports Pkt_Line Commit_Object Tree_Object Pack_Entry
begin

text \<open>
  What the protocol asks of a repository (\<open>RepositoryAccess\<close> in \<open>src/src/protocol/core.rs\<close>).

  \<^item> An implementor is a record of operations on its state \<open>'s\<close>: every awaited call takes the state and
    returns the state after it, so that a repository which changes between two calls (its references, its
    objects, even its reported hash kind) is covered.
  \<^item> \<open>op_then\<close> is the \<open>?\<close> operator on such operations.
  \<^item> The methods with a default body in the trait are fields as well, since an implementor may override
    them; \<open>with_defaults\<close> fills them with the bodies of the trait.
  \<^item> The hex decoder and the GBK decoder of the crates stand beside those of \<open>Crates\<close> in \<open>ProtoCrates\<close>.
\<close>

section \<open>Operations on a repository\<close>

type_synonym ('s, 'a) repo_op = "'s \<Rightarrow> (ProtocolError + 'a) \<times> 's"

definition op_return :: "'a \<Rightarrow> ('s, 'a) repo_op" where
  "op_return x s = (Inr x, s)"

definition op_lift :: "ProtocolError + 'a \<Rightarrow> ('s, 'a) repo_op" where
  "op_lift r s = (r, s)"

definition op_then :: "('s, 'a) repo_op \<Rightarrow> ('a \<Rightarrow> ('s, 'b) repo_op) \<Rightarrow> ('s, 'b) repo_op" where
  "op_then m f s = (case m s of (Inl e, s') \<Rightarrow> (Inl e, s') | (Inr x, s') \<Rightarrow> f x s')"

definition op_map_err :: "(ProtocolError \<Rightarrow> ProtocolError) \<Rightarrow> ('s, 'a) repo_op \<Rightarrow> ('s, 'a) repo_op" where
  "op_map_err g m s = (case m s of (r, s') \<Rightarrow> (map_err g r, s'))"

record 's RepositoryAccess =
  ra_object_hash_kind :: "'s \<Rightarrow> HashKind"
  ra_get_repository_refs :: "('s, (bytes \<times> bytes) list) repo_op"
  ra_has_object :: "bytes \<Rightarrow> ('s, bool) repo_op"
  ra_get_object :: "bytes \<Rightarrow> ('s, bytes) repo_op"
  ra_store_pack_data :: "bytes \<Rightarrow> ('s, unit) repo_op"
  ra_update_reference :: "bytes \<Rightarrow> bytes option \<Rightarrow> bytes \<Rightarrow> ('s, unit) repo_op"
  ra_get_objects_for_pack :: "bytes list \<Rightarrow> bytes list \<Rightarrow> ('s, bytes list) repo_op"
  ra_has_default_branch :: "('s, bool) repo_op"
  ra_post_receive_hook :: "('s, unit) repo_op"
  ra_get_blob :: "bytes \<Rightarrow> ('s, Blob) repo_op"
  ra_get_commit :: "bytes \<Rightarrow> ('s, Commit) repo_op"
  ra_get_tree :: "bytes \<Rightarrow> ('s, Tree) repo_op"
  ra_commit_exists :: "bytes \<Rightarrow> ('s, bool) repo_op"
  ra_handle_pack_objects :: "Commit list \<Rightarrow> Tree list \<Rightarrow> Blob list \<Rightarrow> ('s, unit) repo_op"

record ProtoCrates =
  pc_crates :: Crates
  pc_hex_decode :: "bytes \<Rightarrow> string + bytes"
  pc_gbk :: gbk_decoder

abbreviation pc_hex :: "ProtoCrates \<Rightarrow> bytes \<Rightarrow> bytes" where
  "pc_hex P \<equiv> x_hex (pc_crates P)"

section \<open>The default methods\<close>

text \<open>The common body of \<open>get_blob\<close>, \<open>get_commit\<close> and \<open>get_tree\<close>: the kind is read before the first
  await.\<close>

definition load_object ::
  "ProtoCrates \<Rightarrow> 's RepositoryAccess \<Rightarrow> string \<Rightarrow> (bytes \<Rightarrow> ObjectHash \<Rightarrow> GitError + 'o) \<Rightarrow> bytes \<Rightarrow> ('s, 'o) repo_op" where
  "load_object P R what parse object_hash s =
     (let kind = ra_object_hash_kind R s in
      op_then (op_lift (map_err (\<lambda>e. repository_error (ascii (''Invalid hash format: '' @ HashError_display e)))
          (from_hex_for_kind (pc_hex_decode P) kind object_hash))) (\<lambda>h.
      op_then (ra_get_object R object_hash) (\<lambda>data.
        op_lift (map_err (\<lambda>e. repository_error (ascii (''Failed to parse '' @ what @ '': '' @ GitError_display e)))
          (parse data h)))) s)"

definition default_get_blob :: "ProtoCrates \<Rightarrow> 's RepositoryAccess \<Rightarrow> bytes \<Rightarrow> ('s, Blob) repo_op" where
  "default_get_blob P R object_hash = load_object P R ''blob'' Blob_from_bytes object_hash"

definition default_get_commit :: "ProtoCrates \<Rightarrow> 's RepositoryAccess \<Rightarrow> bytes \<Rightarrow> ('s, Commit) repo_op" where
  "default_get_commit P R commit_hash =
     load_object P R ''commit'' (Commit_from_bytes (pc_hex_decode P)) commit_hash"

definition default_get_tree :: "ProtoCrates \<Rightarrow> 's RepositoryAccess \<Rightarrow> bytes \<Rightarrow> ('s, Tree) repo_op" where
  "default_get_tree P R tree_hash = load_object P R ''tree'' (Tree_from_bytes (pc_gbk P)) tree_hash"

definition default_commit_exists :: "'s RepositoryAccess \<Rightarrow> bytes \<Rightarrow> ('s, bool) repo_op" where
  "default_commit_exists R commit_hash =
     op_then (ra_has_object R commit_hash) (\<lambda>exists_object.
       if \<not> exists_object then op_return False
       else (\<lambda>s. case ra_get_commit R commit_hash s of (r, s') \<Rightarrow> (Inr (is_ok r), s')))"

text \<open>One of the three loops of \<open>handle_pack_objects\<close>.\<close>

fun store_objects ::
  "ProtoCrates \<Rightarrow> 's RepositoryAccess \<Rightarrow> string \<Rightarrow> ('o \<Rightarrow> GitError + bytes) \<Rightarrow> ('o \<Rightarrow> ObjectHash) \<Rightarrow> 'o list \<Rightarrow>
   ('s, unit) repo_op" where
  "store_objects P R what to_data ident [] = op_return ()"
| "store_objects P R what to_data ident (obj # objs) =
     op_then (op_lift (map_err (\<lambda>e. repository_error (ascii (''Failed to serialize '' @ what @ '': '' @ GitError_display e)))
         (to_data obj))) (\<lambda>data.
     op_then (op_map_err (\<lambda>e. repository_error (ascii (''Failed to store '' @ what @ '' '')
           @ hash_to_string (pc_hex P) (ident obj) @ ascii '': '' @ ProtocolError_display e))
         (ra_store_pack_data R data)) (\<lambda>_.
       store_objects P R what to_data ident objs))"

definition default_handle_pack_objects ::
  "ProtoCrates \<Rightarrow> 's RepositoryAccess \<Rightarrow> Commit list \<Rightarrow> Tree list \<Rightarrow> Blob list \<Rightarrow> ('s, unit) repo_op" where
  "default_handle_pack_objects P R commits trees blobs =
     op_then (store_objects P R ''blob'' Blob_to_data blob_id blobs) (\<lambda>_.
     op_then (store_objects P R ''tree'' Tree_to_data tree_id trees) (\<lambda>_.
       store_objects P R ''commit'' (Commit_to_data (pc_hex P)) commit_id commits))"

definition with_defaults :: "ProtoCrates \<Rightarrow> 's RepositoryAccess \<Rightarrow> 's RepositoryAccess" where
  "with_defaults P R =
     (let R = R\<lparr>ra_get_blob := default_get_blob P R, ra_get_commit := default_get_commit P R,
                ra_get_tree := default_get_tree P R, ra_handle_pack_objects := default_handle_pack_objects P R\<rparr> in
      R\<lparr>ra_commit_exists := default_commit_exists R\<rparr>)"

section \<open>Facts\<close>

lemma op_simps [simp]:
  "op_return x s = (Inr x, s)" "op_lift r s = (r, s)"
  "op_then (op_lift (Inl e)) f s = (Inl e, s)" "op_then (op_lift (Inr x)) f s = f x s"
  "op_then (op_return x) f s = f x s"
  by (simp_all add: op_return_def op_lift_def op_then_def)

lemma op_then_eq_Inr_iff:
  "op_then m f s = (Inr y, t) \<longleftrightarrow> (\<exists>x s'. m s = (Inr x, s') \<and> f x s' = (Inr y, t))"
  by (auto simp: op_then_def split: prod.splits sum.splits)

lemma op_map_err_eq_Inr_iff [simp]: "op_map_err g m s = (Inr y, t) \<longleftrightarrow> m s = (Inr y, t)"
  by (auto simp: op_map_err_def map_err_def split: prod.splits sum.splits)

end
