(* ===== verification/Pack_Encoder.thy ===== *)
theory Pack_Encoder
  imports Pack_Encode
begin

text \<open>
  The state of the pack encoder and its two modes (\<open>PackEncoder\<close> in
  \<open>src/src/internal/pack/encode/mod.rs\<close>, \<open>parallel_encode\<close> in \<open>parallel.rs\<close>) and the index file it
  writes afterwards.

  \<^item> \<open>EncodeEnv\<close> holds what the machine decides: the number of Rayon threads and, when \<open>PACK_THREADS\<close>
    is set, why the thread pool could not be built.
  \<^item> \<open>pk_sent\<close> are the chunks the consumer of the pack has received.
  \<^item> An early return gives the error only; the encoder is single-use.
\<close>

section \<open>State\<close>

record PackEncoder =
  pk_object_number :: nat
  pk_process_index :: nat
  pk_window_size :: nat
  pk_pack_sender :: bool
  pk_sent :: "bytes list"
  pk_accepts :: nat
  pk_idx_sender :: "nat option"
  pk_idx_entries :: "IdxEntry list option"
  pk_inner_offset :: nat
  pk_hash_kind :: HashKind
  pk_inner_hash :: HashAlgorithm
  pk_final_hash :: "ObjectHash option"
  pk_start_encoding :: bool
  pk_disable_prefilter :: bool

record EncodeEnv =
  ev_engines :: DeltaEngines
  ev_num_threads :: nat
  ev_pool_error :: "string option"

definition new_with_hash_kind :: "HashKind \<Rightarrow> nat \<Rightarrow> nat \<Rightarrow> nat \<Rightarrow> PackEncoder" where
  "new_with_hash_kind kind object_number window_size accepts =
     \<lparr>pk_object_number = object_number, pk_process_index = 0, pk_window_size = window_size,
      pk_pack_sender = True, pk_sent = [], pk_accepts = accepts, pk_idx_sender = None,
      pk_idx_entries = None, pk_inner_offset = 12, pk_hash_kind = kind,
      pk_inner_hash = new_for_kind kind, pk_final_hash = None, pk_start_encoding = False,
      pk_disable_prefilter = False\<rparr>"

definition new_with_idx_and_hash_kind :: "HashKind \<Rightarrow> nat \<Rightarrow> nat \<Rightarrow> nat \<Rightarrow> nat \<Rightarrow> PackEncoder" where
  "new_with_idx_and_hash_kind kind object_number window_size accepts idx_accepts =
     \<lparr>pk_object_number = object_number, pk_process_index = 0, pk_window_size = window_size,
      pk_pack_sender = True, pk_sent = [], pk_accepts = accepts, pk_idx_sender = Some idx_accepts,
      pk_idx_entries = None, pk_inner_offset = 12, pk_hash_kind = kind,
      pk_inner_hash = new_for_kind kind, pk_final_hash = None, pk_start_encoding = False,
      pk_disable_prefilter = False\<rparr>"

definition check_entry_kind :: "Crates \<Rightarrow> PackEncoder \<Rightarrow> Entry \<Rightarrow> GitError + unit" where
  "check_entry_kind X pk entry =
     map_err (\<lambda>e. GE_PackEncodeError (''entry '' @ latin (hash_to_string (x_hex X) (en_hash entry))
           @ '' cannot be encoded into a '' @ latin (HashKind_as_str (pk_hash_kind pk))
           @ '' pack: '' @ HashError_display e))
       (ensure_kind (en_hash entry) (pk_hash_kind pk))"

definition pack_drop_sender :: "PackEncoder \<Rightarrow> PackEncoder" where
  "pack_drop_sender pk = pk\<lparr>pk_pack_sender := False\<rparr>"

definition pack_send_data :: "bytes \<Rightarrow> PackEncoder \<Rightarrow> GitError + PackEncoder" where
  "pack_send_data data pk =
     (if pk_pack_sender pk then
        if length (pk_sent pk) < pk_accepts pk then Inr (pk\<lparr>pk_sent := pk_sent pk @ [data]\<rparr>)
        else Inl (git_panic ''called `Result::unwrap()` on an `Err` value: SendError'')
      else Inr pk)"

definition write_owned_and_update :: "bytes \<Rightarrow> PackEncoder \<Rightarrow> GitError + PackEncoder" where
  "write_owned_and_update data pk =
     pack_send_data data
       (pk\<lparr>pk_inner_hash := hasher_update data (pk_inner_hash pk),
           pk_inner_offset := pk_inner_offset pk + length data\<rparr>)"

text \<open>The loop that gives each encoded entry its offset and its CRC and sends it.\<close>

fun write_entries ::
  "Crates \<Rightarrow> (bytes \<times> IdxEntry) list \<Rightarrow> IdxEntry list \<Rightarrow> PackEncoder \<Rightarrow> GitError + IdxEntry list \<times> PackEncoder" where
  "write_entries X [] ies pk = Inr (ies, pk)"
| "write_entries X ((encoded_bytes, idx_entry) # rest) ies pk =
     (let idx_entry = idx_entry\<lparr>IdxEntry.ie_offset := pk_inner_offset pk, ie_crc32 := x_crc X encoded_bytes\<rparr> in
      and_then (write_owned_and_update encoded_bytes pk) (write_entries X rest (ies @ [idx_entry])))"

definition send_trailer :: "Crates \<Rightarrow> PackEncoder \<Rightarrow> GitError + PackEncoder" where
  "send_trailer X pk =
     (let final_hash = finalize_object_hash (x_digest X) (pk_inner_hash pk);
          pk = pk\<lparr>pk_final_hash := Some final_hash\<rparr> in
      and_then (pack_send_data (as_ref final_hash) pk) (\<lambda>pk. Inr (pack_drop_sender pk)))"

section \<open>The delta path (\<open>inner_encode\<close>)\<close>

record TypeBuckets =
  tb_commits :: "MetaAttached list"
  tb_trees :: "MetaAttached list"
  tb_blobs :: "MetaAttached list"
  tb_tags :: "MetaAttached list"

fun collect_by_type ::
  "Crates \<Rightarrow> PackEncoder \<Rightarrow> MetaAttached list \<Rightarrow> TypeBuckets \<Rightarrow> GitError + TypeBuckets" where
  "collect_by_type X pk [] tb = Inr tb"
| "collect_by_type X pk (entry # entry_rx) tb =
     and_then (check_entry_kind X pk (ma_inner entry)) (\<lambda>_.
       case en_obj_type (ma_inner entry) of
         OT_Commit \<Rightarrow> collect_by_type X pk entry_rx (tb\<lparr>tb_commits := tb_commits tb @ [entry]\<rparr>)
       | OT_Tree \<Rightarrow> collect_by_type X pk entry_rx (tb\<lparr>tb_trees := tb_trees tb @ [entry]\<rparr>)
       | OT_Blob \<Rightarrow> collect_by_type X pk entry_rx (tb\<lparr>tb_blobs := tb_blobs tb @ [entry]\<rparr>)
       | OT_Tag \<Rightarrow> collect_by_type X pk entry_rx (tb\<lparr>tb_tags := tb_tags tb @ [entry]\<rparr>)
       | t \<Rightarrow> Inl (GE_PackEncodeError (''object type `'' @ ObjectType_display t
                @ ''` is not supported by delta-window pack encoding'')))"

definition sorted_entries :: "MetaAttached list \<Rightarrow> Entry list" where
  "sorted_entries es = map ma_inner (sort_by magic_sort es)"

definition div_ceil :: "nat \<Rightarrow> nat \<Rightarrow> nat" where
  "div_ceil a b = (if a mod b > 0 then a div b + 1 else a div b)"

text \<open>How many blob chunks there are and how many entries each takes.\<close>

definition blob_chunk_layout :: "nat \<Rightarrow> nat \<Rightarrow> nat \<Rightarrow> nat \<times> nat" where
  "blob_chunk_layout num_threads window_size total_blob_entries =
     (let chunks_per_thread = 20;
          blob_chunk_count = (if num_threads > 1 \<and> total_blob_entries > num_threads * 20
                              then num_threads * chunks_per_thread else 1);
          entries_per_chunk = div_ceil total_blob_entries blob_chunk_count;
          min_entries_per_chunk = max (window_size * 10) 50 in
      if entries_per_chunk < min_entries_per_chunk then
        let blob_chunk_count = max (total_blob_entries div min_entries_per_chunk) 1 in
        (blob_chunk_count, div_ceil total_blob_entries blob_chunk_count)
      else (blob_chunk_count, entries_per_chunk))"

fun split_chunks :: "nat \<Rightarrow> nat \<Rightarrow> Entry list \<Rightarrow> Entry list list" where
  "split_chunks 0 entries_per_chunk blob_entries = []"
| "split_chunks (Suc n) entries_per_chunk blob_entries =
     (let taken = min entries_per_chunk (length blob_entries);
          cut = length blob_entries - taken in
      if taken = 0 then []
      else drop cut blob_entries # split_chunks n entries_per_chunk (take cut blob_entries))"

definition work_items :: "nat \<Rightarrow> nat \<Rightarrow> TypeBuckets \<Rightarrow> Entry list list" where
  "work_items num_threads window_size tb =
     (let blob_entries = sorted_entries (tb_blobs tb);
          (count, per_chunk) = blob_chunk_layout num_threads window_size (length blob_entries);
          blob_chunks = rev (split_chunks count per_chunk blob_entries) in
      [sorted_entries (tb_commits tb), sorted_entries (tb_trees tb)] @ blob_chunks
      @ [sorted_entries (tb_tags tb)])"

fun panic_message :: "GitError \<Rightarrow> string option" where
  "panic_message (GE_IOError (Panic m)) = Some m"
| "panic_message e = None"

fun first_panic :: "(GitError + 'a) list \<Rightarrow> string option" where
  "first_panic [] = None"
| "first_panic (Inr _ # rs) = first_panic rs"
| "first_panic (Inl e # rs) = (case panic_message e of Some m \<Rightarrow> Some m | None \<Rightarrow> first_panic rs)"

fun collect_results :: "(GitError + 'a) list \<Rightarrow> GitError + 'a list" where
  "collect_results [] = Inr []"
| "collect_results (r # rs) = and_then r (\<lambda>x. and_then (collect_results rs) (\<lambda>xs. Inr (x # xs)))"

text \<open>All searches run before any result is looked at; a panic in one of them is reported by the join.\<close>

definition join_results :: "(GitError + 'a) option list \<Rightarrow> (GitError + 'a list) option" where
  "join_results rs =
     (if None \<in> set rs then None
      else
        let rs = map the rs in
        case first_panic rs of
          Some m \<Rightarrow> Some (Inl (GE_PackEncodeError (''delta search task panicked: '' @ m)))
        | None \<Rightarrow> Some (collect_results rs))"

definition run_delta_search ::
  "Crates \<Rightarrow> EncodeEnv \<Rightarrow> bool \<Rightarrow> bool \<Rightarrow> bool \<Rightarrow> Entry list list \<Rightarrow>
   (GitError + (bytes \<times> IdxEntry) list list) option" where
  "run_delta_search X ev ez er dp items =
     (case ev_pool_error ev of
        Some e \<Rightarrow> Some (Inl (GE_PackEncodeError (''failed to build Rayon thread pool: '' @ e)))
      | None \<Rightarrow> join_results (map (\<lambda>item. try_as_offset_delta X (ev_engines ev) item 10 ez er dp) items))"

definition in_progress :: GitError where
  "in_progress = GE_PackEncodeError ''encoding operation is already in progress''"

definition inner_encode ::
  "Crates \<Rightarrow> EncodeEnv \<Rightarrow> MetaAttached list \<Rightarrow> bool \<Rightarrow> bool \<Rightarrow> bool \<Rightarrow> PackEncoder \<Rightarrow>
   (GitError + PackEncoder) option" where
  "inner_encode X ev entry_rx enable_zstdelta enable_rabin disable_prefilter pk =
     run_then (Some (encode_header (pk_object_number pk))) (\<lambda>head.
     run_then (Some (pack_send_data head pk)) (\<lambda>pk.
     let pk = pk\<lparr>pk_inner_hash := hasher_update head (pk_inner_hash pk)\<rparr> in
     if pk_start_encoding pk then Some (Inl in_progress)
     else
       run_then (Some (collect_by_type X pk entry_rx
           \<lparr>tb_commits = [], tb_trees = [], tb_blobs = [], tb_tags = []\<rparr>)) (\<lambda>tb.
       run_then (run_delta_search X ev enable_zstdelta enable_rabin disable_prefilter
           (work_items (ev_num_threads ev) (pk_window_size pk) tb)) (\<lambda>all_res.
       run_then (Some (write_entries X (concat all_res) [] pk)) (\<lambda>(ies, pk).
         Some (send_trailer X (pk\<lparr>pk_idx_entries := Some ies\<rparr>)))))))"

section \<open>The path without deltas (\<open>parallel_encode\<close>)\<close>

fun receive_batch ::
  "Crates \<Rightarrow> nat \<Rightarrow> MetaAttached list \<Rightarrow> Entry list \<Rightarrow> PackEncoder \<Rightarrow>
   GitError + Entry list \<times> MetaAttached list \<times> PackEncoder" where
  "receive_batch X 0 entry_rx batch pk = Inr (batch, entry_rx, pk)"
| "receive_batch X (Suc n) [] batch pk = Inr (batch, [], pk)"
| "receive_batch X (Suc n) (entry # entry_rx) batch pk =
     (if is_ai_object (en_obj_type (ma_inner entry))
      then Inl (GE_PackEncodeError (''AI object type `'' @ ObjectType_display (en_obj_type (ma_inner entry))
                  @ ''` cannot be encoded in a pack file''))
      else
        and_then (check_entry_kind X pk (ma_inner entry)) (\<lambda>_.
          receive_batch X n entry_rx (batch @ [ma_inner entry])
            (pk\<lparr>pk_process_index := pk_process_index pk + 1\<rparr>)))"

lemma receive_batch_rest:
  "receive_batch X n rx b pk = Inr (batch, rest, pk') \<Longrightarrow>
   length b + length rx = length batch + length rest"
  by (induction X n rx b pk rule: receive_batch.induct) (auto simp: and_then_eq_Inr_iff split: if_splits)

lemma receive_batch_less:
  assumes "receive_batch X n rx [] pk = Inr (batch, rest, pk')" "batch \<noteq> []"
  shows "length rest < length rx"
  using receive_batch_rest[OF assms(1)] assms(2) by (cases batch) auto

definition encode_batch :: "Crates \<Rightarrow> Entry list \<Rightarrow> GitError + (bytes \<times> IdxEntry) list" where
  "encode_batch X batch =
     (let results = map (\<lambda>entry. and_then (encode_one_object X entry None) (\<lambda>encoded.
            Inr (encoded, IndexEntry_new X entry 0))) batch in
      case first_panic results of
        Some m \<Rightarrow> Inl (git_panic m)
      | None \<Rightarrow> collect_results results)"

function batch_loop ::
  "Crates \<Rightarrow> nat \<Rightarrow> MetaAttached list \<Rightarrow> IdxEntry list \<Rightarrow> PackEncoder \<Rightarrow> GitError + IdxEntry list \<times> PackEncoder" where
  "batch_loop X batch_size entry_rx ies pk =
     and_then (receive_batch X batch_size entry_rx [] pk) (\<lambda>(batch, entry_rx, pk).
     if batch = [] then Inr (ies, pk)
     else
       and_then (encode_batch X batch) (\<lambda>batch_result.
       and_then (write_entries X batch_result ies pk) (\<lambda>(ies, pk).
         batch_loop X batch_size entry_rx ies pk)))"
  by pat_completeness auto
termination
  by (relation "measure (\<lambda>(_, _, rx, _). length rx)") (auto intro: receive_batch_less)

declare batch_loop.simps [simp del]

definition parallel_encode ::
  "Crates \<Rightarrow> nat \<Rightarrow> MetaAttached list \<Rightarrow> PackEncoder \<Rightarrow> GitError + PackEncoder" where
  "parallel_encode X max_capacity entry_rx pk =
     (if pk_window_size pk \<noteq> 0
      then Inl (GE_PackEncodeError ''parallel encode only works when window_size == 0'')
      else
        and_then (encode_header (pk_object_number pk)) (\<lambda>head.
        and_then (pack_send_data head (pk\<lparr>pk_inner_hash := hasher_update head (pk_inner_hash pk)\<rparr>)) (\<lambda>pk.
        if pk_start_encoding pk then Inl in_progress
        else
          let batch_size = max 1000 (max_capacity div 10) in
          and_then (batch_loop X batch_size entry_rx [] pk) (\<lambda>(ies, pk).
          if pk_process_index pk \<noteq> pk_object_number pk
          then Inl (git_panic (''not all objects are encoded, process:'' @ decimal_string (pk_process_index pk)
                 @ '', total:'' @ decimal_string (pk_object_number pk)))
          else
            and_then (send_trailer X pk) (\<lambda>pk. Inr (pk\<lparr>pk_idx_entries := Some ies\<rparr>))))))"

section \<open>Entry points\<close>

definition pack_encode ::
  "Crates \<Rightarrow> EncodeEnv \<Rightarrow> nat \<Rightarrow> MetaAttached list \<Rightarrow> PackEncoder \<Rightarrow> (GitError + PackEncoder) option" where
  "pack_encode X ev max_capacity entry_rx pk =
     (if pk_window_size pk = 0 then Some (parallel_encode X max_capacity entry_rx pk)
      else inner_encode X ev entry_rx False True True pk)"

definition encode_with_zstdelta ::
  "Crates \<Rightarrow> EncodeEnv \<Rightarrow> MetaAttached list \<Rightarrow> PackEncoder \<Rightarrow> (GitError + PackEncoder) option" where
  "encode_with_zstdelta X ev entry_rx pk =
     inner_encode X ev entry_rx True False (pk_disable_prefilter pk) pk"

text \<open>\<open>generate_idx_file\<close> and \<open>encode_idx_file\<close>: the messages of the index file and the encoder
  without its index sender.\<close>

definition generate_idx_file :: "Crates \<Rightarrow> PackEncoder \<Rightarrow> GitError + bytes list" where
  "generate_idx_file X pk =
     and_then (ok_or (GE_PackEncodeError (''final_hash is missing,The pack file must be generated before ''
           @ ''the index file is produced.'')) (pk_final_hash pk)) (\<lambda>final_hash.
     and_then (ok_or (GE_PackEncodeError (''The pack file must be generated before the index file ''
           @ ''is produced.'')) (pk_idx_entries pk)) (\<lambda>ies.
     and_then (ok_or (git_panic ''called `Option::unwrap()` on a `None` value'') (pk_idx_sender pk)) (\<lambda>accepts.
     and_then (write_idx (x_digest X) ies (IdxBuilder_new (pk_object_number pk) accepts final_hash))
       (\<lambda>(msgs, _). Inr msgs))))"

definition encode_idx_file :: "Crates \<Rightarrow> PackEncoder \<Rightarrow> GitError + bytes list \<times> PackEncoder" where
  "encode_idx_file X pk =
     (case pk_idx_sender pk of
        None \<Rightarrow> Inl (GE_PackEncodeError ''idx sender is none'')
      | Some _ \<Rightarrow>
          and_then (generate_idx_file X pk) (\<lambda>msgs. Inr (msgs, pk\<lparr>pk_idx_sender := None\<rparr>)))"

end
