(* ===== verification/Pack_Search_Proofs.thy ===== *)
theory Pack_Search_Proofs
  imports Pack_Encode Pack_Entry_Proofs "HOL-Library.Multiset"
begin

text \<open>
  The delta search of the pack encoder: what a window entry is, that scoring the candidates neither
  fails nor changes them, and what is known of the base it chooses.
\<close>

section \<open>Sorting only permutes\<close>

lemma mset_insert_by [simp]: "mset (insert_by c x xs) = add_mset x (mset xs)"
  by (induction xs) auto

lemma mset_sort_by [simp]: "mset (sort_by c xs) = mset xs"
proof -
  have "mset (foldr (insert_by c) xs []) = mset xs" by (induction xs) simp_all
  then show ?thesis by (simp add: sort_by_def)
qed

section \<open>Window entries\<close>

text \<open>The lazily built parts of a window entry belong to its data.\<close>

definition window_entry_ok :: "DeltaWindowEntry \<Rightarrow> bool" where
  "window_entry_ok w \<longleftrightarrow>
     (\<forall>arc. dw_data_arc w = Some arc \<longrightarrow> arc = en_data (dw_entry w)) \<and>
     (\<forall>ix. dw_rabin_index w = Some ix \<longrightarrow> wf_index ix \<and> source ix = en_data (dw_entry w))"

definition same_base :: "DeltaWindowEntry \<Rightarrow> DeltaWindowEntry \<Rightarrow> bool" where
  "same_base v w \<longleftrightarrow> dw_entry v = dw_entry w \<and> dw_offset v = dw_offset w"

lemma window_entry_ok_new [simp]: "window_entry_ok (DeltaWindowEntry_new e off)"
  by (simp add: window_entry_ok_def DeltaWindowEntry_new_def)

lemma build_index_ok:
  assumes "window_entry_ok w" "length (en_data (dw_entry w)) < 2 ^ 32"
  obtains w' where "build_index w = Inr w'" "window_entry_ok w'" "same_base w' w"
proof (cases "dw_rabin_index w")
  case None
  let ?d = "en_data (dw_entry w)"
  obtain r where r: "create_delta_index ?d = Inr r" using create_delta_index_total[OF assms(2)] by blast
  have arc: "(case dw_data_arc w of Some arc \<Rightarrow> arc | None \<Rightarrow> ?d) = ?d"
    using assms(1) by (auto simp: window_entry_ok_def split: option.splits)
  show ?thesis
  proof (rule that)
    show "build_index w = Inr (w\<lparr>dw_data_arc := Some ?d, dw_rabin_index := r\<rparr>)"
      using None r arc by (simp add: build_index_def)
    show "window_entry_ok (w\<lparr>dw_data_arc := Some ?d, dw_rabin_index := r\<rparr>)"
      using create_delta_index_wf[of ?d] r assms(2) by (auto simp: window_entry_ok_def)
  qed (simp add: same_base_def)
next
  case (Some ix)
  then show ?thesis using assms(1) by (intro that[of w]) (simp_all add: build_index_def same_base_def)
qed

section \<open>Scoring\<close>

text \<open>A window entry that beats the bound: its index yields a delta of the target below \<open>limit\<close>.\<close>

definition good_base :: "bytes \<Rightarrow> nat \<Rightarrow> DeltaWindowEntry \<Rightarrow> bool" where
  "good_base target limit w \<longleftrightarrow>
     (\<exists>ix d. dw_rabin_index w = Some ix \<and> create_delta ix target None = Some (Inr (Some d)) \<and>
        delta_of (en_data (dw_entry w)) target d \<and> length d < limit)"

definition search_inv :: "Entry \<Rightarrow> nat \<Rightarrow> nat list \<Rightarrow> DeltaWindowEntry list \<Rightarrow> DeltaSearch \<Rightarrow> bool" where
  "search_inv entry limit idxs window st \<longleftrightarrow>
     list_all2 same_base (sr_window st) window \<and> list_all window_entry_ok (sr_window st) \<and>
     sr_best_delta_size st \<le> limit \<and>
     (case sr_best_idx st of
        None \<Rightarrow> sr_best_rate st = 0
      | Some i \<Rightarrow> i \<in> set idxs \<and> i < length window \<and> good_base (en_data entry) limit (sr_window st ! i) \<and>
          sr_best_rate st = 1 - of_nat (sr_best_delta_size st) / of_nat (length (en_data entry)))"

lemma scored_delta:
  assumes "wf_index ix" "source ix = src" "length src < 2 ^ 32" "target \<noteq> []"
  shows "\<exists>r. encode_rabin_with_index_and_max_size ix target m = Some (Inr r) \<and>
    (\<forall>d. r = Some d \<longrightarrow> create_delta ix target None = Some (Inr (Some d)) \<and> delta_of src target d)"
proof -
  obtain out where "create_delta ix target None = Some (Inr (Some out))" "delta_of src target out"
    "create_delta ix target (Some m) \<in> {Some (Inr None), Some (Inr (Some out))}"
    using create_delta_ok[of ix target] assms by blast
  then show ?thesis
    using assms(4) by (auto simp: encode_rabin_with_index_and_max_size_def)
qed

lemma search_inv_update:
  assumes inv: "search_inv entry limit idxs window st" and i: "i < length window"
    and w: "window_entry_ok w" "same_base w (sr_window st ! i)"
      "dw_rabin_index (sr_window st ! i) \<noteq> None \<longrightarrow> w = sr_window st ! i"
  shows "search_inv entry limit idxs window (st\<lparr>sr_window := (sr_window st)[i := w]\<rparr>)"
proof -
  have len: "length (sr_window st) = length window" using inv by (auto simp: search_inv_def list_all2_lengthD)
  have "same_base w (window ! i)"
    using inv w(2) i len by (auto simp: search_inv_def same_base_def list_all2_conv_all_nth)
  moreover have "good_base t l w" if "good_base t l (sr_window st ! i)" for t l
    using that w(3) by (auto simp: good_base_def)
  moreover have "list_all window_entry_ok ((sr_window st)[i := w])"
    using inv w(1) set_update_subset_insert[of "sr_window st" i w] by (auto simp: search_inv_def list_all_iff)
  ultimately show ?thesis
    using inv i len unfolding search_inv_def
    by (auto simp: list_all2_conv_all_nth nth_list_update split: option.splits if_splits)
qed

lemma consider_delta_inv:
  assumes inv: "search_inv entry limit idxs window st" and i: "i \<in> set idxs" "i < length window"
    and ix: "dw_rabin_index (sr_window st ! i) = Some ix"
    and d: "\<And>d. delta = Some d \<Longrightarrow> create_delta ix (en_data entry) None = Some (Inr (Some d)) \<and>
      delta_of (en_data (dw_entry (sr_window st ! i))) (en_data entry) d"
  shows "search_inv entry limit idxs window (consider_delta entry i delta st)"
proof (cases delta)
  case (Some x)
  then show ?thesis
    using inv i ix d[of x] by (auto simp: consider_delta_def search_inv_def Let_def good_base_def)
qed (use inv in \<open>simp add: consider_delta_def\<close>)

lemma score_loop_ok:
  assumes "\<And>w. w \<in> set window \<Longrightarrow> length (en_data (dw_entry w)) < 2 ^ 32" "en_data entry \<noteq> []"
    "\<And>i. i \<in> set all_idxs \<Longrightarrow> i < length window"
  shows "set idxs \<subseteq> set all_idxs \<Longrightarrow> search_inv entry limit all_idxs window st \<Longrightarrow>
    \<exists>st'. score_loop entry idxs st = Some (Inr st') \<and> search_inv entry limit all_idxs window st'"
proof (induction idxs arbitrary: st)
  case (Cons i idxs)
  let ?w = "sr_window st ! i"
  have i: "i \<in> set all_idxs" "i < length window" using Cons.prems(1) assms(3) by auto
  have len: "length (sr_window st) = length window"
    and ok: "window_entry_ok ?w" and same: "same_base ?w (window ! i)"
    using Cons.prems(2) i by (auto simp: search_inv_def list_all2_conv_all_nth list_all_length)
  have small: "length (en_data (dw_entry ?w)) < 2 ^ 32"
    using assms(1)[of "window ! i"] i same by (simp add: same_base_def)
  obtain w where w: "build_index ?w = Inr w" "window_entry_ok w" "same_base w ?w"
    by (rule build_index_ok[OF ok small])
  define st1 where "st1 = st\<lparr>sr_window := (sr_window st)[i := w]\<rparr>"
  have "dw_rabin_index ?w \<noteq> None \<longrightarrow> w = ?w" using w(1) by (auto simp: build_index_def)
  then have inv1: "search_inv entry limit all_idxs window st1"
    unfolding st1_def by (intro search_inv_update Cons.prems(2) i(2) w(2,3)) 
  show ?case
  proof (cases "dw_rabin_index w")
    case None
    then show ?thesis
      using Cons.IH[OF _ inv1] Cons.prems(1) w(1) by (simp add: st1_def)
  next
    case (Some ix)
    have src: "wf_index ix" "source ix = en_data (dw_entry ?w)"
      using w(2,3) Some by (auto simp: window_entry_ok_def same_base_def)
    obtain r where r: "encode_rabin_with_index_and_max_size ix (en_data entry) (sr_best_delta_size st) = Some (Inr r)"
      "\<And>d. r = Some d \<Longrightarrow> create_delta ix (en_data entry) None = Some (Inr (Some d)) \<and>
         delta_of (en_data (dw_entry ?w)) (en_data entry) d"
      using scored_delta[OF src small assms(2), of "sr_best_delta_size st"] by blast
    have at: "sr_window st1 ! i = w" using i(2) len by (simp add: st1_def)
    have "search_inv entry limit all_idxs window (consider_delta entry i r st1)"
      using w(3) at r(2) Some by (intro consider_delta_inv[OF inv1 i, of ix]) (auto simp: same_base_def)
    from Cons.IH[OF _ this] show ?thesis
      using Cons.prems(1) w(1) Some r(1) by (simp add: st1_def)
  qed
qed simp

text \<open>The bound is less than half of the target, so the base with the best delta always passes the
  rate test.\<close>

lemma good_rate:
  fixes d t :: nat
  assumes "d < t - (t div 2 + 20)"
  shows "\<not> 1 - rat_of_nat d / rat_of_nat t < MIN_DELTA_RATE" "2 * d < t"
proof -
  show lt: "2 * d < t" using assms by linarith
  then have "rat_of_nat (2 * d) \<le> rat_of_nat t" using of_nat_mono less_imp_le by blast
  then show "\<not> 1 - rat_of_nat d / rat_of_nat t < MIN_DELTA_RATE"
    using lt by (simp add: MIN_DELTA_RATE_def field_simps)
qed

lemma same_base_candidate: "same_base v w \<Longrightarrow> is_candidate E dp entry v = is_candidate E dp entry w"
  by (simp add: same_base_def is_candidate_def Let_def)

lemma pre_filtered_iff:
  "i \<in> set (pre_filtered_idxs E dp entry window) \<longleftrightarrow> i < length window \<and> is_candidate E dp entry (window ! i)"
  by (auto simp: pre_filtered_idxs_def)

lemma candidate_nonempty: "is_candidate E dp entry w \<Longrightarrow> en_data entry \<noteq> []"
  by (auto simp: is_candidate_def Let_def)

lemma search_base_ok:
  fixes entry :: Entry
  assumes ok: "list_all window_entry_ok window"
    and small: "\<And>w. w \<in> set window \<Longrightarrow> length (en_data (dw_entry w)) < 2 ^ 32"
  defines "limit \<equiv> length (en_data entry) - (length (en_data entry) div 2 + 20)"
  shows "\<exists>st. search_base E dp entry window = Some (Inr st) \<and>
    list_all2 same_base (sr_window st) window \<and> list_all window_entry_ok (sr_window st) \<and>
    (\<forall>w. best_base st = Some w \<longrightarrow> (\<exists>i < length window. w = sr_window st ! i \<and>
       is_candidate E dp entry (window ! i) \<and> good_base (en_data entry) limit w))"
proof -
  define idxs where "idxs = pre_filtered_idxs E dp entry window"
  define st0 where "st0 = \<lparr>sr_window = window, sr_best_delta_size = limit, sr_best_rate = 0, sr_best_idx = None\<rparr>"
  have inv0: "search_inv entry limit idxs window st0"
    using ok by (auto simp: search_inv_def st0_def same_base_def list_all2_conv_all_nth)
  have "\<exists>st. search_base E dp entry window = Some (Inr st) \<and> search_inv entry limit idxs window st"
  proof (cases "idxs = []")
    case True
    then show ?thesis using inv0 by (simp add: search_base_def Let_def idxs_def limit_def st0_def)
  next
    case False
    then have "en_data entry \<noteq> []"
      using candidate_nonempty pre_filtered_iff[of "hd idxs"] by (metis idxs_def list.set_sel(1))
    then have "\<exists>st. score_loop entry idxs st0 = Some (Inr st) \<and> search_inv entry limit idxs window st"
      using small inv0 by (intro score_loop_ok) (auto simp: idxs_def pre_filtered_iff)
    then show ?thesis using False by (simp add: search_base_def Let_def idxs_def limit_def st0_def)
  qed
  then obtain st where st: "search_base E dp entry window = Some (Inr st)"
    and inv: "search_inv entry limit idxs window st" by blast
  show ?thesis
  proof (intro exI[of _ st] conjI allI impI)
    fix w assume "best_base st = Some w"
    then show "\<exists>i < length window. w = sr_window st ! i \<and> is_candidate E dp entry (window ! i) \<and>
        good_base (en_data entry) limit w"
      using inv by (auto simp: best_base_def search_inv_def idxs_def pre_filtered_iff split: if_splits)
  qed (use st inv in \<open>auto simp: search_inv_def\<close>)
qed

section \<open>The layout of a bucket\<close>

text \<open>Where item \<open>i\<close> starts, relative to the start of the bucket.\<close>

definition position :: "(bytes \<times> IdxEntry) list \<Rightarrow> nat \<Rightarrow> nat" where
  "position res i = sum_list (map (length \<circ> fst) (take i res))"

text \<open>How item \<open>i\<close> was written: whole, or as a delta against item \<open>j\<close> of the window before it.\<close>

definition whole_item :: "Crates \<Rightarrow> Entry list \<Rightarrow> (bytes \<times> IdxEntry) list \<Rightarrow> nat \<Rightarrow> bool" where
  "whole_item X bucket res i \<longleftrightarrow> encode_one_object X (bucket ! i) None = Inr (fst (res ! i))"

definition delta_item ::
  "Crates \<Rightarrow> nat \<Rightarrow> Entry list \<Rightarrow> (bytes \<times> IdxEntry) list \<Rightarrow> nat list \<Rightarrow> nat \<Rightarrow> nat \<Rightarrow> bool" where
  "delta_item X n bucket res depths j i \<longleftrightarrow>
     j < i \<and> i \<le> j + n \<and> en_obj_type (bucket ! j) = en_obj_type (bucket ! i) \<and>
     depths ! i = Suc (depths ! j) \<and> depths ! i \<le> MAX_CHAIN_LEN \<and>
     (\<exists>delta. delta_of (en_data (bucket ! j)) (en_data (bucket ! i)) delta \<and>
        2 * length delta < length (en_data (bucket ! i)) \<and>
        encode_one_object X ((bucket ! i)\<lparr>en_obj_type := OT_OffsetDelta, en_data := delta,
            en_chain_len := depths ! i\<rparr>) (Some (position res i - position res j)) = Inr (fst (res ! i)))"

definition laid_out ::
  "Crates \<Rightarrow> nat \<Rightarrow> Entry list \<Rightarrow> (bytes \<times> IdxEntry) list \<Rightarrow> nat option list \<Rightarrow> nat list \<Rightarrow> bool" where
  "laid_out X n bucket res bases depths \<longleftrightarrow>
     length res = length bucket \<and> length bases = length bucket \<and> length depths = length bucket \<and>
     (\<forall>i < length bucket. IdxEntry.ie_hash (snd (res ! i)) = en_hash (bucket ! i) \<and>
        (case bases ! i of
           None \<Rightarrow> whole_item X bucket res i \<and> depths ! i = 0
         | Some j \<Rightarrow> delta_item X n bucket res depths j i))"

lemma position_append [simp]: "i \<le> length res \<Longrightarrow> position (res @ later) i = position res i"
  by (simp add: position_def)

lemma laid_out_Nil [simp]: "laid_out X n [] [] [] []"
  by (simp add: laid_out_def)

lemma laid_out_snoc:
  assumes "laid_out X n bucket res bases depths"
    and "IdxEntry.ie_hash (snd r) = en_hash e"
    and "case b of None \<Rightarrow> whole_item X (bucket @ [e]) (res @ [r]) (length bucket) \<and> d = 0
      | Some j \<Rightarrow> delta_item X n (bucket @ [e]) (res @ [r]) (depths @ [d]) j (length bucket)"
  shows "laid_out X n (bucket @ [e]) (res @ [r]) (bases @ [b]) (depths @ [d])"
  unfolding laid_out_def
proof (intro conjI allI impI)
  have len: "length res = length bucket" "length bases = length bucket" "length depths = length bucket"
    using assms(1) by (auto simp: laid_out_def)
  then show "length (res @ [r]) = length (bucket @ [e])" "length (bases @ [b]) = length (bucket @ [e])"
    "length (depths @ [d]) = length (bucket @ [e])" by simp_all
  fix i assume "i < length (bucket @ [e])"
  then consider "i < length bucket" | "i = length bucket" by fastforce
  then have "IdxEntry.ie_hash (snd ((res @ [r]) ! i)) = en_hash ((bucket @ [e]) ! i) \<and>
     (case (bases @ [b]) ! i of None \<Rightarrow> whole_item X (bucket @ [e]) (res @ [r]) i \<and> (depths @ [d]) ! i = 0
      | Some j \<Rightarrow> delta_item X n (bucket @ [e]) (res @ [r]) (depths @ [d]) j i)"
  proof cases
    case 1
    then show ?thesis
      using assms(1) len
      by (auto simp: laid_out_def nth_append whole_item_def delta_item_def split: option.splits)
  next
    case 2
    then show ?thesis using assms(2,3) len by (auto simp: nth_append split: option.splits)
  qed
  then show "IdxEntry.ie_hash (snd ((res @ [r]) ! i)) = en_hash ((bucket @ [e]) ! i)"
    "case (bases @ [b]) ! i of None \<Rightarrow> whole_item X (bucket @ [e]) (res @ [r]) i \<and> (depths @ [d]) ! i = 0
      | Some j \<Rightarrow> delta_item X n (bucket @ [e]) (res @ [r]) (depths @ [d]) j i" by auto
qed

section \<open>The loop over a bucket\<close>

text \<open>The window holds the last entries written, with their original data and their chain depth.\<close>

definition window_inv ::
  "nat \<Rightarrow> Entry list \<Rightarrow> (bytes \<times> IdxEntry) list \<Rightarrow> nat list \<Rightarrow> DeltaWindowEntry list \<Rightarrow> bool" where
  "window_inv n bucket res depths window \<longleftrightarrow>
     length window = min n (length bucket) \<and> list_all window_entry_ok window \<and>
     (\<forall>k < length window.
        dw_entry (window ! k) = (bucket ! (length bucket - length window + k))
          \<lparr>en_chain_len := depths ! (length bucket - length window + k)\<rparr> \<and>
        dw_offset (window ! k) = position res (length bucket - length window + k))"

lemma window_inv_same_base:
  assumes "window_inv n bucket res depths window" "list_all2 same_base window' window"
    "list_all window_entry_ok window'"
  shows "window_inv n bucket res depths window'"
proof -
  have "length window' = length window" using assms(2) by (rule list_all2_lengthD)
  moreover have "same_base (window' ! k) (window ! k)" if "k < length window" for k
    using that assms(2) by (simp add: list_all2_conv_all_nth)
  ultimately show ?thesis using assms(1,3) by (simp add: window_inv_def same_base_def)
qed

lemma window_inv_slide:
  assumes "window_inv n bucket res depths window" "length res = length bucket" "length depths = length bucket"
  shows "window_inv n (bucket @ [e]) (res @ [r]) (depths @ [d])
    (slide n (DeltaWindowEntry_new (e\<lparr>en_chain_len := d\<rparr>) (position res (length res))) window)"
    (is "window_inv n _ _ _ ?w'")
proof -
  let ?new = "DeltaWindowEntry_new (e\<lparr>en_chain_len := d\<rparr>) (position res (length res))"
  let ?m = "length bucket" and ?l = "length window"
  have l: "?l = min n ?m" and ok: "list_all window_entry_ok window"
    and at: "\<And>k. k < ?l \<Longrightarrow> dw_entry (window ! k) = (bucket ! (?m - ?l + k))\<lparr>en_chain_len := depths ! (?m - ?l + k)\<rparr> \<and>
        dw_offset (window ! k) = position res (?m - ?l + k)"
    using assms(1) by (auto simp: window_inv_def)
  define q where "q = window @ [?new]"
  have q: "dw_entry (q ! k) = ((bucket @ [e]) ! (?m - ?l + k))\<lparr>en_chain_len := (depths @ [d]) ! (?m - ?l + k)\<rparr> \<and>
      dw_offset (q ! k) = position (res @ [r]) (?m - ?l + k)" if "k \<le> ?l" for k
  proof (cases "k = ?l")
    case True
    then show ?thesis using l assms(2,3) by (simp add: q_def DeltaWindowEntry_new_def nth_append)
  next
    case False
    then have k: "k < ?l" using that by simp
    define j where "j = ?m - ?l + k"
    have "j < ?m" using k l unfolding j_def by linarith
    then show ?thesis using at[OF k] k assms(2,3) unfolding j_def[symmetric] by (simp add: q_def nth_append)
  qed
  have okq: "list_all window_entry_ok q" using ok by (simp add: q_def)
  show ?thesis
  proof (cases "?l < n")
    case True
    have "?w' = q" using True by (simp add: slide_def q_def Let_def)
    moreover have "?l = ?m" using True l by simp
    ultimately show ?thesis using True okq q by (auto simp: window_inv_def q_def)
  next
    case False
    then have w': "?w' = tl q" "?l = n" using l by (simp_all add: slide_def q_def Let_def)
    have "length (tl q) = n" using w' by (simp add: q_def)
    moreover have "list_all window_entry_ok (tl q)" using okq by (cases q) simp_all
    moreover have "tl q ! k = q ! Suc k" if "k < n" for k
      using that w' by (simp add: q_def nth_tl)
    ultimately show ?thesis using q w' l by (auto simp: window_inv_def Suc_diff_le)
  qed
qed

lemma encode_whole:
  "en_obj_type e \<in> {OT_Commit, OT_Tree, OT_Blob, OT_Tag} \<Longrightarrow> \<exists>bs. encode_one_object X e None = Inr bs \<and> bs \<noteq> []"
  by (auto simp: encode_one_object_def Let_def entry_offset_bytes_def entry_header_def to_pack_type_u8_def)

lemma encode_delta_entry:
  "en_obj_type e = OT_OffsetDelta \<Longrightarrow> 0 < gap \<Longrightarrow> \<exists>bs. encode_one_object X e (Some gap) = Inr bs \<and> bs \<noteq> []"
  by (auto simp: encode_one_object_def Let_def entry_offset_bytes_def entry_header_def to_pack_type_u8_def
      encode_offset_eq)

lemma position_less:
  assumes "\<And>r. r \<in> set res \<Longrightarrow> fst r \<noteq> []" "i < j" "j \<le> length res"
  shows "position res i < position res j"
proof -
  have "take j res = take i res @ take (j - i) (drop i res)" using assms(2) by (metis le_add_diff_inverse less_imp_le take_add)
  moreover have "take (j - i) (drop i res) = res ! i # take (j - i - 1) (drop (Suc i) res)"
    using assms(2,3) by (metis Cons_nth_drop_Suc less_le_trans take_Cons' zero_less_diff less_numeral_extra(3))
  moreover have "0 < length (fst (res ! i))" using assms by simp
  ultimately show ?thesis by (simp add: position_def)
qed

text \<open>The entries the encoder takes: base objects below 4 GiB that are not on a chain yet.\<close>

definition plain_entry :: "Entry \<Rightarrow> bool" where
  "plain_entry e \<longleftrightarrow> en_obj_type e \<in> {OT_Commit, OT_Tree, OT_Blob, OT_Tag} \<and> length (en_data e) < 2 ^ 32 \<and>
     en_chain_len e = 0"

definition loop_inv ::
  "Crates \<Rightarrow> nat \<Rightarrow> Entry list \<Rightarrow> (bytes \<times> IdxEntry) list \<Rightarrow> nat option list \<Rightarrow> nat list \<Rightarrow>
   DeltaWindowEntry list \<Rightarrow> bool" where
  "loop_inv X n bucket res bases depths window \<longleftrightarrow>
     laid_out X n bucket res bases depths \<and> window_inv n bucket res depths window \<and>
     (\<forall>r \<in> set res. fst r \<noteq> [])"

text \<open>One iteration: the search, the choice and the encoding of one entry.\<close>

lemma bucket_step:
  assumes inv: "loop_inv X n bucket res bases depths window"
    and plain: "list_all plain_entry (bucket @ [e])"
  defines "cur \<equiv> position res (length res)"
  shows "\<exists>st written gap bs b d. search_base E dp e window = Some (Inr st) \<and>
    deltify E False True (best_base st) cur e = Some (Inr (written, gap)) \<and>
    encode_one_object X written gap = Inr bs \<and> en_chain_len written = d \<and>
    loop_inv X n (bucket @ [e]) (res @ [(bs, IndexEntry_new X written 0)]) (bases @ [b]) (depths @ [d])
      (slide n (DeltaWindowEntry_new (e\<lparr>en_chain_len := d\<rparr>) cur) (sr_window st))"
proof -
  let ?m = "length bucket" and ?l = "length window"
  have lay: "laid_out X n bucket res bases depths" and win: "window_inv n bucket res depths window"
    and ne: "\<And>r. r \<in> set res \<Longrightarrow> fst r \<noteq> []" using inv by (auto simp: loop_inv_def)
  have len: "length res = ?m" "length depths = ?m" using lay by (auto simp: laid_out_def)
  have l: "?l = min n ?m" using win by (simp add: window_inv_def)
  have at: "dw_entry (window ! k) = (bucket ! (?m - ?l + k))\<lparr>en_chain_len := depths ! (?m - ?l + k)\<rparr>"
    "dw_offset (window ! k) = position res (?m - ?l + k)" if "k < ?l" for k
    using win that by (auto simp: window_inv_def)
  have small: "length (en_data (dw_entry w)) < 2 ^ 32" if w: "w \<in> set window" for w
  proof -
    obtain k where k: "k < ?l" "w = window ! k" using w by (auto simp: in_set_conv_nth)
    have "?m - ?l + k < ?m" using k(1) l by linarith
    then have "plain_entry (bucket ! (?m - ?l + k))" using plain by (simp add: list_all_iff)
    then show ?thesis using k at(1) by (simp add: plain_entry_def)
  qed
  have okw: "list_all window_entry_ok window" using win by (simp add: window_inv_def)
  obtain st where st: "search_base E dp e window = Some (Inr st)"
      "list_all2 same_base (sr_window st) window" "list_all window_entry_ok (sr_window st)"
    and best: "\<And>w. best_base st = Some w \<Longrightarrow> \<exists>i < ?l. w = sr_window st ! i \<and> is_candidate E dp e (window ! i) \<and>
       good_base (en_data e) (length (en_data e) - (length (en_data e) div 2 + 20)) w"
    using search_base_ok[OF okw small, where E = E and dp = dp and entry = e] by blast
  have slid: "window_inv n (bucket @ [e]) (res @ [r]) (depths @ [d])
      (slide n (DeltaWindowEntry_new (e\<lparr>en_chain_len := d\<rparr>) cur) (sr_window st))" for r d
    unfolding cur_def by (rule window_inv_slide[OF window_inv_same_base[OF win st(2,3)] len])
  have e: "plain_entry e" using plain by simp
  show ?thesis
  proof (cases "best_base st")
    case None
    obtain bs where bs: "encode_one_object X e None = Inr bs" "bs \<noteq> []"
      using e encode_whole[of e X] by (auto simp: plain_entry_def)
    have "laid_out X n (bucket @ [e]) (res @ [(bs, IndexEntry_new X e 0)]) (bases @ [None]) (depths @ [0])"
      using bs len by (intro laid_out_snoc[OF lay]) (simp_all add: whole_item_def nth_append IndexEntry_new_def)
    then show ?thesis
      using None st(1) bs ne slid[of "(bs, IndexEntry_new X e 0)" 0] e
      by (intro exI[of _ st] exI[of _ e] exI[of _ None] exI[of _ bs] exI[of _ "0::nat"])
        (auto simp: deltify_def loop_inv_def plain_entry_def)
  next
    case (Some w)
    obtain i ix delta where i: "i < ?l" "w = sr_window st ! i" "is_candidate E dp e (window ! i)"
      and ix: "dw_rabin_index w = Some ix" "create_delta ix (en_data e) None = Some (Inr (Some delta))"
      and delta: "delta_of (en_data (dw_entry w)) (en_data e) delta"
        "length delta < length (en_data e) - (length (en_data e) div 2 + 20)"
      using best[OF Some] by (auto simp: good_base_def)
    define j where "j = ?m - ?l + i"
    have j: "j < ?m" "?m \<le> j + n" using i(1) l unfolding j_def by linarith+
    have "same_base w (window ! i)" using st(2) i by (simp add: list_all2_conv_all_nth)
    then have w: "dw_entry w = (bucket ! j)\<lparr>en_chain_len := depths ! j\<rparr>" "dw_offset w = position res j"
      using at[OF i(1)] by (auto simp: same_base_def j_def)
    have cand: "en_obj_type (bucket ! j) = en_obj_type e" "depths ! j < MAX_CHAIN_LEN"
      using i(3) at(1)[OF i(1)] by (auto simp: is_candidate_def Let_def j_def)
    define d where "d = Suc (depths ! j)"
    define written where "written = e\<lparr>en_obj_type := OT_OffsetDelta, en_data := delta, en_chain_len := d\<rparr>"
    have pos: "0 < cur - dw_offset w" using position_less[of res j ?m] ne j(1) w(2) len by (simp add: cur_def)
    then obtain bs where bs: "encode_one_object X written (Some (cur - dw_offset w)) = Inr bs" "bs \<noteq> []"
      using encode_delta_entry[of written "cur - dw_offset w" X] by (auto simp: written_def)
    let ?r = "(bs, IndexEntry_new X written 0)"
    have "delta_item X n (bucket @ [e]) (res @ [?r]) (depths @ [d]) j ?m"
      using j cand delta(1) good_rate(2)[OF delta(2)] bs(1) w len
      by (auto simp: delta_item_def nth_append d_def written_def cur_def)
    then have "laid_out X n (bucket @ [e]) (res @ [?r]) (bases @ [Some j]) (depths @ [d])"
      by (intro laid_out_snoc[OF lay]) (simp_all add: IndexEntry_new_def written_def)
    moreover have "deltify E False True (best_base st) cur e = Some (Inr (written, Some (cur - dw_offset w)))"
      using Some ix by (simp add: deltify_def delta_payload_def encode_rabin_with_index_def expect_delta_def
          written_def d_def w(1))
    ultimately show ?thesis
      using st(1) bs ne slid[of ?r d]
      by (intro exI[of _ st] exI[of _ written] exI[of _ "Some (cur - dw_offset w)"] exI[of _ bs] exI[of _ "Some j"] exI[of _ d])
        (auto simp: loop_inv_def written_def)
  qed
qed

lemma bucket_loop_ok:
  "loop_inv X n bucket res bases depths window \<Longrightarrow> list_all plain_entry (bucket @ todo) \<Longrightarrow>
   \<exists>res' bases' depths'. bucket_loop X E n False True dp todo (position res (length res)) window res = Some (Inr res') \<and>
     laid_out X n (bucket @ todo) res' bases' depths' \<and> (\<forall>r \<in> set res'. fst r \<noteq> [])"
proof (induction todo arbitrary: bucket res bases depths window)
  case Nil
  then show ?case by (auto simp: loop_inv_def)
next
  case (Cons e todo)
  let ?cur = "position res (length res)"
  have plain: "list_all plain_entry (bucket @ [e])" using Cons.prems(2) by simp
  obtain st written gap bs b d where step: "search_base E dp e window = Some (Inr st)"
      "deltify E False True (best_base st) ?cur e = Some (Inr (written, gap))"
      "encode_one_object X written gap = Inr bs" "en_chain_len written = d"
    and inv: "loop_inv X n (bucket @ [e]) (res @ [(bs, IndexEntry_new X written 0)]) (bases @ [b]) (depths @ [d])
      (slide n (DeltaWindowEntry_new (e\<lparr>en_chain_len := d\<rparr>) ?cur) (sr_window st))"
    using bucket_step[OF Cons.prems(1) plain] by blast
  have "position (res @ [(bs, IndexEntry_new X written 0)]) (Suc (length res)) = ?cur + length bs"
    by (simp add: position_def)
  then show ?case
    using Cons.IH[OF inv] Cons.prems(2) step by simp
qed

lemma try_as_offset_delta_ok:
  assumes "list_all plain_entry bucket"
  shows "\<exists>res bases depths. try_as_offset_delta X E bucket n False True dp = Some (Inr res) \<and>
    laid_out X n bucket res bases depths \<and> (\<forall>r \<in> set res. fst r \<noteq> [])"
proof -
  have "loop_inv X n [] [] [] [] []" by (simp add: loop_inv_def window_inv_def)
  from bucket_loop_ok[OF this, of bucket E dp] assms show ?thesis
    by (simp add: try_as_offset_delta_def position_def)
qed

section \<open>Properties\<close>

text \<open>C13: what the delta search writes.  For a bucket of base objects below 4 GiB the search ends without
  an error, whatever the window size and the pre-filter, and writes every entry in order.  An entry is
  written whole, or as a delta against an earlier entry of the same type among the last \<open>n\<close> ones: the
  delta decodes to the entry's data from the base's data, is less than half as long, its distance is
  exactly the number of bytes back to the base, and no chain of deltas is longer than
  \<open>MAX_CHAIN_LEN\<close>.\<close>

theorem delta_search_bounds:
  assumes "list_all plain_entry bucket"
  shows "\<exists>res bases depths. try_as_offset_delta X E bucket n False True dp = Some (Inr res) \<and>
    length res = length bucket \<and> length bases = length bucket \<and> length depths = length bucket \<and>
    (\<forall>i < length bucket.
       IdxEntry.ie_hash (snd (res ! i)) = en_hash (bucket ! i) \<and> depths ! i \<le> 50 \<and>
       (case bases ! i of
          None \<Rightarrow> depths ! i = 0 \<and> encode_one_object X (bucket ! i) None = Inr (fst (res ! i))
        | Some j \<Rightarrow> j < i \<and> i \<le> j + n \<and> en_obj_type (bucket ! j) = en_obj_type (bucket ! i) \<and>
            depths ! i = depths ! j + 1 \<and>
            (\<exists>delta. delta_decode delta (en_data (bucket ! j)) = Inr (en_data (bucket ! i)) \<and>
               2 * length delta < length (en_data (bucket ! i)) \<and>
               encode_one_object X ((bucket ! i)\<lparr>en_obj_type := OT_OffsetDelta, en_data := delta,
                   en_chain_len := depths ! i\<rparr>)
                 (Some (sum_list (map (length \<circ> fst) (take (i - j) (drop j res))))) = Inr (fst (res ! i)))))"
    (is "\<exists>res bases depths. _ \<and> _ \<and> _ \<and> _ \<and> (\<forall>i < _. ?item res bases depths i)")
proof -
  obtain res bases depths where res: "try_as_offset_delta X E bucket n False True dp = Some (Inr res)"
    and lay: "laid_out X n bucket res bases depths"
    using try_as_offset_delta_ok[OF assms, of X E n dp] by blast
  have gap: "position res i - position res j = sum_list (map (length \<circ> fst) (take (i - j) (drop j res)))"
    if "j < i" for i j
  proof -
    have "take i res = take j res @ take (i - j) (drop j res)" using that by (metis le_add_diff_inverse less_imp_le take_add)
    then show ?thesis by (simp add: position_def)
  qed
  have small: "length (en_data (bucket ! i)) < 2 ^ 64" if "i < length bucket" for i
    using assms that by (force simp: list_all_length plain_entry_def)
  have decode: "delta_decode delta (en_data (bucket ! j)) = Inr (en_data (bucket ! i))"
    if "delta_of (en_data (bucket ! j)) (en_data (bucket ! i)) delta" "j < i" "i < length bucket" for i j delta
    using that small[of i] small[of j] by (simp add: delta_of_decode)
  have "?item res bases depths i"
    if i: "i < length bucket" for i
  proof -
    have lay_i: "IdxEntry.ie_hash (snd (res ! i)) = en_hash (bucket ! i)"
      "case bases ! i of None \<Rightarrow> whole_item X bucket res i \<and> depths ! i = 0
       | Some j \<Rightarrow> delta_item X n bucket res depths j i"
      using lay i by (simp_all add: laid_out_def)
    show ?thesis
    proof (cases "bases ! i")
      case None
      then show ?thesis using lay_i by (simp add: whole_item_def)
    next
      case (Some j)
      then have item: "delta_item X n bucket res depths j i" using lay_i by simp
      then obtain delta where "j < i" and delta: "delta_of (en_data (bucket ! j)) (en_data (bucket ! i)) delta"
        "2 * length delta < length (en_data (bucket ! i))"
        "encode_one_object X ((bucket ! i)\<lparr>en_obj_type := OT_OffsetDelta, en_data := delta,
            en_chain_len := depths ! i\<rparr>) (Some (position res i - position res j)) = Inr (fst (res ! i))"
        by (auto simp: delta_item_def)
      then show ?thesis
        using lay_i(1) item Some decode[OF delta(1) \<open>j < i\<close> i] gap[of j i]
        by (auto simp: delta_item_def MAX_CHAIN_LEN_def intro!: exI[of _ delta])
    qed
  qed
  then show ?thesis
    using res lay by (intro exI[of _ res] exI[of _ bases] exI[of _ depths]) (simp add: laid_out_def)
qed

definition sample_engines :: DeltaEngines where
  "sample_engines = \<lparr>de_calc_hash = length, de_zdiff = (\<lambda>_ _. Inl []), de_script = (\<lambda>_ _. [])\<rparr>"

definition sample_bucket :: "Entry list" where
  "sample_bucket =
     [\<lparr>en_obj_type = OT_Blob, en_data = replicate 200 7, en_hash = HSha1 (replicate 20 1), en_chain_len = 0\<rparr>,
      \<lparr>en_obj_type = OT_Blob, en_data = replicate 150 7, en_hash = HSha1 (replicate 20 2), en_chain_len = 0\<rparr>]"

theorem delta_search_bounds_witness:
  "\<exists>res. try_as_offset_delta sample_crates sample_engines sample_bucket 10 False True True = Some (Inr res) \<and>
    length res = 2"
proof -
  have "list_all plain_entry sample_bucket" by (simp add: sample_bucket_def plain_entry_def)
  from delta_search_bounds[OF this, of sample_crates sample_engines 10 True] show ?thesis
    by (auto simp: sample_bucket_def)
qed

end
