(* ===== verification/Pack_Encoder_Proofs.thy ===== *)
theory Pack_Encoder_Proofs
  imports Pack_Encoder Pack_Search_Proofs
begin

text \<open>
  What the pack encoder sends, in both modes: the header, every entry exactly once, whole or as a delta
  against an earlier entry, and the checksum of all that; and the index records it collects on the way.
\<close>

section \<open>Sending\<close>

text \<open>The index records of encoded entries that follow each other from an offset on.\<close>

fun indexed :: "Crates \<Rightarrow> nat \<Rightarrow> (bytes \<times> IdxEntry) list \<Rightarrow> IdxEntry list" where
  "indexed X off [] = []"
| "indexed X off ((bs, ie) # rest) =
     ie\<lparr>IdxEntry.ie_offset := off, ie_crc32 := x_crc X bs\<rparr> # indexed X (off + length bs) rest"

definition sent :: "bytes list \<Rightarrow> PackEncoder \<Rightarrow> PackEncoder" where
  "sent bss pk =
     pk\<lparr>pk_sent := pk_sent pk @ bss, pk_inner_hash := hasher_update (concat bss) (pk_inner_hash pk),
        pk_inner_offset := pk_inner_offset pk + length (concat bss)\<rparr>"

lemma sent_Nil [simp]: "sent [] pk = pk"
  by (simp add: sent_def hasher_update_def)

lemma sent_sent [simp]: "sent ys (sent xs pk) = sent (xs @ ys) pk"
  by (simp add: sent_def hasher_update_def add.assoc)

lemma write_entries_ok:
  "pk_pack_sender pk \<Longrightarrow> length (pk_sent pk) + length items \<le> pk_accepts pk \<Longrightarrow>
   write_entries X items ies pk = Inr (ies @ indexed X (pk_inner_offset pk) items, sent (map fst items) pk)"
proof (induction items arbitrary: ies pk)
  case (Cons it items)
  obtain bs ie where it: "it = (bs, ie)" by (cases it)
  have "write_owned_and_update bs pk = Inr (sent [bs] pk)"
    using Cons.prems by (simp add: write_owned_and_update_def pack_send_data_def sent_def)
  moreover have "pk_inner_offset (sent [bs] pk) = pk_inner_offset pk + length bs"
    "pk_pack_sender (sent [bs] pk)" "length (pk_sent (sent [bs] pk)) + length items \<le> pk_accepts (sent [bs] pk)"
    using Cons.prems by (simp_all add: sent_def)
  ultimately show ?case using Cons.IH[of "sent [bs] pk"] it by (simp add: Let_def)
qed simp

section \<open>The entries of a pack\<close>

text \<open>The number of bytes from entry \<open>j\<close> to entry \<open>k\<close>.\<close>

definition byte_span :: "bytes list \<Rightarrow> nat \<Rightarrow> nat \<Rightarrow> nat" where
  "byte_span bss j k = sum_list (map length (take (k - j) (drop j bss)))"

definition written_whole :: "Crates \<Rightarrow> Entry \<Rightarrow> bytes \<Rightarrow> bool" where
  "written_whole X e bs \<longleftrightarrow> encode_one_object X e None = Inr bs"

definition written_delta :: "Crates \<Rightarrow> Entry \<Rightarrow> nat \<Rightarrow> Entry \<Rightarrow> bytes \<Rightarrow> bool" where
  "written_delta X b gap e bs \<longleftrightarrow> en_obj_type b = en_obj_type e \<and>
     (\<exists>delta c. delta_of (en_data b) (en_data e) delta \<and> length delta < length (en_data e) \<and>
        encode_one_object X (e\<lparr>en_obj_type := OT_OffsetDelta, en_data := delta, en_chain_len := c\<rparr>) (Some gap) = Inr bs)"

definition pack_written :: "Crates \<Rightarrow> Entry list \<Rightarrow> bytes list \<Rightarrow> bool" where
  "pack_written X es bss \<longleftrightarrow> length bss = length es \<and>
     (\<forall>k < length es. bss ! k \<noteq> [] \<and>
        (written_whole X (es ! k) (bss ! k) \<or>
         (\<exists>j < k. written_delta X (es ! j) (byte_span bss j k) (es ! k) (bss ! k))))"

lemma pack_written_Nil [simp]: "pack_written X [] []"
  by (simp add: pack_written_def)

lemma span_append1: "j \<le> k \<Longrightarrow> k \<le> length xs \<Longrightarrow> byte_span (xs @ ys) j k = byte_span xs j k"
  by (simp add: byte_span_def)

lemma span_append2: "byte_span (xs @ ys) (length xs + j) (length xs + k) = byte_span ys j k"
  by (simp add: byte_span_def)

lemma pack_written_append:
  assumes "pack_written X es1 bss1" "pack_written X es2 bss2"
  shows "pack_written X (es1 @ es2) (bss1 @ bss2)"
proof -
  have len: "length bss1 = length es1" "length bss2 = length es2" using assms by (auto simp: pack_written_def)
  have "(bss1 @ bss2) ! k \<noteq> [] \<and> (written_whole X ((es1 @ es2) ! k) ((bss1 @ bss2) ! k) \<or>
      (\<exists>j < k. written_delta X ((es1 @ es2) ! j) (byte_span (bss1 @ bss2) j k) ((es1 @ es2) ! k) ((bss1 @ bss2) ! k)))"
    if k: "k < length (es1 @ es2)" for k
  proof (cases "k < length es1")
    case True
    moreover have "\<exists>j < k. written_delta X ((es1 @ es2) ! j) (byte_span (bss1 @ bss2) j k) (es1 ! k) (bss1 ! k)"
      if ex: "\<exists>j < k. written_delta X (es1 ! j) (byte_span bss1 j k) (es1 ! k) (bss1 ! k)"
    proof -
      obtain j where j: "j < k" "written_delta X (es1 ! j) (byte_span bss1 j k) (es1 ! k) (bss1 ! k)" using ex by blast
      then show ?thesis using True len by (intro exI[of _ j]) (simp add: nth_append span_append1)
    qed
    moreover have "(es1 @ es2) ! k = es1 ! k" "(bss1 @ bss2) ! k = bss1 ! k" using True len by (simp_all add: nth_append)
    moreover have "bss1 ! k \<noteq> [] \<and> (written_whole X (es1 ! k) (bss1 ! k) \<or>
        (\<exists>j < k. written_delta X (es1 ! j) (byte_span bss1 j k) (es1 ! k) (bss1 ! k)))"
      using assms(1) True by (auto simp: pack_written_def)
    ultimately show ?thesis by metis
  next
    case False
    define m where "m = k - length es1"
    have m: "k = length es1 + m" "m < length es2" using False k by (auto simp: m_def)
    have "\<exists>j < k. written_delta X ((es1 @ es2) ! j) (byte_span (bss1 @ bss2) j k) (es2 ! m) (bss2 ! m)"
      if ex: "\<exists>j < m. written_delta X (es2 ! j) (byte_span bss2 j m) (es2 ! m) (bss2 ! m)"
    proof -
      obtain j where j: "j < m" "written_delta X (es2 ! j) (byte_span bss2 j m) (es2 ! m) (bss2 ! m)" using ex by blast
      then show ?thesis
        using m len span_append2[of bss1 bss2 j m]
        by (intro exI[of _ "length es1 + j"]) (simp add: nth_append)
    qed
    moreover have "bss2 ! m \<noteq> [] \<and> (written_whole X (es2 ! m) (bss2 ! m) \<or>
        (\<exists>j < m. written_delta X (es2 ! j) (byte_span bss2 j m) (es2 ! m) (bss2 ! m)))"
      using assms(2) m(2) by (auto simp: pack_written_def)
    moreover have "(es1 @ es2) ! k = es2 ! m" "(bss1 @ bss2) ! k = bss2 ! m" using m(1) len by (simp_all add: nth_append)
    ultimately show ?thesis by metis
  qed
  then show ?thesis using len by (simp add: pack_written_def)
qed

lemma laid_out_written:
  assumes "laid_out X n bucket res bases depths" "\<forall>r \<in> set res. fst r \<noteq> []"
  shows "pack_written X bucket (map fst res)" "map (IdxEntry.ie_hash \<circ> snd) res = map en_hash bucket"
proof -
  have len: "length res = length bucket" using assms(1) by (simp add: laid_out_def)
  have gap: "position res k - position res j = byte_span (map fst res) j k" if "j < k" for j k
  proof -
    have "take k res = take j res @ take (k - j) (drop j res)" using that by (metis le_add_diff_inverse less_imp_le take_add)
    then show ?thesis by (simp add: position_def byte_span_def take_map drop_map)
  qed
  have "map fst res ! k \<noteq> [] \<and> (written_whole X (bucket ! k) (map fst res ! k) \<or>
      (\<exists>j < k. written_delta X (bucket ! j) (byte_span (map fst res) j k) (bucket ! k) (map fst res ! k)))"
    if k: "k < length bucket" for k
  proof (cases "bases ! k")
    case None
    then have "whole_item X bucket res k" using assms(1) k by (auto simp: laid_out_def split: option.splits)
    then show ?thesis using assms(2) k len by (auto simp: whole_item_def written_whole_def)
  next
    case (Some j)
    then have it: "delta_item X n bucket res depths j k" using assms(1) k by (auto simp: laid_out_def split: option.splits)
    then have "j < k" by (simp add: delta_item_def)
    moreover have "written_delta X (bucket ! j) (byte_span (map fst res) j k) (bucket ! k) (map fst res ! k)"
      using it gap[OF \<open>j < k\<close>] k len unfolding delta_item_def written_delta_def by force
    ultimately show ?thesis using assms(2) k len by auto
  qed
  then show "pack_written X bucket (map fst res)" using len by (simp add: pack_written_def)
  show "map (IdxEntry.ie_hash \<circ> snd) res = map en_hash bucket"
    using assms(1) by (intro nth_equalityI) (auto simp: laid_out_def)
qed

section \<open>The delta path\<close>

lemma join_results_ok: "join_results (map (\<lambda>x. Some (Inr x)) xs) = Some (Inr xs)"
proof -
  have "first_panic (map Inr xs) = None" "collect_results (map Inr xs) = Inr xs"
    by (induction xs) simp_all
  then show ?thesis by (auto simp: join_results_def Let_def comp_def)
qed

lemma run_delta_search_ok:
  assumes "ev_pool_error ev = None" "list_all plain_entry (concat items)"
  shows "\<exists>ress. run_delta_search X ev False True dp items = Some (Inr ress) \<and>
    pack_written X (concat items) (map fst (concat ress)) \<and>
    map (IdxEntry.ie_hash \<circ> snd) (concat ress) = map en_hash (concat items)"
proof -
  have "\<exists>ress. map (\<lambda>it. try_as_offset_delta X (ev_engines ev) it 10 False True dp) items = map (\<lambda>x. Some (Inr x)) ress \<and>
    pack_written X (concat items) (map fst (concat ress)) \<and>
    map (IdxEntry.ie_hash \<circ> snd) (concat ress) = map en_hash (concat items)"
    using assms(2)
  proof (induction items)
    case (Cons it items)
    obtain res bases depths where res: "try_as_offset_delta X (ev_engines ev) it 10 False True dp = Some (Inr res)"
      "laid_out X 10 it res bases depths" "\<forall>r \<in> set res. fst r \<noteq> []"
      using try_as_offset_delta_ok[of it X "ev_engines ev" 10 dp] Cons.prems by auto
    obtain ress where ress: "map (\<lambda>it. try_as_offset_delta X (ev_engines ev) it 10 False True dp) items = map (\<lambda>x. Some (Inr x)) ress"
      "pack_written X (concat items) (map fst (concat ress))"
      "map (IdxEntry.ie_hash \<circ> snd) (concat ress) = map en_hash (concat items)"
      using Cons.IH Cons.prems by fastforce
    show ?case
      using res(1) ress pack_written_append[OF laid_out_written(1)[OF res(2,3)] ress(2)] laid_out_written(2)[OF res(2,3)]
      by (intro exI[of _ "res # ress"]) (simp add: comp_def)
  qed simp
  then show ?thesis using assms(1) join_results_ok unfolding run_delta_search_def by (metis option.simps(4))
qed

lemma div_ceil_enough: "0 < c \<Longrightarrow> n \<le> c * div_ceil n c"
proof -
  assume "0 < c"
  then have le: "n mod c \<le> c" by (simp add: less_imp_le)
  have eq: "n = c * (n div c) + n mod c" by simp
  show ?thesis
  proof (cases "n mod c > 0")
    case True
    have "n \<le> c * (n div c) + c" using eq le by linarith
    then show ?thesis using True by (simp add: div_ceil_def)
  next
    case False
    then have "n \<le> c * (n div c)" using eq by linarith
    then show ?thesis using False by (simp add: div_ceil_def)
  qed
qed

lemma layout_covers: "blob_chunk_layout threads w n = (c, per) \<Longrightarrow> n \<le> c * per"
  using div_ceil_enough
  by (auto simp: blob_chunk_layout_def Let_def max_def split: if_splits)

lemma concat_split_chunks: "length es \<le> n * per \<Longrightarrow> concat (rev (split_chunks n per es)) = es"
proof (induction n arbitrary: es)
  case (Suc n)
  define t where "t = min per (length es)"
  have eq: "split_chunks (Suc n) per es =
      (if t = 0 then [] else drop (length es - t) es # split_chunks n per (take (length es - t) es))"
    by (simp only: split_chunks.simps Let_def t_def)
  show ?case
  proof (cases "t = 0")
    case True
    then have "es = []" using Suc.prems by (auto simp: t_def min_def split: if_splits)
    then show ?thesis by simp
  next
    case False
    have "length (take (length es - t) es) \<le> n * per"
      using Suc.prems by (cases "per \<le> length es") (simp_all add: t_def)
    from Suc.IH[OF this] False show ?thesis unfolding eq by simp
  qed
qed simp

definition all_inputs :: "TypeBuckets \<Rightarrow> MetaAttached list" where
  "all_inputs tb = tb_commits tb @ tb_trees tb @ tb_blobs tb @ tb_tags tb"

lemma mset_sorted_entries: "mset (sorted_entries es) = mset (map ma_inner es)"
  by (simp add: sorted_entries_def)

lemma mset_work_items: "mset (concat (work_items threads w tb)) = mset (map ma_inner (all_inputs tb))"
proof -
  let ?blobs = "sorted_entries (tb_blobs tb)"
  obtain c per where "blob_chunk_layout threads w (length ?blobs) = (c, per)" by fastforce
  then have "concat (rev (split_chunks c per ?blobs)) = ?blobs"
    using concat_split_chunks layout_covers by blast
  then have "concat (work_items threads w tb) =
      sorted_entries (tb_commits tb) @ sorted_entries (tb_trees tb) @ ?blobs @ sorted_entries (tb_tags tb)"
    using \<open>blob_chunk_layout threads w (length ?blobs) = (c, per)\<close> by (simp add: work_items_def Let_def)
  then show ?thesis using mset_sorted_entries[of "tb_blobs tb"] by (simp add: all_inputs_def mset_sorted_entries)
qed

definition input_ok :: "HashKind \<Rightarrow> MetaAttached \<Rightarrow> bool" where
  "input_ok kind m \<longleftrightarrow> plain_entry (ma_inner m) \<and> hash_kind (en_hash (ma_inner m)) = kind"

lemma check_entry_kind_iff:
  "check_entry_kind X pk e = Inr u \<longleftrightarrow> hash_kind (en_hash e) = pk_hash_kind pk"
  by (auto simp: check_entry_kind_def ensure_kind_def)

lemma collect_by_type_ok:
  "list_all (input_ok (pk_hash_kind pk)) ins \<Longrightarrow>
   \<exists>tb'. collect_by_type X pk ins tb = Inr tb' \<and> mset (all_inputs tb') = mset (all_inputs tb) + mset ins"
proof (induction ins arbitrary: tb)
  case (Cons m ins)
  have kind: "check_entry_kind X pk (ma_inner m) = Inr ()" and t: "en_obj_type (ma_inner m) \<in> {OT_Commit, OT_Tree, OT_Blob, OT_Tag}"
    using Cons.prems by (auto simp: input_ok_def plain_entry_def check_entry_kind_iff)
  have ins: "list_all (input_ok (pk_hash_kind pk)) ins" using Cons.prems by simp
  note IH = Cons.IH[OF ins]
  from t consider "en_obj_type (ma_inner m) = OT_Commit" | "en_obj_type (ma_inner m) = OT_Tree"
    | "en_obj_type (ma_inner m) = OT_Blob" | "en_obj_type (ma_inner m) = OT_Tag" by blast
  then show ?case
  proof cases
    case 1
    then show ?thesis using kind IH[of "tb\<lparr>tb_commits := tb_commits tb @ [m]\<rparr>"] by (simp add: all_inputs_def ac_simps)
  next
    case 2
    then show ?thesis using kind IH[of "tb\<lparr>tb_trees := tb_trees tb @ [m]\<rparr>"] by (simp add: all_inputs_def ac_simps)
  next
    case 3
    then show ?thesis using kind IH[of "tb\<lparr>tb_blobs := tb_blobs tb @ [m]\<rparr>"] by (simp add: all_inputs_def ac_simps)
  next
    case 4
    then show ?thesis using kind IH[of "tb\<lparr>tb_tags := tb_tags tb @ [m]\<rparr>"] by (simp add: all_inputs_def ac_simps)
  qed
qed simp

section \<open>The path without deltas\<close>

lemma receive_batch_ok:
  "list_all (input_ok (pk_hash_kind pk)) ins \<Longrightarrow>
   receive_batch X n ins batch pk =
     Inr (batch @ map ma_inner (take n ins), drop n ins,
          pk\<lparr>pk_process_index := pk_process_index pk + min n (length ins)\<rparr>)"
proof (induction n arbitrary: ins batch pk)
  case (Suc n)
  show ?case
  proof (cases ins)
    case (Cons m ins')
    have "\<not> is_ai_object (en_obj_type (ma_inner m))" "check_entry_kind X pk (ma_inner m) = Inr ()"
      using Suc.prems Cons by (auto simp: input_ok_def plain_entry_def is_ai_object_def check_entry_kind_iff)
    then show ?thesis
      using Suc.IH[of "pk\<lparr>pk_process_index := Suc (pk_process_index pk)\<rparr>" ins'] Suc.prems Cons by simp
  qed simp
qed simp

lemma pack_written_whole:
  assumes "list_all2 (\<lambda>e bs. written_whole X e bs \<and> bs \<noteq> []) es bss"
  shows "pack_written X es bss"
  using assms by (auto simp: pack_written_def list_all2_conv_all_nth)

lemma encode_batch_ok:
  assumes "list_all plain_entry batch"
  shows "\<exists>items. encode_batch X batch = Inr items \<and>
    list_all2 (\<lambda>e bs. written_whole X e bs \<and> bs \<noteq> []) batch (map fst items) \<and>
    map (IdxEntry.ie_hash \<circ> snd) items = map en_hash batch"
proof -
  let ?f = "\<lambda>entry. and_then (encode_one_object X entry None) (\<lambda>encoded. Inr (encoded, IndexEntry_new X entry 0))"
  have "\<exists>items. map ?f batch = map Inr items \<and>
    list_all2 (\<lambda>e bs. written_whole X e bs \<and> bs \<noteq> []) batch (map fst items) \<and>
    map (IdxEntry.ie_hash \<circ> snd) items = map en_hash batch"
    using assms
  proof (induction batch)
    case (Cons e batch)
    then obtain items where items: "map ?f batch = map Inr items"
      "list_all2 (\<lambda>e bs. written_whole X e bs \<and> bs \<noteq> []) batch (map fst items)"
      "map (IdxEntry.ie_hash \<circ> snd) items = map en_hash batch" by (auto simp: comp_def)
    obtain bs where bs: "encode_one_object X e None = Inr bs" "bs \<noteq> []"
      using encode_whole[of e X] Cons.prems by (auto simp: plain_entry_def)
    show ?case
      using items bs by (intro exI[of _ "(bs, IndexEntry_new X e 0) # items"])
        (simp add: written_whole_def IndexEntry_new_def comp_def)
  qed simp
  then obtain items where items: "map ?f batch = map Inr items"
    "list_all2 (\<lambda>e bs. written_whole X e bs \<and> bs \<noteq> []) batch (map fst items)"
    "map (IdxEntry.ie_hash \<circ> snd) items = map en_hash batch" by blast
  have "first_panic (map Inr items) = None" "collect_results (map Inr items) = Inr items"
    by (induction items) simp_all
  then show ?thesis using items by (auto simp: encode_batch_def Let_def)
qed

lemma sent_process_index:
  "sent bss (pk\<lparr>pk_process_index := k\<rparr>) = (sent bss pk)\<lparr>pk_process_index := k\<rparr>"
  by (simp add: sent_def)

lemma indexed_append: "indexed X off (xs @ ys) = indexed X off xs @ indexed X (off + length (concat (map fst xs))) ys"
  by (induction X off xs rule: indexed.induct) (simp_all add: add.assoc)

lemma batch_loop_ok:
  "0 < b \<Longrightarrow> list_all (input_ok (pk_hash_kind pk)) ins \<Longrightarrow> pk_pack_sender pk \<Longrightarrow>
   length (pk_sent pk) + length ins \<le> pk_accepts pk \<Longrightarrow>
   \<exists>items. batch_loop X b ins ies pk =
       Inr (ies @ indexed X (pk_inner_offset pk) items,
            (sent (map fst items) pk)\<lparr>pk_process_index := pk_process_index pk + length ins\<rparr>) \<and>
     list_all2 (\<lambda>e bs. written_whole X e bs \<and> bs \<noteq> []) (map ma_inner ins) (map fst items) \<and>
     map (IdxEntry.ie_hash \<circ> snd) items = map (en_hash \<circ> ma_inner) ins"
proof (induction "length ins" arbitrary: ins ies pk rule: less_induct)
  case less
  let ?pk1 = "pk\<lparr>pk_process_index := pk_process_index pk + min b (length ins)\<rparr>"
  have recv: "receive_batch X b ins [] pk = Inr (map ma_inner (take b ins), drop b ins, ?pk1)"
    using receive_batch_ok[OF less.prems(2), of X b "[]"] by simp
  show ?case
  proof (cases "ins = []")
    case True
    then show ?thesis using recv by (intro exI[of _ "[]"]) (subst batch_loop.simps, simp)
  next
    case False
    have plain: "list_all plain_entry (map ma_inner (take b ins))"
      using less.prems(2) by (auto simp: list_all_iff input_ok_def dest: in_set_takeD)
    obtain items where items: "encode_batch X (map ma_inner (take b ins)) = Inr items"
      "list_all2 (\<lambda>e bs. written_whole X e bs \<and> bs \<noteq> []) (map ma_inner (take b ins)) (map fst items)"
      "map (IdxEntry.ie_hash \<circ> snd) items = map en_hash (map ma_inner (take b ins))"
      using encode_batch_ok[OF plain] by blast
    have len: "length items = min b (length ins)" using list_all2_lengthD[OF items(2)] by simp
    let ?pk2 = "(sent (map fst items) pk)\<lparr>pk_process_index := pk_process_index pk + min b (length ins)\<rparr>"
    let ?ies = "ies @ indexed X (pk_inner_offset pk) items"
    have "write_entries X items ies ?pk1 = Inr (?ies, ?pk2)"
      using write_entries_ok[of ?pk1 items X ies] less.prems(3,4) len by (simp add: sent_process_index)
    then have step: "batch_loop X b ins ies pk = batch_loop X b (drop b ins) ?ies ?pk2"
      using recv items(1) False less.prems(1) by (subst batch_loop.simps) simp
    have inner: "pk_inner_offset ?pk2 = pk_inner_offset pk + length (concat (map fst items))" by (simp add: sent_def)
    have "length (drop b ins) < length ins" using False less.prems(1) by simp
    moreover have "list_all (input_ok (pk_hash_kind ?pk2)) (drop b ins)"
      using less.prems(2) by (auto simp: list_all_iff sent_def dest: in_set_dropD)
    moreover have "pk_pack_sender ?pk2" "length (pk_sent ?pk2) + length (drop b ins) \<le> pk_accepts ?pk2"
      using less.prems(3,4) len by (simp_all add: sent_def)
    ultimately obtain items' where IH: "batch_loop X b (drop b ins) ?ies ?pk2 =
         Inr (?ies @ indexed X (pk_inner_offset ?pk2) items',
            (sent (map fst items') ?pk2)\<lparr>pk_process_index := pk_process_index ?pk2 + length (drop b ins)\<rparr>)"
       "list_all2 (\<lambda>e bs. written_whole X e bs \<and> bs \<noteq> []) (map ma_inner (drop b ins)) (map fst items')"
       "map (IdxEntry.ie_hash \<circ> snd) items' = map (en_hash \<circ> ma_inner) (drop b ins)"
      using less.hyps[of "drop b ins" ?pk2 ?ies] less.prems(1) by blast
    have "list_all2 (\<lambda>e bs. written_whole X e bs \<and> bs \<noteq> []) (map ma_inner (take b ins) @ map ma_inner (drop b ins))
        (map fst items @ map fst items')"
      using items(2) IH(2) by (rule list_all2_appendI)
    then have all: "list_all2 (\<lambda>e bs. written_whole X e bs \<and> bs \<noteq> []) (map ma_inner ins) (map fst (items @ items'))"
      by (simp flip: map_append)
    have "map (en_hash \<circ> ma_inner) (take b ins @ drop b ins) = map (IdxEntry.ie_hash \<circ> snd) (items @ items')"
      using items(3) IH(3) unfolding map_append by (simp add: comp_def)
    then have hashes: "map (IdxEntry.ie_hash \<circ> snd) (items @ items') = map (en_hash \<circ> ma_inner) ins" by simp
    show ?thesis
      using step IH(1) inner all hashes less.prems
      by (intro exI[of _ "items @ items'"]) (simp add: indexed_append sent_process_index min_def)
  qed
qed

section \<open>Both paths\<close>

text \<open>What is known of an encoder that has finished: the entries in the order they were written, the
  encoded items, and the stream.\<close>

definition encoded_pack ::
  "Crates \<Rightarrow> HashKind \<Rightarrow> Entry list \<Rightarrow> (bytes \<times> IdxEntry) list \<Rightarrow> PackEncoder \<Rightarrow> bool" where
  "encoded_pack X kind es items pk \<longleftrightarrow>
     (\<exists>hdr. let bss = map fst items; fh = hash_of kind (x_digest X kind (hdr @ concat bss)) in
        encode_header (length es) = Inr hdr \<and> pack_written X es bss \<and>
        map (IdxEntry.ie_hash \<circ> snd) items = map en_hash es \<and>
        pk_sent pk = [hdr] @ bss @ [as_ref fh] \<and> pk_final_hash pk = Some fh \<and>
        pk_idx_entries pk = Some (indexed X 12 items) \<and> \<not> pk_pack_sender pk)"

definition started :: "bytes \<Rightarrow> PackEncoder \<Rightarrow> PackEncoder" where
  "started hdr pk = pk\<lparr>pk_sent := [hdr], pk_inner_hash := hasher_update hdr (pk_inner_hash pk)\<rparr>"

lemma send_trailer_ok:
  assumes "pk_pack_sender pk" "length (pk_sent pk) < pk_accepts pk" "pk_inner_hash pk = \<lparr>ha_kind = kind, absorbed = d\<rparr>"
  shows "send_trailer X pk =
    Inr (pk\<lparr>pk_final_hash := Some (hash_of kind (x_digest X kind d)),
            pk_sent := pk_sent pk @ [as_ref (hash_of kind (x_digest X kind d))], pk_pack_sender := False\<rparr>)"
  using assms by (simp add: send_trailer_def Let_def pack_send_data_def pack_drop_sender_def
      finalize_object_hash_def hasher_finalize_def)

text \<open>Both constructors of an encoder, with or without a sender for the index.\<close>

definition fresh_encoder :: "HashKind \<Rightarrow> nat \<Rightarrow> nat \<Rightarrow> nat \<Rightarrow> nat option \<Rightarrow> PackEncoder" where
  "fresh_encoder kind n w accepts ia = (new_with_hash_kind kind n w accepts)\<lparr>pk_idx_sender := ia\<rparr>"

lemma constructors_fresh:
  "new_with_hash_kind kind n w accepts = fresh_encoder kind n w accepts None"
  "new_with_idx_and_hash_kind kind n w accepts ia = fresh_encoder kind n w accepts (Some ia)"
  by (simp_all add: fresh_encoder_def new_with_hash_kind_def new_with_idx_and_hash_kind_def)

lemma inner_encode_ok:
  assumes ins: "list_all (input_ok kind) ins" and n: "length ins = n" "0 < n" "n \<le> u32_max"
    and room: "n + 2 \<le> accepts" and ev: "ev_pool_error ev = None"
    and pk: "pk = fresh_encoder kind n w accepts ia"
  shows "\<exists>pk' es items. inner_encode X ev ins False True dp pk = Some (Inr pk') \<and>
    mset es = mset (map ma_inner ins) \<and> encoded_pack X kind es items pk' \<and>
    pk_object_number pk' = n \<and> pk_idx_sender pk' = ia"
proof -
  obtain hdr where hdr: "encode_header n = Inr hdr" using n by (auto simp: encode_header_def)
  let ?pk1 = "started hdr pk"
  let ?tb0 = "\<lparr>tb_commits = [], tb_trees = [], tb_blobs = [], tb_tags = []\<rparr>"
  have kind1: "pk_hash_kind ?pk1 = kind" by (simp add: pk fresh_encoder_def new_with_hash_kind_def started_def)
  obtain tb where tb: "collect_by_type X ?pk1 ins ?tb0 = Inr tb" "mset (all_inputs tb) = mset ins"
    using collect_by_type_ok[of ?pk1 ins X ?tb0] ins kind1 by (auto simp: all_inputs_def)
  define wi where "wi = work_items (ev_num_threads ev) w tb"
  define es where "es = concat wi"
  have es: "mset es = mset (map ma_inner ins)"
    unfolding es_def wi_def using mset_work_items[of "ev_num_threads ev" w tb] tb(2) by simp
  then have "set es = ma_inner ` set ins" by (metis set_map set_mset_mset)
  then have "list_all plain_entry (concat wi)" using ins by (auto simp: es_def list_all_iff input_ok_def)
  from run_delta_search_ok[OF ev this, of X dp] obtain ress where ress:
      "run_delta_search X ev False True dp wi = Some (Inr ress)"
      "pack_written X es (map fst (concat ress))" "map (IdxEntry.ie_hash \<circ> snd) (concat ress) = map en_hash es"
    by (auto simp: es_def)
  let ?items = "concat ress" and ?bss = "map fst (concat ress)"
  let ?fh = "hash_of kind (x_digest X kind (hdr @ concat ?bss))"
  have "length ?items = length es" using ress(2) by (auto simp: pack_written_def)
  moreover have len: "length es = n" using es n(1) by (metis length_map size_mset)
  ultimately have "length ?items = n" by simp
  then have wr: "write_entries X ?items [] ?pk1 = Inr (indexed X 12 ?items, sent ?bss ?pk1)"
    using write_entries_ok[of ?pk1 ?items X "[]"] room
    by (simp add: pk fresh_encoder_def new_with_hash_kind_def started_def)
  let ?pk2 = "(sent ?bss ?pk1)\<lparr>pk_idx_entries := Some (indexed X 12 ?items)\<rparr>"
  let ?pk' = "?pk2\<lparr>pk_final_hash := Some ?fh, pk_sent := pk_sent ?pk2 @ [as_ref ?fh], pk_pack_sender := False\<rparr>"
  have tr: "send_trailer X ?pk2 = Inr ?pk'"
    using room \<open>length ?items = n\<close>
    by (intro send_trailer_ok)
      (simp_all add: pk fresh_encoder_def new_with_hash_kind_def started_def sent_def hasher_update_def new_for_kind_def)
  have "inner_encode X ev ins False True dp pk = Some (Inr ?pk')"
    using hdr tb(1) ress(1) wr tr room
    by (simp add: inner_encode_def pk fresh_encoder_def new_with_hash_kind_def started_def pack_send_data_def wi_def Let_def)
  moreover have "encoded_pack X kind es ?items ?pk'"
    using hdr ress(2,3) len unfolding encoded_pack_def Let_def
    by (intro exI[of _ hdr]) (simp add: pk fresh_encoder_def new_with_hash_kind_def started_def sent_def)
  ultimately show ?thesis
    using es by (intro exI[of _ ?pk'] exI[of _ es] exI[of _ ?items])
      (simp add: pk fresh_encoder_def new_with_hash_kind_def started_def sent_def)
qed

lemma parallel_encode_ok:
  assumes ins: "list_all (input_ok kind) ins" and n: "length ins = n" "0 < n" "n \<le> u32_max"
    and room: "n + 2 \<le> accepts"
    and pk: "pk = fresh_encoder kind n 0 accepts ia"
  shows "\<exists>pk' items. parallel_encode X cap ins pk = Inr pk' \<and> encoded_pack X kind (map ma_inner ins) items pk' \<and>
    pk_object_number pk' = n \<and> pk_idx_sender pk' = ia \<and>
    list_all2 (\<lambda>e bs. written_whole X e bs \<and> bs \<noteq> []) (map ma_inner ins) (map fst items)"
proof -
  obtain hdr where hdr: "encode_header n = Inr hdr" using n by (auto simp: encode_header_def)
  let ?pk1 = "started hdr pk" and ?b = "max 1000 (cap div 10)"
  have b: "0 < ?b" by simp
  have "list_all (input_ok (pk_hash_kind ?pk1)) ins" using ins by (simp add: pk fresh_encoder_def new_with_hash_kind_def started_def)
  moreover have "pk_pack_sender ?pk1" "length (pk_sent ?pk1) + length ins \<le> pk_accepts ?pk1"
    using room n(1) by (simp_all add: pk fresh_encoder_def new_with_hash_kind_def started_def)
  ultimately obtain items where items: "batch_loop X ?b ins [] ?pk1 =
       Inr ([] @ indexed X (pk_inner_offset ?pk1) items,
            (sent (map fst items) ?pk1)\<lparr>pk_process_index := pk_process_index ?pk1 + length ins\<rparr>)"
     "list_all2 (\<lambda>e bs. written_whole X e bs \<and> bs \<noteq> []) (map ma_inner ins) (map fst items)"
     "map (IdxEntry.ie_hash \<circ> snd) items = map (en_hash \<circ> ma_inner) ins"
    using batch_loop_ok[OF b, of ?pk1 ins X "[]"] by blast
  let ?bss = "map fst items"
  let ?fh = "hash_of kind (x_digest X kind (hdr @ concat ?bss))"
  let ?pk2 = "(sent ?bss ?pk1)\<lparr>pk_process_index := n\<rparr>"
  let ?pk' = "?pk2\<lparr>pk_final_hash := Some ?fh, pk_sent := pk_sent ?pk2 @ [as_ref ?fh], pk_pack_sender := False,
      pk_idx_entries := Some (indexed X 12 items)\<rparr>"
  have len: "length items = n" using list_all2_lengthD[OF items(2)] n(1) by simp
  have tr: "send_trailer X ?pk2 = Inr (?pk2\<lparr>pk_final_hash := Some ?fh, pk_sent := pk_sent ?pk2 @ [as_ref ?fh],
      pk_pack_sender := False\<rparr>)"
    using room len
    by (intro send_trailer_ok)
      (simp_all add: pk fresh_encoder_def new_with_hash_kind_def started_def sent_def hasher_update_def new_for_kind_def)
  have "parallel_encode X cap ins pk = Inr ?pk'"
    using hdr items(1) tr room n(1)
    by (simp add: parallel_encode_def pk fresh_encoder_def new_with_hash_kind_def started_def pack_send_data_def Let_def sent_def)
  moreover have "encoded_pack X kind (map ma_inner ins) items ?pk'"
    using hdr pack_written_whole[OF items(2)] items(3) n(1) unfolding encoded_pack_def Let_def
    by (intro exI[of _ hdr]) (simp add: pk fresh_encoder_def new_with_hash_kind_def started_def sent_def)
  ultimately show ?thesis
    using items(2) by (intro exI[of _ ?pk'] exI[of _ items]) (simp add: pk fresh_encoder_def new_with_hash_kind_def started_def sent_def)
qed

lemma pack_encode_ok:
  assumes "list_all (input_ok kind) ins" "length ins = n" "0 < n" "n \<le> u32_max" "n + 2 \<le> accepts"
    "ev_pool_error ev = None"
  shows "\<exists>pk' es items. pack_encode X ev cap ins (fresh_encoder kind n w accepts ia) = Some (Inr pk') \<and>
    mset es = mset (map ma_inner ins) \<and> encoded_pack X kind es items pk' \<and>
    pk_object_number pk' = n \<and> pk_idx_sender pk' = ia"
proof (cases "w = 0")
  case True
  obtain pk' items where "parallel_encode X cap ins (fresh_encoder kind n 0 accepts ia) = Inr pk'"
      "encoded_pack X kind (map ma_inner ins) items pk'" "pk_object_number pk' = n" "pk_idx_sender pk' = ia"
    using parallel_encode_ok[OF assms(1-5) refl, of X cap ia] by blast
  then show ?thesis
    using True by (intro exI[of _ pk'] exI[of _ "map ma_inner ins"] exI[of _ items])
      (simp add: pack_encode_def fresh_encoder_def new_with_hash_kind_def)
next
  case False
  then show ?thesis
    using inner_encode_ok[OF assms(1-5) assms(6) refl, of X True w ia]
    by (simp add: pack_encode_def fresh_encoder_def new_with_hash_kind_def)
qed

end
