(* ===== verification/Pack_Decode_Race.thy ===== *)
theory Pack_Decode_Race
  imports Pack_Decode_Sound
begin

text \<open>
  A pack of four entries (a base, a delta on it and two deltas on the rebuilt object) and two runs of
  the decoder on it: the witness of the completeness theorem, and a schedule that loses a wake-up when
  dependency counts are used together with the cache without a memory limit.
\<close>

section \<open>A pack\<close>

definition race_id :: "nat \<Rightarrow> ObjectHash" where
  "race_id n = HSha1 (replicate 20 (word_of_nat n))"

definition race_obj :: "nat \<Rightarrow> nat \<Rightarrow> bool \<Rightarrow> CacheObject" where
  "race_obj n off dlt = \<lparr>co_info = CI_BaseObject OT_Blob (race_id (7 + n)), co_offset = off, co_crc32 = 0,
     co_data = replicate n 1, co_is_delta_in_pack = dlt, co_known_hash = None\<rparr>"

definition race_delta :: "nat \<Rightarrow> nat \<Rightarrow> nat \<Rightarrow> nat \<Rightarrow> CacheObject" where
  "race_delta m n base off = \<lparr>co_info = CI_OffsetDelta base n, co_offset = off, co_crc32 = 0,
     co_data = [word_of_nat m, word_of_nat n, word_of_nat n] @ replicate n 1, co_is_delta_in_pack = True,
     co_known_hash = None\<rparr>"

definition race_pack :: "CacheObject list" where
  "race_pack = [race_obj 2 12 False, race_delta 2 3 12 20, race_delta 3 4 20 30, race_delta 3 5 20 40]"

definition race_params :: DecodeParams where
  "race_params = \<lparr>dp_crates = sample_crates, dp_callback = True, dp_skip_unneeded = False, dp_known_names = False\<rparr>"

definition race_retention :: DecodeRetention where
  "race_retention = \<lparr>offset_remaining = [12 \<mapsto> 1, 20 \<mapsto> 2], hash_remaining = Map.empty\<rparr>"

lemma race_decode:
  "delta_decode [2, 3, 3, 1, 1, 1] [1, 1] = Inr [1, 1, 1]"
  "delta_decode [3, 4, 4, 1, 1, 1, 1] [1, 1, 1] = Inr [1, 1, 1, 1]"
  "delta_decode [3, 5, 5, 1, 1, 1, 1, 1] [1, 1, 1] = Inr [1, 1, 1, 1, 1]"
  by (simp_all add: delta_decode_def read_size_encoding_def var_int_byte_def delta_step_def read_exact_def
      prepare_result_append_def checked_add_def)


lemma race_hash:
  assumes "n < 10"
  shows "calculate_object_hash_for_kind (x_digest sample_crates) KSha1 OT_Blob (replicate n 1) = Inr (race_id (7 + n))"
proof -
  have "length (decimal n) = 1" using assms by (subst decimal.simps) simp
  then show ?thesis
    by (simp add: calculate_object_hash_iff loose_object_def sample_crates_def sample_digest_def race_id_def
        del: length_0_conv)
qed

lemma race_simps [simp]:
  "co_info (race_obj n off dlt) = CI_BaseObject OT_Blob (race_id (7 + n))" "co_offset (race_obj n off dlt) = off"
  "co_info (race_delta m n base off) = CI_OffsetDelta base n" "co_offset (race_delta m n base off) = off"
  "base_object_hash (race_obj n off dlt) = Some (race_id (7 + n))"
  "base_object_hash (race_delta m n base off) = None"
  by (simp_all add: race_obj_def race_delta_def base_object_hash.simps)

lemma race_id_eq: "m < 256 \<Longrightarrow> n < 256 \<Longrightarrow> race_id m = race_id n \<longleftrightarrow> m = n"
  by (simp add: race_id_def byte_eq_iff unat_of_nat_byte)

lemma race_obj_eq: "race_obj m off dlt = race_obj n off' dlt' \<Longrightarrow> off = off'"
  by (drule arg_cong[where f = co_offset]) simp

lemma race_rebuild:
  assumes "delta_decode (co_data (race_delta m n base off)) (co_data (race_obj m off' dlt)) = Inr (replicate n 1)" "n < 10"
  shows "rebuild sample_crates (race_delta m n base off) (race_obj m off' dlt) = Inr (race_obj n off True)"
  using assms(1) race_hash[OF assms(2)]
  by (simp add: rebuild_def rebuild_delta_with_hash_def finish_rebuild_def race_obj_def race_delta_def
      base_object_hash.simps verify_known_hash_def race_id_def)

lemma race_rebuilds [simp]:
  "rebuild sample_crates (race_delta 2 3 12 20) (race_obj 2 12 False) = Inr (race_obj 3 20 True)"
  "rebuild sample_crates (race_delta 3 4 20 30) (race_obj 3 20 True) = Inr (race_obj 4 30 True)"
  "rebuild sample_crates (race_delta 3 5 20 40) (race_obj 3 20 True) = Inr (race_obj 5 40 True)"
  using race_decode by (intro race_rebuild; simp add: race_delta_def race_obj_def numeral_eq_Suc)+


lemma race_resolves_cases:
  assumes "resolves sample_crates race_pack x"
  shows "x \<in> {race_obj 2 12 False, race_obj 3 20 True, race_obj 4 30 True, race_obj 5 40 True}"
  using assms
proof (induction rule: resolves.induct)
  case (delta d k b obj)
  then show ?case by (auto simp: race_pack_def)
qed (auto simp: race_pack_def)

lemma race_resolves:
  "resolves sample_crates race_pack (race_obj 2 12 False)" "resolves sample_crates race_pack (race_obj 3 20 True)"
  "resolves sample_crates race_pack (race_obj 4 30 True)" "resolves sample_crates race_pack (race_obj 5 40 True)"
proof -
  show 1: "resolves sample_crates race_pack (race_obj 2 12 False)"
    by (rule resolves.base) (simp_all add: race_pack_def)
  show 2: "resolves sample_crates race_pack (race_obj 3 20 True)"
    by (rule resolves.delta[where k = "K_Offset 12", OF _ _ 1 _ race_rebuilds(1)]) (simp_all add: race_pack_def)
  show "resolves sample_crates race_pack (race_obj 4 30 True)"
    by (rule resolves.delta[where k = "K_Offset 20", OF _ _ 2 _ race_rebuilds(2)]) (simp_all add: race_pack_def)
  show "resolves sample_crates race_pack (race_obj 5 40 True)"
    by (rule resolves.delta[where k = "K_Offset 20", OF _ _ 2 _ race_rebuilds(3)]) (simp_all add: race_pack_def)
qed

lemma race_pack_ok: "pack_ok sample_crates race_pack"
  unfolding pack_ok_def
proof (intro conjI allI impI ballI)
  show "distinct (map co_offset race_pack)" by (simp add: race_pack_def)
next
  fix x y
  assume "resolves sample_crates race_pack x" "resolves sample_crates race_pack y" "base_object_hash x = base_object_hash y"
  then show "co_offset x = co_offset y"
    using race_resolves_cases[of x] race_resolves_cases[of y] by (auto simp: race_id_eq)
next
  fix e
  assume "e \<in> set race_pack"
  then show "\<exists>x. resolves sample_crates race_pack x \<and> co_offset x = co_offset e"
    using race_resolves unfolding race_pack_def by fastforce
qed

lemma race_retention_for: "retention_for race_pack race_retention"
  unfolding retention_for_def
proof (intro conjI allI)
  show "retention_wf race_retention" by (simp add: retention_wf_def race_retention_def)
  show "dep_count k race_retention = length (filter (\<lambda>d. key_of (co_info d) = Some k) race_pack)" for k
    by (cases k) (auto simp: race_retention_def race_pack_def)
qed

section \<open>A lost wake-up\<close>

definition race_schedule :: "nat option list" where
  "race_schedule = [None, Some 0, Some 0, Some 0, Some 0, None, None, None, Some 2, Some 0, Some 2, Some 2,
     Some 2, Some 2, Some 2, Some 2, Some 2, Some 0, Some 0, Some 1, Some 0, Some 1, Some 0, Some 0, Some 0, Some 0, Some 0]"

lemma race_run:
  "\<exists>s. run_schedule race_params race_schedule (decode_init race_pack None (Some race_retention)) = Some s \<and>
     finished s \<and> ds_error s = None \<and> ds_waitlist s = \<lparr>map_offset = [(20, [race_delta 3 5 20 40])], map_ref = []\<rparr> \<and>
     race_obj 5 40 True \<notin> set (ds_done s)"
  unfolding race_schedule_def
  by (simp add: decode_init_def race_pack_def reader_step_def race_params_def race_retention_def spawn_def pick_task_def
      Let_def should_skip_no_callback_object_def should_drop_no_callback_base_def should_retain_def run_callback_def
      to_entry_metadata_def cache_insert_def Caches_new_def is_unbounded_def take_by_offset_def take_by_ref_def
      Waitlist_new_def process_waitlist_objects_def get_by_offset_def try_get_def consume_dependency_def
      retention_ops maybe_remove_released_base_def remove_unbounded_def insert_offset_def push_waiter_def
      race_id_eq finished_def) (auto dest: race_obj_eq)

section \<open>Properties\<close>

text \<open>C14: every run of the decoder ends, and where it can wait.  Whatever the interleaving of the reading loop,
  which waits before each entry while the queue of the pool is longer than its limit or more memory than
  the limit is in use, and of the worker threads, at most sixteen steps per entry are made.  Without a memory
  limit a finished state can be reached from every state.  With one, the only state in which nobody can go
  on before the end is that of an idle pool and a reading loop that waits for memory, which nobody will free.
  Every paced run is a run of the machine without the waiting, so that what holds of all finished runs holds of
  these.  A section under a lock is one step: the order in which locks are taken is not part of the
  statement.\<close>

theorem decode_terminates:
  assumes "\<forall>s. queued_count s \<le> length (ds_pool s)"
    and "(paced_step p queued_count memory_used mem_limit ^^ n) (decode_init objs mem_size retention) s"
  shows "n \<le> 16 * length objs \<and> (decode_step p)\<^sup>*\<^sup>* (decode_init objs mem_size retention) s \<and>
    (mem_limit = None \<longrightarrow> (\<exists>s'. (paced_step p queued_count memory_used mem_limit)\<^sup>*\<^sup>* s s' \<and> finished s')) \<and>
    (\<not> finished s \<and> (\<nexists>s'. paced_step p queued_count memory_used mem_limit s s') \<longrightarrow>
       ds_pool s = [] \<and> \<not> is_unbounded (ds_caches s) \<and> (\<exists>limit. mem_limit = Some limit \<and> limit < memory_used s))"
proof (intro conjI impI)
  let ?step = "paced_step p queued_count memory_used mem_limit" and ?s0 = "decode_init objs mem_size retention"
  have "(decode_step p ^^ n) ?s0 s" using assms(2) by (rule relpowp_mono[rotated]) (rule paced_decode)
  moreover have "work_left ?s0 = 16 * length objs"
    by (simp add: decode_init_def Waitlist_new_def work_left_def all_waiting_def)
  ultimately have bound: "n + work_left s \<le> 16 * length objs" "waitlist_distinct (ds_waitlist s)"
    using work_left_steps[of n p ?s0 s] init_waitlist by auto
  then show "n \<le> 16 * length objs" by simp
  show "(decode_step p)\<^sup>*\<^sup>* ?s0 s" by (rule paced_decodes) (rule relpowp_imp_rtranclp[OF assms(2)])
  show "\<exists>s'. ?step\<^sup>*\<^sup>* s s' \<and> finished s'" if "mem_limit = None" using paced_finishes[OF that assms(1) bound(2)] .
  assume stuck: "\<not> finished s \<and> (\<nexists>s'. ?step s s')"
  show "ds_pool s = []" "\<not> is_unbounded (ds_caches s)" "\<exists>limit. mem_limit = Some limit \<and> limit < memory_used s"
    using paced_progress[of queued_count s p memory_used mem_limit] stuck assms(1) by blast+
qed

theorem decode_terminates_witness:
  "\<exists>s. (paced_step race_params (\<lambda>s. length (ds_pool s)) (\<lambda>_. 0) None)\<^sup>*\<^sup>* (decode_init race_pack None (Some race_retention)) s \<and> finished s"
  using decode_terminates[where queued_count = "\<lambda>s. length (ds_pool s)" and n = 0 and p = race_params and memory_used = "\<lambda>_. 0"
      and mem_limit = None and s = "decode_init race_pack None (Some race_retention)" and objs = race_pack
      and mem_size = None and retention = "Some race_retention"]
  by simp

text \<open>C4: every run resolves the whole pack.  For a pack whose entries start at different offsets, have
  different ids and can be resolved inside the pack, decoded without skipping and either without
  dependency counts (streaming) or with a memory-limited cache: a finished state is reachable, and in
  every finished state, whatever the schedule, the objects resolved are exactly those that the pack
  specifies, one for each entry; the callback has received each of them exactly once; no waiter is
  left, no error or panic occurred and the final checks succeed.\<close>

theorem decode_resolves_pack:
  assumes "pack_ok (dp_crates p) objs" "\<not> dp_skip_unneeded p" "retention = None \<or> mem_size \<noteq> None"
    "\<forall>r. retention = Some r \<longrightarrow> retention_for objs r"
  shows "(\<exists>s. (decode_step p)\<^sup>*\<^sup>* (decode_init objs mem_size retention) s \<and> finished s) \<and>
    (\<forall>s. (decode_step p)\<^sup>*\<^sup>* (decode_init objs mem_size retention) s \<and> finished s \<longrightarrow>
       set (ds_done s) = Collect (resolves (dp_crates p) objs) \<and>
       mset (map co_offset (ds_done s)) = mset (map co_offset objs) \<and>
       (dp_callback p \<longrightarrow> mset (map Inr (ds_emitted s)) = mset (map to_entry_metadata (ds_done s))) \<and>
       decode_outcome hex (length objs) s = Inr (cache_clear (ds_caches s)))"
  using decode_finishes[OF init_waitlist] decode_complete[OF assms(1-3)] assms(4) by blast

theorem decode_resolves_pack_witness:
  "\<exists>s. (decode_step race_params)\<^sup>*\<^sup>* (decode_init race_pack (Some 1000) (Some race_retention)) s \<and> finished s \<and>
     mset (map Inr (ds_emitted s)) = mset (map to_entry_metadata (ds_done s)) \<and>
     mset (map co_offset (ds_done s)) = {#12, 20, 30, 40#}"
proof -
  have "pack_ok (dp_crates race_params) race_pack" "\<not> dp_skip_unneeded race_params" "dp_callback race_params"
    by (simp_all add: race_params_def race_pack_ok)
  moreover have "mset (map co_offset race_pack) = {#12, 20, 30, 40#}" by (simp add: race_pack_def)
  ultimately show ?thesis
    using decode_resolves_pack[of race_params race_pack "Some race_retention" "Some 1000" sample_hex_encode] race_retention_for by auto
qed

text \<open>C17: with dependency counts and no memory limit a wake-up can be lost.  There are a pack that meets
  every condition of the completeness theorem but the one on the cache, and a schedule after which the
  decoder rejects it as a thin pack: between the two look-ups of a waiting delta, the last other user of
  its base removes the base from the cache.\<close>

theorem decode_lost_wakeup:
  "\<exists>p objs retention s. pack_ok (dp_crates p) objs \<and> \<not> dp_skip_unneeded p \<and> retention_for objs retention \<and>
     (decode_step p)\<^sup>*\<^sup>* (decode_init objs None (Some retention)) s \<and> finished s \<and> ds_error s = None \<and>
     (\<exists>x. resolves (dp_crates p) objs x \<and> x \<notin> set (ds_done s)) \<and>
     (\<exists>msg. decode_outcome hex (length objs) s = Inl (GE_InvalidPackFile msg))"
proof -
  obtain s where s: "run_schedule race_params race_schedule (decode_init race_pack None (Some race_retention)) = Some s"
      "finished s" "ds_error s = None" "ds_waitlist s = \<lparr>map_offset = [(20, [race_delta 3 5 20 40])], map_ref = []\<rparr>"
      "race_obj 5 40 True \<notin> set (ds_done s)"
    using race_run by blast
  have "\<exists>msg. decode_outcome hex (length race_pack) s = Inl (GE_InvalidPackFile msg)"
    using s(3,4) by (simp add: decode_outcome_def Let_def)
  moreover have "pack_ok (dp_crates race_params) race_pack" "\<not> dp_skip_unneeded race_params"
      "resolves (dp_crates race_params) race_pack (race_obj 5 40 True)"
    using race_pack_ok race_resolves by (simp_all add: race_params_def)
  ultimately show ?thesis
    using s(2,3,5) run_schedule_steps[OF s(1)] race_retention_for by blast
qed

end
