(* ===== verification/Pack_Roundtrip.thy ===== *)
theory Pack_Roundtrip
  imports Pack_Encoder_Proofs Pack_Scan_Proofs Pack_Decode_Race
begin

text \<open>
  The encoder and the decoder together: the stream the encoder sends is read back entry by entry, every
  delta in it is resolved to the object it was made from, and the index file describes the same entries.
\<close>

section \<open>The objects read from a written pack\<close>

definition offset_of :: "bytes list \<Rightarrow> nat \<Rightarrow> nat" where
  "offset_of bss k = 12 + sum_list (map length (take k bss))"

lemma offset_of_Suc: "k < length bss \<Longrightarrow> offset_of bss (Suc k) = offset_of bss k + length (bss ! k)"
  by (simp add: offset_of_def take_Suc_conv_app_nth)

lemma offset_of_span: "j \<le> k \<Longrightarrow> offset_of bss j + byte_span bss j k = offset_of bss k"
proof -
  assume "j \<le> k"
  then have "take k bss = take j bss @ take (k - j) (drop j bss)" by (metis le_add_diff_inverse take_add)
  then show ?thesis by (simp add: offset_of_def byte_span_def)
qed

lemma offset_of_less:
  assumes "\<And>i. i < length bss \<Longrightarrow> bss ! i \<noteq> []" "j < k" "k \<le> length bss"
  shows "offset_of bss j < offset_of bss k"
proof -
  have "offset_of bss j < offset_of bss (Suc j)" using assms by (simp add: offset_of_Suc)
  also have "\<dots> \<le> offset_of bss k" using offset_of_span[of "Suc j" k bss] assms(2) by simp
  finally show ?thesis .
qed

lemma offset_of_bound: "k \<le> length bss \<Longrightarrow> offset_of bss k \<le> 12 + length (concat bss)"
  using offset_of_span[of k "length bss" bss] by (simp add: offset_of_def length_concat)

text \<open>The object with the id that its type and data determine.\<close>

definition object_id :: "Crates \<Rightarrow> HashKind \<Rightarrow> Entry \<Rightarrow> bool" where
  "object_id X kind e \<longleftrightarrow>
     calculate_object_hash_for_kind (x_digest X) kind (en_obj_type e) (en_data e) = Inr (en_hash e)"

definition is_entry :: "Entry \<Rightarrow> nat \<Rightarrow> CacheObject \<Rightarrow> bool" where
  "is_entry e off x \<longleftrightarrow> co_info x = CI_BaseObject (en_obj_type e) (en_hash e) \<and> co_data x = en_data e \<and> co_offset x = off"

definition is_delta_on :: "Entry \<Rightarrow> nat \<Rightarrow> Entry \<Rightarrow> nat \<Rightarrow> CacheObject \<Rightarrow> bool" where
  "is_delta_on b boff e off x \<longleftrightarrow> en_obj_type b = en_obj_type e \<and> (\<exists>n. co_info x = CI_OffsetDelta boff n) \<and>
     delta_of (en_data b) (en_data e) (co_data x) \<and> co_offset x = off \<and> co_known_hash x = None"

lemma read_written_entry:
  assumes zlib: "zlib_ok X" and written: "pack_written X es bss" and plain: "list_all plain_entry es"
    and ids: "list_all (object_id X kind) es" and small: "12 + length (concat bss) < 2 ^ 64" and k: "k < length es"
  shows "\<exists>x. (\<forall>s. decode_pack_object_with_kind X kind (offset_of bss k) (bss ! k @ s) =
        Inr ((Some x, offset_of bss (Suc k)), s)) \<and> co_crc32 x = x_crc X (bss ! k) \<and>
    (is_entry (es ! k) (offset_of bss k) x \<or>
     (\<exists>j < k. is_delta_on (es ! j) (offset_of bss j) (es ! k) (offset_of bss k) x))"
proof -
  let ?e = "es ! k" and ?off = "offset_of bss k"
  have len: "length bss = length es" and ne: "\<And>i. i < length bss \<Longrightarrow> bss ! i \<noteq> []"
    using written by (auto simp: pack_written_def)
  have e: "plain_entry ?e" "object_id X kind ?e" using plain ids k by (auto simp: list_all_length)
  have next_off: "?off + length (bss ! k) = offset_of bss (Suc k)" using k len by (simp add: offset_of_Suc)
  have "?off \<le> 12 + length (concat bss)" using offset_of_bound[of k bss] k len by simp
  then have off: "?off < 2 ^ 64" using small by (rule le_less_trans)
  from written k consider "written_whole X ?e (bss ! k)"
    | j where "j < k" "written_delta X (es ! j) (byte_span bss j k) ?e (bss ! k)"
    by (auto simp: pack_written_def)
  then show ?thesis
  proof cases
    case 1
    have "en_obj_type ?e \<in> {OT_Commit, OT_Tree, OT_Blob, OT_Tag}" "length (en_data ?e) < 2 ^ 63"
      using e(1) by (auto simp: plain_entry_def)
    from decode_encoded_base[OF zlib this, of None kind ?off] 1 e(2) next_off show ?thesis
      by (auto simp: written_whole_def object_id_def is_entry_def)
  next
    case 2
    then obtain delta c where d: "delta_of (en_data (es ! j)) (en_data ?e) delta" "length delta < length (en_data ?e)"
      "encode_one_object X (?e\<lparr>en_obj_type := OT_OffsetDelta, en_data := delta, en_chain_len := c\<rparr>)
         (Some (byte_span bss j k)) = Inr (bss ! k)" and t: "en_obj_type (es ! j) = en_obj_type ?e"
      by (auto simp: written_delta_def)
    let ?d = "?e\<lparr>en_obj_type := OT_OffsetDelta, en_data := delta, en_chain_len := c\<rparr>"
    have gap: "offset_of bss j + byte_span bss j k = ?off" using offset_of_span[of j k bss] 2(1) by simp
    moreover have "offset_of bss j < ?off" using offset_of_less[OF ne, of j k] 2(1) k len by simp
    ultimately have pos: "0 < byte_span bss j k" "byte_span bss j k \<le> ?off" "?off - byte_span bss j k = offset_of bss j"
      by linarith+
    have "plain_entry (es ! j)" using plain k 2(1) by (simp add: list_all_length)
    then have size_j: "length (en_data (es ! j)) < 2 ^ 64" by (simp add: plain_entry_def)
    have size_k: "length (en_data ?e) < 2 ^ 64" using e(1) by (simp add: plain_entry_def)
    obtain body where body: "delta = write_size_encoding (length (en_data (es ! j))) @ write_size_encoding (length (en_data ?e)) @ body"
      using d(1) by (auto simp: delta_of_def)
    have sz: "read_delta_object_size (en_data ?d) = Inr ((length (en_data (es ! j)), length (en_data ?e)), body)"
      using read_delta_object_size_write[OF size_j size_k] body by simp
    have small_delta: "length (en_data ?d) < 2 ^ 63" using d(2) e(1) by (simp add: plain_entry_def)
    have "en_obj_type ?d \<in> {OT_OffsetDelta, OT_OffsetZstdelta}" by simp
    from decode_encoded_delta[OF zlib this small_delta pos(1,2) off sz, of kind] d t 2(1) next_off pos(3) show ?thesis
      by (auto simp: is_delta_on_def offset_info_def)
  qed
qed

lemma read_written_objects:
  assumes "length objs = length bss"
    "\<And>k s. k < length bss \<Longrightarrow> decode_pack_object_with_kind X kind (offset_of bss k) (bss ! k @ s) =
       Inr ((Some (objs ! k), offset_of bss (Suc k)), s)"
  shows "i \<le> length bss \<Longrightarrow>
    read_objects X kind True streaming (length bss - i) i (offset_of bss i) (wr_at h fed (concat (drop i bss) @ s)) =
    Inr (drop i objs, wr_at h (fed @ concat (drop i bss)) s)"
proof (induction "length bss - i" arbitrary: i fed)
  case (Suc n)
  then have i: "i < length bss" and n: "n = length bss - Suc i" by simp_all
  let ?rest = "concat (drop (Suc i) bss) @ s"
  have drops: "drop i bss = bss ! i # drop (Suc i) bss" "drop i objs = objs ! i # drop (Suc i) objs"
    using i assms(1) by (simp_all add: Cons_nth_drop_Suc)
  have "wrapped (decode_pack_object_with_crc X kind (entry_options True streaming i) (offset_of bss i))
      (wr_at h fed (bss ! i @ ?rest)) = Inr ((Some (objs ! i), offset_of bss (Suc i)), wr_at h (fed @ bss ! i) ?rest)"
    using assms(2)[OF i] by (intro wrapped_at) (simp only: streaming_entry_options)
  moreover have "read_objects X kind True streaming n (Suc i) (offset_of bss (Suc i)) (wr_at h (fed @ bss ! i) ?rest) =
      Inr (drop (Suc i) objs, wr_at h ((fed @ bss ! i) @ concat (drop (Suc i) bss)) s)"
    using Suc.hyps(1)[of "Suc i" "fed @ bss ! i"] n i by simp
  ultimately show ?case
    unfolding drops Suc.hyps(2)[symmetric] by (simp add: check_offset_def get_at_def streaming_def)
qed (use assms(1) in simp)

text \<open>The objects of a pack whose entries are the given ones.\<close>

definition pack_objects :: "Entry list \<Rightarrow> bytes list \<Rightarrow> CacheObject list \<Rightarrow> bool" where
  "pack_objects es bss objs \<longleftrightarrow> length bss = length es \<and> length objs = length es \<and> (\<forall>i < length bss. bss ! i \<noteq> []) \<and>
     (\<forall>k < length es. is_entry (es ! k) (offset_of bss k) (objs ! k) \<or>
        (\<exists>j < k. is_delta_on (es ! j) (offset_of bss j) (es ! k) (offset_of bss k) (objs ! k)))"

lemma read_encoded_pack:
  assumes zlib: "zlib_ok X" and digest: "digest_ok (x_digest X)" and enc: "encoded_pack X kind es items pk"
    and plain: "list_all plain_entry es" and ids: "list_all (object_id X kind) es"
    and small: "length (concat (pk_sent pk)) < 2 ^ 64"
  shows "\<exists>objs. read_pack X kind True streaming (concat (pk_sent pk)) = Inr (objs, the (pk_final_hash pk)) \<and>
    pack_objects es (map fst items) objs \<and> map co_crc32 objs = map (x_crc X) (map fst items)"
proof -
  let ?bss = "map fst items" and ?body = "concat (map fst items)"
  obtain hdr where hdr: "encode_header (length es) = Inr hdr" and written: "pack_written X es ?bss"
    and fh: "pk_final_hash pk = Some (hash_of kind (x_digest X kind (hdr @ ?body)))"
    and stream: "pk_sent pk = [hdr] @ ?bss @ [as_ref (hash_of kind (x_digest X kind (hdr @ ?body)))]"
    using enc by (auto simp: encoded_pack_def Let_def)
  define sig where "sig = hash_of kind (x_digest X kind (hdr @ ?body))"
  have len: "length ?bss = length es" using written by (simp add: pack_written_def)
  have h: "hdr = PACK_MAGIC @ [0, 0, 0, 2] @ be_bytes 4 (length es)" "length es < 2 ^ 32"
    using hdr by (auto simp: encode_header_def Let_def split: if_splits)
  have "length hdr = 12" using h(1) by (simp add: PACK_MAGIC_def)
  then have fits: "12 + length ?body < 2 ^ 64" using small stream by simp
  have "\<forall>k. \<exists>x. k < length es \<longrightarrow> (\<forall>s. decode_pack_object_with_kind X kind (offset_of ?bss k) (?bss ! k @ s) =
        Inr ((Some x, offset_of ?bss (Suc k)), s)) \<and> co_crc32 x = x_crc X (?bss ! k) \<and>
    (is_entry (es ! k) (offset_of ?bss k) x \<or>
     (\<exists>j < k. is_delta_on (es ! j) (offset_of ?bss j) (es ! k) (offset_of ?bss k) x))"
    using read_written_entry[OF zlib written plain ids fits] by blast
  then obtain f where f: "\<And>k s. k < length es \<Longrightarrow> decode_pack_object_with_kind X kind (offset_of ?bss k) (?bss ! k @ s) =
        Inr ((Some (f k), offset_of ?bss (Suc k)), s)" "\<And>k. k < length es \<Longrightarrow> co_crc32 (f k) = x_crc X (?bss ! k)"
    "\<And>k. k < length es \<Longrightarrow> is_entry (es ! k) (offset_of ?bss k) (f k) \<or>
     (\<exists>j < k. is_delta_on (es ! j) (offset_of ?bss j) (es ! k) (offset_of ?bss k) (f k))"
    by metis
  define objs where "objs = map f [0..<length es]"
  have objs: "pack_objects es ?bss objs" using written f(3) by (auto simp: pack_objects_def pack_written_def objs_def)
  have wf: "hash_kind sig = kind" "wf_hash sig" using digest by (simp_all add: sig_def digest_ok_def)
  have pack: "concat (pk_sent pk) = hdr @ ?body @ as_ref sig" using stream by (simp add: sig_def)
  have "length objs = length ?bss" using len by (simp add: objs_def)
  moreover have "decode_pack_object_with_kind X kind (offset_of ?bss k) (?bss ! k @ s) =
       Inr ((Some (objs ! k), offset_of ?bss (Suc k)), s)" if "k < length ?bss" for k s
    using f(1)[of k s] that len by (simp add: objs_def)
  ultimately have "read_objects X kind True streaming (length ?bss - 0) 0 (offset_of ?bss 0) (wr_at None [] (concat (drop 0 ?bss) @ as_ref sig)) =
    Inr (drop 0 objs, wr_at None ([] @ concat (drop 0 ?bss)) (as_ref sig))"
    by (intro read_written_objects) simp_all
  then have "read_objects X kind True streaming (length es) 0 12 (wr_at None [] (?body @ as_ref sig)) =
      Inr (objs, wr_at None ?body (as_ref sig))"
    using len by (simp add: offset_of_def)
  then have "entries_read X kind True streaming (concat (pk_sent pk)) objs ?body sig"
    unfolding entries_read_def using h wf pack
    by (intro exI[of _ "length es"] exI[of _ hdr]) (simp add: check_header_iff)
  moreover have "hash_of kind (x_digest X kind (take (length (concat (pk_sent pk)) - hash_size kind) (concat (pk_sent pk)))) = sig"
    using wf unfolding pack by (simp add: wf_hash_def) (simp add: sig_def)
  ultimately have "read_pack X kind True streaming (concat (pk_sent pk)) = Inr (objs, sig)"
    unfolding read_pack_iff[OF zlib streaming_reads_all] by (auto simp: streaming_def)
  moreover have "map co_crc32 objs = map (x_crc X) ?bss" using f(2) len by (intro nth_equalityI) (simp_all add: objs_def)
  ultimately show ?thesis using objs fh by (auto simp: sig_def)
qed

section \<open>Every entry resolves to its object\<close>

definition good_entry :: "Crates \<Rightarrow> HashKind \<Rightarrow> Entry \<Rightarrow> bool" where
  "good_entry X kind e \<longleftrightarrow> plain_entry e \<and> object_id X kind e \<and> hash_kind (en_hash e) = kind"

lemma good_entry_hash:
  assumes "digest_ok (x_digest X)" "good_entry X kind e"
  shows "hash_kind (en_hash e) = kind" "wf_hash (en_hash e)"
proof -
  obtain d where "en_hash e = hash_of kind (x_digest X kind d)"
    using assms(2) by (auto simp: good_entry_def object_id_def calculate_object_hash_iff)
  then show "hash_kind (en_hash e) = kind" "wf_hash (en_hash e)" using assms(1) by (simp_all add: digest_ok_def)
qed

lemma rebuild_entry:
  assumes "good_entry X kind b" "good_entry X kind e" "is_entry b boff x" "is_delta_on b boff e off d"
  shows "\<exists>y. rebuild X d x = Inr y \<and> is_entry e off y"
proof -
  have "length (en_data b) < 2 ^ 64" "length (en_data e) < 2 ^ 64"
    using assms(1,2) by (simp_all add: good_entry_def plain_entry_def)
  then have "delta_decode (co_data d) (en_data b) = Inr (en_data e)"
    using assms(4) delta_of_decode by (auto simp: is_delta_on_def)
  then show ?thesis
    using assms by (auto simp: is_delta_on_def is_entry_def rebuild_def rebuild_delta_with_hash_def
        finish_rebuild_def good_entry_def object_id_def base_object_hash.simps verify_known_hash_def)
qed

lemma pack_objects_offsets:
  assumes "pack_objects es bss objs" "j < length es" "k < length es" "offset_of bss j = offset_of bss k"
  shows "j = k"
proof -
  have "length bss = length es" "\<And>i. i < length bss \<Longrightarrow> bss ! i \<noteq> []" using assms(1) by (simp_all add: pack_objects_def)
  then have "\<not> j < k" "\<not> k < j" using assms(2-4) offset_of_less[of bss j k] offset_of_less[of bss k j] by auto
  then show ?thesis by simp
qed

lemma resolves_entry:
  assumes "pack_objects es bss objs" "list_all (good_entry X kind) es" "resolves X objs x"
  shows "\<exists>k < length es. is_entry (es ! k) (offset_of bss k) x"
  using assms(3)
proof (induction rule: resolves.induct)
  case (base b h)
  then obtain k where k: "k < length es" "b = objs ! k" using assms(1) by (metis in_set_conv_nth pack_objects_def)
  then show ?case using assms(1) base(2) by (auto simp: pack_objects_def is_delta_on_def base_object_hash.simps)
next
  case (delta d key b obj)
  then obtain k where k: "k < length es" "d = objs ! k" using assms(1) by (metis in_set_conv_nth pack_objects_def)
  then obtain j where j: "j < k" "is_delta_on (es ! j) (offset_of bss j) (es ! k) (offset_of bss k) d"
    using assms(1) delta(2) by (auto simp: pack_objects_def is_entry_def)
  obtain i where i: "i < length es" "is_entry (es ! i) (offset_of bss i) b" using delta.IH by blast
  have "offset_of bss i = offset_of bss j" using delta(2,4) j(2) i(2) by (auto simp: is_delta_on_def is_entry_def)
  then have "i = j" using pack_objects_offsets[OF assms(1)] i(1) j(1) k(1) by simp
  moreover have "good_entry X kind (es ! j)" "good_entry X kind (es ! k)"
    using assms(2) i(1) k(1) \<open>i = j\<close> by (simp_all add: list_all_length)
  ultimately show ?case using rebuild_entry[of X kind "es ! j" "es ! k"] i(2) j(2) delta(5) k(1) by fastforce
qed

lemma entry_resolves:
  assumes "pack_objects es bss objs" "list_all (good_entry X kind) es"
  shows "k < length es \<Longrightarrow> \<exists>x. resolves X objs x \<and> is_entry (es ! k) (offset_of bss k) x"
proof (induction k rule: less_induct)
  case (less k)
  then have k: "objs ! k \<in> set objs" using assms(1) by (simp add: pack_objects_def)
  from less.prems assms(1) consider "is_entry (es ! k) (offset_of bss k) (objs ! k)"
    | j where "j < k" "is_delta_on (es ! j) (offset_of bss j) (es ! k) (offset_of bss k) (objs ! k)"
    by (auto simp: pack_objects_def)
  then show ?case
  proof cases
    case 1
    then show ?thesis using k by (auto simp: is_entry_def base_object_hash.simps intro!: exI[of _ "objs ! k"] resolves.base)
  next
    case 2
    then obtain b where b: "resolves X objs b" "is_entry (es ! j) (offset_of bss j) b"
      using less.IH[of j] less.prems by auto
    have "good_entry X kind (es ! j)" "good_entry X kind (es ! k)"
      using assms(2) 2(1) less.prems by (simp_all add: list_all_length)
    then obtain y where y: "rebuild X (objs ! k) b = Inr y" "is_entry (es ! k) (offset_of bss k) y"
      using rebuild_entry[OF _ _ b(2) 2(2)] by blast
    have "key_of (co_info (objs ! k)) = Some (K_Offset (offset_of bss j))" "has_key b (K_Offset (offset_of bss j))"
      using 2(2) b(2) by (auto simp: is_delta_on_def is_entry_def)
    then show ?thesis using resolves.delta[OF k _ b(1) _ y(1)] y(2) by blast
  qed
qed

lemma encoded_pack_ok:
  assumes "pack_objects es bss objs" "list_all (good_entry X kind) es" "distinct (map en_hash es)"
  shows "pack_ok X objs"
  unfolding pack_ok_def
proof (intro conjI allI impI ballI)
  have off: "co_offset (objs ! k) = offset_of bss k" if "k < length es" for k
    using assms(1) that by (auto simp: pack_objects_def is_entry_def is_delta_on_def)
  have len: "length objs = length es" using assms(1) by (simp add: pack_objects_def)
  show "distinct (map co_offset objs)"
    using pack_objects_offsets[OF assms(1)] off len by (auto simp: distinct_conv_nth)
  show "\<exists>x. resolves X objs x \<and> co_offset x = co_offset e" if "e \<in> set objs" for e
  proof -
    obtain k where k: "k < length es" "e = objs ! k" using \<open>e \<in> set objs\<close> len by (metis in_set_conv_nth)
    then show ?thesis using entry_resolves[OF assms(1,2) k(1)] off by (auto simp: is_entry_def)
  qed
  fix x y assume r: "resolves X objs x" "resolves X objs y" and h: "base_object_hash x = base_object_hash y"
  obtain j k where j: "j < length es" "is_entry (es ! j) (offset_of bss j) x"
    and k: "k < length es" "is_entry (es ! k) (offset_of bss k) y"
    using resolves_entry[OF assms(1,2)] r by blast
  have "en_hash (es ! j) = en_hash (es ! k)" using h j(2) k(2) by (simp add: is_entry_def base_object_hash.simps)
  then have "j = k" using assms(3) j(1) k(1) by (simp add: distinct_conv_nth) metis
  then show "co_offset x = co_offset y" using j(2) k(2) by (simp add: is_entry_def)
qed

lemma decode_encoded_pack:
  assumes "pack_objects es bss objs" "list_all (good_entry X kind) es" "distinct (map en_hash es)"
    "dp_crates p = X" "dp_callback p" "\<not> dp_skip_unneeded p"
    "(decode_step p)\<^sup>*\<^sup>* (decode_init objs mem_size None) s" "finished s"
  shows "decode_outcome hex (length objs) s = Inr (cache_clear (ds_caches s))"
    "mset (map me_inner (ds_emitted s)) = mset es"
proof -
  have ok: "pack_ok (dp_crates p) objs" using encoded_pack_ok[OF assms(1-3)] assms(4) by simp
  note complete = decode_complete[OF ok assms(6) _ _ assms(7,8), simplified]
  show "decode_outcome hex (length objs) s = Inr (cache_clear (ds_caches s))" by (rule complete(3))
  have plain: "en_chain_len (es ! k) = 0" if "k < length es" for k
    using assms(2) that by (simp add: list_all_length good_entry_def plain_entry_def)
  let ?inner = "\<lambda>x. me_inner (projr (to_entry_metadata x))"
  have inner: "?inner x = es ! k" if "is_entry (es ! k) off x" "k < length es" for x k off
    using that plain[of k] by (simp add: is_entry_def to_entry_metadata_def)
  have len: "length objs = length es" using assms(1) by (simp add: pack_objects_def)
  have emitted: "mset (map me_inner (ds_emitted s)) = mset (map ?inner (ds_done s))"
    using arg_cong[OF complete(4)[OF assms(5)], of "image_mset (\<lambda>m. me_inner (projr m))"]
    by (simp add: image_mset.compositionality comp_def)
  have off: "co_offset (objs ! k) = offset_of bss k" if "k < length es" for k
    using assms(1) that by (auto simp: pack_objects_def is_entry_def is_delta_on_def)
  have at: "?inner x = es ! (THE k. k < length es \<and> offset_of bss k = co_offset x)" if "x \<in> set (ds_done s)" for x
  proof -
    have "resolves X objs x" using complete(1) that assms(4) by simp
    then obtain k where k: "k < length es" "is_entry (es ! k) (offset_of bss k) x"
      using resolves_entry[OF assms(1,2)] by blast
    have "(THE k. k < length es \<and> offset_of bss k = co_offset x) = k"
      using k pack_objects_offsets[OF assms(1)] by (intro the_equality) (auto simp: is_entry_def)
    then show ?thesis using inner[OF k(2,1)] by simp
  qed
  let ?at = "\<lambda>off. es ! (THE k. k < length es \<and> offset_of bss k = off)"
  have "mset (map ?inner (ds_done s)) = mset (map (?at \<circ> co_offset) (ds_done s))"
    using at by (intro arg_cong[of _ _ mset] map_cong) simp_all
  also have "\<dots> = image_mset ?at (mset (map co_offset (ds_done s)))" by (simp add: image_mset.compositionality comp_def)
  also have "\<dots> = mset (map ?at (map co_offset objs))" 
    using arg_cong[OF complete(2), of "image_mset ?at"] by (simp add: image_mset.compositionality comp_def)
  also have "map ?at (map co_offset objs) = es"
  proof (rule nth_equalityI)
    fix k assume "k < length (map ?at (map co_offset objs))"
    then have k: "k < length es" using len by simp
    have "(THE i. i < length es \<and> offset_of bss i = offset_of bss k) = k"
      using k pack_objects_offsets[OF assms(1)] by (intro the_equality) auto
    then show "map ?at (map co_offset objs) ! k = es ! k" using k len off by simp
  qed (use len in simp)
  finally show "mset (map me_inner (ds_emitted s)) = mset es" using emitted by simp
qed

section \<open>Encoding and reading back\<close>

text \<open>What can be encoded: commits, trees, blobs and tags with correct and different ids of one kind.\<close>

definition encodable :: "Crates \<Rightarrow> HashKind \<Rightarrow> MetaAttached list \<Rightarrow> bool" where
  "encodable X kind ins \<longleftrightarrow> list_all (input_ok kind) ins \<and> list_all (object_id X kind \<circ> ma_inner) ins \<and>
     distinct (map (en_hash \<circ> ma_inner) ins) \<and> 0 < length ins \<and> length ins \<le> u32_max"

lemma pack_encode_read:
  assumes "zlib_ok X" "digest_ok (x_digest X)" "encodable X kind ins" "length ins + 2 \<le> accepts" "ev_pool_error ev = None"
  shows "\<exists>pk es items. pack_encode X ev cap ins (fresh_encoder kind (length ins) w accepts ia) = Some (Inr pk) \<and>
    mset es = mset (map ma_inner ins) \<and> list_all (good_entry X kind) es \<and> distinct (map en_hash es) \<and>
    encoded_pack X kind es items pk \<and> pk_object_number pk = length ins \<and> pk_idx_sender pk = ia \<and>
    (length (concat (pk_sent pk)) < 2 ^ 64 \<longrightarrow>
      (\<exists>objs. read_pack X kind True streaming (concat (pk_sent pk)) = Inr (objs, the (pk_final_hash pk)) \<and>
         pack_objects es (map fst items) objs \<and> map co_crc32 objs = map (x_crc X) (map fst items)))"
proof -
  have ins: "list_all (input_ok kind) ins" "list_all (object_id X kind \<circ> ma_inner) ins"
      "distinct (map (en_hash \<circ> ma_inner) ins)" "0 < length ins" "length ins \<le> u32_max"
    using assms(3) by (simp_all add: encodable_def)
  obtain pk es items where enc:
      "pack_encode X ev cap ins (fresh_encoder kind (length ins) w accepts ia) = Some (Inr pk)"
      "mset es = mset (map ma_inner ins)" "encoded_pack X kind es items pk" "pk_object_number pk = length ins"
      "pk_idx_sender pk = ia"
    using pack_encode_ok[OF ins(1) refl ins(4,5) assms(4,5)] by blast
  have es: "set es = ma_inner ` set ins" using enc(2) by (metis set_map set_mset_mset)
  have plain: "list_all plain_entry es" and ids: "list_all (object_id X kind) es" and good: "list_all (good_entry X kind) es"
    using ins(1,2) by (auto simp: es list_all_iff input_ok_def good_entry_def)
  have "mset (map en_hash es) = mset (map (en_hash \<circ> ma_inner) ins)"
    using enc(2) by (simp add: image_mset.compositionality)
  then have "distinct (map en_hash es)" using ins(3) by (metis mset_eq_imp_distinct_iff)
  then show ?thesis using enc good read_encoded_pack[OF assms(1,2) enc(3) plain ids] by blast
qed

section \<open>The index of a written pack\<close>

lemma length_indexed [simp]: "length (indexed X off items) = length items"
  by (induction X off items rule: indexed.induct) simp_all

lemma nth_indexed:
  "k < length items \<Longrightarrow> indexed X off items ! k = (snd (items ! k))
     \<lparr>IdxEntry.ie_offset := off + sum_list (map length (take k (map fst items))), ie_crc32 := x_crc X (fst (items ! k))\<rparr>"
  by (induction X off items arbitrary: k rule: indexed.induct) (auto simp: nth_Cons' take_Cons' algebra_simps)

lemma indexed_fields:
  assumes "map (IdxEntry.ie_hash \<circ> snd) items = map en_hash es"
  shows "map IdxEntry.ie_hash (indexed X 12 items) = map en_hash es"
    "map IdxEntry.ie_offset (indexed X 12 items) = map (offset_of (map fst items)) [0..<length items]"
    "map IdxEntry.ie_crc32 (indexed X 12 items) = map (x_crc X) (map fst items)"
proof -
  show "map IdxEntry.ie_hash (indexed X 12 items) = map en_hash es"
    unfolding assms[symmetric] by (rule nth_equalityI) (simp_all add: nth_indexed)
qed (rule nth_equalityI; simp add: nth_indexed offset_of_def)+

lemma sort_key_again:
  assumes "sorted (map f xs)" "distinct (map f xs)" "map g ys = xs"
  shows "sort_key f (map g (sort_key h ys)) = xs"
proof (rule map_sorted_distinct_set_unique[of f])
  have m: "mset (sort_key f (map g (sort_key h ys))) = mset xs" using assms(3) by auto
  then have s: "set (sort_key f (map g (sort_key h ys))) = set xs" by (metis set_mset_mset)
  then show "set (sort_key f (map g (sort_key h ys))) = set xs" .
  show "inj_on f (set (sort_key f (map g (sort_key h ys))) \<union> set xs)" using s assms(2) by (simp add: distinct_map)
  show "distinct (map f (sort_key f (map g (sort_key h ys))))"
    using m assms(2) by (metis mset_eq_imp_distinct_iff mset_map)
qed (use assms in simp_all)

lemma written_index:
  assumes digest: "digest_ok (x_digest X)" and crc: "\<forall>bs. x_crc X bs < 2 ^ 32"
    and enc: "encoded_pack X kind es items pk" and good: "list_all (good_entry X kind) es"
    and ids: "distinct (map en_hash es)" and pk: "pk_object_number pk = length es" "pk_idx_sender pk = Some ia"
    and room: "length es < 2 ^ 31" "4 * length es + 258 < ia" and small: "length (concat (pk_sent pk)) < 2 ^ 64"
  shows "\<exists>msgs parsed. encode_idx_file X pk = Inr (msgs, pk\<lparr>pk_idx_sender := None\<rparr>) \<and>
    parse_index X kind (concat msgs) = Inr (parsed, True) \<and> Some (idx_pack_hash parsed) = pk_final_hash pk \<and>
    objects_by_offset parsed = map (\<lambda>e. (IdxEntry.ie_offset e, IdxEntry.ie_hash e, ie_crc32 e)) (indexed X 12 items)"
proof -
  let ?ies = "indexed X 12 items" and ?bss = "map fst items"
  let ?es = "sort_key IdxEntry.ie_hash ?ies"
  obtain hdr fh where written: "pack_written X es ?bss" and hs: "map (IdxEntry.ie_hash \<circ> snd) items = map en_hash es"
    and fh: "pk_final_hash pk = Some fh" "fh = hash_of kind (x_digest X kind (hdr @ concat ?bss))"
    and stream: "pk_sent pk = [hdr] @ ?bss @ [as_ref fh]" and ies: "pk_idx_entries pk = Some ?ies"
    and hdr: "encode_header (length es) = Inr hdr"
    using enc by (auto simp: encoded_pack_def Let_def)
  note fields = indexed_fields[OF hs, of X]
  have len: "length ?bss = length es" and ne: "\<And>i. i < length ?bss \<Longrightarrow> ?bss ! i \<noteq> []"
    using written by (auto simp: pack_written_def)
  have wf_fh: "hash_kind fh = kind" "wf_hash fh" using digest fh(2) by (simp_all add: digest_ok_def)
  have fits: "12 + length (concat ?bss) < 2 ^ 64"
    using small stream hdr by (auto simp: encode_header_def PACK_MAGIC_def Let_def split: if_splits)
  have off: "offset_of ?bss k < 2 ^ 64" if "k \<le> length ?bss" for k
    by (rule le_less_trans[OF offset_of_bound[OF that] fits])
  have wf: "wf_entry kind e" if e: "e \<in> set ?ies" for e
  proof -
    obtain k where k: "k < length items" "e = ?ies ! k" using e unfolding in_set_conv_nth length_indexed by blast
    have "IdxEntry.ie_hash e = en_hash (es ! k)"
      using arg_cong[OF fields(1), of "\<lambda>xs. xs ! k"] k len by simp
    moreover have "good_entry X kind (es ! k)" using good k len by (simp add: list_all_length)
    ultimately have "hash_kind (IdxEntry.ie_hash e) = kind" "wf_hash (IdxEntry.ie_hash e)"
      using good_entry_hash[OF digest] by simp_all
    then show ?thesis using k crc off[of k] by (simp add: wf_entry_def nth_indexed offset_of_def)
  qed
  have d_hash: "distinct (map IdxEntry.ie_hash ?ies)" using ids fields(1) by simp
  have lt: "offset_of ?bss i < offset_of ?bss j" if "i < j" "j < length items" for i j
    using offset_of_less[OF ne, of i j] that by simp
  then have s_off: "sorted (map IdxEntry.ie_offset ?ies)" and d_off: "distinct (map IdxEntry.ie_offset ?ies)"
    unfolding fields(2) using strict_sorted_iff[of "map (offset_of ?bss) [0..<length items]"]
    by (auto simp: sorted_wrt_iff_nth_less)
  have "length (idx_messages fh ?es) \<le> 258 + 4 * length es"
    using fanout_table_props(1)[of ?es] len length_filter_le[of "\<lambda>x. \<not> x \<le> 0x7FFFFFFF" "map IdxEntry.ie_offset ?es"]
    by (simp add: idx_messages_def)
  then have acc: "length (idx_messages fh ?es) < ia" using room by simp
  have n: "length ?ies < 2 ^ 31" "length ?ies = pk_object_number pk" using room(1) len pk(1) by simp_all
  let ?ms = "idx_messages fh ?es"
  obtain b where b: "write_idx (x_digest X) ?ies (IdxBuilder_new (length ?ies) ia fh) =
      Inr (?ms @ [x_digest X kind (concat ?ms)], b)"
    using write_idx_messages[OF n(1) acc, of "x_digest X"] wf wf_fh by (auto simp: wf_entry_def)
  have idx_file: "encode_idx_file X pk = Inr (?ms @ [x_digest X kind (concat ?ms)], pk\<lparr>pk_idx_sender := None\<rparr>)"
    using b n(2) fh(1) ies pk by (simp add: encode_idx_file_def generate_idx_file_def)
  let ?parsed = "\<lparr>idx_entries = ?es, idx_pack_hash = fh, idx_hash = hash_of kind (x_digest X kind (concat ?ms))\<rparr>"
  let ?data = "concat ?ms @ x_digest X kind (concat ?ms)"
  have "distinct (map IdxEntry.ie_offset ?es)" using d_off by (simp add: distinct_map)
  moreover have strict: "sorted_wrt (<) (map (as_ref \<circ> IdxEntry.ie_hash) ?es)"
    using wf by (intro sort_key_strict[OF d_hash]) (auto simp: wf_entry_def)
  ultimately have "parse_idx_v2 (x_digest X) ?data kind = Inr ?parsed"
    using parse_idx_messages[OF digest _ wf_fh(2,1) strict] wf n(1) by simp
  moreover have "read_exact 4 ?data = Inr (be_bytes 4 IDX_MAGIC, drop 4 ?data)"
    by (simp add: idx_messages_def read_exact_def IDX_MAGIC_def be_bytes_4)
  ultimately have "parse_index X kind ?data = Inr (?parsed, True)"
    by (simp add: parse_index_def parse_idx_v2_def)
  moreover have "objects_by_offset ?parsed = map (\<lambda>e. (IdxEntry.ie_offset e, IdxEntry.ie_hash e, ie_crc32 e)) ?ies"
    unfolding objects_by_offset_def by (simp, rule sort_key_again) (use s_off d_off in \<open>simp_all add: comp_def\<close>)
  ultimately show ?thesis using idx_file fh(1) by (intro exI[of _ "?ms @ [x_digest X kind (concat ?ms)]"] exI[of _ ?parsed]) simp
qed

section \<open>An example\<close>

definition sample_input :: "nat \<Rightarrow> MetaAttached" where
  "sample_input n = \<lparr>ma_inner = \<lparr>en_obj_type = OT_Blob, en_data = replicate n 1, en_hash = race_id (7 + n), en_chain_len = 0\<rparr>,
     ma_file_path = None\<rparr>"

definition sample_env :: EncodeEnv where
  "sample_env = \<lparr>ev_engines = sample_engines, ev_num_threads = 2, ev_pool_error = None\<rparr>"

definition plain_crates :: Crates where
  "plain_crates = sample_crates\<lparr>x_crc := \<lambda>_. 0\<rparr>"

lemma plain_crates_ok: "zlib_ok plain_crates" "digest_ok (x_digest plain_crates)"
  using sample_crates_ok by (simp_all add: plain_crates_def zlib_ok_def sample_crates_def sample_digest_ok)

lemma sample_inputs_ok:
  "list_all (input_ok KSha1) [sample_input 3, sample_input 2]"
  "distinct (map (en_hash \<circ> ma_inner) [sample_input 3, sample_input 2])"
  by (simp_all add: sample_input_def input_ok_def plain_entry_def race_id_eq) (simp_all add: race_id_def)

lemma length_sample_deflate: "length (sample_deflate d) = 2 * length d + 1"
  by (induction d) simp_all

lemma sample_written:
  assumes "written_whole plain_crates (ma_inner (sample_input n)) bs" "n < 16"
  shows "length bs = 2 * n + 3"
proof -
  have "drop_bit 4 n = 0" using assms(2) by (simp add: drop_bit_eq_div)
  then show ?thesis
    using assms(1) by (auto simp: written_whole_def encode_one_object_def sample_input_def plain_crates_def
        sample_crates_def
        to_pack_type_u8_def entry_header_def entry_offset_bytes_def length_sample_deflate)
qed

lemma sample_encoded_size:
  assumes "pack_encode plain_crates sample_env 0 [sample_input 3, sample_input 2]
     (new_with_idx_and_hash_kind KSha1 2 0 4 ia) = Some (Inr pk)"
  shows "length (concat (pk_sent pk)) < 2 ^ 64"
proof -
  let ?ins = "[sample_input 3, sample_input 2]"
  have "length ?ins = 2" by simp
  from parallel_encode_ok[OF sample_inputs_ok(1) this, of 4 _ "Some ia" plain_crates 0] assms
  obtain items where items: "encoded_pack plain_crates KSha1 (map ma_inner ?ins) items pk"
    "list_all2 (\<lambda>e bs. written_whole plain_crates e bs \<and> bs \<noteq> []) (map ma_inner ?ins) (map fst items)"
    by (auto simp: pack_encode_def constructors_fresh(2) fresh_encoder_def new_with_hash_kind_def)
  obtain b c where "map fst items = [b, c]" "written_whole plain_crates (ma_inner (sample_input 3)) b"
    "written_whole plain_crates (ma_inner (sample_input 2)) c"
    using items(2) by (auto simp: list_all2_Cons1)
  then have "length (concat (map fst items)) = 16" using sample_written by simp
  then show ?thesis
    using items(1) by (auto simp: encoded_pack_def encode_header_def PACK_MAGIC_def Let_def plain_crates_def sample_crates_def
        sample_digest_def split: if_splits)
qed

lemma sample_encodable: "encodable plain_crates KSha1 [sample_input 3, sample_input 2]"
  using sample_inputs_ok race_hash[of 3] race_hash[of 2]
  by (simp add: encodable_def object_id_def sample_input_def plain_crates_def)

lemma sample_encode_conditions:
  "length [sample_input 3, sample_input 2] = 2" "length [sample_input 3, sample_input 2] + 2 \<le> 4"
  "ev_pool_error sample_env = None"
  by (simp_all add: sample_env_def)

lemma encode_decode_all:
  assumes "zlib_ok X" "digest_ok (x_digest X)" "encodable X kind ins" "length ins + 2 \<le> accepts"
    "ev_pool_error ev = None" "dp_crates p = X" "dp_callback p" "\<not> dp_skip_unneeded p"
  shows "\<exists>pk. pack_encode X ev cap ins (fresh_encoder kind (length ins) w accepts ia) = Some (Inr pk) \<and>
    (length (concat (pk_sent pk)) < 2 ^ 64 \<longrightarrow>
      (\<exists>objs. read_pack X kind True streaming (concat (pk_sent pk)) = Inr (objs, the (pk_final_hash pk)) \<and>
         length objs = length ins \<and>
         (\<exists>s. (decode_step p)\<^sup>*\<^sup>* (decode_init objs mem_size None) s \<and> finished s) \<and>
         (\<forall>s. (decode_step p)\<^sup>*\<^sup>* (decode_init objs mem_size None) s \<and> finished s \<longrightarrow>
            decode_outcome hex (length objs) s = Inr (cache_clear (ds_caches s)) \<and>
            mset (map me_inner (ds_emitted s)) = mset (map ma_inner ins))))"
proof -
  obtain pk es items where enc:
      "pack_encode X ev cap ins (fresh_encoder kind (length ins) w accepts ia) = Some (Inr pk)"
      "mset es = mset (map ma_inner ins)" "list_all (good_entry X kind) es" "distinct (map en_hash es)"
      "encoded_pack X kind es items pk"
    and objs: "length (concat (pk_sent pk)) < 2 ^ 64 \<longrightarrow>
      (\<exists>objs. read_pack X kind True streaming (concat (pk_sent pk)) = Inr (objs, the (pk_final_hash pk)) \<and>
         pack_objects es (map fst items) objs \<and> map co_crc32 objs = map (x_crc X) (map fst items))"
    using pack_encode_read[OF assms(1-5), of cap w ia] by blast
  have len: "length es = length ins" using enc(2) by (metis length_map size_mset)
  have "length objs = length ins \<and>
      (\<exists>s. (decode_step p)\<^sup>*\<^sup>* (decode_init objs mem_size None) s \<and> finished s) \<and>
      (\<forall>s. (decode_step p)\<^sup>*\<^sup>* (decode_init objs mem_size None) s \<and> finished s \<longrightarrow>
         decode_outcome hex (length objs) s = Inr (cache_clear (ds_caches s)) \<and>
         mset (map me_inner (ds_emitted s)) = mset (map ma_inner ins))"
    if po: "pack_objects es (map fst items) objs" for objs
    using decode_finishes[OF init_waitlist] decode_encoded_pack[OF po enc(3,4) assms(6-8)] enc(2) len po
    by (auto simp: pack_objects_def)
  then show ?thesis using enc(1) objs by blast
qed

section \<open>Properties\<close>

text \<open>C1: what the encoder writes, the decoder reads.  Any non-empty list of commits, trees, blobs and tags with
  correct and different ids, in any order and with any window, is encoded without error, with or without
  delta compression.  The stream it sends is accepted by the reading loop of the decoder (header, entries,
  trailer hash), which yields one entry per object.  From there some run of the thread pool finishes, and
  every finished run, whatever the interleaving and the cache limit, has handed exactly the given
  objects to the callback, each of them once, and ends without error.\<close>

theorem pack_encode_decode:
  assumes "zlib_ok X" "digest_ok (x_digest X)" "encodable X kind ins" "length ins + 2 \<le> accepts"
    "ev_pool_error ev = None" "dp_crates p = X" "dp_callback p" "\<not> dp_skip_unneeded p"
  shows "\<exists>pk. pack_encode X ev cap ins (new_with_idx_and_hash_kind kind (length ins) w accepts ia) = Some (Inr pk) \<and>
    (length (concat (pk_sent pk)) < 2 ^ 64 \<longrightarrow>
      (\<exists>objs. read_pack X kind True streaming (concat (pk_sent pk)) = Inr (objs, the (pk_final_hash pk)) \<and>
         length objs = length ins \<and>
         (\<exists>s. (decode_step p)\<^sup>*\<^sup>* (decode_init objs mem_size None) s \<and> finished s) \<and>
         (\<forall>s. (decode_step p)\<^sup>*\<^sup>* (decode_init objs mem_size None) s \<and> finished s \<longrightarrow>
            decode_outcome hex (length objs) s = Inr (cache_clear (ds_caches s)) \<and>
            mset (map me_inner (ds_emitted s)) = mset (map ma_inner ins))))"
  unfolding constructors_fresh using encode_decode_all[OF assms] by blast

theorem pack_encode_decode_witness:
  "\<exists>pk objs s. pack_encode plain_crates sample_env 0 [sample_input 3, sample_input 2]
       (new_with_idx_and_hash_kind KSha1 2 0 4 0) = Some (Inr pk) \<and>
     read_pack plain_crates KSha1 True streaming (concat (pk_sent pk)) = Inr (objs, the (pk_final_hash pk)) \<and>
     (decode_step (race_params\<lparr>dp_crates := plain_crates\<rparr>))\<^sup>*\<^sup>* (decode_init objs (Some 100) None) s \<and> finished s \<and>
     mset (map me_inner (ds_emitted s)) = {#ma_inner (sample_input 3), ma_inner (sample_input 2)#}"
proof -
  let ?ins = "[sample_input 3, sample_input 2]" and ?p = "race_params\<lparr>dp_crates := plain_crates\<rparr>"
  have p: "dp_crates ?p = plain_crates" "dp_callback ?p" "\<not> dp_skip_unneeded ?p" by (simp_all add: race_params_def)
  from pack_encode_decode[OF plain_crates_ok sample_encodable sample_encode_conditions(2,3) p,
      of 0 0 0 "Some 100" "x_hex plain_crates"]
  obtain pk where pk: "pack_encode plain_crates sample_env 0 ?ins (new_with_idx_and_hash_kind KSha1 2 0 4 0) = Some (Inr pk)"
    and rt: "length (concat (pk_sent pk)) < 2 ^ 64 \<longrightarrow>
      (\<exists>objs. read_pack plain_crates KSha1 True streaming (concat (pk_sent pk)) = Inr (objs, the (pk_final_hash pk)) \<and>
         length objs = length ?ins \<and>
         (\<exists>s. (decode_step ?p)\<^sup>*\<^sup>* (decode_init objs (Some 100) None) s \<and> finished s) \<and>
         (\<forall>s. (decode_step ?p)\<^sup>*\<^sup>* (decode_init objs (Some 100) None) s \<and> finished s \<longrightarrow>
            decode_outcome (x_hex plain_crates) (length objs) s = Inr (cache_clear (ds_caches s)) \<and>
            mset (map me_inner (ds_emitted s)) = mset (map ma_inner ?ins)))"
    unfolding sample_encode_conditions(1) by blast
  obtain objs s where "read_pack plain_crates KSha1 True streaming (concat (pk_sent pk)) = Inr (objs, the (pk_final_hash pk))"
      "(decode_step ?p)\<^sup>*\<^sup>* (decode_init objs (Some 100) None) s" "finished s"
      "mset (map me_inner (ds_emitted s)) = mset (map ma_inner ?ins)"
    using rt sample_encoded_size[OF pk] by blast
  then show ?thesis using pk by (intro exI[of _ pk] exI[of _ objs] exI[of _ s]) simp
qed

text \<open>C8: the index the encoder writes describes the pack it wrote.  With room in the index channel, the
  index file is generated and parsed back without error and names the checksum of the pack.  Listed by
  offset, its entries are exactly the entries that the decoder reads from the pack: the same offsets in
  the same order, the CRC-32 of their bytes, and for each the id of the object that the entry resolves
  to inside the pack.\<close>

theorem pack_encode_index:
  assumes "zlib_ok X" "digest_ok (x_digest X)" "\<forall>bs. x_crc X bs < 2 ^ 32" "encodable X kind ins"
    "length ins + 2 \<le> accepts" "ev_pool_error ev = None" "length ins < 2 ^ 31" "4 * length ins + 258 < ia"
  shows "\<exists>pk. pack_encode X ev cap ins (new_with_idx_and_hash_kind kind (length ins) w accepts ia) = Some (Inr pk) \<and>
    (length (concat (pk_sent pk)) < 2 ^ 64 \<longrightarrow>
      (\<exists>objs msgs pk' parsed.
         read_pack X kind True streaming (concat (pk_sent pk)) = Inr (objs, idx_pack_hash parsed) \<and>
         encode_idx_file X pk = Inr (msgs, pk') \<and> parse_index X kind (concat msgs) = Inr (parsed, True) \<and>
         map fst (objects_by_offset parsed) = map co_offset objs \<and>
         map (snd \<circ> snd) (objects_by_offset parsed) = map co_crc32 objs \<and>
         (\<forall>k < length objs. \<exists>x. resolves X objs x \<and> co_offset x = co_offset (objs ! k) \<and>
            base_object_hash x = Some (fst (snd (objects_by_offset parsed ! k))))))"
proof -
  obtain pk es items where enc:
      "pack_encode X ev cap ins (new_with_idx_and_hash_kind kind (length ins) w accepts ia) = Some (Inr pk)"
      "mset es = mset (map ma_inner ins)" "list_all (good_entry X kind) es" "distinct (map en_hash es)"
      "encoded_pack X kind es items pk" "pk_object_number pk = length ins" "pk_idx_sender pk = Some ia"
    and rd_pack: "length (concat (pk_sent pk)) < 2 ^ 64 \<longrightarrow>
      (\<exists>objs. read_pack X kind True streaming (concat (pk_sent pk)) = Inr (objs, the (pk_final_hash pk)) \<and>
         pack_objects es (map fst items) objs \<and> map co_crc32 objs = map (x_crc X) (map fst items))"
    using pack_encode_read[OF assms(1,2,4-6), of cap w "Some ia"] unfolding constructors_fresh by blast
  have len: "length es = length ins" using enc(2) by (metis length_map size_mset)
  show ?thesis
  proof (intro exI[of _ pk] conjI enc(1) impI)
    assume small: "length (concat (pk_sent pk)) < 2 ^ 64"
    then obtain objs where objs: "read_pack X kind True streaming (concat (pk_sent pk)) = Inr (objs, the (pk_final_hash pk))"
        "pack_objects es (map fst items) objs" "map co_crc32 objs = map (x_crc X) (map fst items)"
      using rd_pack by blast
    obtain msgs parsed where idx: "encode_idx_file X pk = Inr (msgs, pk\<lparr>pk_idx_sender := None\<rparr>)"
        "parse_index X kind (concat msgs) = Inr (parsed, True)" "Some (idx_pack_hash parsed) = pk_final_hash pk"
        "objects_by_offset parsed = map (\<lambda>e. (IdxEntry.ie_offset e, IdxEntry.ie_hash e, ie_crc32 e)) (indexed X 12 items)"
      using written_index[OF assms(2,3) enc(5,3,4) _ enc(7) _ _ small] enc(6) len assms(7,8) by auto
    have hs: "map (IdxEntry.ie_hash \<circ> snd) items = map en_hash es" using enc(5) by (auto simp: encoded_pack_def Let_def)
    note fields = indexed_fields[OF hs, of X]
    have n: "length items = length es" "length objs = length es" using objs(2) by (simp_all add: pack_objects_def)
    have off: "co_offset (objs ! k) = offset_of (map fst items) k" if "k < length es" for k
      using objs(2) that by (auto simp: pack_objects_def is_entry_def is_delta_on_def)
    have "map fst (objects_by_offset parsed) = map co_offset objs"
      using fields(2) off n unfolding idx(4) by (intro nth_equalityI) (simp_all add: comp_def)
    moreover have "map (snd \<circ> snd) (objects_by_offset parsed) = map co_crc32 objs"
      using fields(3) objs(3) unfolding idx(4) by (simp add: comp_def)
    moreover have "\<exists>x. resolves X objs x \<and> co_offset x = co_offset (objs ! k) \<and>
        base_object_hash x = Some (fst (snd (objects_by_offset parsed ! k)))" if k: "k < length objs" for k
    proof -
      have "IdxEntry.ie_hash (indexed X 12 items ! k) = en_hash (es ! k)"
        using arg_cong[OF fields(1), of "\<lambda>xs. xs ! k"] k n by simp
      then show ?thesis
        using entry_resolves[OF objs(2) enc(3), of k] k n off[of k]
        by (auto simp: idx(4) is_entry_def base_object_hash.simps)
    qed
    ultimately show "\<exists>objs msgs pk' parsed.
         read_pack X kind True streaming (concat (pk_sent pk)) = Inr (objs, idx_pack_hash parsed) \<and>
         encode_idx_file X pk = Inr (msgs, pk') \<and> parse_index X kind (concat msgs) = Inr (parsed, True) \<and>
         map fst (objects_by_offset parsed) = map co_offset objs \<and>
         map (snd \<circ> snd) (objects_by_offset parsed) = map co_crc32 objs \<and>
         (\<forall>k < length objs. \<exists>x. resolves X objs x \<and> co_offset x = co_offset (objs ! k) \<and>
            base_object_hash x = Some (fst (snd (objects_by_offset parsed ! k))))"
      using objs(1) idx(1-3) by (metis option.sel)
  qed
qed

theorem pack_encode_index_witness:
  "\<exists>pk objs msgs pk' parsed. pack_encode plain_crates sample_env 0 [sample_input 3, sample_input 2]
       (new_with_idx_and_hash_kind KSha1 2 0 4 267) = Some (Inr pk) \<and>
     read_pack plain_crates KSha1 True streaming (concat (pk_sent pk)) = Inr (objs, idx_pack_hash parsed) \<and>
     encode_idx_file plain_crates pk = Inr (msgs, pk') \<and>
     parse_index plain_crates KSha1 (concat msgs) = Inr (parsed, True) \<and>
     map fst (objects_by_offset parsed) = map co_offset objs"
proof -
  have crc: "\<forall>bs. x_crc plain_crates bs < 2 ^ 32" by (simp add: plain_crates_def)
  have size: "length [sample_input 3, sample_input 2] < 2 ^ 31" "4 * length [sample_input 3, sample_input 2] + 258 < 267"
    by simp_all
  from pack_encode_index[OF plain_crates_ok crc sample_encodable sample_encode_conditions(2,3) size, of 0 0] show ?thesis
    unfolding sample_encode_conditions(1) using sample_encoded_size by blast
qed

end
