(* ===== verification/Protocol_Pack.thy ===== *)
theory Protocol_Pack
  imports Repo_Access Pack_Roundtrip
begin

text \<open>
  Packs of the smart protocol (\<open>PackGenerator\<close> in \<open>src/src/protocol/pack.rs\<close>): collecting the objects
  that a set of commits needs, encoding them, and unpacking what a client sends.

  \<^item> \<open>repo_run\<close> is an operation on the repository that may not end (\<open>None\<close>): a repository may have
    infinitely many objects.  The walk over a tree takes a bound on its depth and the walk over the
    commits a bound on the number of commits; \<open>None\<close> says that a bound was reached.
  \<^item> The background task of \<open>spawn_pack_stream\<close> is its result: the chunks it sends or its final error.  The
    consumer reads the stream to its end; the chunks sent before an error are not modelled.
  \<^item> \<open>unpack_stream\<close> is the relation between the pack and the possible results: the callbacks of the decoder
    come in the order of an interleaving.
\<close>

section \<open>Operations that may not end\<close>

type_synonym ('s, 'a) repo_run = "'s \<Rightarrow> ((ProtocolError + 'a) \<times> 's) option"

definition go_return :: "'a \<Rightarrow> ('s, 'a) repo_run" where
  "go_return x s = Some (Inr x, s)"

definition go_stuck :: "('s, 'a) repo_run" where
  "go_stuck s = None"

definition go_op :: "('s, 'a) repo_op \<Rightarrow> ('s, 'a) repo_run" where
  "go_op m s = Some (m s)"

definition go_then :: "('s, 'a) repo_run \<Rightarrow> ('a \<Rightarrow> ('s, 'b) repo_run) \<Rightarrow> ('s, 'b) repo_run" where
  "go_then m f s =
     (case m s of None \<Rightarrow> None | Some (Inl e, s') \<Rightarrow> Some (Inl e, s') | Some (Inr x, s') \<Rightarrow> f x s')"

lemma go_then_cong [fundef_cong]: "m = m' \<Longrightarrow> (\<And>x. f x = g x) \<Longrightarrow> go_then m f = go_then m' g"
  by (auto simp: fun_eq_iff go_then_def split: option.splits sum.splits)

section \<open>Collecting objects\<close>

definition ensure_object_kind :: "ProtoCrates \<Rightarrow> HashKind \<Rightarrow> string \<Rightarrow> ObjectHash \<Rightarrow> ProtocolError + unit" where
  "ensure_object_kind P kind what ident =
     map_err (\<lambda>e. repository_error (ascii (''Repository returned '' @ what @ '' '') @ to_tagged_string (pc_hex P) ident
         @ ascii ('' of another object format: '' @ HashError_display e)))
       (ensure_kind ident kind)"

abbreviation check_kind :: "ProtoCrates \<Rightarrow> HashKind \<Rightarrow> string \<Rightarrow> ObjectHash \<Rightarrow> ('s, unit) repo_run" where
  "check_kind P kind what ident \<equiv> go_op (op_lift (ensure_object_kind P kind what ident))"

record Collected =
  cl_trees :: "Tree list"
  cl_blobs :: "Blob list"
  cl_visited_trees :: "bytes set"
  cl_visited_blobs :: "bytes set"

text \<open>The error text of a failed look-up.\<close>

definition fetched :: "string \<Rightarrow> bytes \<Rightarrow> ('s, 'a) repo_op \<Rightarrow> ('s, 'a) repo_run" where
  "fetched what h m =
     go_op (op_map_err (\<lambda>e. repository_error (ascii (''Failed to get '' @ what @ '' '') @ h @ ascii '': ''
       @ ProtocolError_display e)) m)"

text \<open>The arm for blobs of the match over the mode of an entry.\<close>

definition collect_blob ::
  "ProtoCrates \<Rightarrow> 's RepositoryAccess \<Rightarrow> HashKind \<Rightarrow> bytes \<Rightarrow> Collected \<Rightarrow> ('s, Collected) repo_run" where
  "collect_blob P R kind entry_hash st =
     (let st = st\<lparr>cl_visited_blobs := insert entry_hash (cl_visited_blobs st)\<rparr> in
      go_then (fetched ''blob'' entry_hash (ra_get_blob R entry_hash)) (\<lambda>blob.
      go_then (check_kind P kind ''blob'' (blob_id blob)) (\<lambda>_.
        go_return (st\<lparr>cl_blobs := cl_blobs st @ [blob]\<rparr>))))"

fun collect_tree_objects ::
  "ProtoCrates \<Rightarrow> 's RepositoryAccess \<Rightarrow> HashKind \<Rightarrow> nat \<Rightarrow> bytes \<Rightarrow> Collected \<Rightarrow> ('s, Collected) repo_run"
and collect_tree_items ::
  "ProtoCrates \<Rightarrow> 's RepositoryAccess \<Rightarrow> HashKind \<Rightarrow> nat \<Rightarrow> TreeItem list \<Rightarrow> Collected \<Rightarrow> ('s, Collected) repo_run" where
  "collect_tree_objects P R kind depth tree_hash st =
     (if tree_hash \<in> cl_visited_trees st then go_return st
      else
        case depth of
          0 \<Rightarrow> go_stuck
        | Suc depth \<Rightarrow>
            let st = st\<lparr>cl_visited_trees := insert tree_hash (cl_visited_trees st)\<rparr> in
            go_then (fetched ''tree'' tree_hash (ra_get_tree R tree_hash)) (\<lambda>tree.
            go_then (check_kind P kind ''tree'' (tree_id tree)) (\<lambda>_.
            go_then (collect_tree_items P R kind depth (tree_items tree) st) (\<lambda>st.
              go_return (st\<lparr>cl_trees := cl_trees st @ [tree]\<rparr>)))))"
| "collect_tree_items P R kind depth [] st = go_return st"
| "collect_tree_items P R kind depth (entry # rest) st =
     go_then (check_kind P kind ''tree entry reference'' (item_id entry)) (\<lambda>_.
     let entry_hash = hash_to_string (pc_hex P) (item_id entry) in
     go_then
       (if item_mode entry = TM_Tree then collect_tree_objects P R kind depth entry_hash st
        else if item_mode entry \<in> {TM_Blob, TM_BlobExecutable} \<and> entry_hash \<notin> cl_visited_blobs st then
          collect_blob P R kind entry_hash st
        else go_return st)
       (\<lambda>st. collect_tree_items P R kind depth rest st))"

fun queue_parents ::
  "ProtoCrates \<Rightarrow> HashKind \<Rightarrow> bytes set \<Rightarrow> ObjectHash list \<Rightarrow> bytes list \<Rightarrow> ProtocolError + bytes list" where
  "queue_parents P kind visited [] queue = Inr queue"
| "queue_parents P kind visited (parent # parents) queue =
     and_then (ensure_object_kind P kind ''commit parent reference'' parent) (\<lambda>_.
     let parent_str = hash_to_string (pc_hex P) parent in
     queue_parents P kind visited parents (if parent_str \<in> visited then queue else queue @ [parent_str]))"

type_synonym Objects = "Commit list \<times> Tree list \<times> Blob list"

fun collect_loop ::
  "ProtoCrates \<Rightarrow> 's RepositoryAccess \<Rightarrow> HashKind \<Rightarrow> nat \<Rightarrow> nat \<Rightarrow> bytes list \<Rightarrow> Commit list \<Rightarrow> bytes set \<Rightarrow> Collected \<Rightarrow>
   ('s, Objects) repo_run" where
  "collect_loop P R kind depth n [] commits visited st = go_return (commits, cl_trees st, cl_blobs st)"
| "collect_loop P R kind depth n (commit_hash # queue) commits visited st =
     (if commit_hash \<in> visited then collect_loop P R kind depth n queue commits visited st
      else
        case n of
          0 \<Rightarrow> go_stuck
        | Suc n \<Rightarrow>
            let visited = insert commit_hash visited in
            go_then (fetched ''commit'' commit_hash (ra_get_commit R commit_hash)) (\<lambda>commit.
            go_then (check_kind P kind ''commit'' (commit_id commit)) (\<lambda>_.
            go_then (check_kind P kind ''commit tree reference'' (commit_tree_id commit)) (\<lambda>_.
            go_then (go_op (op_lift (queue_parents P kind visited (parent_commit_ids commit) queue))) (\<lambda>queue.
            go_then (collect_tree_objects P R kind depth (hash_to_string (pc_hex P) (commit_tree_id commit)) st) (\<lambda>st.
              collect_loop P R kind depth n queue (commits @ [commit]) visited st))))))"

declare collect_tree_objects.simps [simp del] collect_loop.simps(2) [simp del]

definition collect_all_objects ::
  "ProtoCrates \<Rightarrow> 's RepositoryAccess \<Rightarrow> HashKind \<Rightarrow> nat \<Rightarrow> nat \<Rightarrow> bytes list \<Rightarrow> ('s, Objects) repo_run" where
  "collect_all_objects P R kind depth n commit_hashes =
     collect_loop P R kind depth n commit_hashes [] {}
       \<lparr>cl_trees = [], cl_blobs = [], cl_visited_trees = {}, cl_visited_blobs = {}\<rparr>"

definition filter_objects :: "ProtoCrates \<Rightarrow> Objects \<Rightarrow> Objects \<Rightarrow> Objects" where
  "filter_objects P wanted have_objects =
     (let (wanted_commits, wanted_trees, wanted_blobs) = wanted;
          (have_commits, have_trees, have_blobs) = have_objects;
          have_commit_hashes = (hash_to_string (pc_hex P) \<circ> commit_id) ` set have_commits;
          have_tree_hashes = (hash_to_string (pc_hex P) \<circ> tree_id) ` set have_trees;
          have_blob_hashes = (hash_to_string (pc_hex P) \<circ> blob_id) ` set have_blobs in
      (filter (\<lambda>c. hash_to_string (pc_hex P) (commit_id c) \<notin> have_commit_hashes) wanted_commits,
       filter (\<lambda>t. hash_to_string (pc_hex P) (tree_id t) \<notin> have_tree_hashes) wanted_trees,
       filter (\<lambda>b. hash_to_string (pc_hex P) (blob_id b) \<notin> have_blob_hashes) wanted_blobs))"

section \<open>Encoding\<close>

text \<open>\<open>to_data().unwrap()\<close> of the conversions.\<close>

definition unwrapped :: "GitError + 'a \<Rightarrow> GitError + 'a" where
  "unwrapped r = map_err (\<lambda>_. git_panic ''called `Result::unwrap()` on an `Err` value'') r"

definition Entry_from_commit :: "ProtoCrates \<Rightarrow> Commit \<Rightarrow> GitError + Entry" where
  "Entry_from_commit P c =
     and_then (unwrapped (Commit_to_data (pc_hex P) c)) (\<lambda>data.
       Inr \<lparr>en_obj_type = OT_Commit, en_data = data, en_hash = commit_id c, en_chain_len = 0\<rparr>)"

definition Entry_from_tree :: "Tree \<Rightarrow> GitError + Entry" where
  "Entry_from_tree t =
     and_then (unwrapped (Tree_to_data t)) (\<lambda>data.
       Inr \<lparr>en_obj_type = OT_Tree, en_data = data, en_hash = tree_id t, en_chain_len = 0\<rparr>)"

definition entries_of :: "ProtoCrates \<Rightarrow> Objects \<Rightarrow> GitError + Entry list" where
  "entries_of P objects =
     (let (commits, trees, blobs) = objects in
      and_then (collect_results (map (Entry_from_commit P) commits)) (\<lambda>cs.
      and_then (collect_results (map Entry_from_tree trees)) (\<lambda>ts.
        Inr (cs @ ts @ map Entry_from_blob blobs))))"

fun ensure_entry_kinds :: "ProtoCrates \<Rightarrow> HashKind \<Rightarrow> Entry list \<Rightarrow> ProtocolError + unit" where
  "ensure_entry_kinds P kind [] = Inr ()"
| "ensure_entry_kinds P kind (entry # rest) =
     and_then (map_err (\<lambda>e. PE_Pack (ascii ''Pack entry '' @ to_tagged_string (pc_hex P) (en_hash entry)
           @ ascii ('' does not belong to the repository object format: '' @ HashError_display e)))
         (ensure_kind (en_hash entry) kind)) (\<lambda>_.
       ensure_entry_kinds P kind rest)"

definition empty_pack :: "ProtoCrates \<Rightarrow> HashKind \<Rightarrow> bytes" where
  "empty_pack P kind =
     (let header = ascii ''PACK'' @ be_bytes 4 2 @ be_bytes 4 0 in
      header @ as_ref (ObjectHash_new_for_kind (x_digest (pc_crates P)) kind header))"

text \<open>A panic of the conversion ends the background task.\<close>

fun task_panic :: "GitError \<Rightarrow> ProtocolError" where
  "task_panic (GE_IOError e) = PE_Io e"
| "task_panic e = PE_Pack (ascii (GitError_display e))"

definition generate_pack_stream ::
  "ProtoCrates \<Rightarrow> EncodeEnv \<Rightarrow> nat \<Rightarrow> HashKind \<Rightarrow> Objects \<Rightarrow> (ProtocolError + bytes list) option" where
  "generate_pack_stream P ev cap kind objects =
     run_then (Some (map_err task_panic (entries_of P objects))) (\<lambda>entries.
     run_then (Some (ensure_entry_kinds P kind entries)) (\<lambda>_.
     if entries = [] then Some (Inr [empty_pack P kind])
     else
       let encoder = new_with_hash_kind kind (length entries) 10 (length entries + 2) in
       case pack_encode (pc_crates P) ev cap (map (\<lambda>e. \<lparr>ma_inner = e, ma_file_path = None\<rparr>) entries) encoder of
         None \<Rightarrow> None
       | Some (Inr pk) \<Rightarrow> Some (Inr (pk_sent pk))
       | Some (Inl e) \<Rightarrow>
           Some (Inl (PE_Pack (ascii ((case panic_message e of
                None \<Rightarrow> ''Failed to encode pack: '' @ GitError_display e
              | Some m \<Rightarrow> ''Pack encoder task failed: '' @ m)))))))"

text \<open>The items of the stream; the panic of the background task is an end of the stream.\<close>

definition spawn_pack_stream ::
  "ProtoCrates \<Rightarrow> EncodeEnv \<Rightarrow> nat \<Rightarrow> HashKind \<Rightarrow> Objects \<Rightarrow> (ProtocolError + bytes) list option" where
  "spawn_pack_stream P ev cap kind objects =
     map_option (\<lambda>r. case r of
         Inr chunks \<Rightarrow> map Inr chunks
       | Inl (PE_Io (Panic m)) \<Rightarrow> []
       | Inl e \<Rightarrow> [Inl e]) (generate_pack_stream P ev cap kind objects)"

text \<open>How the pack of a request is produced: the machine and the bounds of the walks.\<close>

record PackSettings =
  ps_env :: EncodeEnv
  ps_capacity :: nat
  ps_depth :: nat
  ps_commits :: nat

definition go_stream :: "ProtoCrates \<Rightarrow> PackSettings \<Rightarrow> HashKind \<Rightarrow> Objects \<Rightarrow> ('s, (ProtocolError + bytes) list) repo_run" where
  "go_stream P ps kind objects s =
     map_option (\<lambda>items. (Inr items, s)) (spawn_pack_stream P (ps_env ps) (ps_capacity ps) kind objects)"

definition generate_full_pack ::
  "ProtoCrates \<Rightarrow> PackSettings \<Rightarrow> 's RepositoryAccess \<Rightarrow> HashKind \<Rightarrow> bytes list \<Rightarrow>
   ('s, (ProtocolError + bytes) list) repo_run" where
  "generate_full_pack P ps R kind want =
     go_then (collect_all_objects P R kind (ps_depth ps) (ps_commits ps) want) (go_stream P ps kind)"

definition generate_incremental_pack ::
  "ProtoCrates \<Rightarrow> PackSettings \<Rightarrow> 's RepositoryAccess \<Rightarrow> HashKind \<Rightarrow> bytes list \<Rightarrow> bytes list \<Rightarrow>
   ('s, (ProtocolError + bytes) list) repo_run" where
  "generate_incremental_pack P ps R kind want have_ids =
     go_then (collect_all_objects P R kind (ps_depth ps) (ps_commits ps) want) (\<lambda>wanted_objects.
     go_then (collect_all_objects P R kind (ps_depth ps) (ps_commits ps) have_ids) (\<lambda>have_objects.
       go_stream P ps kind (filter_objects P wanted_objects have_objects)))"

section \<open>Unpacking\<close>

text \<open>The callback: what does not parse, and every other type of object, is only logged.\<close>

definition unpack_entry :: "ProtoCrates \<Rightarrow> Entry \<Rightarrow> Objects \<Rightarrow> Objects" where
  "unpack_entry P entry objects =
     (let (commits, trees, blobs) = objects in
      case en_obj_type entry of
        OT_Commit \<Rightarrow>
          (case Commit_from_bytes (pc_hex_decode P) (en_data entry) (en_hash entry) of
             Inr commit \<Rightarrow> (commits @ [commit], trees, blobs) | Inl _ \<Rightarrow> objects)
      | OT_Tree \<Rightarrow>
          (case Tree_from_bytes (pc_gbk P) (en_data entry) (en_hash entry) of
             Inr tree \<Rightarrow> (commits, trees @ [tree], blobs) | Inl _ \<Rightarrow> objects)
      | OT_Blob \<Rightarrow>
          (case Blob_from_bytes (en_data entry) (en_hash entry) of
             Inr blob \<Rightarrow> (commits, trees, blobs @ [blob]) | Inl _ \<Rightarrow> objects)
      | _ \<Rightarrow> objects)"

definition decode_failed :: "GitError \<Rightarrow> ProtocolError" where
  "decode_failed e = invalid_request (ascii (''Failed to decode pack: '' @ GitError_display e))"

definition unpack_params :: "ProtoCrates \<Rightarrow> DecodeParams" where
  "unpack_params P = \<lparr>dp_crates = pc_crates P, dp_callback = True, dp_skip_unneeded = False, dp_known_names = False\<rparr>"

inductive unpack_stream :: "ProtoCrates \<Rightarrow> HashKind \<Rightarrow> bytes \<Rightarrow> ProtocolError + Objects \<Rightarrow> bool" for P kind pack_data where
  unreadable: "read_pack (pc_crates P) kind True streaming pack_data = Inl e \<Longrightarrow>
    unpack_stream P kind pack_data (Inl (decode_failed e))"
| decoded: "read_pack (pc_crates P) kind True streaming pack_data = Inr (objs, sig) \<Longrightarrow>
    (decode_step (unpack_params P))\<^sup>*\<^sup>* (decode_init objs None None) s \<Longrightarrow> finished s \<Longrightarrow>
    decode_outcome (pc_hex P) (length objs) s = Inr caches \<Longrightarrow>
    unpack_stream P kind pack_data (Inr (fold (unpack_entry P) (map me_inner (ds_emitted s)) ([], [], [])))"
| undecodable: "read_pack (pc_crates P) kind True streaming pack_data = Inr (objs, sig) \<Longrightarrow>
    (decode_step (unpack_params P))\<^sup>*\<^sup>* (decode_init objs None None) s \<Longrightarrow> finished s \<Longrightarrow>
    decode_outcome (pc_hex P) (length objs) s = Inl e \<Longrightarrow>
    unpack_stream P kind pack_data (Inl (decode_failed e))"

end
