(* ===== verification/Protocol_Walk.thy ===== *)
theory Protocol_Walk
  imports Protocol_Pack
begin

text \<open>
  The walk over commits and trees collects exactly the reachable objects.

  \<^item> A repository that does not change while it is read is the three partial maps \<open>commit_at\<close>,
    \<open>tree_at\<close> and \<open>blob_at\<close>; \<open>reach_commits\<close>, \<open>reach_trees\<close> and \<open>blob_ids\<close> are what a set of wanted ids
    needs.
  \<^item> \<open>grown\<close> is the invariant of the walk over trees: what one call adds, and that everything added is
    complete.
\<close>

section \<open>A repository at rest\<close>

definition read_only :: "'s RepositoryAccess \<Rightarrow> 's \<Rightarrow> bool" where
  "read_only R s \<longleftrightarrow> (\<forall>h. snd (ra_get_commit R h s) = s \<and> snd (ra_get_tree R h s) = s \<and> snd (ra_get_blob R h s) = s)"

definition found :: "('s, 'a) repo_op \<Rightarrow> 's \<Rightarrow> 'a option" where
  "found m s = (case fst (m s) of Inr x \<Rightarrow> Some x | Inl _ \<Rightarrow> None)"

definition commit_at :: "'s RepositoryAccess \<Rightarrow> 's \<Rightarrow> bytes \<Rightarrow> Commit option" where
  "commit_at R s h = found (ra_get_commit R h) s"

definition tree_at :: "'s RepositoryAccess \<Rightarrow> 's \<Rightarrow> bytes \<Rightarrow> Tree option" where
  "tree_at R s h = found (ra_get_tree R h) s"

definition blob_at :: "'s RepositoryAccess \<Rightarrow> 's \<Rightarrow> bytes \<Rightarrow> Blob option" where
  "blob_at R s h = found (ra_get_blob R h) s"

definition tree_kids :: "ProtoCrates \<Rightarrow> TreeItem list \<Rightarrow> bytes set" where
  "tree_kids P items = {hash_to_string (pc_hex P) (item_id i) | i. i \<in> set items \<and> item_mode i = TM_Tree}"

definition blob_kids :: "ProtoCrates \<Rightarrow> TreeItem list \<Rightarrow> bytes set" where
  "blob_kids P items =
     {hash_to_string (pc_hex P) (item_id i) | i. i \<in> set items \<and> item_mode i \<in> {TM_Blob, TM_BlobExecutable}}"

abbreviation items_at :: "'s RepositoryAccess \<Rightarrow> 's \<Rightarrow> bytes \<Rightarrow> TreeItem list" where
  "items_at R s h \<equiv> tree_items (the (tree_at R s h))"

definition parents_at :: "ProtoCrates \<Rightarrow> 's RepositoryAccess \<Rightarrow> 's \<Rightarrow> bytes \<Rightarrow> bytes set" where
  "parents_at P R s h = hash_to_string (pc_hex P) ` set (parent_commit_ids (the (commit_at R s h)))"

definition root_at :: "ProtoCrates \<Rightarrow> 's RepositoryAccess \<Rightarrow> 's \<Rightarrow> bytes \<Rightarrow> bytes" where
  "root_at P R s h = hash_to_string (pc_hex P) (commit_tree_id (the (commit_at R s h)))"

inductive_set reach_commits :: "ProtoCrates \<Rightarrow> 's RepositoryAccess \<Rightarrow> 's \<Rightarrow> bytes set \<Rightarrow> bytes set"
  for P R s roots where
  wanted_commit: "h \<in> roots \<Longrightarrow> h \<in> reach_commits P R s roots"
| parent_commit: "h \<in> reach_commits P R s roots \<Longrightarrow> commit_at R s h \<noteq> None \<Longrightarrow> k \<in> parents_at P R s h \<Longrightarrow>
    k \<in> reach_commits P R s roots"

inductive_set reach_trees :: "ProtoCrates \<Rightarrow> 's RepositoryAccess \<Rightarrow> 's \<Rightarrow> bytes set \<Rightarrow> bytes set"
  for P R s roots where
  root_tree: "h \<in> roots \<Longrightarrow> h \<in> reach_trees P R s roots"
| sub_tree: "h \<in> reach_trees P R s roots \<Longrightarrow> tree_at R s h \<noteq> None \<Longrightarrow> k \<in> tree_kids P (items_at R s h) \<Longrightarrow>
    k \<in> reach_trees P R s roots"

definition blob_ids :: "ProtoCrates \<Rightarrow> 's RepositoryAccess \<Rightarrow> 's \<Rightarrow> bytes set \<Rightarrow> bytes set" where
  "blob_ids P R s trees = (\<Union>h \<in> trees. blob_kids P (items_at R s h))"

text \<open>An object that can be sent: it is there, and its id and its references are of the kind.\<close>

definition commit_fine :: "'s RepositoryAccess \<Rightarrow> 's \<Rightarrow> HashKind \<Rightarrow> bytes \<Rightarrow> bool" where
  "commit_fine R s kind h \<longleftrightarrow> (\<exists>c. commit_at R s h = Some c \<and> hash_kind (commit_id c) = kind \<and>
     hash_kind (commit_tree_id c) = kind \<and> (\<forall>p \<in> set (parent_commit_ids c). hash_kind p = kind))"

definition tree_fine :: "'s RepositoryAccess \<Rightarrow> 's \<Rightarrow> HashKind \<Rightarrow> bytes \<Rightarrow> bool" where
  "tree_fine R s kind h \<longleftrightarrow> (\<exists>t. tree_at R s h = Some t \<and> hash_kind (tree_id t) = kind \<and>
     (\<forall>i \<in> set (tree_items t). hash_kind (item_id i) = kind))"

definition blob_fine :: "'s RepositoryAccess \<Rightarrow> 's \<Rightarrow> HashKind \<Rightarrow> bytes \<Rightarrow> bool" where
  "blob_fine R s kind h \<longleftrightarrow> (\<exists>b. blob_at R s h = Some b \<and> hash_kind (blob_id b) = kind)"

section \<open>Sequencing\<close>

lemma go_simps [simp]:
  "go_return x s = Some (Inr x, s)" "go_stuck s = None" "go_op m s = Some (m s)"
  by (simp_all add: go_return_def go_stuck_def go_op_def)

lemma go_then_eq_Inr_iff:
  "go_then m f s = Some (Inr y, t) \<longleftrightarrow> (\<exists>x s'. m s = Some (Inr x, s') \<and> f x s' = Some (Inr y, t))"
  by (auto simp: go_then_def split: option.splits prod.splits sum.splits)

lemma go_then_ends:
  assumes "m s = Some (r, s')" "\<And>x. r = Inr x \<Longrightarrow> \<exists>r' t. f x s' = Some (r', t) \<and> (good \<longrightarrow> is_ok r')" "good \<longrightarrow> is_ok r"
  shows "\<exists>r' t. go_then m f s = Some (r', t) \<and> (good \<longrightarrow> is_ok r')"
  using assms by (cases r) (auto simp: go_then_def)

lemma fetched_eq_Inr_iff: "fetched what h m s = Some (Inr x, t) \<longleftrightarrow> m s = (Inr x, t)"
  by (simp add: fetched_def)

lemma fetched_ends:
  assumes "snd (m s) = s"
  obtains r where "fetched what h m s = Some (r, s)" "\<And>x. r = Inr x \<Longrightarrow> found m s = Some x" "found m s \<noteq> None \<Longrightarrow> is_ok r"
proof -
  obtain r where r: "m s = (r, s)" using assms by (cases "m s") auto
  show ?thesis
  proof (rule that[of "map_err (\<lambda>e. repository_error (ascii (''Failed to get '' @ what @ '' '') @ h @ ascii '': ''
       @ ProtocolError_display e)) r"])
    show "fetched what h m s = Some (map_err (\<lambda>e. repository_error (ascii (''Failed to get '' @ what @ '' '') @ h
        @ ascii '': '' @ ProtocolError_display e)) r, s)" by (simp add: fetched_def op_map_err_def r)
  qed (use r in \<open>auto simp: found_def map_err_def is_ok_def split: sum.splits\<close>)
qed

lemma check_kind_iff: "ensure_object_kind P kind what h = Inr u \<longleftrightarrow> hash_kind h = kind"
  by (simp add: ensure_object_kind_def ensure_kind_def)

lemma check_kind_ends:
  obtains r where "check_kind P kind what h s = Some (r, s)" "is_ok r \<longleftrightarrow> hash_kind h = kind"
  using check_kind_iff[of P kind what h] by (auto simp: is_ok_iff)

lemma found_iff:
  assumes "read_only R s"
  shows "ra_get_commit R h s = (Inr c, s') \<longleftrightarrow> commit_at R s h = Some c \<and> s' = s"
    "ra_get_tree R h s = (Inr t, s') \<longleftrightarrow> tree_at R s h = Some t \<and> s' = s"
    "ra_get_blob R h s = (Inr b, s') \<longleftrightarrow> blob_at R s h = Some b \<and> s' = s"
  using assms[unfolded read_only_def, rule_format, of h]
  by (cases "ra_get_commit R h s"; cases "ra_get_tree R h s"; cases "ra_get_blob R h s";
      auto simp: commit_at_def tree_at_def blob_at_def found_def split: sum.splits)+

section \<open>The walk over trees\<close>

definition grown ::
  "ProtoCrates \<Rightarrow> 's RepositoryAccess \<Rightarrow> 's \<Rightarrow> HashKind \<Rightarrow> bytes set \<Rightarrow> bytes set \<Rightarrow> Collected \<Rightarrow> Collected \<Rightarrow> bool" where
  "grown P R s kind roots broots st st' \<longleftrightarrow> (\<exists>hs bs.
     cl_trees st' = cl_trees st @ map (the \<circ> tree_at R s) hs \<and> distinct hs \<and>
     set hs \<inter> cl_visited_trees st = {} \<and> cl_visited_trees st' = cl_visited_trees st \<union> set hs \<and>
     cl_blobs st' = cl_blobs st @ map (the \<circ> blob_at R s) bs \<and> distinct bs \<and>
     set bs \<inter> cl_visited_blobs st = {} \<and> cl_visited_blobs st' = cl_visited_blobs st \<union> set bs \<and>
     (\<forall>h \<in> set hs. tree_fine R s kind h \<and> tree_kids P (items_at R s h) \<subseteq> cl_visited_trees st' \<and>
        blob_kids P (items_at R s h) \<subseteq> cl_visited_blobs st') \<and>
     (\<forall>b \<in> set bs. blob_fine R s kind b) \<and>
     roots \<subseteq> cl_visited_trees st' \<and> set hs \<subseteq> reach_trees P R s roots \<and>
     broots \<subseteq> cl_visited_blobs st' \<and> set bs \<subseteq> broots \<union> blob_ids P R s (set hs))"

lemma reach_trees_mono: "A \<subseteq> B \<Longrightarrow> reach_trees P R s A \<subseteq> reach_trees P R s B"
proof
  fix h assume "h \<in> reach_trees P R s A" "A \<subseteq> B"
  then show "h \<in> reach_trees P R s B"
    by (induction rule: reach_trees.induct) (auto intro: reach_trees.intros)
qed

lemma grown_refl: "roots \<subseteq> cl_visited_trees st \<Longrightarrow> broots \<subseteq> cl_visited_blobs st \<Longrightarrow> grown P R s kind roots broots st st"
  unfolding grown_def by (intro exI[of _ "[]"]) simp

lemma grown_visited: "grown P R s kind roots broots st st' \<Longrightarrow> cl_visited_trees st \<subseteq> cl_visited_trees st'"
  unfolding grown_def by blast

lemma grown_trans:
  assumes "grown P R s kind A B st st1" "grown P R s kind A' B' st1 st2"
  shows "grown P R s kind (A \<union> A') (B \<union> B') st st2"
proof -
  obtain hs bs where 1: "cl_trees st1 = cl_trees st @ map (the \<circ> tree_at R s) hs" "distinct hs"
     "set hs \<inter> cl_visited_trees st = {}" "cl_visited_trees st1 = cl_visited_trees st \<union> set hs"
     "cl_blobs st1 = cl_blobs st @ map (the \<circ> blob_at R s) bs" "distinct bs"
     "set bs \<inter> cl_visited_blobs st = {}" "cl_visited_blobs st1 = cl_visited_blobs st \<union> set bs"
     "\<forall>h \<in> set hs. tree_fine R s kind h \<and> tree_kids P (items_at R s h) \<subseteq> cl_visited_trees st1 \<and>
        blob_kids P (items_at R s h) \<subseteq> cl_visited_blobs st1"
     "\<forall>b \<in> set bs. blob_fine R s kind b" "A \<subseteq> cl_visited_trees st1" "set hs \<subseteq> reach_trees P R s A"
     "B \<subseteq> cl_visited_blobs st1" "set bs \<subseteq> B \<union> blob_ids P R s (set hs)"
    using assms(1) unfolding grown_def by blast
  obtain hs' bs' where 2: "cl_trees st2 = cl_trees st1 @ map (the \<circ> tree_at R s) hs'" "distinct hs'"
     "set hs' \<inter> cl_visited_trees st1 = {}" "cl_visited_trees st2 = cl_visited_trees st1 \<union> set hs'"
     "cl_blobs st2 = cl_blobs st1 @ map (the \<circ> blob_at R s) bs'" "distinct bs'"
     "set bs' \<inter> cl_visited_blobs st1 = {}" "cl_visited_blobs st2 = cl_visited_blobs st1 \<union> set bs'"
     "\<forall>h \<in> set hs'. tree_fine R s kind h \<and> tree_kids P (items_at R s h) \<subseteq> cl_visited_trees st2 \<and>
        blob_kids P (items_at R s h) \<subseteq> cl_visited_blobs st2"
     "\<forall>b \<in> set bs'. blob_fine R s kind b" "A' \<subseteq> cl_visited_trees st2" "set hs' \<subseteq> reach_trees P R s A'"
     "B' \<subseteq> cl_visited_blobs st2" "set bs' \<subseteq> B' \<union> blob_ids P R s (set hs')"
    using assms(2) unfolding grown_def by blast
  have reach: "set (hs @ hs') \<subseteq> reach_trees P R s (A \<union> A')"
    using 1(12) 2(12) reach_trees_mono[of A "A \<union> A'" P R s] reach_trees_mono[of A' "A \<union> A'" P R s] by auto
  have "set (bs @ bs') \<subseteq> (B \<union> B') \<union> blob_ids P R s (set (hs @ hs'))"
    using 1(14) 2(14) by (auto simp: blob_ids_def)
  moreover have "distinct (hs @ hs')" "distinct (bs @ bs')" using 1(2,4,6,8) 2(2,3,6,7) by auto
  moreover have "set (hs @ hs') \<inter> cl_visited_trees st = {}" "cl_visited_trees st2 = cl_visited_trees st \<union> set (hs @ hs')"
    "set (bs @ bs') \<inter> cl_visited_blobs st = {}" "cl_visited_blobs st2 = cl_visited_blobs st \<union> set (bs @ bs')"
    using 1(3,4,7,8) 2(3,4,7,8) by auto
  moreover have "\<forall>h \<in> set (hs @ hs'). tree_fine R s kind h \<and> tree_kids P (items_at R s h) \<subseteq> cl_visited_trees st2 \<and>
      blob_kids P (items_at R s h) \<subseteq> cl_visited_blobs st2"
    using 2(9) 1(9) unfolding set_append ball_Un 2(4) 2(8) by (meson le_supI1)
  moreover have "A \<union> A' \<subseteq> cl_visited_trees st2" "B \<union> B' \<subseteq> cl_visited_blobs st2" using 1(11,13) 2(4,8,11,13) by auto
  ultimately show ?thesis
    unfolding grown_def using 1(1,5,10) 2(1,5,10) reach
    by (intro exI[of _ "hs @ hs'"] exI[of _ "bs @ bs'"]) auto
qed

text \<open>A tree is complete when its items have been walked.\<close>

lemma grown_tree:
  assumes "grown P R s kind (tree_kids P (tree_items t)) (blob_kids P (tree_items t))
      (st\<lparr>cl_visited_trees := insert h (cl_visited_trees st)\<rparr>) st1"
    and t: "tree_at R s h = Some t" "tree_fine R s kind h" "h \<notin> cl_visited_trees st"
  shows "grown P R s kind {h} {} st (st1\<lparr>cl_trees := cl_trees st1 @ [t]\<rparr>)"
proof -
  obtain hs bs where 1: "cl_trees st1 = cl_trees st @ map (the \<circ> tree_at R s) hs" "distinct hs"
     "set hs \<inter> insert h (cl_visited_trees st) = {}" "cl_visited_trees st1 = insert h (cl_visited_trees st) \<union> set hs"
     "cl_blobs st1 = cl_blobs st @ map (the \<circ> blob_at R s) bs" "distinct bs"
     "set bs \<inter> cl_visited_blobs st = {}" "cl_visited_blobs st1 = cl_visited_blobs st \<union> set bs"
     "\<forall>h \<in> set hs. tree_fine R s kind h \<and> tree_kids P (items_at R s h) \<subseteq> cl_visited_trees st1 \<and>
        blob_kids P (items_at R s h) \<subseteq> cl_visited_blobs st1"
     "\<forall>b \<in> set bs. blob_fine R s kind b" "tree_kids P (tree_items t) \<subseteq> cl_visited_trees st1"
     "set hs \<subseteq> reach_trees P R s (tree_kids P (tree_items t))"
     "blob_kids P (tree_items t) \<subseteq> cl_visited_blobs st1"
     "set bs \<subseteq> blob_kids P (tree_items t) \<union> blob_ids P R s (set hs)"
    using assms(1) unfolding grown_def by auto
  have "x \<in> reach_trees P R s {h}" if "x \<in> reach_trees P R s (tree_kids P (tree_items t))" for x
    using that
  proof (induction rule: reach_trees.induct)
    case (root_tree k)
    then show ?case using t(1) by (intro reach_trees.sub_tree[OF reach_trees.root_tree, of h]) simp_all
  qed (rule reach_trees.sub_tree)
  then have "set (hs @ [h]) \<subseteq> reach_trees P R s {h}" using 1(12) reach_trees.root_tree[of h "{h}" P R s] by auto
  moreover have "set bs \<subseteq> {} \<union> blob_ids P R s (set (hs @ [h]))" using 1(14) t(1) by (auto simp: blob_ids_def)
  moreover have "\<forall>x \<in> set (hs @ [h]). tree_fine R s kind x \<and> tree_kids P (items_at R s x) \<subseteq> cl_visited_trees st1 \<and>
      blob_kids P (items_at R s x) \<subseteq> cl_visited_blobs st1" using 1(9,11,13) t(1,2) by simp
  moreover have "distinct (hs @ [h])" "set (hs @ [h]) \<inter> cl_visited_trees st = {}"
    "cl_visited_trees st1 = cl_visited_trees st \<union> set (hs @ [h])" using 1(2-4) t(3) by auto
  ultimately show ?thesis
    unfolding grown_def using 1(1,5-8,10) t(1) by (intro exI[of _ "hs @ [h]"] exI[of _ bs]) simp
qed

lemma kids_Cons:
  "tree_kids P (i # is) = (if item_mode i = TM_Tree then {hash_to_string (pc_hex P) (item_id i)} else {}) \<union> tree_kids P is"
  "blob_kids P (i # is) = (if item_mode i \<in> {TM_Blob, TM_BlobExecutable} then {hash_to_string (pc_hex P) (item_id i)} else {})
     \<union> blob_kids P is"
  by (auto simp: tree_kids_def blob_kids_def)

lemma grown_blob:
  "blob_at R s h = Some b \<Longrightarrow> hash_kind (blob_id b) = kind \<Longrightarrow> h \<notin> cl_visited_blobs st \<Longrightarrow>
   grown P R s kind {} {h} st
     (st\<lparr>cl_visited_blobs := insert h (cl_visited_blobs st), cl_blobs := cl_blobs st @ [b]\<rparr>)"
  unfolding grown_def by (intro exI[of _ "[]"] exI[of _ "[h]"]) (auto simp: blob_fine_def)

lemma collect_tree_cases:
  "h \<in> cl_visited_trees st \<Longrightarrow> collect_tree_objects P R kind depth h st = go_return st"
  "h \<notin> cl_visited_trees st \<Longrightarrow> collect_tree_objects P R kind 0 h st = go_stuck"
  "h \<notin> cl_visited_trees st \<Longrightarrow> collect_tree_objects P R kind (Suc d) h st =
     go_then (fetched ''tree'' h (ra_get_tree R h)) (\<lambda>tree.
     go_then (check_kind P kind ''tree'' (tree_id tree)) (\<lambda>_.
     go_then (collect_tree_items P R kind d (tree_items tree) (st\<lparr>cl_visited_trees := insert h (cl_visited_trees st)\<rparr>)) (\<lambda>st.
       go_return (st\<lparr>cl_trees := cl_trees st @ [tree]\<rparr>))))"
  by (simp_all add: collect_tree_objects.simps Let_def)

lemma collect_sound:
  shows "read_only R s \<Longrightarrow> collect_tree_objects P R kind depth h st s = Some (Inr st', s') \<Longrightarrow>
      s' = s \<and> grown P R s kind {h} {} st st'"
    and "read_only R s \<Longrightarrow> collect_tree_items P R kind depth is st s = Some (Inr st', s') \<Longrightarrow>
      s' = s \<and> grown P R s kind (tree_kids P is) (blob_kids P is) st st' \<and> (\<forall>i \<in> set is. hash_kind (item_id i) = kind)"
proof (induction P R kind depth h st and P R kind depth "is" st arbitrary: st' s' and st' s'
    rule: collect_tree_objects_collect_tree_items.induct)
  case (1 P R kind depth h st)
  show ?case
  proof (cases "h \<in> cl_visited_trees st")
    case True
    then show ?thesis using 1(3) by (auto simp: collect_tree_cases intro: grown_refl)
  next
    case False
    then obtain d where d: "depth = Suc d" using 1(3) by (cases depth) (auto simp: collect_tree_cases)
    let ?st = "st\<lparr>cl_visited_trees := insert h (cl_visited_trees st)\<rparr>"
    obtain t st1 where t: "tree_at R s h = Some t" "hash_kind (tree_id t) = kind"
      and items: "collect_tree_items P R kind d (tree_items t) ?st s = Some (Inr st1, s')"
      and st': "st' = st1\<lparr>cl_trees := cl_trees st1 @ [t]\<rparr>"
      using 1(3) unfolding d collect_tree_cases(3)[OF False]
      by (auto simp: go_then_eq_Inr_iff fetched_eq_Inr_iff found_iff[OF 1(2)] check_kind_iff)
    have ih: "s' = s \<and> grown P R s kind (tree_kids P (tree_items t)) (blob_kids P (tree_items t)) ?st st1 \<and>
        (\<forall>i \<in> set (tree_items t). hash_kind (item_id i) = kind)"
      by (rule 1(1)[OF False d refl 1(2) items])
    then have "tree_fine R s kind h" using t by (simp add: tree_fine_def)
    then show ?thesis using ih grown_tree[of P R s kind t h st st1] t(1) False st' by simp
  qed
next
  case (2 P R kind depth st)
  then show ?case by (auto intro: grown_refl simp: tree_kids_def blob_kids_def)
next
  case (3 P R kind depth i rest st)
  let ?h = "hash_to_string (pc_hex P) (item_id i)"
  let ?one = "\<lambda>st1. grown P R s kind (if item_mode i = TM_Tree then {?h} else {})
      (if item_mode i \<in> {TM_Blob, TM_BlobExecutable} then {?h} else {}) st st1"
  have ro: "read_only R s" using 3(3) .
  have sub: "s1 = s \<and> grown P R s kind {?h} {} st st1"
    if "item_mode i = TM_Tree" "collect_tree_objects P R kind depth ?h st s = Some (Inr st1, s1)" for st1 s1
    using 3(1)[OF refl that(1) ro that(2)] .
  obtain st1 s1 where kind: "hash_kind (item_id i) = kind"
    and step: "(if item_mode i = TM_Tree then collect_tree_objects P R kind depth ?h st
        else if item_mode i \<in> {TM_Blob, TM_BlobExecutable} \<and> ?h \<notin> cl_visited_blobs st
        then collect_blob P R kind ?h st else go_return st) s = Some (Inr st1, s1)"
    and rest1: "collect_tree_items P R kind depth rest st1 s1 = Some (Inr st', s')"
    using 3(4) by (auto simp: go_then_eq_Inr_iff check_kind_iff Let_def)
  have one': "s1 = s \<and> ?one st1"
  proof (cases "item_mode i = TM_Tree")
    case True
    then show ?thesis using sub[OF True, of st1 s1] step by simp
  next
    case False
    then show ?thesis using step
      by (auto simp: collect_blob_def Let_def go_then_eq_Inr_iff fetched_eq_Inr_iff found_iff[OF ro] check_kind_iff
          intro: grown_blob grown_refl split: if_splits)
  qed
  then have one: "?one st1" and rest: "collect_tree_items P R kind depth rest st1 s = Some (Inr st', s')" using rest1 by auto
  have "s' = s \<and> grown P R s kind (tree_kids P rest) (blob_kids P rest) st1 st' \<and> (\<forall>i \<in> set rest. hash_kind (item_id i) = kind)"
    using 3(2)[OF refl ro rest] .
  then show ?case using grown_trans[OF one, of "tree_kids P rest" "blob_kids P rest" st'] kind by (simp add: kids_Cons)
qed

text \<open>A depth of at least the number of trees not yet visited is enough, and when everything is fine there
  is no error.\<close>

definition trees_fine :: "ProtoCrates \<Rightarrow> 's RepositoryAccess \<Rightarrow> 's \<Rightarrow> HashKind \<Rightarrow> bytes set \<Rightarrow> bool" where
  "trees_fine P R s kind U \<longleftrightarrow> (\<forall>h \<in> U. tree_fine R s kind h) \<and> (\<forall>b \<in> blob_ids P R s U. blob_fine R s kind b)"

definition items_fine :: "ProtoCrates \<Rightarrow> 's RepositoryAccess \<Rightarrow> 's \<Rightarrow> HashKind \<Rightarrow> TreeItem list \<Rightarrow> bool" where
  "items_fine P R s kind is \<longleftrightarrow> (\<forall>i \<in> set is. hash_kind (item_id i) = kind) \<and> (\<forall>b \<in> blob_kids P is. blob_fine R s kind b)"

definition trees_closed :: "ProtoCrates \<Rightarrow> 's RepositoryAccess \<Rightarrow> 's \<Rightarrow> bytes set \<Rightarrow> bool" where
  "trees_closed P R s U \<longleftrightarrow> finite U \<and> (\<forall>h \<in> U. tree_at R s h \<noteq> None \<longrightarrow> tree_kids P (items_at R s h) \<subseteq> U)"

lemma collect_blob_ends:
  assumes "read_only R s"
  shows "\<exists>r. collect_blob P R kind h st s = Some (r, s) \<and> (blob_fine R s kind h \<longrightarrow> is_ok r)"
proof -
  have "snd (ra_get_blob R h s) = s" using assms by (simp add: read_only_def)
  then obtain r where r: "ra_get_blob R h s = (r, s)" by (cases "ra_get_blob R h s") simp
  then show ?thesis
    by (cases r) (auto simp: collect_blob_def Let_def go_then_def fetched_def op_map_err_def blob_fine_def blob_at_def
        found_def ensure_object_kind_def ensure_kind_def)
qed

lemma card_visited:
  assumes "finite U" "V \<subseteq> V'"
  shows "card (U - V') \<le> card (U - V)"
  using assms by (intro card_mono) auto

lemma collect_ends:
  shows "read_only R s \<Longrightarrow> trees_closed P R s U \<Longrightarrow> h \<in> U \<Longrightarrow> card (U - cl_visited_trees st) \<le> depth \<Longrightarrow>
      \<exists>r s'. collect_tree_objects P R kind depth h st s = Some (r, s') \<and> (trees_fine P R s kind U \<longrightarrow> is_ok r)"
    and "read_only R s \<Longrightarrow> trees_closed P R s U \<Longrightarrow> tree_kids P is \<subseteq> U \<Longrightarrow> card (U - cl_visited_trees st) \<le> depth \<Longrightarrow>
      \<exists>r s'. collect_tree_items P R kind depth is st s = Some (r, s') \<and>
        (trees_fine P R s kind U \<and> items_fine P R s kind is \<longrightarrow> is_ok r)"
proof (induction P R kind depth h st and P R kind depth "is" st
    rule: collect_tree_objects_collect_tree_items.induct)
  case (1 P R kind depth h st)
  have fin: "finite U" and ro: "read_only R s" using 1(2,3) by (simp_all add: trees_closed_def)
  show ?case
  proof (cases "h \<in> cl_visited_trees st")
    case False
    then have "U - cl_visited_trees st \<noteq> {}" "finite (U - cl_visited_trees st)" using 1(4) fin by auto
    then obtain d where d: "depth = Suc d" using 1(5) by (cases depth) auto
    let ?st = "st\<lparr>cl_visited_trees := insert h (cl_visited_trees st)\<rparr>"
    have "U - cl_visited_trees ?st = (U - cl_visited_trees st) - {h}" by auto
    then have card: "card (U - cl_visited_trees ?st) \<le> d"
      using 1(4,5) False fin d by (simp add: card_Diff_singleton)
    have "snd (ra_get_tree R h s) = s" using ro by (simp add: read_only_def)
    from fetched_ends[where m = "ra_get_tree R h", OF this] obtain r where r:
      "fetched ''tree'' h (ra_get_tree R h) s = Some (r, s)" "\<And>t. r = Inr t \<Longrightarrow> tree_at R s h = Some t"
      "tree_at R s h \<noteq> None \<Longrightarrow> is_ok r" unfolding tree_at_def by metis
    show ?thesis unfolding d collect_tree_cases(3)[OF False]
    proof (rule go_then_ends[where m = "fetched ''tree'' h (ra_get_tree R h)", OF r(1)])
      fix t assume "r = Inr t"
      then have t: "tree_at R s h = Some t" by (rule r(2))
      then have kids: "tree_kids P (tree_items t) \<subseteq> U" using 1(3,4) unfolding trees_closed_def by (metis option.distinct(1) option.sel)
      have fine: "hash_kind (tree_id t) = kind \<and> items_fine P R s kind (tree_items t)" if "trees_fine P R s kind U"
        using that 1(4) t by (fastforce simp: trees_fine_def tree_fine_def items_fine_def blob_ids_def)
      obtain r1 s1 where items: "collect_tree_items P R kind d (tree_items t) ?st s = Some (r1, s1)"
        "trees_fine P R s kind U \<and> items_fine P R s kind (tree_items t) \<longrightarrow> is_ok r1"
        using 1(1)[OF False d refl ro 1(3) kids card] by blast
      show "\<exists>r' sa. go_then (check_kind P kind ''tree'' (tree_id t))
          (\<lambda>_. go_then (collect_tree_items P R kind d (tree_items t) ?st)
             (\<lambda>st. go_return (st\<lparr>cl_trees := cl_trees st @ [t]\<rparr>))) s = Some (r', sa) \<and> (trees_fine P R s kind U \<longrightarrow> is_ok r')"
        using items fine by (cases r1) (auto simp: go_then_def ensure_object_kind_def ensure_kind_def)
    qed (use r(3) 1(4) in \<open>auto simp: trees_fine_def tree_fine_def\<close>)
  qed (simp add: collect_tree_cases)
next
  case (3 P R kind depth i rest st)
  let ?h = "hash_to_string (pc_hex P) (item_id i)"
  have fin: "finite U" and ro: "read_only R s" using 3(3,4) by (simp_all add: trees_closed_def)
  let ?step = "if item_mode i = TM_Tree then collect_tree_objects P R kind depth ?h st
        else if item_mode i \<in> {TM_Blob, TM_BlobExecutable} \<and> ?h \<notin> cl_visited_blobs st
        then collect_blob P R kind ?h st else go_return st"
  let ?good = "trees_fine P R s kind U \<and> items_fine P R s kind (i # rest)"
  have rest_fine: "items_fine P R s kind rest" if "items_fine P R s kind (i # rest)"
    using that by (auto simp: items_fine_def kids_Cons)
  obtain r s1 where r: "?step s = Some (r, s1)" "?good \<longrightarrow> is_ok r"
    and next_st: "\<And>st1. r = Inr st1 \<Longrightarrow> s1 = s \<and> cl_visited_trees st \<subseteq> cl_visited_trees st1"
  proof (cases "item_mode i = TM_Tree")
    case True
    then have "?h \<in> U" using 3(5) by (simp add: kids_Cons)
    from 3(1)[OF refl True ro 3(4) this 3(6)] obtain r s1 where
      r: "collect_tree_objects P R kind depth ?h st s = Some (r, s1)" "trees_fine P R s kind U \<longrightarrow> is_ok r" by blast
    show ?thesis
    proof (rule that[of r s1])
      show "s1 = s \<and> cl_visited_trees st \<subseteq> cl_visited_trees st1" if "r = Inr st1" for st1
      proof -
        have "collect_tree_objects P R kind depth ?h st s = Some (Inr st1, s1)" using r(1) that by simp
        from collect_sound(1)[OF ro this] show ?thesis using grown_visited[of P R s kind "{?h}" "{}" st st1] by simp
      qed
    qed (use True r in auto)
  next
    case False
    obtain r where r: "collect_blob P R kind ?h st s = Some (r, s)" "blob_fine R s kind ?h \<longrightarrow> is_ok r"
      using collect_blob_ends[OF ro] by blast
    show ?thesis
    proof (cases "item_mode i \<in> {TM_Blob, TM_BlobExecutable} \<and> ?h \<notin> cl_visited_blobs st")
      case blob: True
      show ?thesis
      proof (rule that[of r s])
        show "s = s \<and> cl_visited_trees st \<subseteq> cl_visited_trees st1" if "r = Inr st1" for st1
          using r(1) that by (auto simp: collect_blob_def Let_def go_then_eq_Inr_iff)
      qed (use False blob r in \<open>auto simp: items_fine_def kids_Cons\<close>)
    qed (use False that[of "Inr st" s] in auto)
  qed
  have kids: "tree_kids P rest \<subseteq> U" using 3(5) by (auto simp: kids_Cons split: if_splits)
  have "\<exists>r' s'. go_then ?step (\<lambda>st. collect_tree_items P R kind depth rest st) s = Some (r', s') \<and> (?good \<longrightarrow> is_ok r')"
  proof (rule go_then_ends[where m = ?step, OF r(1) _ r(2)])
    fix st1 assume "r = Inr st1"
    then have st1: "s1 = s" "cl_visited_trees st \<subseteq> cl_visited_trees st1" using next_st by auto
    have "card (U - cl_visited_trees st1) \<le> depth" using card_visited[OF fin st1(2)] 3(6) by simp
    from 3(2)[OF refl ro 3(4) kids this] show "\<exists>r' t. collect_tree_items P R kind depth rest st1 s1 = Some (r', t) \<and> (?good \<longrightarrow> is_ok r')"
      using rest_fine st1(1) by blast
  qed
  moreover have "?good \<longrightarrow> hash_kind (item_id i) = kind" by (simp add: items_fine_def)
  ultimately show ?case
    by (cases "hash_kind (item_id i) = kind") (auto simp: go_then_def[of "go_op _"] ensure_object_kind_def ensure_kind_def Let_def)
qed simp

section \<open>The walk over commits\<close>

lemma queue_parents_iff:
  "queue_parents P kind visited ps q = Inr q' \<longleftrightarrow> (\<forall>p \<in> set ps. hash_kind p = kind) \<and>
     q' = q @ filter (\<lambda>h. h \<notin> visited) (map (hash_to_string (pc_hex P)) ps)"
  by (induction ps arbitrary: q) (auto simp: and_then_eq_Inr_iff check_kind_iff Let_def)

lemma reach_commits_trans:
  "h \<in> reach_commits P R s A \<Longrightarrow> A \<subseteq> reach_commits P R s B \<Longrightarrow> h \<in> reach_commits P R s B"
  by (induction rule: reach_commits.induct) (auto intro: reach_commits.parent_commit)

lemma collect_loop_cases:
  "h \<in> visited \<Longrightarrow> collect_loop P R kind depth n (h # q) cs visited st = collect_loop P R kind depth n q cs visited st"
  "h \<notin> visited \<Longrightarrow> collect_loop P R kind depth 0 (h # q) cs visited st = go_stuck"
  "h \<notin> visited \<Longrightarrow> collect_loop P R kind depth (Suc n) (h # q) cs visited st =
     go_then (fetched ''commit'' h (ra_get_commit R h)) (\<lambda>commit.
     go_then (check_kind P kind ''commit'' (commit_id commit)) (\<lambda>_.
     go_then (check_kind P kind ''commit tree reference'' (commit_tree_id commit)) (\<lambda>_.
     go_then (go_op (op_lift (queue_parents P kind (insert h visited) (parent_commit_ids commit) q))) (\<lambda>q.
     go_then (collect_tree_objects P R kind depth (hash_to_string (pc_hex P) (commit_tree_id commit)) st) (\<lambda>st.
       collect_loop P R kind depth n q (cs @ [commit]) (insert h visited) st)))))"
  by (simp_all add: collect_loop.simps(2) Let_def)

lemma loop_sound:
  "read_only R s \<Longrightarrow> collect_loop P R kind depth n q cs visited st s = Some (Inr (cs', ts, bs), s') \<Longrightarrow>
   \<exists>hs st'. s' = s \<and> cs' = cs @ map (the \<circ> commit_at R s) hs \<and> distinct hs \<and> set hs \<inter> visited = {} \<and>
     (\<forall>h \<in> set hs. commit_fine R s kind h \<and> parents_at P R s h \<subseteq> visited \<union> set hs) \<and> set q \<subseteq> visited \<union> set hs \<and>
     set hs \<subseteq> reach_commits P R s (set q) \<and> grown P R s kind (root_at P R s ` set hs) {} st st' \<and>
     ts = cl_trees st' \<and> bs = cl_blobs st'"
proof (induction P R kind depth n q cs visited st rule: collect_loop.induct)
  case (1 P R kind depth n cs visited st)
  then show ?case by (intro exI[of _ "[]"] exI[of _ st]) (auto intro: grown_refl)
next
  case (2 P R kind depth n h q cs visited st)
  show ?case
  proof (cases "h \<in> visited")
    case True
    from 2(1)[OF True 2(3)] 2(4) obtain hs st' where hs: "s' = s" "cs' = cs @ map (the \<circ> commit_at R s) hs" "distinct hs"
      "set hs \<inter> visited = {}" "\<forall>h \<in> set hs. commit_fine R s kind h \<and> parents_at P R s h \<subseteq> visited \<union> set hs"
      "set q \<subseteq> visited \<union> set hs" "set hs \<subseteq> reach_commits P R s (set q)"
      "grown P R s kind (root_at P R s ` set hs) {} st st'" "ts = cl_trees st'" "bs = cl_blobs st'"
      unfolding collect_loop_cases(1)[OF True] by blast
    have "set hs \<subseteq> reach_commits P R s (set (h # q))"
      using hs(7) reach_commits_trans[of _ P R s "set q" "set (h # q)"] by (auto intro: reach_commits.wanted_commit)
    then show ?thesis using hs True by (intro exI[of _ hs] exI[of _ st']) auto
  next
    case False
    then obtain m where n: "n = Suc m" using 2(4) by (cases n) (auto simp: collect_loop_cases)
    let ?q = "\<lambda>c. q @ filter (\<lambda>k. k \<notin> insert h visited) (map (hash_to_string (pc_hex P)) (parent_commit_ids c))"
    obtain c st1 s1 where c: "commit_at R s h = Some c" "hash_kind (commit_id c) = kind" "hash_kind (commit_tree_id c) = kind"
        "\<forall>p \<in> set (parent_commit_ids c). hash_kind p = kind"
      and tree: "collect_tree_objects P R kind depth (hash_to_string (pc_hex P) (commit_tree_id c)) st s = Some (Inr st1, s1)"
      and rest1: "collect_loop P R kind depth m (?q c) (cs @ [c]) (insert h visited) st1 s1 = Some (Inr (cs', ts, bs), s')"
      using 2(4) unfolding n collect_loop_cases(3)[OF False]
      by (auto simp: go_then_eq_Inr_iff fetched_eq_Inr_iff found_iff[OF 2(3)] check_kind_iff queue_parents_iff)
    have tree: "s1 = s" "grown P R s kind {root_at P R s h} {} st st1"
      using collect_sound(1)[OF 2(3) tree] c(1) by (simp_all add: root_at_def)
    obtain hs st' where hs: "s' = s" "cs' = (cs @ [c]) @ map (the \<circ> commit_at R s) hs" "distinct hs"
      "set hs \<inter> insert h visited = {}" "\<forall>k \<in> set hs. commit_fine R s kind k \<and> parents_at P R s k \<subseteq> insert h visited \<union> set hs"
      "set (?q c) \<subseteq> insert h visited \<union> set hs" "set hs \<subseteq> reach_commits P R s (set (?q c))"
      "grown P R s kind (root_at P R s ` set hs) {} st1 st'" "ts = cl_trees st'" "bs = cl_blobs st'"
      using 2(2)[OF False n refl 2(3) rest1[unfolded tree(1)]] by blast
    have parents: "parents_at P R s h \<subseteq> insert h visited \<union> set (?q c)" using c(1) by (auto simp: parents_at_def)
    have "set (?q c) \<subseteq> reach_commits P R s (set (h # q))"
    proof
      fix k assume "k \<in> set (?q c)"
      then consider "k \<in> set q" | "k \<in> parents_at P R s h" using c(1) by (auto simp: parents_at_def)
      then show "k \<in> reach_commits P R s (set (h # q))"
        using c(1) by cases (auto intro: reach_commits.intros)
    qed
    then have "set (h # hs) \<subseteq> reach_commits P R s (set (h # q))"
      using hs(7) reach_commits_trans[of _ P R s "set (?q c)" "set (h # q)"] reach_commits.wanted_commit[of h "set (h # q)" P R s] by auto
    moreover have "commit_fine R s kind h" using c by (simp add: commit_fine_def)
    moreover have "grown P R s kind (root_at P R s ` set (h # hs)) {} st st'"
      using grown_trans[OF tree(2) hs(8)] by simp
    moreover have "parents_at P R s h \<subseteq> visited \<union> set (h # hs)" using subset_trans[OF parents, of "visited \<union> set (h # hs)"] hs(6) by auto
    then have "\<forall>k \<in> set (h # hs). parents_at P R s k \<subseteq> visited \<union> set (h # hs)" using hs(5) by simp
    moreover have "set (h # q) \<subseteq> visited \<union> set (h # hs)" using hs(6) by auto
    ultimately show ?thesis
      using hs(1-5,9,10) c(1) False by (intro exI[of _ "h # hs"] exI[of _ st']) auto
  qed
qed


text \<open>The queue: enough commits and enough depth end the walk, and it fails only on an object that is not
  fine.\<close>

definition commits_closed :: "ProtoCrates \<Rightarrow> 's RepositoryAccess \<Rightarrow> 's \<Rightarrow> bytes set \<Rightarrow> bytes set \<Rightarrow> bool" where
  "commits_closed P R s U V \<longleftrightarrow> finite U \<and> (\<forall>h \<in> U. commit_at R s h \<noteq> None \<longrightarrow> parents_at P R s h \<subseteq> U \<and> root_at P R s h \<in> V)"

definition all_fine :: "ProtoCrates \<Rightarrow> 's RepositoryAccess \<Rightarrow> 's \<Rightarrow> HashKind \<Rightarrow> bytes set \<Rightarrow> bytes set \<Rightarrow> bool" where
  "all_fine P R s kind U V \<longleftrightarrow> (\<forall>h \<in> U. commit_fine R s kind h) \<and> trees_fine P R s kind V"

lemma queue_parents_ends:
  "(\<forall>p \<in> set ps. hash_kind p = kind) \<Longrightarrow> is_ok (queue_parents P kind visited ps q)"
  by (simp add: is_ok_iff queue_parents_iff)

lemma loop_ends:
  "read_only R s \<Longrightarrow> commits_closed P R s U V \<Longrightarrow> trees_closed P R s V \<Longrightarrow> set q \<subseteq> U \<Longrightarrow> card (U - visited) \<le> n \<Longrightarrow>
   card (V - cl_visited_trees st) \<le> depth \<Longrightarrow>
   \<exists>r s'. collect_loop P R kind depth n q cs visited st s = Some (r, s') \<and> (all_fine P R s kind U V \<longrightarrow> is_ok r)"
proof (induction P R kind depth n q cs visited st rule: collect_loop.induct)
  case (2 P R kind depth n h q cs visited st)
  have fin: "finite U" "finite V" and h: "h \<in> U" using 2(4,5,6) by (simp_all add: commits_closed_def trees_closed_def)
  show ?case
  proof (cases "h \<in> visited")
    case True
    then show ?thesis using 2(1)[OF True 2(3,4,5) _ 2(7,8)] 2(6) by (simp add: collect_loop_cases)
  next
    case False
    then have "U - visited \<noteq> {}" "finite (U - visited)" using h fin by auto
    then obtain m where m: "n = Suc m" using 2(7) by (cases n) auto
    have "U - insert h visited = (U - visited) - {h}" by auto
    then have card: "card (U - insert h visited) \<le> m" using 2(7) False fin h m by (simp add: card_Diff_singleton)
    have "snd (ra_get_commit R h s) = s" using 2(3) by (simp add: read_only_def)
    from fetched_ends[where m = "ra_get_commit R h", OF this] obtain r where r:
      "fetched ''commit'' h (ra_get_commit R h) s = Some (r, s)" "\<And>c. r = Inr c \<Longrightarrow> commit_at R s h = Some c"
      "commit_at R s h \<noteq> None \<Longrightarrow> is_ok r" unfolding commit_at_def by metis
    have good: "all_fine P R s kind U V \<Longrightarrow> commit_fine R s kind h" using h by (simp add: all_fine_def)
    let ?after = "\<lambda>c. go_then (check_kind P kind ''commit'' (commit_id c)) (\<lambda>_.
       go_then (check_kind P kind ''commit tree reference'' (commit_tree_id c)) (\<lambda>_.
       go_then (go_op (op_lift (queue_parents P kind (insert h visited) (parent_commit_ids c) q))) (\<lambda>q.
       go_then (collect_tree_objects P R kind depth (hash_to_string (pc_hex P) (commit_tree_id c)) st) (\<lambda>st.
         collect_loop P R kind depth m q (cs @ [c]) (insert h visited) st))))"
    show ?thesis unfolding m collect_loop_cases(3)[OF False]
    proof (rule go_then_ends[where m = "fetched ''commit'' h (ra_get_commit R h)", OF r(1)])
      fix c assume "r = Inr c"
      then have c: "commit_at R s h = Some c" by (rule r(2))
      then have root: "hash_to_string (pc_hex P) (commit_tree_id c) \<in> V" and parents: "parents_at P R s h \<subseteq> U"
        using 2(4) h by (auto simp: commits_closed_def root_at_def)
      have fine: "hash_kind (commit_id c) = kind \<and> hash_kind (commit_tree_id c) = kind \<and>
          (\<forall>p \<in> set (parent_commit_ids c). hash_kind p = kind)" if "all_fine P R s kind U V"
        using good[OF that] c by (simp add: commit_fine_def)
      show "\<exists>r' t. ?after c s = Some (r', t) \<and> (all_fine P R s kind U V \<longrightarrow> is_ok r')"
      proof (cases "queue_parents P kind (insert h visited) (parent_commit_ids c) q")
        case (Inl e)
        then show ?thesis using fine queue_parents_ends[of "parent_commit_ids c" kind P "insert h visited" q]
          by (auto simp: go_then_def ensure_object_kind_def ensure_kind_def)
      next
        case (Inr q')
        then have "set q' \<subseteq> U" using 2(6) parents c by (auto simp: queue_parents_iff parents_at_def)
        moreover obtain rt s1 where tree: "collect_tree_objects P R kind depth (hash_to_string (pc_hex P) (commit_tree_id c)) st s = Some (rt, s1)"
          "trees_fine P R s kind V \<longrightarrow> is_ok rt"
          using collect_ends(1)[OF 2(3,5) root 2(8)] by blast
        moreover have next_st: "s1 = s \<and> card (V - cl_visited_trees st1) \<le> depth" if "rt = Inr st1" for st1
        proof -
          have "collect_tree_objects P R kind depth (hash_to_string (pc_hex P) (commit_tree_id c)) st s = Some (Inr st1, s1)"
            using tree(1) that by simp
          from collect_sound(1)[OF 2(3) this] have "s1 = s" "cl_visited_trees st \<subseteq> cl_visited_trees st1"
            using grown_visited[of P R s kind "{hash_to_string (pc_hex P) (commit_tree_id c)}" "{}" st st1] by simp_all
          then show ?thesis using card_visited[OF fin(2), of "cl_visited_trees st" "cl_visited_trees st1"] 2(8) by simp
        qed
        ultimately have "\<exists>r' t. go_then (collect_tree_objects P R kind depth (hash_to_string (pc_hex P) (commit_tree_id c)) st) (\<lambda>st.
            collect_loop P R kind depth m q' (cs @ [c]) (insert h visited) st) s = Some (r', t) \<and> (all_fine P R s kind U V \<longrightarrow> is_ok r')"
          using 2(2)[OF False m refl 2(3,4,5) _ card] by (intro go_then_ends[where m = "collect_tree_objects P R kind depth (hash_to_string (pc_hex P) (commit_tree_id c)) st", OF tree(1)])
             (auto simp: all_fine_def)
        then show ?thesis using fine Inr by (auto simp: go_then_def[of "go_op _"] ensure_object_kind_def ensure_kind_def)
      qed
    qed (use r(3) good in \<open>auto simp: commit_fine_def\<close>)
  qed
qed simp

section \<open>What is collected\<close>

definition needed_commits :: "ProtoCrates \<Rightarrow> 's RepositoryAccess \<Rightarrow> 's \<Rightarrow> bytes list \<Rightarrow> bytes set" where
  "needed_commits P R s want = reach_commits P R s (set want)"

definition needed_trees :: "ProtoCrates \<Rightarrow> 's RepositoryAccess \<Rightarrow> 's \<Rightarrow> bytes list \<Rightarrow> bytes set" where
  "needed_trees P R s want =
     reach_trees P R s (root_at P R s ` {h \<in> needed_commits P R s want. commit_at R s h \<noteq> None})"

text \<open>The blobs of the regular and executable files, which the walk fetches, and all blobs that the trees
  reference, those of symbolic links included.\<close>

definition regular_blobs :: "ProtoCrates \<Rightarrow> 's RepositoryAccess \<Rightarrow> 's \<Rightarrow> bytes list \<Rightarrow> bytes set" where
  "regular_blobs P R s want = blob_ids P R s {h \<in> needed_trees P R s want. tree_at R s h \<noteq> None}"

definition needed_blobs :: "ProtoCrates \<Rightarrow> 's RepositoryAccess \<Rightarrow> 's \<Rightarrow> bytes list \<Rightarrow> bytes set" where
  "needed_blobs P R s want = {hash_to_string (pc_hex P) (item_id i) | h t i. h \<in> needed_trees P R s want \<and>
     tree_at R s h = Some t \<and> i \<in> set (tree_items t) \<and> item_mode i \<in> {TM_Blob, TM_BlobExecutable, TM_Link}}"

definition no_links :: "ProtoCrates \<Rightarrow> 's RepositoryAccess \<Rightarrow> 's \<Rightarrow> bytes list \<Rightarrow> bool" where
  "no_links P R s want \<longleftrightarrow> (\<forall>h \<in> needed_trees P R s want. \<forall>t. tree_at R s h = Some t \<longrightarrow>
     (\<forall>i \<in> set (tree_items t). item_mode i \<noteq> TM_Link))"

definition sendable :: "ProtoCrates \<Rightarrow> 's RepositoryAccess \<Rightarrow> 's \<Rightarrow> HashKind \<Rightarrow> bytes list \<Rightarrow> bool" where
  "sendable P R s kind want \<longleftrightarrow> (\<forall>h \<in> needed_commits P R s want. commit_fine R s kind h) \<and>
     (\<forall>h \<in> needed_trees P R s want. tree_fine R s kind h) \<and> (\<forall>h \<in> needed_blobs P R s want. blob_fine R s kind h)"

definition walkable :: "ProtoCrates \<Rightarrow> 's RepositoryAccess \<Rightarrow> 's \<Rightarrow> HashKind \<Rightarrow> bytes list \<Rightarrow> bool" where
  "walkable P R s kind want \<longleftrightarrow> (\<forall>h \<in> needed_commits P R s want. commit_fine R s kind h) \<and>
     (\<forall>h \<in> needed_trees P R s want. tree_fine R s kind h) \<and> (\<forall>h \<in> regular_blobs P R s want. blob_fine R s kind h)"

lemma regular_blobs_eq:
  "regular_blobs P R s want = {hash_to_string (pc_hex P) (item_id i) | h t i. h \<in> needed_trees P R s want \<and>
     tree_at R s h = Some t \<and> i \<in> set (tree_items t) \<and> item_mode i \<in> {TM_Blob, TM_BlobExecutable}}"
  unfolding regular_blobs_def blob_ids_def blob_kids_def by force

lemma no_links_blobs: "no_links P R s want \<Longrightarrow> needed_blobs P R s want = regular_blobs P R s want"
  unfolding no_links_def needed_blobs_def regular_blobs_eq by blast

lemma no_links_sendable: "no_links P R s want \<Longrightarrow> sendable P R s kind want \<longleftrightarrow> walkable P R s kind want"
  by (simp add: sendable_def walkable_def no_links_blobs)

lemma closed_reach:
  assumes "roots \<subseteq> H" "\<And>h. h \<in> H \<Longrightarrow> tree_kids P (items_at R s h) \<subseteq> H"
  shows "reach_trees P R s roots \<subseteq> H"
proof
  fix h assume "h \<in> reach_trees P R s roots"
  then show "h \<in> H" by (induction rule: reach_trees.induct) (use assms in blast)+
qed

lemma closed_commits:
  assumes "roots \<subseteq> H" "\<And>h. h \<in> H \<Longrightarrow> parents_at P R s h \<subseteq> H"
  shows "reach_commits P R s roots \<subseteq> H"
proof
  fix h assume "h \<in> reach_commits P R s roots"
  then show "h \<in> H" by (induction rule: reach_commits.induct) (use assms in blast)+
qed

lemma grown_exact:
  assumes "grown P R s kind roots {} \<lparr>cl_trees = [], cl_blobs = [], cl_visited_trees = {}, cl_visited_blobs = {}\<rparr> st"
  obtains hs bs where "cl_trees st = map (the \<circ> tree_at R s) hs" "distinct hs" "set hs = reach_trees P R s roots"
    "cl_blobs st = map (the \<circ> blob_at R s) bs" "distinct bs" "set bs = blob_ids P R s (set hs)"
    "\<forall>h \<in> set hs. tree_fine R s kind h" "\<forall>b \<in> set bs. blob_fine R s kind b"
proof -
  obtain hs bs where g: "cl_trees st = map (the \<circ> tree_at R s) hs" "distinct hs" "cl_visited_trees st = set hs"
     "cl_blobs st = map (the \<circ> blob_at R s) bs" "distinct bs" "cl_visited_blobs st = set bs"
     "\<forall>h \<in> set hs. tree_fine R s kind h \<and> tree_kids P (items_at R s h) \<subseteq> set hs \<and> blob_kids P (items_at R s h) \<subseteq> set bs"
     "\<forall>b \<in> set bs. blob_fine R s kind b" "roots \<subseteq> set hs" "set hs \<subseteq> reach_trees P R s roots"
     "set bs \<subseteq> blob_ids P R s (set hs)"
    using assms unfolding grown_def by auto
  have "reach_trees P R s roots \<subseteq> set hs" using g(7) by (intro closed_reach[OF g(9)]) blast
  moreover have "blob_ids P R s (set hs) \<subseteq> set bs" using g(7) by (auto simp: blob_ids_def)
  ultimately show ?thesis using that g by blast
qed

lemma walk_collects:
  assumes "read_only R s"
    and "finite (needed_commits P R s want)" "card (needed_commits P R s want) \<le> n"
    and "finite (needed_trees P R s want)" "card (needed_trees P R s want) \<le> depth"
  shows "\<exists>r s'. collect_all_objects P R kind depth n want s = Some (r, s') \<and> (is_ok r \<longleftrightarrow> walkable P R s kind want) \<and>
    (\<forall>cs ts bs. r = Inr (cs, ts, bs) \<longrightarrow> s' = s \<and> (\<exists>chs ths bhs.
       distinct chs \<and> set chs = needed_commits P R s want \<and> map Some cs = map (commit_at R s) chs \<and>
       distinct ths \<and> set ths = needed_trees P R s want \<and> map Some ts = map (tree_at R s) ths \<and>
       distinct bhs \<and> set bhs = regular_blobs P R s want \<and> map Some bs = map (blob_at R s) bhs))"
proof -
  let ?C = "needed_commits P R s want" and ?T = "needed_trees P R s want"
  let ?st = "\<lparr>cl_trees = [], cl_blobs = [], cl_visited_trees = {}, cl_visited_blobs = {}\<rparr>"
  have closed: "commits_closed P R s ?C ?T" "trees_closed P R s ?T" "set want \<subseteq> ?C"
    using assms(2,4) by (auto simp: commits_closed_def trees_closed_def needed_commits_def needed_trees_def
        intro: reach_commits.intros reach_trees.intros)
  obtain r s' where r: "collect_loop P R kind depth n want [] {} ?st s = Some (r, s')" "all_fine P R s kind ?C ?T \<longrightarrow> is_ok r"
    using loop_ends[OF assms(1) closed, of "{}" n ?st depth kind "[]"] assms(3,5) by auto
  have ok: "\<exists>chs ths bhs. s' = s \<and> distinct chs \<and> set chs = ?C \<and> map Some cs = map (commit_at R s) chs \<and>
       distinct ths \<and> set ths = ?T \<and> map Some ts = map (tree_at R s) ths \<and>
       distinct bhs \<and> set bhs = regular_blobs P R s want \<and> map Some bs = map (blob_at R s) bhs \<and> walkable P R s kind want"
    if inr: "r = Inr (cs, ts, bs)" for cs ts bs
  proof -
    from loop_sound[OF assms(1) r(1)[unfolded inr]] obtain hs st' where hs: "s' = s" "cs = map (the \<circ> commit_at R s) hs" "distinct hs"
        "\<forall>h \<in> set hs. commit_fine R s kind h \<and> parents_at P R s h \<subseteq> set hs" "set want \<subseteq> set hs"
        "set hs \<subseteq> ?C" "grown P R s kind (root_at P R s ` set hs) {} ?st st'" "ts = cl_trees st'" "bs = cl_blobs st'"
      by (auto simp: needed_commits_def)
    have C: "set hs = ?C" using hs(6) closed_commits[OF hs(5), of P R s] hs(4) unfolding needed_commits_def by blast
    then have "{h \<in> ?C. commit_at R s h \<noteq> None} = set hs" using hs(4) by (auto simp: commit_fine_def)
    then have T: "reach_trees P R s (root_at P R s ` set hs) = ?T" by (simp add: needed_trees_def)
    from grown_exact[OF hs(7)] obtain ths bhs where g: "ts = map (the \<circ> tree_at R s) ths" "distinct ths" "set ths = ?T"
        "bs = map (the \<circ> blob_at R s) bhs" "distinct bhs" "set bhs = blob_ids P R s (set ths)"
        "\<forall>h \<in> set ths. tree_fine R s kind h" "\<forall>b \<in> set bhs. blob_fine R s kind b"
      unfolding hs(8,9) T by blast
    have "{h \<in> ?T. tree_at R s h \<noteq> None} = ?T" using g(3,7) by (auto simp: tree_fine_def)
    then have B: "regular_blobs P R s want = set bhs" using g(3,6) by (simp add: regular_blobs_def)
    have "map Some cs = map (commit_at R s) hs" "map Some ts = map (tree_at R s) ths" "map Some bs = map (blob_at R s) bhs"
      using hs(2,4) g(1,4,7,8) by (auto simp: commit_fine_def tree_fine_def blob_fine_def)
    then show ?thesis using hs(1,3,4) C B g(2,3,5,7,8) by (auto simp: walkable_def)
  qed
  have "all_fine P R s kind ?C ?T" if "walkable P R s kind want"
  proof -
    have "{h \<in> ?T. tree_at R s h \<noteq> None} = ?T" using that by (auto simp: walkable_def tree_fine_def)
    then show ?thesis using that by (auto simp: walkable_def all_fine_def trees_fine_def regular_blobs_def)
  qed
  moreover have "walkable P R s kind want" if okr: "is_ok r"
  proof -
    obtain cs ts bs where "r = Inr (cs, ts, bs)" using okr by (metis is_ok_iff prod_cases3)
    from ok[OF this] show ?thesis by blast
  qed
  ultimately have "is_ok r \<longleftrightarrow> walkable P R s kind want" using r(2) by blast
  then show ?thesis
    unfolding collect_all_objects_def
  proof (intro exI[of _ r] exI[of _ s'] conjI r(1) allI impI)
    fix cs ts bs assume "r = Inr (cs, ts, bs)"
    note all = ok[OF this]
    then show "s' = s" by blast
    from all show "\<exists>chs ths bhs. distinct chs \<and> set chs = ?C \<and> map Some cs = map (commit_at R s) chs \<and>
       distinct ths \<and> set ths = ?T \<and> map Some ts = map (tree_at R s) ths \<and>
       distinct bhs \<and> set bhs = regular_blobs P R s want \<and> map Some bs = map (blob_at R s) bhs"
      by (elim exE conjE) (intro exI conjI)
  qed
qed

text \<open>A symbolic link is not a reason to fetch its blob: the walk succeeds without it and leaves it out.\<close>

lemma link_blobs_left_out:
  assumes "read_only R s"
    and "finite (needed_commits P R s want)" "card (needed_commits P R s want) \<le> n"
    and "finite (needed_trees P R s want)" "card (needed_trees P R s want) \<le> depth"
    and "walkable P R s kind want"
  shows "\<exists>cs ts bs bhs. collect_all_objects P R kind depth n want s = Some (Inr (cs, ts, bs), s) \<and>
    map Some bs = map (blob_at R s) bhs \<and> set bhs = regular_blobs P R s want"
proof -
  obtain r s' where r: "collect_all_objects P R kind depth n want s = Some (r, s')" "is_ok r"
    "\<forall>cs ts bs. r = Inr (cs, ts, bs) \<longrightarrow> s' = s \<and> (\<exists>chs ths bhs.
       distinct chs \<and> set chs = needed_commits P R s want \<and> map Some cs = map (commit_at R s) chs \<and>
       distinct ths \<and> set ths = needed_trees P R s want \<and> map Some ts = map (tree_at R s) ths \<and>
       distinct bhs \<and> set bhs = regular_blobs P R s want \<and> map Some bs = map (blob_at R s) bhs)"
    using walk_collects[OF assms(1-5), of kind] assms(6) by blast
  obtain cs ts bs where inr: "r = Inr (cs, ts, bs)" using r(2) by (metis is_ok_iff prod_cases3)
  from r(3)[rule_format, OF inr] obtain bhs where "s' = s" "set bhs = regular_blobs P R s want" "map Some bs = map (blob_at R s) bhs"
    by blast
  then show ?thesis using r(1) inr by blast
qed

text \<open>C3: the objects of a full pack.  Take a repository that does not change while it is read and in whose
  reachable trees there is no symbolic link, and bounds that are at least the numbers of reachable
  commits and trees.  Then the walk ends; it succeeds exactly when every commit, tree and blob that the wanted
  commits reach is there and of the repository's object format, and then its three lists hold each of
  these objects exactly once and no other.  (The blobs of symbolic links are left out by the walk, which
  \<open>link_blobs_left_out\<close> shows.)\<close>

theorem collected_objects_exact:
  assumes "read_only R s" "no_links P R s want"
    and "finite (needed_commits P R s want)" "card (needed_commits P R s want) \<le> n"
    and "finite (needed_trees P R s want)" "card (needed_trees P R s want) \<le> depth"
  shows "\<exists>r s'. collect_all_objects P R kind depth n want s = Some (r, s') \<and> (is_ok r \<longleftrightarrow> sendable P R s kind want) \<and>
    (\<forall>cs ts bs. r = Inr (cs, ts, bs) \<longrightarrow> s' = s \<and> (\<exists>chs ths bhs.
       distinct chs \<and> set chs = needed_commits P R s want \<and> map Some cs = map (commit_at R s) chs \<and>
       distinct ths \<and> set ths = needed_trees P R s want \<and> map Some ts = map (tree_at R s) ths \<and>
       distinct bhs \<and> set bhs = needed_blobs P R s want \<and> map Some bs = map (blob_at R s) bhs))"
  unfolding no_links_sendable[OF assms(2)] no_links_blobs[OF assms(2)] by (rule walk_collects[OF assms(1,3-6)])

text \<open>A repository with two commits over one tree with one blob.\<close>

definition walk_id :: "nat \<Rightarrow> ObjectHash" where
  "walk_id n = HSha1 (replicate 20 (of_nat n))"

definition walk_key :: "ProtoCrates \<Rightarrow> nat \<Rightarrow> bytes" where
  "walk_key P n = hash_to_string (pc_hex P) (walk_id n)"

definition walk_commit :: "nat \<Rightarrow> nat list \<Rightarrow> Commit" where
  "walk_commit n ps = \<lparr>commit_id = walk_id n, commit_tree_id = walk_id 3, parent_commit_ids = map walk_id ps,
     commit_author = sample_sig Author, commit_committer = sample_sig Committer, commit_message = [10]\<rparr>"

definition walk_tree :: Tree where
  "walk_tree = \<lparr>tree_id = walk_id 3, tree_items = [\<lparr>item_mode = TM_Blob, item_id = walk_id 4, item_name = [97]\<rparr>]\<rparr>"

definition walk_crates :: ProtoCrates where
  "walk_crates = \<lparr>pc_crates = plain_crates, pc_hex_decode = sample_hex_decode,
     pc_gbk = \<lambda>_. None\<rparr>"

definition walk_repo :: "unit RepositoryAccess" where
  "walk_repo = \<lparr>ra_object_hash_kind = \<lambda>_. KSha1, ra_get_repository_refs = op_return [], ra_has_object = \<lambda>_. op_return True,
     ra_get_object = \<lambda>_. op_return [], ra_store_pack_data = \<lambda>_. op_return (), ra_update_reference = \<lambda>_ _ _. op_return (),
     ra_get_objects_for_pack = \<lambda>_ _. op_return [], ra_has_default_branch = op_return True, ra_post_receive_hook = op_return (),
     ra_get_blob = \<lambda>h. op_return \<lparr>blob_id = walk_id 4, blob_data = [1]\<rparr>,
     ra_get_commit = \<lambda>h. op_return (walk_commit (if h = walk_key walk_crates 1 then 1 else 2)
         (if h = walk_key walk_crates 1 then [2] else [])),
     ra_get_tree = \<lambda>h. op_return walk_tree, ra_commit_exists = \<lambda>_. op_return True,
     ra_handle_pack_objects = \<lambda>_ _ _. op_return ()\<rparr>"

lemma walk_reads:
  "read_only walk_repo s" "tree_at walk_repo s h = Some walk_tree"
  "blob_at walk_repo s h = Some \<lparr>blob_id = walk_id 4, blob_data = [1]\<rparr>"
  "commit_at walk_repo s h = Some (walk_commit (if h = walk_key walk_crates 1 then 1 else 2)
     (if h = walk_key walk_crates 1 then [2] else []))"
  by (simp_all add: walk_repo_def read_only_def tree_at_def blob_at_def commit_at_def found_def)

lemma walk_needed:
  "needed_commits walk_crates walk_repo s [walk_key walk_crates 1] \<subseteq> {walk_key walk_crates 1, walk_key walk_crates 2}"
  "needed_trees walk_crates walk_repo s [walk_key walk_crates 1] \<subseteq> {walk_key walk_crates 3}"
proof -
  show "needed_commits walk_crates walk_repo s [walk_key walk_crates 1] \<subseteq> {walk_key walk_crates 1, walk_key walk_crates 2}"
    unfolding needed_commits_def
    by (rule closed_commits) (auto simp: parents_at_def walk_reads walk_commit_def walk_key_def)
  show "needed_trees walk_crates walk_repo s [walk_key walk_crates 1] \<subseteq> {walk_key walk_crates 3}"
    unfolding needed_trees_def
    by (rule closed_reach) (auto simp: root_at_def walk_reads walk_commit_def walk_key_def tree_kids_def walk_tree_def)
qed

theorem collected_objects_exact_witness:
  "\<exists>r s'. collect_all_objects walk_crates walk_repo KSha1 1 2 [walk_key walk_crates 1] () = Some (r, s') \<and> is_ok r"
proof -
  let ?w = "[walk_key walk_crates 1]"
  note sub = walk_needed[of "()"]
  have fin: "finite (needed_commits walk_crates walk_repo () ?w)" "finite (needed_trees walk_crates walk_repo () ?w)"
    using sub finite_subset by blast+
  have card: "card (needed_commits walk_crates walk_repo () ?w) \<le> 2" "card (needed_trees walk_crates walk_repo () ?w) \<le> 1"
    using card_mono[OF _ sub(1)] card_mono[OF _ sub(2)] by (auto simp: card_insert_if split: if_splits)
  have links: "no_links walk_crates walk_repo () ?w" by (simp add: no_links_def walk_reads walk_tree_def)
  have "sendable walk_crates walk_repo () KSha1 ?w"
    by (auto simp: sendable_def needed_blobs_def commit_fine_def tree_fine_def blob_fine_def walk_reads walk_commit_def walk_tree_def walk_id_def)
  then show ?thesis
    using collected_objects_exact[OF walk_reads(1) links fin(1) card(1) fin(2) card(2), of KSha1] by blast
qed

end
