(* ===== verification/Protocol_Transfer.thy ===== *)
theory Protocol_Transfer
  imports Protocol_Walk
begin

text \<open>
  What one side packs, the other unpacks: the streams of \<open>generate_pack_stream\<close> through \<open>unpack_stream\<close>
  (\<open>src/src/protocol/pack.rs\<close>).

  \<^item> \<open>commit_of\<close>, \<open>tree_of\<close> and \<open>blob_of\<close> say what the callback takes from one entry, so that the three lists
    are filters of what the decoder hands out.
  \<^item> \<open>intact\<close> are well-formed objects with correct and different ids.
\<close>

section \<open>The callback\<close>

definition ok_option :: "'e + 'a \<Rightarrow> 'a option" where
  "ok_option r = (case r of Inr x \<Rightarrow> Some x | Inl _ \<Rightarrow> None)"

lemma ok_option_simps [simp]: "ok_option (Inr x) = Some x" "ok_option (Inl e) = None"
  by (simp_all add: ok_option_def)

definition commit_of :: "ProtoCrates \<Rightarrow> Entry \<Rightarrow> Commit option" where
  "commit_of P e = (if en_obj_type e = OT_Commit
     then ok_option (Commit_from_bytes (pc_hex_decode P) (en_data e) (en_hash e)) else None)"

definition tree_of :: "ProtoCrates \<Rightarrow> Entry \<Rightarrow> Tree option" where
  "tree_of P e = (if en_obj_type e = OT_Tree
     then ok_option (Tree_from_bytes (pc_gbk P) (en_data e) (en_hash e)) else None)"

definition blob_of :: "Entry \<Rightarrow> Blob option" where
  "blob_of e = (if en_obj_type e = OT_Blob then ok_option (Blob_from_bytes (en_data e) (en_hash e)) else None)"

lemma map_filter_simps [simp]:
  "List.map_filter f [] = []"
  "List.map_filter f (x # xs) = (case f x of None \<Rightarrow> List.map_filter f xs | Some y \<Rightarrow> y # List.map_filter f xs)"
  "List.map_filter f (xs @ ys) = List.map_filter f xs @ List.map_filter f ys"
  by (simp_all add: List.map_filter_def split: option.splits)

lemma unpack_entries:
  "fold (unpack_entry P) es (cs, ts, bs) =
     (cs @ List.map_filter (commit_of P) es, ts @ List.map_filter (tree_of P) es, bs @ List.map_filter blob_of es)"
proof (induction es arbitrary: cs ts bs)
  case (Cons e es)
  show ?case
    using Cons.IH by (cases "en_obj_type e")
      (simp_all add: unpack_entry_def[of P e] commit_of_def[of P e] tree_of_def[of P e] blob_of_def[of e] Let_def split: sum.splits)
qed simp

lemma mset_map_filter: "mset xs = mset ys \<Longrightarrow> mset (List.map_filter f xs) = mset (List.map_filter f ys)"
  by (simp add: List.map_filter_def)

section \<open>Intact objects\<close>

definition intact_entry :: "ProtoCrates \<Rightarrow> HashKind \<Rightarrow> Entry \<Rightarrow> bool" where
  "intact_entry P kind e \<longleftrightarrow> object_id (pc_crates P) kind e \<and> length (en_data e) < 2 ^ 32"

definition intact :: "ProtoCrates \<Rightarrow> HashKind \<Rightarrow> Objects \<Rightarrow> bool" where
  "intact P kind objects \<longleftrightarrow>
     (case objects of (commits, trees, blobs) \<Rightarrow>
        list_all (wf_commit kind) commits \<and> list_all (\<lambda>t. list_all (wf_item kind) (tree_items t)) trees) \<and>
     (\<forall>es. entries_of P objects = Inr es \<longrightarrow>
        list_all (intact_entry P kind) es \<and> distinct (map en_hash es) \<and> length es \<le> u32_max)"

lemma collect_results_all:
  "(\<And>x. x \<in> set xs \<Longrightarrow> f x = Inr (g x)) \<Longrightarrow> collect_results (map f xs) = Inr (map g xs)"
  by (induction xs) auto

definition entry_of_commit :: "ProtoCrates \<Rightarrow> Commit \<Rightarrow> Entry" where
  "entry_of_commit P c = projr (Entry_from_commit P c)"

definition entry_of_tree :: "Tree \<Rightarrow> Entry" where
  "entry_of_tree t = projr (Entry_from_tree t)"

lemma entry_types:
  "Entry_from_commit P c = Inr (entry_of_commit P c) \<and> en_obj_type (entry_of_commit P c) = OT_Commit \<and>
     en_chain_len (entry_of_commit P c) = 0 \<and> en_hash (entry_of_commit P c) = commit_id c \<and>
     Commit_to_data (pc_hex P) c = Inr (en_data (entry_of_commit P c))"
  "Entry_from_tree t = Inr (entry_of_tree t) \<and> en_obj_type (entry_of_tree t) = OT_Tree \<and> en_chain_len (entry_of_tree t) = 0 \<and>
     en_hash (entry_of_tree t) = tree_id t \<and> Tree_to_data t = Inr (en_data (entry_of_tree t))"
  "en_obj_type (Entry_from_blob b) = OT_Blob \<and> en_chain_len (Entry_from_blob b) = 0"
  by (simp_all add: entry_of_commit_def entry_of_tree_def Entry_from_commit_def Entry_from_tree_def unwrapped_def
      Commit_to_data_def Signature_to_data_def Tree_to_data_def Let_def Entry_from_blob_def)

lemma entries_of_eq:
  "entries_of P (cs, ts, bs) = Inr (map (entry_of_commit P) cs @ map entry_of_tree ts @ map Entry_from_blob bs)"
  using collect_results_all[of cs "Entry_from_commit P" "entry_of_commit P"] collect_results_all[of ts Entry_from_tree entry_of_tree]
  by (simp add: entries_of_def entry_types)

lemma object_id_hash:
  assumes "digest_ok (x_digest X)" "object_id X kind e"
  shows "hash_kind (en_hash e) = kind" "wf_hash (en_hash e)"
proof -
  obtain d where "en_hash e = hash_of kind (x_digest X kind d)"
    using assms(2) by (auto simp: object_id_def calculate_object_hash_iff)
  then show "hash_kind (en_hash e) = kind" "wf_hash (en_hash e)" using assms(1) by (simp_all add: digest_ok_def)
qed

lemma entries_read_back:
  assumes hex: "hex_ok (pc_hex P) (pc_hex_decode P)" and digest: "digest_ok (x_digest (pc_crates P))"
    and intact: "intact P kind (cs, ts, bs)"
  defines "es \<equiv> map (entry_of_commit P) cs @ map entry_of_tree ts @ map Entry_from_blob bs"
  shows "List.map_filter (commit_of P) es = cs" "List.map_filter (tree_of P) es = ts" "List.map_filter blob_of es = bs"
proof -
  have ids: "hash_kind (en_hash e) = kind \<and> wf_hash (en_hash e)" if "e \<in> set es" for e
    using intact that object_id_hash[OF digest, of kind e] by (auto simp: intact_def entries_of_eq es_def list_all_iff intact_entry_def)
  have c: "commit_of P (entry_of_commit P c) = Some c" if "c \<in> set cs" for c
    using that intact ids[of "entry_of_commit P c"] hex entry_types(1)[of P c]
      commit_obj.loads[of "pc_hex P" "pc_hex_decode P" kind c "en_data (entry_of_commit P c)" "commit_id c"]
    by (simp add: es_def commit_of_def intact_def list_all_iff)
  have t: "tree_of P (entry_of_tree t) = Some t" if "t \<in> set ts" for t
    using that intact ids[of "entry_of_tree t"] entry_types(2)[of t]
      tree_obj.loads[of kind t "en_data (entry_of_tree t)" "tree_id t" "pc_gbk P"]
    by (simp add: es_def tree_of_def intact_def list_all_iff)
  have b: "blob_of (Entry_from_blob b) = Some b" for b
    by (simp add: blob_of_def Entry_from_blob_def Blob_from_bytes_def)
  have all: "List.map_filter f (map g xs) = xs" if "\<And>x. x \<in> set xs \<Longrightarrow> f (g x) = Some x" for f and g :: "'x \<Rightarrow> Entry" and xs
    using that by (induction xs) auto
  have none: "List.map_filter f (map g xs) = []" if "\<And>x. f (g x) = None" for f :: "Entry \<Rightarrow> 'y option" and g :: "'x \<Rightarrow> Entry" and xs
    using that by (induction xs) auto
  show "List.map_filter (commit_of P) es = cs" "List.map_filter (tree_of P) es = ts" "List.map_filter blob_of es = bs"
    unfolding es_def map_filter_simps(3)
    by (simp_all add: all c t b none commit_of_def[of P "entry_of_tree _"] commit_of_def[of P "Entry_from_blob _"]
        tree_of_def[of P "entry_of_commit P _"] tree_of_def[of P "Entry_from_blob _"] blob_of_def[of "entry_of_commit P _"]
        blob_of_def[of "entry_of_tree _"] entry_types)
qed

section \<open>Properties\<close>

lemma unpack_stream_iff:
  assumes "read_pack (pc_crates P) kind True streaming pack = Inr (objs, sig)"
    and "\<And>s. (decode_step (unpack_params P))\<^sup>*\<^sup>* (decode_init objs None None) s \<Longrightarrow> finished s \<Longrightarrow>
      is_ok (decode_outcome (pc_hex P) (length objs) s)"
  shows "unpack_stream P kind pack r \<longleftrightarrow> (\<exists>s. (decode_step (unpack_params P))\<^sup>*\<^sup>* (decode_init objs None None) s \<and> finished s \<and>
    r = Inr (fold (unpack_entry P) (map me_inner (ds_emitted s)) ([], [], [])))"
proof
  assume "unpack_stream P kind pack r"
  then show "\<exists>s. (decode_step (unpack_params P))\<^sup>*\<^sup>* (decode_init objs None None) s \<and> finished s \<and>
    r = Inr (fold (unpack_entry P) (map me_inner (ds_emitted s)) ([], [], []))"
  proof cases
    case (undecodable objs' sig' s e)
    then show ?thesis using assms(1) assms(2)[of s] by simp
  qed (use assms(1) in auto)
next
  assume "\<exists>s. (decode_step (unpack_params P))\<^sup>*\<^sup>* (decode_init objs None None) s \<and> finished s \<and>
    r = Inr (fold (unpack_entry P) (map me_inner (ds_emitted s)) ([], [], []))"
  then obtain s where s: "(decode_step (unpack_params P))\<^sup>*\<^sup>* (decode_init objs None None) s" "finished s"
    "r = Inr (fold (unpack_entry P) (map me_inner (ds_emitted s)) ([], [], []))" by blast
  obtain caches where "decode_outcome (pc_hex P) (length objs) s = Inr caches" using assms(2)[OF s(1,2)] by (auto simp: is_ok_iff)
  then show "unpack_stream P kind pack r" unfolding s(3) by (rule unpack_stream.decoded[OF assms(1) s(1,2)])
qed

lemma read_empty_pack:
  assumes "zlib_ok (pc_crates P)" "digest_ok (x_digest (pc_crates P))"
  shows "\<exists>sig. read_pack (pc_crates P) kind True streaming (empty_pack P kind) = Inr ([], sig)"
proof -
  let ?X = "pc_crates P"
  define hdr where "hdr = PACK_MAGIC @ [0, 0, 0, 2] @ be_bytes 4 0"
  define sig where "sig = hash_of kind (x_digest ?X kind hdr)"
  have "be_bytes 4 2 = [0, 0, 0, 2]" by code_simp
  then have pack: "empty_pack P kind = hdr @ [] @ as_ref sig"
    by (simp add: empty_pack_def hdr_def sig_def PACK_MAGIC_def ascii_def byte_of_char_def Let_def ObjectHash_new_for_kind_def
        finalize_object_hash_def hasher_finalize_def)
  have wf: "hash_kind sig = kind" "wf_hash sig" using assms(2) by (simp_all add: sig_def digest_ok_def)
  have "entries_read ?X kind True streaming (empty_pack P kind) [] [] sig"
    unfolding entries_read_def using wf pack
    by (intro exI[of _ 0] exI[of _ hdr]) (simp add: check_header_iff hdr_def)
  moreover have "hash_of kind (x_digest ?X kind (take (length (empty_pack P kind) - hash_size kind) (empty_pack P kind))) = sig"
    using wf unfolding pack by (simp add: wf_hash_def) (simp add: sig_def)
  ultimately show ?thesis unfolding read_pack_iff[OF assms(1) streaming_reads_all] by (auto simp: streaming_def)
qed

text \<open>The entries of intact objects, handed out in any order, give the objects back.\<close>

lemma unpacked_objects:
  assumes "hex_ok (pc_hex P) (pc_hex_decode P)" "digest_ok (x_digest (pc_crates P))" "intact P kind objects"
    and es: "entries_of P objects = Inr es" "mset es' = mset es"
  shows "\<exists>cs ts bs. fold (unpack_entry P) es' ([], [], []) = (cs, ts, bs) \<and> mset cs = mset (fst objects) \<and>
    mset ts = mset (fst (snd objects)) \<and> mset bs = mset (snd (snd objects))"
proof -
  obtain cs ts bs where o: "objects = (cs, ts, bs)" by (cases objects) auto
  have "es = map (entry_of_commit P) cs @ map entry_of_tree ts @ map Entry_from_blob bs" using es(1) by (simp add: o entries_of_eq)
  then show ?thesis
    using entries_read_back[OF assms(1,2) assms(3)[unfolded o]] mset_map_filter[OF es(2), of "commit_of P"]
      mset_map_filter[OF es(2), of "tree_of P"] mset_map_filter[OF es(2), of blob_of]
    by (simp add: unpack_entries o del: map_filter_simps)
qed

text \<open>Packing and unpacking.\<close>

lemma generated_pack_unpacks:
  assumes "zlib_ok (pc_crates P)" "digest_ok (x_digest (pc_crates P))" "hex_ok (pc_hex P) (pc_hex_decode P)"
    and "intact P kind objects" "ev_pool_error ev = None"
  shows "\<exists>chunks. generate_pack_stream P ev cap kind objects = Some (Inr chunks) \<and>
    (length (concat chunks) < 2 ^ 64 \<longrightarrow>
      (\<exists>r. unpack_stream P kind (concat chunks) r) \<and>
      (\<forall>r. unpack_stream P kind (concat chunks) r \<longrightarrow> (\<exists>commits trees blobs. r = Inr (commits, trees, blobs) \<and>
         mset commits = mset (fst objects) \<and> mset trees = mset (fst (snd objects)) \<and> mset blobs = mset (snd (snd objects)))))"
proof -
  let ?X = "pc_crates P" and ?p = "unpack_params P"
  have p: "dp_crates ?p = ?X" "dp_callback ?p" "\<not> dp_skip_unneeded ?p" by (simp_all add: unpack_params_def)
  obtain es where es: "entries_of P objects = Inr es" using entries_of_eq by (metis prod_cases3)
  have types: "\<forall>e \<in> set es. en_obj_type e \<in> {OT_Commit, OT_Tree, OT_Blob} \<and> en_chain_len e = 0"
    using es by (cases objects) (auto simp: entries_of_eq entry_types)
  have ok: "list_all (intact_entry P kind) es" "distinct (map en_hash es)" "length es \<le> u32_max"
    using assms(4) es by (simp_all add: intact_def)
  have kinds: "ensure_entry_kinds P kind es = Inr ()"
  proof -
    have "\<forall>e \<in> set es. hash_kind (en_hash e) = kind"
      using ok(1) object_id_hash[OF assms(2)] by (auto simp: list_all_iff intact_entry_def)
    then show ?thesis by (induction es) (simp_all add: ensure_kind_def)
  qed
  have unpacks: "(\<exists>r. unpack_stream P kind pack r) \<and>
      (\<forall>r. unpack_stream P kind pack r \<longrightarrow> (\<exists>commits trees blobs. r = Inr (commits, trees, blobs) \<and>
         mset commits = mset (fst objects) \<and> mset trees = mset (fst (snd objects)) \<and> mset blobs = mset (snd (snd objects))))"
    if rd: "read_pack ?X kind True streaming pack = Inr (objs, sig)"
      and fin: "\<exists>s. (decode_step ?p)\<^sup>*\<^sup>* (decode_init objs None None) s \<and> finished s"
      and out: "\<And>s. (decode_step ?p)\<^sup>*\<^sup>* (decode_init objs None None) s \<Longrightarrow> finished s \<Longrightarrow>
        is_ok (decode_outcome (pc_hex P) (length objs) s) \<and> mset (map me_inner (ds_emitted s)) = mset es"
    for pack objs sig
    using unpack_stream_iff[OF rd] fin out unpacked_objects[OF assms(3,2,4) es] by (metis (no_types, lifting))
  show ?thesis
  proof (cases "es = []")
    case True
    have run: "generate_pack_stream P ev cap kind objects = Some (Inr [empty_pack P kind])"
      using es kinds True by (simp add: generate_pack_stream_def run_then_def)
    obtain sig where rd: "read_pack ?X kind True streaming (empty_pack P kind) = Inr ([], sig)"
      using read_empty_pack[OF assms(1,2)] by blast
    have none: "pack_objects [] [] []" by (simp add: pack_objects_def)
    have "is_ok (decode_outcome (pc_hex P) (length []) s) \<and> mset (map me_inner (ds_emitted s)) = mset es"
      if "(decode_step ?p)\<^sup>*\<^sup>* (decode_init [] None None) s" "finished s" for s
      using decode_encoded_pack[OF none _ _ p that] True by simp
    from unpacks[OF rd decode_finishes[OF init_waitlist] this] show ?thesis using run by simp
  next
    case False
    let ?ins = "map (\<lambda>e. \<lparr>ma_inner = e, ma_file_path = None\<rparr>) es"
    have "list_all (input_ok kind) ?ins" using ok(1) types object_id_hash[OF assms(2), of kind]
      by (auto simp: list_all_iff intact_entry_def input_ok_def plain_entry_def)
    then have "encodable ?X kind ?ins"
      using ok False by (simp add: encodable_def comp_def list_all_iff intact_entry_def)
    from encode_decode_all[OF assms(1,2) this _ assms(5) p, of "length es + 2" cap 10 None None "pc_hex P"]
    obtain pk where pk: "pack_encode ?X ev cap ?ins (new_with_hash_kind kind (length es) 10 (length es + 2)) = Some (Inr pk)"
      "length (concat (pk_sent pk)) < 2 ^ 64 \<longrightarrow>
        (\<exists>objs. read_pack ?X kind True streaming (concat (pk_sent pk)) = Inr (objs, the (pk_final_hash pk)) \<and>
           (\<exists>s. (decode_step ?p)\<^sup>*\<^sup>* (decode_init objs None None) s \<and> finished s) \<and>
           (\<forall>s. (decode_step ?p)\<^sup>*\<^sup>* (decode_init objs None None) s \<and> finished s \<longrightarrow>
              decode_outcome (pc_hex P) (length objs) s = Inr (cache_clear (ds_caches s)) \<and>
              mset (map me_inner (ds_emitted s)) = mset es))"
      unfolding constructors_fresh(1) by (auto simp: comp_def)
    have "generate_pack_stream P ev cap kind objects = Some (Inr (pk_sent pk))"
      using es kinds False pk(1) by (simp add: generate_pack_stream_def run_then_def Let_def)
    then show ?thesis using pk(2) unpacks[of "concat (pk_sent pk)"] by (metis is_ok_iff)
  qed
qed

text \<open>C2: a push or a fetch from end to end.  Well-formed commits, trees and blobs with correct and
  different ids are packed without error, the empty selection included.  Some run of the receiver's
  thread pool unpacks the stream, and every result it can return is a success with the same
  commits, trees and blobs, each as often as it was packed.\<close>

theorem push_unpack_roundtrip:
  assumes "zlib_ok (pc_crates P)" "digest_ok (x_digest (pc_crates P))" "hex_ok (pc_hex P) (pc_hex_decode P)"
    and "intact P kind objects" "ev_pool_error ev = None"
  shows "\<exists>chunks. generate_pack_stream P ev cap kind objects = Some (Inr chunks) \<and>
    (length (concat chunks) < 2 ^ 64 \<longrightarrow>
      (\<exists>r. unpack_stream P kind (concat chunks) r) \<and>
      (\<forall>r. unpack_stream P kind (concat chunks) r \<longrightarrow> (\<exists>commits trees blobs. r = Inr (commits, trees, blobs) \<and>
         mset commits = mset (fst objects) \<and> mset trees = mset (fst (snd objects)) \<and> mset blobs = mset (snd (snd objects)))))"
  by (rule generated_pack_unpacks[OF assms])

lemma walk_crates_ok:
  "zlib_ok (pc_crates walk_crates)" "digest_ok (x_digest (pc_crates walk_crates))"
  "hex_ok (pc_hex walk_crates) (pc_hex_decode walk_crates)" "ev_pool_error sample_env = None"
  using plain_crates_ok sample_hex_ok by (simp_all add: walk_crates_def sample_env_def) (simp add: plain_crates_def sample_crates_def)

lemma one_blob_intact: "intact walk_crates KSha1 ([], [], [\<lparr>blob_id = race_id 10, blob_data = replicate 3 1\<rparr>])"
  using race_hash[of 3]
  by (simp add: intact_def entries_of_eq intact_entry_def object_id_def Entry_from_blob_def walk_crates_def plain_crates_def)

lemma one_blob_size:
  assumes "generate_pack_stream walk_crates sample_env 0 KSha1
      ([], [], [\<lparr>blob_id = race_id 10, blob_data = replicate 3 1\<rparr>]) = Some (Inr chunks)"
  shows "length (concat chunks) < 2 ^ 64"
proof -
  let ?ins = "[sample_input 3]"
  have e: "Entry_from_blob \<lparr>blob_id = race_id 10, blob_data = replicate 3 1\<rparr> = ma_inner (sample_input 3)"
    and i: "sample_input 3 = \<lparr>ma_inner = ma_inner (sample_input 3), ma_file_path = None\<rparr>"
    by (simp_all add: Entry_from_blob_def sample_input_def)
  have "encodable plain_crates KSha1 ?ins" using sample_encodable by (simp add: encodable_def)
  from pack_encode_read[OF plain_crates_ok this _ sample_encode_conditions(3), of 3 0 10 None]
  obtain pk es items where pk: "pack_encode plain_crates sample_env 0 ?ins (new_with_hash_kind KSha1 1 10 3) = Some (Inr pk)"
    "es = [ma_inner (sample_input 3)]" "encoded_pack plain_crates KSha1 es items pk"
    unfolding constructors_fresh(1) by auto
  have "hash_kind (en_hash (ma_inner (sample_input 3))) = KSha1" by (simp add: sample_input_def race_id_def)
  then have "ensure_entry_kinds walk_crates KSha1 [ma_inner (sample_input 3)] = Inr ()" by (simp add: ensure_kind_def)
  moreover have "entries_of walk_crates ([], [], [\<lparr>blob_id = race_id 10, blob_data = replicate 3 1\<rparr>]) = Inr [ma_inner (sample_input 3)]"
    by (simp add: entries_of_eq e del: replicate.simps)
  moreover have "map (\<lambda>e. \<lparr>ma_inner = e, ma_file_path = None\<rparr>) [ma_inner (sample_input 3)] = [sample_input 3]"
    using i by simp
  ultimately have "generate_pack_stream walk_crates sample_env 0 KSha1
      ([], [], [\<lparr>blob_id = race_id 10, blob_data = replicate 3 1\<rparr>]) = Some (Inr (pk_sent pk))"
    using pk(1) by (simp add: generate_pack_stream_def run_then_def Let_def walk_crates_def numeral_3_eq_3)
  then have "chunks = pk_sent pk" using assms by simp
  moreover obtain b where "map fst items = [b]" "written_whole plain_crates (ma_inner (sample_input 3)) b"
    using pk(3) unfolding pk(2) encoded_pack_def pack_written_def by (auto simp: Let_def length_Suc_conv)
  moreover from this have "length b = 9" using sample_written[of 3 b] by simp
  ultimately show ?thesis
    using pk(3) by (auto simp: encoded_pack_def encode_header_def PACK_MAGIC_def Let_def plain_crates_def sample_crates_def
        sample_digest_def split: if_splits)
qed

theorem push_unpack_roundtrip_witness:
  "\<exists>chunks. generate_pack_stream walk_crates sample_env 0 KSha1
      ([], [], [\<lparr>blob_id = race_id 10, blob_data = replicate 3 1\<rparr>]) = Some (Inr chunks) \<and>
    unpack_stream walk_crates KSha1 (concat chunks) (Inr ([], [], [\<lparr>blob_id = race_id 10, blob_data = replicate 3 1\<rparr>]))"
  using push_unpack_roundtrip[OF walk_crates_ok(1-3) one_blob_intact walk_crates_ok(4), of 0] one_blob_size by fastforce

end
