(* ===== verification/Smart_Protocol.thy ===== *)
theory Smart_Protocol
  imports Protocol_Transfer
begin

text \<open>
  The handler of the smart protocol (\<open>SmartProtocol\<close> in \<open>src/src/protocol/smart.rs\<close>) and its front end
  (\<open>GitProtocol\<close> in \<open>src/src/protocol/core.rs\<close>): the reference advertisement, \<open>git-upload-pack\<close> and
  \<open>git-receive-pack\<close>.

  \<^item> A handler runs on a session: its own fields (\<open>SmartProtocol\<close>) and the state of the repository.  The
    repository changes inside its operations and while the chunks of a request are awaited; each chunk
    of a request comes with the change that happened meanwhile.
  \<^item> What \<open>unpack_stream\<close> returned is an argument of \<open>git_receive_pack_stream\<close>, since it depends on the schedule of
    the decoder's threads, together with the change of the repository during the decode.
  \<^item> A stream that is returned is the list of its items.
\<close>

section \<open>The session\<close>

record SmartProtocol =
  sp_transport_protocol :: TransportProtocol
  sp_capabilities :: "Capability list"
  sp_side_band :: "SideBand option"
  sp_command_list :: "RefCommand list"
  sp_wire_hash_kind :: HashKind
  sp_local_hash_kind :: HashKind
  sp_zero_id :: bytes

type_synonym 's session = "SmartProtocol \<times> 's"

definition on_protocol :: "('s \<Rightarrow> (SmartProtocol, 'a) repo_op) \<Rightarrow> ('s session, 'a) repo_op" where
  "on_protocol f ss = (let (sp, s) = ss; (r, sp') = f s sp in (r, (sp', s)))"

definition on_repo :: "('s, 'a) repo_op \<Rightarrow> ('s session, 'a) repo_op" where
  "on_repo m ss = (let (sp, s) = ss; (r, s') = m s in (r, (sp, s')))"

definition go_on_repo :: "('s, 'a) repo_run \<Rightarrow> ('s session, 'a) repo_run" where
  "go_on_repo m ss = (let (sp, s) = ss in map_option (\<lambda>(r, s'). (r, (sp, s'))) (m s))"

section \<open>The object format\<close>

definition zero_str :: "ProtoCrates \<Rightarrow> HashKind \<Rightarrow> bytes" where
  "zero_str P kind = hash_to_string (pc_hex P) (zero_for_kind kind)"

definition set_wire_hash_kind :: "ProtoCrates \<Rightarrow> HashKind \<Rightarrow> SmartProtocol \<Rightarrow> SmartProtocol" where
  "set_wire_hash_kind P kind sp = sp\<lparr>sp_wire_hash_kind := kind, sp_zero_id := zero_str P kind\<rparr>"

definition SmartProtocol_new :: "ProtoCrates \<Rightarrow> 's RepositoryAccess \<Rightarrow> TransportProtocol \<Rightarrow> 's \<Rightarrow> SmartProtocol" where
  "SmartProtocol_new P R transport_protocol s =
     (let local_hash_kind = ra_object_hash_kind R s in
      \<lparr>sp_transport_protocol = transport_protocol, sp_capabilities = [], sp_side_band = None, sp_command_list = [],
       sp_wire_hash_kind = local_hash_kind, sp_local_hash_kind = local_hash_kind,
       sp_zero_id = zero_str P local_hash_kind\<rparr>)"

definition set_transport_protocol :: "TransportProtocol \<Rightarrow> SmartProtocol \<Rightarrow> SmartProtocol" where
  "set_transport_protocol protocol sp = sp\<lparr>sp_transport_protocol := protocol\<rparr>"

definition ensure_hash_kind_consistency ::
  "ProtoCrates \<Rightarrow> 's RepositoryAccess \<Rightarrow> SmartProtocol \<Rightarrow> 's \<Rightarrow> ProtocolError + unit" where
  "ensure_hash_kind_consistency P R sp s =
     (let repository = ra_object_hash_kind R s in
      if repository \<noteq> sp_local_hash_kind sp \<or> sp_wire_hash_kind sp \<noteq> sp_local_hash_kind sp
      then Inl (object_format_mismatch (sp_wire_hash_kind sp) (sp_local_hash_kind sp) repository)
      else if sp_zero_id sp \<noteq> zero_str P (sp_wire_hash_kind sp)
      then Inl (invalid_request (ascii ''zero ID `'' @ take_chars 80 (sp_zero_id sp)
        @ ascii ''` does not match object-format '' @ HashKind_as_str (sp_wire_hash_kind sp)
        @ ascii '' (expected '' @ decimal_usize_bytes (hex_len (sp_wire_hash_kind sp)) @ ascii '' hex zeros)''))
      else Inr ())"

definition check_session :: "ProtoCrates \<Rightarrow> 's RepositoryAccess \<Rightarrow> ('s session, unit) repo_op" where
  "check_session P R ss = (ensure_hash_kind_consistency P R (fst ss) (snd ss), ss)"

definition is_ascii_uppercase :: "byte \<Rightarrow> bool" where
  "is_ascii_uppercase b \<longleftrightarrow> 65 \<le> unat b \<and> unat b \<le> 90"

definition parse_wire_id :: "ProtoCrates \<Rightarrow> SmartProtocol \<Rightarrow> string \<Rightarrow> bytes \<Rightarrow> ProtocolError + bytes" where
  "parse_wire_id P sp command ident =
     and_then (map_err (\<lambda>e. invalid_wire_id (ascii command) ident (ascii (HashError_display e)))
         (from_hex_for_kind (pc_hex_decode P) (sp_wire_hash_kind sp) ident)) (\<lambda>hash.
     if list_ex is_ascii_uppercase ident
     then Inl (invalid_wire_id (ascii command) ident
       (ascii ''object IDs on the wire must be raw lowercase hex (expected ''
         @ decimal_usize_bytes (hex_len (sp_wire_hash_kind sp)) @ ascii '' lowercase hex chars for ''
         @ HashKind_as_str (sp_wire_hash_kind sp) @ ascii '', got uppercase characters)''))
     else Inr (hash_to_string (pc_hex P) hash))"

section \<open>The reference advertisement\<close>

fun check_refs :: "ProtoCrates \<Rightarrow> SmartProtocol \<Rightarrow> (bytes \<times> bytes) list \<Rightarrow> ProtocolError + unit" where
  "check_refs P sp [] = Inr ()"
| "check_refs P sp ((name, h) # refs) =
     (if length h \<noteq> hex_len (sp_wire_hash_kind sp)
      then Inl (invalid_request (ascii ''Hash length mismatch for ref '' @ name @ ascii '': expected ''
        @ decimal_usize_bytes (hex_len (sp_wire_hash_kind sp)) @ ascii '', got '' @ decimal_usize_bytes (length h)))
      else
        and_then (map_err (\<lambda>e. invalid_request (ascii ''Invalid hash for ref '' @ name @ ascii '': '' @ ProtocolError_display e))
            (parse_wire_id P sp ''info-refs'' h)) (\<lambda>_.
          check_refs P sp refs))"

definition ref_lines :: "SmartProtocol \<Rightarrow> ServiceType \<Rightarrow> (bytes \<times> bytes) list \<Rightarrow> bytes list" where
  "ref_lines sp service_type refs =
     (let head_hash =
            (case find (\<lambda>(name, _). name = ascii ''HEAD'' \<or> suffix (ascii ''/main'') name \<or> suffix (ascii ''/master'') name) refs of
               Some (_, hash) \<Rightarrow> hash | None \<Rightarrow> sp_zero_id sp);
          format_cap = ascii '' object-format='' @ HashKind_as_str (sp_wire_hash_kind sp);
          cap_list = (case service_type of
              UploadPack \<Rightarrow> UPLOAD_CAP_LIST @ COMMON_CAP_LIST @ format_cap
            | ReceivePack \<Rightarrow> RECEIVE_CAP_LIST @ COMMON_CAP_LIST @ format_cap);
          name = (if head_hash = sp_zero_id sp then ascii ''capabilities^{}'' else ascii ''HEAD'') in
      (head_hash @ [SP] @ name @ [NUL] @ cap_list @ [LF]) # map (\<lambda>(name, hash). hash @ [SP] @ name @ [LF]) refs)"

definition git_info_refs ::
  "ProtoCrates \<Rightarrow> 's RepositoryAccess \<Rightarrow> ServiceType \<Rightarrow> SmartProtocol \<Rightarrow> ('s, bytes) repo_op" where
  "git_info_refs P R service_type sp =
     op_then (\<lambda>s. (ensure_hash_kind_consistency P R sp s, s)) (\<lambda>_.
     op_then (op_map_err (\<lambda>e. repository_error (ascii ''Failed to get refs: '' @ ProtocolError_display e))
         (ra_get_repository_refs R)) (\<lambda>refs.
     op_then (\<lambda>s. (ensure_hash_kind_consistency P R sp s, s)) (\<lambda>_.
     op_then (op_lift (check_refs P sp refs)) (\<lambda>_.
       op_return (build_smart_reply (sp_transport_protocol sp) (ref_lines sp service_type refs)
         (ServiceType_display service_type))))))"

section \<open>Capabilities and commands\<close>

text \<open>\<open>str::split_whitespace\<close>.\<close>

function split_words :: "bytes \<Rightarrow> bytes \<Rightarrow> bytes list" where
  "split_words word s =
     (if s = [] then (if word = [] then [] else [word])
      else if white_char s = 0 then split_words (word @ [hd s]) (tl s)
      else (if word = [] then [] else [word]) @ split_words [] (drop (white_char s) s))"
  by auto
termination by (relation "measure (length \<circ> snd)") auto

declare split_words.simps [simp del]

definition split_whitespace :: "bytes \<Rightarrow> bytes list" where
  "split_whitespace s = split_words [] s"

definition push_capability :: "Capability \<Rightarrow> SmartProtocol \<Rightarrow> SmartProtocol" where
  "push_capability c sp = sp\<lparr>sp_capabilities := sp_capabilities sp @ [c]\<rparr>"

fun add_capabilities ::
  "ProtoCrates \<Rightarrow> 's RepositoryAccess \<Rightarrow> 's \<Rightarrow> bytes list \<Rightarrow> (SmartProtocol, unit) repo_op" where
  "add_capabilities P R s [] sp = (Inr (), sp)"
| "add_capabilities P R s (cap # caps) sp =
     (case strip_prefix (ascii ''object-format='') cap of
        Some fmt \<Rightarrow>
          (case HashKind_from_str fmt of
             Inl _ \<Rightarrow> (Inl (unknown_object_format fmt), sp)
           | Inr kind \<Rightarrow>
               if HashKind_as_str kind \<noteq> fmt then (Inl (unknown_object_format fmt), sp)
               else if kind \<noteq> sp_local_hash_kind sp \<or> kind \<noteq> ra_object_hash_kind R s
               then (Inl (object_format_mismatch kind (sp_local_hash_kind sp) (ra_object_hash_kind R s)), sp)
               else add_capabilities P R s caps
                 (push_capability (Cap_ObjectFormat (HashKind_as_str kind)) (set_wire_hash_kind P kind sp)))
      | None \<Rightarrow> add_capabilities P R s caps (push_capability (Capability_from_str cap) sp))"

definition parse_capabilities :: "ProtoCrates \<Rightarrow> 's RepositoryAccess \<Rightarrow> bytes \<Rightarrow> 's \<Rightarrow> (SmartProtocol, unit) repo_op" where
  "parse_capabilities P R cap_str s =
     op_then (\<lambda>sp. (ensure_hash_kind_consistency P R sp s, sp)) (\<lambda>_.
       add_capabilities P R s (split_whitespace cap_str))"

definition parse_ref_command :: "ProtoCrates \<Rightarrow> SmartProtocol \<Rightarrow> bytes \<Rightarrow> ProtocolError + RefCommand" where
  "parse_ref_command P sp pkt_line =
     (let (old_id, pkt_line) = read_until_white_space pkt_line;
          (new_id, pkt_line) = read_until_white_space pkt_line;
          (ref_name, pkt_line) = read_until_white_space pkt_line in
      and_then (parse_wire_id P sp ''receive-pack old-id'' old_id) (\<lambda>old_id.
      and_then (parse_wire_id P sp ''receive-pack new-id'' new_id) (\<lambda>new_id.
      if ref_name = [] then Inl (invalid_request (ascii ''receive-pack command is missing the ref name''))
      else Inr (RefCommand_new old_id new_id ref_name))))"

section \<open>Fetching\<close>

text \<open>The loop over the lines of an upload request; it ends at the first flush.\<close>

function upload_lines ::
  "ProtoCrates \<Rightarrow> 's RepositoryAccess \<Rightarrow> 's \<Rightarrow> bool \<Rightarrow> bytes list \<Rightarrow> bytes list \<Rightarrow> bytes \<Rightarrow>
   (SmartProtocol, bytes list \<times> bytes list) repo_op" where
  "upload_lines P R s read_first_line want have_ids upload_request =
     (let (line, upload_request') = read_pkt_line upload_request; (bytes_take, pkt_line) = line in
      if bytes_take = 0 \<or> pkt_line = [] then op_return (want, have_ids)
      else
        let (command, pkt_line) = read_until_white_space pkt_line in
        if command = ascii ''want'' then
          let (hash, pkt_line) = read_until_white_space pkt_line in
          op_then (if read_first_line then op_return () else parse_capabilities P R (from_utf8_lossy pkt_line) s) (\<lambda>_.
          op_then (\<lambda>sp. (parse_wire_id P sp ''want'' hash, sp)) (\<lambda>w.
            upload_lines P R s True (want @ [w]) have_ids upload_request'))
        else if command = ascii ''have'' then
          let (hash, pkt_line) = read_until_white_space pkt_line in
          op_then (\<lambda>sp. (parse_wire_id P sp ''have'' hash, sp)) (\<lambda>h.
            upload_lines P R s read_first_line want (have_ids @ [h]) upload_request')
        else if command = ascii ''done'' then op_return (want, have_ids)
        else upload_lines P R s read_first_line want have_ids upload_request')"
  by pat_completeness auto
termination
  by (relation "measure (\<lambda>(P, R, s, f, w, h, b). length b)") (auto dest: read_pkt_line_shorter[OF sym])

declare upload_lines.simps [simp del]

fun ack_haves :: "'s RepositoryAccess \<Rightarrow> bytes list \<Rightarrow> bytes \<Rightarrow> bytes \<Rightarrow> ('s, bytes \<times> bytes) repo_op" where
  "ack_haves R [] last_common_commit protocol_buf = op_return (last_common_commit, protocol_buf)"
| "ack_haves R (hash # have_ids) last_common_commit protocol_buf =
     op_then (op_map_err (\<lambda>e. repository_error (ascii ''Failed to check commit existence: '' @ ProtocolError_display e))
         (ra_commit_exists R hash)) (\<lambda>exists_commit.
       if exists_commit
       then ack_haves R have_ids (if last_common_commit = [] then hash else last_common_commit)
         (add_pkt_line_string protocol_buf (ascii ''ACK '' @ hash @ ascii '' common'' @ [LF]))
       else ack_haves R have_ids last_common_commit protocol_buf)"

definition clear_capabilities :: "('s session, unit) repo_op" where
  "clear_capabilities = on_protocol (\<lambda>s sp. (Inr (), sp\<lparr>sp_capabilities := []\<rparr>))"

type_synonym pack_items = "(ProtocolError + bytes) list"

text \<open>A pack is generated, and the format is checked again before it is handed out.\<close>

definition pack_checked ::
  "ProtoCrates \<Rightarrow> 's RepositoryAccess \<Rightarrow> ('s, pack_items) repo_run \<Rightarrow> bytes \<Rightarrow> ('s session, pack_items \<times> bytes) repo_run" where
  "pack_checked P R m protocol_buf =
     go_then (go_on_repo m) (\<lambda>pack_stream.
     go_then (go_op (check_session P R)) (\<lambda>_.
       go_return (pack_stream, protocol_buf)))"

definition git_upload_pack ::
  "ProtoCrates \<Rightarrow> PackSettings \<Rightarrow> 's RepositoryAccess \<Rightarrow> bytes \<Rightarrow> ('s session, pack_items \<times> bytes) repo_run" where
  "git_upload_pack P ps R upload_request =
     go_then (go_op clear_capabilities) (\<lambda>_.
     go_then (go_op (check_session P R)) (\<lambda>_.
     go_then (go_op (on_protocol (\<lambda>s. upload_lines P R s False [] [] upload_request))) (\<lambda>(want, have_ids).
     (\<lambda>ss.
       let kind = sp_local_hash_kind (fst ss) in
       if have_ids = [] then
         go_then (go_op (check_session P R)) (\<lambda>_.
           pack_checked P R (generate_full_pack P ps R kind want) (add_pkt_line_string [] (ascii ''NAK'' @ [LF]))) ss
       else
         go_then (go_op (on_repo (ack_haves R have_ids [] []))) (\<lambda>(last_common_commit, protocol_buf).
         go_then (go_op (check_session P R)) (\<lambda>_.
           if last_common_commit = []
           then pack_checked P R (generate_full_pack P ps R kind want)
             (add_pkt_line_string protocol_buf (ascii ''NAK'' @ [LF]))
           else pack_checked P R (generate_incremental_pack P ps R kind want have_ids)
             (add_pkt_line_string protocol_buf (ascii ''ACK '' @ last_common_commit @ ascii '' ready'' @ [LF])))) ss))))"

section \<open>Pushing\<close>

text \<open>The lines of the commands: whether a flush was read, and the bytes after it.\<close>

definition command_line :: "ProtoCrates \<Rightarrow> 's RepositoryAccess \<Rightarrow> 's \<Rightarrow> bool \<Rightarrow> bytes \<Rightarrow> (SmartProtocol, unit) repo_op" where
  "command_line P R s first_line pkt_line =
     op_then (case dropWhile (\<lambda>b. b \<noteq> 0) pkt_line of
         nul # caps \<Rightarrow> if first_line then parse_capabilities P R (from_utf8_lossy caps) s else op_return ()
       | [] \<Rightarrow> op_return ()) (\<lambda>_.
     op_then (\<lambda>sp. (parse_ref_command P sp pkt_line, sp)) (\<lambda>ref_command.
       \<lambda>sp. (Inr (), sp\<lparr>sp_command_list := sp_command_list sp @ [ref_command]\<rparr>)))"

function command_lines ::
  "ProtoCrates \<Rightarrow> 's RepositoryAccess \<Rightarrow> 's \<Rightarrow> bool \<Rightarrow> bytes \<Rightarrow> (SmartProtocol, bool \<times> bytes) repo_op" where
  "command_lines P R s first_line protocol_bytes =
     (let (line, protocol_bytes') = read_pkt_line protocol_bytes; (bytes_take, pkt_line) = line in
      if bytes_take = 0 then op_return (False, protocol_bytes')
      else if pkt_line = [] then op_return (True, protocol_bytes')
      else op_then (command_line P R s first_line pkt_line) (\<lambda>_. command_lines P R s False protocol_bytes'))"
  by pat_completeness auto
termination
  by (relation "measure (\<lambda>(P, R, s, f, b). length b)") (auto dest: read_pkt_line_shorter[OF sym])

declare command_lines.simps [simp del]

definition clear_request :: "('s session, unit) repo_op" where
  "clear_request = on_protocol (\<lambda>s sp. (Inr (), sp\<lparr>sp_command_list := [], sp_capabilities := []\<rparr>))"

definition parse_receive_pack_commands :: "ProtoCrates \<Rightarrow> 's RepositoryAccess \<Rightarrow> bytes \<Rightarrow> ('s session, unit) repo_op" where
  "parse_receive_pack_commands P R protocol_bytes =
     op_then clear_request (\<lambda>_.
     op_then (check_session P R) (\<lambda>_.
     op_then (on_protocol (\<lambda>s. command_lines P R s True protocol_bytes)) (\<lambda>_.
       op_return ())))"

type_synonym 's request_stream = "(('s \<Rightarrow> 's) \<times> (ProtocolError + bytes)) list"

fun drain :: "'s request_stream \<Rightarrow> ('s, bytes) repo_op" where
  "drain [] = op_return []"
| "drain ((meanwhile, chunk_result) # stream) =
     op_then (\<lambda>s. (map_err (\<lambda>e. invalid_request (ascii ''Stream error: '' @ ProtocolError_display e)) chunk_result, meanwhile s)) (\<lambda>chunk.
     op_then (drain stream) (\<lambda>request_data. op_return (chunk @ request_data)))"

definition store_pack ::
  "ProtoCrates \<Rightarrow> 's RepositoryAccess \<Rightarrow> (bytes \<Rightarrow> ('s, Objects) repo_op) \<Rightarrow> bytes \<Rightarrow> ('s session, unit) repo_op" where
  "store_pack P R unpack pack_data =
     (if pack_data = [] then op_return ()
      else
        op_then (on_repo (unpack pack_data)) (\<lambda>(commits, trees, blobs).
        op_then (check_session P R) (\<lambda>_.
          on_repo (op_map_err (\<lambda>e. repository_error (ascii ''Failed to store pack objects: '' @ ProtocolError_display e))
            (ra_handle_pack_objects R commits trees blobs)))))"

text \<open>One command: the default branch is the first branch of a repository without one.\<close>

definition update_one ::
  "'s RepositoryAccess \<Rightarrow> bytes \<Rightarrow> bool \<Rightarrow> RefCommand \<Rightarrow> 's \<Rightarrow> RefCommand \<times> bool \<times> 's" where
  "update_one R zero_id default_exist command s =
     (let (command, default_exist) =
            (if rc_ref_type command \<noteq> RT_Tag \<and> \<not> default_exist then (command\<lparr>rc_default_branch := True\<rparr>, True)
             else (command, default_exist));
          old_hash = (if rc_old_hash command = zero_id then None else Some (rc_old_hash command));
          (r, s) = ra_update_reference R (rc_ref_name command) old_hash (rc_new_hash command) s in
      (case r of Inl e \<Rightarrow> rc_failed (ProtocolError_display e) command | Inr _ \<Rightarrow> command, default_exist, s))"

fun update_refs ::
  "ProtoCrates \<Rightarrow> 's RepositoryAccess \<Rightarrow> SmartProtocol \<Rightarrow> bool \<Rightarrow> RefCommand list \<Rightarrow> bytes \<Rightarrow> 's \<Rightarrow>
   (ProtocolError + bytes) \<times> RefCommand list \<times> 's" where
  "update_refs P R sp default_exist [] report_status s = (Inr report_status, [], s)"
| "update_refs P R sp default_exist (command # commands) report_status s =
     (case ensure_hash_kind_consistency P R sp s of
        Inl e \<Rightarrow> (Inl e, command # commands, s)
      | Inr _ \<Rightarrow>
          let (command, default_exist, s) = update_one R (sp_zero_id sp) default_exist command s;
              (r, commands, s) = update_refs P R sp default_exist commands
                (add_pkt_line_string report_status (rc_get_status command)) s in
          (r, command # commands, s))"

definition update_commands ::
  "ProtoCrates \<Rightarrow> 's RepositoryAccess \<Rightarrow> bool \<Rightarrow> bytes \<Rightarrow> ('s session, bytes) repo_op" where
  "update_commands P R default_exist report_status ss =
     (let (sp, s) = ss;
          (r, commands, s) = update_refs P R (sp\<lparr>sp_command_list := []\<rparr>) default_exist (sp_command_list sp) report_status s in
      (r, (sp\<lparr>sp_command_list := commands\<rparr>, s)))"

definition git_receive_pack_stream ::
  "ProtoCrates \<Rightarrow> 's RepositoryAccess \<Rightarrow> (bytes \<Rightarrow> ('s, Objects) repo_op) \<Rightarrow> 's request_stream \<Rightarrow> ('s session, bytes) repo_op" where
  "git_receive_pack_stream P R unpack data_stream =
     op_then (check_session P R) (\<lambda>_.
     op_then (on_repo (drain data_stream)) (\<lambda>protocol_bytes.
     op_then clear_request (\<lambda>_.
     op_then (check_session P R) (\<lambda>_.
     op_then (on_protocol (\<lambda>s. command_lines P R s True protocol_bytes)) (\<lambda>(saw_flush, protocol_bytes).
     op_then (op_lift (if saw_flush then Inr ()
         else if protocol_bytes = [] then Inl (invalid_request (ascii ''Missing flush before pack data''))
         else Inl (invalid_request (ascii ''Invalid pkt-line in receive-pack request'')))) (\<lambda>_.
     op_then (store_pack P R unpack protocol_bytes) (\<lambda>_.
     op_then (on_repo (op_map_err (\<lambda>e. repository_error (ascii ''Failed to check default branch: '' @ ProtocolError_display e))
         (ra_has_default_branch R))) (\<lambda>default_exist.
     op_then (update_commands P R default_exist (add_pkt_line_string [] (ascii ''unpack ok'' @ [LF]))) (\<lambda>report_status.
     op_then (check_session P R) (\<lambda>_.
     op_then (on_repo (op_map_err (\<lambda>e. repository_error (ascii ''Post-receive hook failed: '' @ ProtocolError_display e))
         (ra_post_receive_hook R))) (\<lambda>_.
     op_then (check_session P R) (\<lambda>_.
       op_return (report_status @ PKT_LINE_END_MARKER)))))))))))))"

definition build_side_band_format :: "SmartProtocol \<Rightarrow> bytes \<Rightarrow> nat \<Rightarrow> bytes" where
  "build_side_band_format sp data len =
     (if Cap_SideBand \<in> set (sp_capabilities sp) \<or> Cap_SideBand64k \<in> set (sp_capabilities sp)
      then format_04x (len + 5) @ [SideBand_value SB_PackfileData] @ data
      else data)"

section \<open>The front end\<close>

text \<open>The loop of \<open>build_side_band_packets\<close>; it does not end for a payload limit of zero.\<close>

partial_function (option) side_band_loop :: "bytes \<Rightarrow> nat \<Rightarrow> nat \<Rightarrow> bytes list \<Rightarrow> bytes list option" where
  "side_band_loop chunk max_payload offset out =
     (if offset < length chunk then
        let endpos = min (offset + max_payload) (length chunk);
            payload = take (endpos - offset) (drop offset chunk);
            len = length payload + 5 in
        side_band_loop chunk max_payload endpos
          (out @ [format_04x len @ [SideBand_value SB_PackfileData] @ payload])
      else Some out)"

definition build_side_band_packets :: "bytes \<Rightarrow> nat \<Rightarrow> bytes list option" where
  "build_side_band_packets chunk max_payload = (if chunk = [] then Some [] else side_band_loop chunk max_payload 0 [])"

definition sideband_max :: "SmartProtocol \<Rightarrow> nat option" where
  "sideband_max sp =
     (if Cap_SideBand64k \<in> set (sp_capabilities sp) then Some (65520 - 5)
      else if Cap_SideBand \<in> set (sp_capabilities sp) then Some (1000 - 5)
      else None)"

definition info_refs :: "ProtoCrates \<Rightarrow> 's RepositoryAccess \<Rightarrow> bytes \<Rightarrow> SmartProtocol \<Rightarrow> ('s, bytes) repo_op" where
  "info_refs P R service sp =
     (if service = ascii ''git-upload-pack'' then git_info_refs P R UploadPack sp
      else if service = ascii ''git-receive-pack'' then git_info_refs P R ReceivePack sp
      else op_lift (Inl (invalid_service service)))"

text \<open>The items of the pack stream, framed one by one.\<close>

fun framed_items :: "nat \<Rightarrow> pack_items \<Rightarrow> pack_items option" where
  "framed_items max_payload [] = Some []"
| "framed_items max_payload (item # items) =
     (case (case item of Inr chunk \<Rightarrow> map_option (map Inr) (build_side_band_packets chunk max_payload) | Inl e \<Rightarrow> Some [Inl e]) of
        None \<Rightarrow> None
      | Some packets \<Rightarrow> map_option (\<lambda>rest. packets @ rest) (framed_items max_payload items))"

definition upload_pack ::
  "ProtoCrates \<Rightarrow> PackSettings \<Rightarrow> 's RepositoryAccess \<Rightarrow> bytes \<Rightarrow> ('s session, pack_items) repo_run" where
  "upload_pack P ps R request_data =
     go_then (git_upload_pack P ps R request_data) (\<lambda>(pack_stream, ack_bytes). \<lambda>ss.
       let ack_stream = (if ack_bytes = [] then [] else [Inr ack_bytes]) in
       case sideband_max (fst ss) of
         None \<Rightarrow> Some (Inr (ack_stream @ pack_stream), ss)
       | Some max_payload \<Rightarrow>
           map_option (\<lambda>items. (Inr (ack_stream @ items @ [Inr (ascii ''0000'')]), ss)) (framed_items max_payload pack_stream))"

definition receive_pack ::
  "ProtoCrates \<Rightarrow> 's RepositoryAccess \<Rightarrow> (bytes \<Rightarrow> ('s, Objects) repo_op) \<Rightarrow> 's request_stream \<Rightarrow> ('s session, pack_items) repo_run" where
  "receive_pack P R unpack request_stream =
     go_then (go_op (git_receive_pack_stream P R unpack request_stream)) (\<lambda>result_bytes. \<lambda>ss.
       case sideband_max (fst ss) of
         None \<Rightarrow> Some (Inr [Inr result_bytes], ss)
       | Some max_payload \<Rightarrow>
           map_option (\<lambda>packets. (Inr (map Inr packets @ [Inr (ascii ''0000'')]), ss))
             (build_side_band_packets result_bytes max_payload))"

end
