(* ===== verification/Smart_Receive.thy ===== *)
theory Smart_Receive
  imports Smart_Protocol
begin

text \<open>
  Pushes fail closed: nothing of a repository is written while its object format differs from the one the
  handler was created for, and a success is only reported when they agree.

  \<^item> \<open>bound_to\<close> is the agreement that \<open>ensure_hash_kind_consistency\<close> checks.
  \<^item> \<open>same_session\<close> relates two handlers that behave alike on every session bound to a format; it is kept by
    \<open>op_then\<close>, so that the two runs are compared one operation at a time.
\<close>

section \<open>The binding\<close>

definition bound_to :: "ProtoCrates \<Rightarrow> HashKind \<Rightarrow> SmartProtocol \<Rightarrow> bool" where
  "bound_to P k sp \<longleftrightarrow> sp_local_hash_kind sp = k \<and> sp_wire_hash_kind sp = k \<and> sp_zero_id sp = zero_str P k"

lemma consistency_iff:
  "ensure_hash_kind_consistency P R sp s = Inr u \<longleftrightarrow> bound_to P (ra_object_hash_kind R s) sp"
  by (auto simp: ensure_hash_kind_consistency_def bound_to_def Let_def)

lemma check_session_eq_Inr_iff:
  "check_session P R ss = (Inr u, ss') \<longleftrightarrow> ss' = ss \<and> bound_to P (ra_object_hash_kind R (snd ss)) (fst ss)"
  by (auto simp: check_session_def consistency_iff)

text \<open>Two repositories that report the same format behave alike for the parsing of a request.\<close>

lemma same_kind_parsing:
  assumes "ra_object_hash_kind R' = ra_object_hash_kind R"
  shows "ensure_hash_kind_consistency P R' = ensure_hash_kind_consistency P R" "check_session P R' = check_session P R"
    "add_capabilities P R' s caps sp = add_capabilities P R s caps sp"
    "parse_capabilities P R' cap_str = parse_capabilities P R cap_str"
    "command_line P R' s first line = command_line P R s first line"
proof -
  show 1: "ensure_hash_kind_consistency P R' = ensure_hash_kind_consistency P R"
    by (simp add: fun_eq_iff ensure_hash_kind_consistency_def assms)
  show "check_session P R' = check_session P R" by (simp add: fun_eq_iff check_session_def 1)
  have 2: "add_capabilities P R' s caps sp = add_capabilities P R s caps sp" for s caps sp
    by (induction caps arbitrary: sp) (auto simp: assms split: option.splits sum.splits)
  show "add_capabilities P R' s caps sp = add_capabilities P R s caps sp" by (rule 2)
  show 3: "parse_capabilities P R' cap_str = parse_capabilities P R cap_str" for cap_str
    by (simp add: fun_eq_iff parse_capabilities_def op_then_def 1 2 split: sum.split)
  show "command_line P R' s first line = command_line P R s first line" by (cases "dropWhile (\<lambda>b. b \<noteq> 0) line") (simp_all add: command_line_def 3 del: dropWhile_eq_Nil_conv)
qed

lemma command_lines_step:
  "read_pkt_line buf = ((n, line), r) \<Longrightarrow> command_lines P R s first buf =
     (if n = 0 then op_return (False, r) else if line = [] then op_return (True, r)
      else op_then (command_line P R s first line) (\<lambda>_. command_lines P R s False r))"
  by (subst command_lines.simps) simp

lemma command_lines_induct [case_names step]:
  assumes "\<And>first buf. (\<And>n line r. read_pkt_line buf = ((n, line), r) \<Longrightarrow> n \<noteq> 0 \<Longrightarrow> Q False r) \<Longrightarrow> Q first buf"
  shows "Q first buf"
  by (induction "length buf" arbitrary: first buf rule: less_induct)
    (use assms read_pkt_line_shorter in blast)

lemma same_kind_lines:
  assumes "ra_object_hash_kind R' = ra_object_hash_kind R"
  shows "command_lines P R' s first buf = command_lines P R s first buf"
proof (induction first buf rule: command_lines_induct)
  case (step first buf)
  obtain n line r where rd: "read_pkt_line buf = ((n, line), r)" by (metis surj_pair)
  show ?case using step[OF rd] by (auto simp: command_lines_step[OF rd] same_kind_parsing[OF assms])
qed

section \<open>What the parsing keeps\<close>

lemma add_capabilities_keeps:
  "add_capabilities P R s caps sp = (r, sp') \<Longrightarrow> sp_local_hash_kind sp' = sp_local_hash_kind sp \<and>
     sp_command_list sp' = sp_command_list sp \<and> sp_transport_protocol sp' = sp_transport_protocol sp \<and>
     (bound_to P k sp \<longrightarrow> bound_to P k sp')"
  by (induction caps arbitrary: sp)
    (fastforce simp: push_capability_def set_wire_hash_kind_def bound_to_def split: option.splits sum.splits if_splits)+

definition wire_form :: "ProtoCrates \<Rightarrow> HashKind \<Rightarrow> bytes \<Rightarrow> bool" where
  "wire_form P k ident \<longleftrightarrow> (\<exists>h. hash_kind h = k \<and> wf_hash h \<and> ident = hash_to_string (pc_hex P) h)"

definition good_command :: "ProtoCrates \<Rightarrow> HashKind \<Rightarrow> RefCommand \<Rightarrow> bool" where
  "good_command P k c \<longleftrightarrow> wire_form P k (rc_old_hash c) \<and> wire_form P k (rc_new_hash c) \<and> rc_ref_name c \<noteq> []"

lemma parse_wire_id_form: "parse_wire_id P sp cmd ident = Inr w \<Longrightarrow> wire_form P (sp_wire_hash_kind sp) w"
  using from_hex_for_kind_kind by (fastforce simp: parse_wire_id_def and_then_eq_Inr_iff wire_form_def split: if_splits)

lemma parse_ref_command_good: "parse_ref_command P sp line = Inr c \<Longrightarrow> good_command P (sp_wire_hash_kind sp) c"
  using parse_wire_id_form
  by (auto simp: parse_ref_command_def and_then_eq_Inr_iff good_command_def RefCommand_new_def Let_def split: prod.splits if_splits)

lemma parse_capabilities_keeps:
  assumes "parse_capabilities P R caps s sp = (r, sp')"
  shows "sp_local_hash_kind sp' = sp_local_hash_kind sp" "sp_command_list sp' = sp_command_list sp"
    "bound_to P k sp \<Longrightarrow> bound_to P k sp'"
  using assms add_capabilities_keeps[of P R s "split_whitespace caps" sp r sp' k]
  by (auto simp: parse_capabilities_def op_then_def split: sum.splits)

lemma command_line_keeps:
  assumes "command_line P R s first line sp = (r, sp')"
  shows "sp_local_hash_kind sp' = sp_local_hash_kind sp"
    "bound_to P k sp \<Longrightarrow> list_all (good_command P k) (sp_command_list sp) \<Longrightarrow>
     bound_to P k sp' \<and> list_all (good_command P k) (sp_command_list sp')"
proof -
  obtain r1 sp1 where 1: "(case dropWhile (\<lambda>b. b \<noteq> 0) line of
         nul # caps \<Rightarrow> if first then parse_capabilities P R (from_utf8_lossy caps) s else op_return ()
       | [] \<Rightarrow> op_return ()) sp = (r1, sp1)" by fastforce
  then have caps: "sp_local_hash_kind sp1 = sp_local_hash_kind sp" "sp_command_list sp1 = sp_command_list sp"
      "bound_to P k sp \<Longrightarrow> bound_to P k sp1"
    using parse_capabilities_keeps by (auto split: list.splits if_splits)
  have "sp_local_hash_kind sp' = sp_local_hash_kind sp1 \<and> (bound_to P k sp1 \<longrightarrow> bound_to P k sp') \<and>
     (sp_command_list sp' = sp_command_list sp1 \<or>
      (\<exists>c. parse_ref_command P sp1 line = Inr c \<and> sp_command_list sp' = sp_command_list sp1 @ [c]))"
    using assms 1 by (auto simp: command_line_def op_then_def bound_to_def split: sum.splits)
  then show "sp_local_hash_kind sp' = sp_local_hash_kind sp"
    "bound_to P k sp \<Longrightarrow> list_all (good_command P k) (sp_command_list sp) \<Longrightarrow>
     bound_to P k sp' \<and> list_all (good_command P k) (sp_command_list sp')"
    using caps parse_ref_command_good[of P sp1 line] by (auto simp: bound_to_def)
qed

lemma command_lines_keeps:
  "command_lines P R s first buf sp = (r, sp') \<Longrightarrow> sp_local_hash_kind sp' = sp_local_hash_kind sp \<and>
     (bound_to P k sp \<longrightarrow> list_all (good_command P k) (sp_command_list sp) \<longrightarrow>
      bound_to P k sp' \<and> list_all (good_command P k) (sp_command_list sp'))"
proof (induction first buf arbitrary: sp rule: command_lines_induct)
  case (step first buf)
  obtain n line rest where rd: "read_pkt_line buf = ((n, line), rest)" by (metis surj_pair)
  show ?case
  proof (cases "n = 0 \<or> line = []")
    case True
    then show ?thesis using step(2) by (auto simp: command_lines_step[OF rd] split: if_splits)
  next
    case False
    obtain r1 sp1 where 1: "command_line P R s first line sp = (r1, sp1)" by fastforce
    then have "sp' = sp1 \<or> command_lines P R s False rest sp1 = (r, sp')"
      using step(2) False by (cases r1) (auto simp: command_lines_step[OF rd] op_then_def)
    then show ?thesis
    proof
      assume "sp' = sp1"
      then show ?thesis using command_line_keeps(1)[OF 1] command_line_keeps(2)[OF 1, of k] by blast
    next
      assume rest: "command_lines P R s False rest sp1 = (r, sp')"
      have "n \<noteq> 0" using False by simp
      from step(1)[OF rd this rest] show ?thesis using command_line_keeps(1)[OF 1] command_line_keeps(2)[OF 1, of k] by auto
    qed
  qed
qed

section \<open>Two repositories that differ under another format\<close>

text \<open>\<open>R'\<close> may write anything, or nothing, whenever its format is not \<open>k\<close>.\<close>

definition agree_on :: "HashKind \<Rightarrow> 's RepositoryAccess \<Rightarrow> 's RepositoryAccess \<Rightarrow> bool" where
  "agree_on k R R' \<longleftrightarrow> ra_object_hash_kind R' = ra_object_hash_kind R \<and> ra_has_default_branch R' = ra_has_default_branch R \<and>
     (\<forall>s. ra_object_hash_kind R s = k \<longrightarrow>
        (\<forall>commits trees blobs. ra_handle_pack_objects R' commits trees blobs s = ra_handle_pack_objects R commits trees blobs s) \<and>
        (\<forall>ref_name old_hash new_hash. ra_update_reference R' ref_name old_hash new_hash s = ra_update_reference R ref_name old_hash new_hash s) \<and>
        ra_post_receive_hook R' s = ra_post_receive_hook R s)"

definition same_session :: "HashKind \<Rightarrow> ('s session, 'a) repo_op \<Rightarrow> ('s session, 'a) repo_op \<Rightarrow> bool" where
  "same_session k m m' \<longleftrightarrow> (\<forall>ss. sp_local_hash_kind (fst ss) = k \<longrightarrow>
     m' ss = m ss \<and> sp_local_hash_kind (fst (snd (m ss))) = k)"

lemma same_session_then:
  fixes m m' :: "('s session, 'a) repo_op"
  assumes "same_session k m m'" "\<And>x. same_session k (f x) (f' x)"
  shows "same_session k (op_then m f) (op_then m' f')"
  unfolding same_session_def
proof (intro allI impI)
  fix ss :: "'s session" assume l: "sp_local_hash_kind (fst ss) = k"
  obtain r ss' where m: "m ss = (r, ss')" by (cases "m ss") simp
  then have "m' ss = (r, ss')" "sp_local_hash_kind (fst ss') = k" 
    using assms(1)[unfolded same_session_def, rule_format, OF l] by simp_all
  then show "op_then m' f' ss = op_then m f ss \<and> sp_local_hash_kind (fst (snd (op_then m f ss))) = k"
    using m assms(2)[unfolded same_session_def, rule_format, of ss'] l by (cases r) (simp_all add: op_then_def)
qed

text \<open>After a successful check the repository has the format.\<close>

lemma same_session_checked:
  fixes m m' :: "('s session, 'a) repo_op"
  assumes "ra_object_hash_kind R' = ra_object_hash_kind R"
    and "\<And>ss. sp_local_hash_kind (fst ss) = k \<Longrightarrow> ra_object_hash_kind R (snd ss) = k \<Longrightarrow>
      m' ss = m ss \<and> sp_local_hash_kind (fst (snd (m ss))) = k"
  shows "same_session k (op_then (check_session P R) (\<lambda>_. m)) (op_then (check_session P R') (\<lambda>_. m'))"
  unfolding same_session_def
proof (intro allI impI)
  fix ss :: "'s session" assume l: "sp_local_hash_kind (fst ss) = k"
  show "op_then (check_session P R') (\<lambda>_. m') ss = op_then (check_session P R) (\<lambda>_. m) ss \<and>
      sp_local_hash_kind (fst (snd (op_then (check_session P R) (\<lambda>_. m) ss))) = k"
  proof (cases "ensure_hash_kind_consistency P R (fst ss) (snd ss)")
    case (Inr u)
    then have "ra_object_hash_kind R (snd ss) = k" using consistency_iff[of P R "fst ss" "snd ss" u] l by (auto simp: bound_to_def)
    then show ?thesis using assms(2)[OF l] Inr by (simp add: op_then_def check_session_def same_kind_parsing(1)[OF assms(1)])
  qed (use l in \<open>simp add: op_then_def check_session_def same_kind_parsing(1)[OF assms(1)]\<close>)
qed

lemma same_session_refl:
  "(\<And>ss. sp_local_hash_kind (fst (snd (m ss))) = sp_local_hash_kind (fst ss)) \<Longrightarrow> same_session k m m"
  by (simp add: same_session_def)

lemma kept_local [simp]:
  "sp_local_hash_kind (fst (snd (check_session P R ss))) = sp_local_hash_kind (fst ss)"
  "sp_local_hash_kind (fst (snd (on_repo m ss))) = sp_local_hash_kind (fst ss)"
  "sp_local_hash_kind (fst (snd (clear_request ss))) = sp_local_hash_kind (fst ss)"
  "sp_local_hash_kind (fst (snd (on_protocol (\<lambda>s. command_lines P R s first buf) ss))) = sp_local_hash_kind (fst ss)"
proof -
  show "sp_local_hash_kind (fst (snd (on_protocol (\<lambda>s. command_lines P R s first buf) ss))) = sp_local_hash_kind (fst ss)"
    using command_lines_keeps[of P R "snd ss" first buf "fst ss"] by (auto simp: on_protocol_def Let_def split: prod.splits)
qed (auto simp: check_session_def on_repo_def clear_request_def on_protocol_def Let_def split: prod.splits)

lemma update_refs_same:
  assumes "agree_on (sp_local_hash_kind sp) R R'"
  shows "update_refs P R' sp d cs report s = update_refs P R sp d cs report s"
proof (induction cs arbitrary: d report s)
  case (Cons c cs)
  have "ra_object_hash_kind R' = ra_object_hash_kind R" using assms by (simp add: agree_on_def)
  note check = same_kind_parsing(1)[OF this]
  show ?case
  proof (cases "ensure_hash_kind_consistency P R sp s")
    case (Inr u)
    then have "ra_object_hash_kind R s = sp_local_hash_kind sp" using consistency_iff[of P R sp s u] by (simp add: bound_to_def)
    then have "update_one R' (sp_zero_id sp) d c s = update_one R (sp_zero_id sp) d c s"
      using assms by (simp add: agree_on_def update_one_def Let_def)
    moreover obtain c1 d1 s1 where "update_one R (sp_zero_id sp) d c s = (c1, d1, s1)" by (metis prod_cases3)
    ultimately show ?thesis using Inr by (simp add: check Cons.IH)
  qed (simp add: check)
qed simp

lemma receive_same:
  assumes "agree_on k R R'"
  shows "same_session k (git_receive_pack_stream P R unpack stream) (git_receive_pack_stream P R' unpack stream)"
proof -
  have kind: "ra_object_hash_kind R' = ra_object_hash_kind R" and def_branch: "ra_has_default_branch R' = ra_has_default_branch R"
    using assms by (simp_all add: agree_on_def)
  note same = same_kind_parsing(2)[OF kind] same_kind_lines[OF kind] def_branch
  have store: "same_session k (store_pack P R unpack d) (store_pack P R' unpack d)" for d
    unfolding store_pack_def using assms
    by (auto simp: agree_on_def on_repo_def op_map_err_def Let_def split_def
        intro!: same_session_refl same_session_then same_session_checked[OF kind])
  have upd: "same_session k (update_commands P R d rep) (update_commands P R' d rep)" for d rep
    using update_refs_same[of _ R R'] assms
    by (auto simp: same_session_def update_commands_def Let_def split: prod.splits)
  have hook: "same_session k (op_then (check_session P R) (\<lambda>_. op_then (on_repo (op_map_err g (ra_post_receive_hook R))) (\<lambda>_. fin)))
      (op_then (check_session P R') (\<lambda>_. op_then (on_repo (op_map_err g (ra_post_receive_hook R'))) (\<lambda>_. fin)))"
    if "same_session k fin fin" for g and fin :: "('a session, bytes) repo_op"
    using assms that
    by (intro same_session_checked[OF kind])
      (auto simp: agree_on_def on_repo_def op_map_err_def op_then_def Let_def same_session_def map_err_def split: prod.splits sum.splits)
  show ?thesis
    unfolding git_receive_pack_stream_def same split_def
    by ((rule store upd hook[unfolded same] same_session_then | rule same_session_refl, simp; fail)+)
qed

section \<open>A success\<close>

lemma update_one_ids: "update_one R z d c s = (c', d', s') \<Longrightarrow> good_command P k c' = good_command P k c"
  by (auto simp: update_one_def Let_def good_command_def rc_failed_def split: prod.splits sum.splits if_splits)

lemma update_refs_good:
  "update_refs P R sp d cs report s = (r, cs', s') \<Longrightarrow> list_all (good_command P k) cs \<Longrightarrow> list_all (good_command P k) cs'"
proof (induction cs arbitrary: d report s r cs' s')
  case (Cons c cs)
  then show ?case
    using update_one_ids[of R "sp_zero_id sp" d c s _ _ _ P k]
    by (auto simp: Let_def split: sum.splits prod.splits)
qed auto

definition ensures :: "('s session \<Rightarrow> bool) \<Rightarrow> ('s session, 'a) repo_op \<Rightarrow> ('s session \<Rightarrow> bool) \<Rightarrow> bool" where
  "ensures A m B \<longleftrightarrow> (\<forall>ss x ss'. A ss \<longrightarrow> m ss = (Inr x, ss') \<longrightarrow> B ss')"

lemma ensures_then: "ensures A m B \<Longrightarrow> (\<And>x. ensures B (f x) C) \<Longrightarrow> ensures A (op_then m f) C"
  unfolding ensures_def op_then_eq_Inr_iff by blast

definition of_kind :: "HashKind \<Rightarrow> 's session \<Rightarrow> bool" where
  "of_kind k ss \<longleftrightarrow> sp_local_hash_kind (fst ss) = k"

definition empty_request :: "HashKind \<Rightarrow> 's session \<Rightarrow> bool" where
  "empty_request k ss \<longleftrightarrow> of_kind k ss \<and> sp_command_list (fst ss) = []"

definition good_session :: "ProtoCrates \<Rightarrow> HashKind \<Rightarrow> 's session \<Rightarrow> bool" where
  "good_session P k ss \<longleftrightarrow> bound_to P k (fst ss) \<and> list_all (good_command P k) (sp_command_list (fst ss))"

lemma ensures_steps:
  "ensures (of_kind k) (check_session P R) (of_kind k)" "ensures (of_kind k) (on_repo m) (of_kind k)"
  "ensures (of_kind k) clear_request (empty_request k)" "ensures (empty_request k) (check_session P R) (good_session P k)"
  "ensures (good_session P k) (on_protocol (\<lambda>s. command_lines P R s first buf)) (good_session P k)"
  "ensures (good_session P k) (op_lift r) (good_session P k)" "ensures (good_session P k) (op_return x) (good_session P k)"
  "ensures (good_session P k) (on_repo m) (good_session P k)" "ensures (good_session P k) (check_session P R) (good_session P k)"
  "ensures (good_session P k) (update_commands P R d rep) (good_session P k)"
proof -
  show "ensures (good_session P k) (on_protocol (\<lambda>s. command_lines P R s first buf)) (good_session P k)"
    using command_lines_keeps[of P R _ first buf _ _ _ k]
    by (fastforce simp: ensures_def good_session_def on_protocol_def Let_def split: prod.splits)
  show "ensures (good_session P k) (update_commands P R d rep) (good_session P k)"
    using update_refs_good
    by (fastforce simp: ensures_def good_session_def update_commands_def bound_to_def Let_def split: prod.splits)
qed (auto simp: ensures_def of_kind_def empty_request_def good_session_def clear_request_def on_protocol_def on_repo_def
      check_session_eq_Inr_iff bound_to_def Let_def split: prod.splits)

lemma receive_ensures:
  "ensures (of_kind k) (git_receive_pack_stream P R unpack stream) (good_session P k)"
proof -
  have store: "ensures (good_session P k) (store_pack P R unpack d) (good_session P k)" for d
    unfolding store_pack_def split_def by (auto intro!: ensures_steps ensures_then)
  show ?thesis
    unfolding git_receive_pack_stream_def split_def
    by ((rule ensures_then, rule ensures_steps store | rule ensures_steps)+)
qed

definition checked :: "ProtoCrates \<Rightarrow> 's RepositoryAccess \<Rightarrow> 's session \<Rightarrow> bool" where
  "checked P R ss \<longleftrightarrow> bound_to P (ra_object_hash_kind R (snd ss)) (fst ss)"

lemma ensures_last:
  "ensures A (op_then (check_session P R) (\<lambda>_. op_return x)) (checked P R)" "ensures A m (\<lambda>_. True)"
  by (auto simp: ensures_def op_then_eq_Inr_iff check_session_eq_Inr_iff checked_def)

lemma receive_checks_last: "ensures (\<lambda>_. True) (git_receive_pack_stream P R unpack stream) (checked P R)"
  unfolding git_receive_pack_stream_def split_def
  by (rule ensures_last(1) | rule ensures_then, rule ensures_last(2))+

section \<open>Properties\<close>

text \<open>C5: pushes fail closed.  A handler whose formats (repository, handler, wire) disagree at the start returns the
  mismatch and touches nothing.  Whatever happens meanwhile, no object is stored, no reference updated and no
  hook run while the repository reports another format: a repository that would behave differently then
  gives the very same result.  And when a push is reported as a success, the three formats and the zero
  id agree, and every command named canonical ids of that format and a reference.\<close>

theorem receive_pack_fail_closed:
  assumes "agree_on (sp_local_hash_kind sp) R R'"
  shows "git_receive_pack_stream P R' unpack stream (sp, s) = git_receive_pack_stream P R unpack stream (sp, s) \<and>
    (\<forall>report sp' s'. git_receive_pack_stream P R unpack stream (sp, s) = (Inr report, (sp', s')) \<longrightarrow>
       bound_to P (sp_local_hash_kind sp) sp' \<and> ra_object_hash_kind R s' = sp_local_hash_kind sp \<and>
       list_all (good_command P (sp_local_hash_kind sp)) (sp_command_list sp')) \<and>
    (ra_object_hash_kind R s \<noteq> sp_local_hash_kind sp \<or> sp_wire_hash_kind sp \<noteq> sp_local_hash_kind sp \<longrightarrow>
       git_receive_pack_stream P R unpack stream (sp, s) =
         (Inl (object_format_mismatch (sp_wire_hash_kind sp) (sp_local_hash_kind sp) (ra_object_hash_kind R s)), (sp, s)))"
proof (intro conjI allI impI)
  let ?k = "sp_local_hash_kind sp"
  note keep = receive_same[OF assms, unfolded same_session_def, rule_format, of "(sp, s)", simplified]
  show "git_receive_pack_stream P R' unpack stream (sp, s) = git_receive_pack_stream P R unpack stream (sp, s)"
    using keep by blast
  show "git_receive_pack_stream P R unpack stream (sp, s) =
      (Inl (object_format_mismatch (sp_wire_hash_kind sp) ?k (ra_object_hash_kind R s)), (sp, s))"
    if "ra_object_hash_kind R s \<noteq> ?k \<or> sp_wire_hash_kind sp \<noteq> ?k"
    using that by (simp add: git_receive_pack_stream_def op_then_def check_session_def ensure_hash_kind_consistency_def Let_def)
  fix report sp' s' assume run: "git_receive_pack_stream P R unpack stream (sp, s) = (Inr report, (sp', s'))"
  then have k: "sp_local_hash_kind sp' = ?k" using keep[of P unpack stream] by simp
  show "bound_to P ?k sp'" "ra_object_hash_kind R s' = ?k" 
    using receive_checks_last[unfolded ensures_def, rule_format, OF _ run] k by (auto simp: bound_to_def checked_def)
  show "list_all (good_command P ?k) (sp_command_list sp')"
    using receive_ensures[unfolded ensures_def, rule_format, OF _ run, of ?k] by (simp add: of_kind_def good_session_def)
qed

theorem receive_pack_fail_closed_witness:
  "let sp = (SmartProtocol_new walk_crates walk_repo TP_Http ())\<lparr>sp_local_hash_kind := KSha256\<rparr>;
       R' = walk_repo\<lparr>ra_update_reference := \<lambda>_ _ _. op_lift (Inl (repository_error []))\<rparr> in
   git_receive_pack_stream walk_crates R' (\<lambda>_. op_return ([], [], [])) [(id, Inr (ascii ''0000''))] (sp, ()) =
     (Inl (object_format_mismatch KSha1 KSha256 KSha1), (sp, ()))"
proof -
  let ?sp = "(SmartProtocol_new walk_crates walk_repo TP_Http ())\<lparr>sp_local_hash_kind := KSha256\<rparr>"
  let ?R' = "walk_repo\<lparr>ra_update_reference := \<lambda>_ _ _. op_lift (Inl (repository_error []))\<rparr>"
  have kind: "ra_object_hash_kind walk_repo s = KSha1" for s by (simp add: walk_repo_def)
  then have "agree_on (sp_local_hash_kind ?sp) walk_repo ?R'" by (simp add: agree_on_def fun_eq_iff)
  from receive_pack_fail_closed[OF this, of walk_crates "\<lambda>_. op_return ([], [], [])" "[(id, Inr (ascii ''0000''))]" "()"]
  show ?thesis using kind by (simp add: Let_def SmartProtocol_new_def)
qed

end
