(* ===== verification/Smart_Push.thy ===== *)
theory Smart_Push
  imports Smart_Receive
begin

text \<open>
  A push from end to end: the request that a client builds from its commands and its pack, and what
  \<open>git_receive_pack_stream\<close> does with it.
\<close>

section \<open>The request of a client\<close>








section \<open>Parsing it\<close>












section \<open>The updates\<close>






section \<open>The reply\<close>




section \<open>The push\<close>








section \<open>Properties\<close>










end
