(* ===== verification/Spec2Isabelle.thy ===== *)
theory Spec2Isabelle
  imports Rabin_Delta Tree_Object Tag_Object Pack_Index_Sound Git_Index_Proofs Smart_Push
begin

text \<open>
  \<^bold>\<open>Verification of \<open>git-internal\<close>\<close>, the Rust crate under \<open>src/\<close> that reads and writes Git objects,
  packs, pack indexes and the index of a working tree, and serves them over the smart protocol.

  \<^bold>\<open>The program and its theories.\<close>  Each theory models one part, in the order of the code, and opens with a
  description of its state and conventions.

  \<^item> \<open>Prelude\<close>, \<open>Rust_Text\<close>, \<open>Rust_Slices\<close>, \<open>Rust_Format\<close>, \<open>Big_Endian\<close>, \<open>BTree_Map\<close>: results and the \<open>?\<close>
    operator, readers over byte streams, what the code uses of the standard library (texts, UTF-8, decimal and
    hexadecimal numbers, big-endian words, ordered maps), and the contracts \<open>prefix_reader\<close>, \<open>byte_codec\<close>
    and \<open>ordered_map\<close>.
  \<^item> \<open>Varint\<close>: the variable-length integers of deltas and pack entries (\<open>delta/utils.rs\<close>,
    \<open>internal/pack/utils.rs\<close>, \<open>internal/object/utils.rs\<close>).
  \<^item> \<open>Delta_Decode\<close>, \<open>Delta_Instr\<close>, \<open>Delta_Encode\<close>: the delta decoder, its instructions as a specification, and the
    diff-based encoder (\<open>delta/decode\<close>, \<open>delta/encode/mod.rs\<close>).
  \<^item> \<open>Rabin_Tables\<close>, \<open>Rabin_Match\<close>, \<open>Rabin_Index\<close>, \<open>Rabin_Delta\<close>: the Rabin encoder (\<open>delta/encode/rabin\<close>): rolling
    hash and tables, match extension, the index of the source, and the encoding loop.
  \<^item> \<open>Object_Types\<close>, \<open>Hash_Ids\<close>, \<open>Object_Trait\<close>, \<open>Tree_Object\<close>, \<open>Signature\<close>, \<open>Commit_Object\<close>, \<open>Tag_Object\<close>: object
    types, ids and hashing (\<open>hash.rs\<close>, \<open>utils.rs\<close>), the object trait with its contract \<open>git_object\<close>, and the
    objects of \<open>internal/object\<close>.
  \<^item> \<open>Pack_Index\<close>, \<open>Pack_Index_Proofs\<close>, \<open>Pack_Index_Sound\<close>: the writer and the parser of \<open>.idx\<close> files
    (\<open>internal/pack/pack_index.rs\<close>).
  \<^item> \<open>Pack_Entry\<close>, \<open>Pack_Entry_Proofs\<close>: one entry of a pack, written, decoded, skipped and rebuilt from a delta.
  \<^item> \<open>Pack_Cache\<close>, \<open>Pack_Decode\<close> and \<open>Pack_Decode_Inv\<close>, \<open>_Live\<close>, \<open>_Sound\<close>, \<open>_Race\<close>: the dependency counts, the object cache
    and the waitlist, and the threads of the decoder as a state machine over them (\<open>cache.rs\<close>, \<open>waitlist.rs\<close>,
    \<open>decode.rs\<close>).
  \<^item> \<open>Pack_Scan\<close>, \<open>Pack_Scan_Proofs\<close>: the hashing and copying readers, the dependency scans and the reading loop with
    its trailer checks (\<open>wrapper.rs\<close>, \<open>decode.rs\<close>).
  \<^item> \<open>Pack_Encode\<close>, \<open>Pack_Encoder\<close>, \<open>Pack_Search_Proofs\<close>, \<open>Pack_Encoder_Proofs\<close>, \<open>Pack_Roundtrip\<close>: ordering, base search,
    both encoding paths and the index of the written pack (\<open>internal/pack/encode\<close>); the last one composes encoder,
    reader, decoder and index.
  \<^item> \<open>Git_Index\<close>, \<open>Git_Index_Proofs\<close>: the index of the working tree (\<open>internal/index.rs\<close>).
  \<^item> \<open>Protocol_Types\<close>, \<open>Pkt_Line\<close>: the types of the smart protocol and its packet lines (\<open>protocol/types.rs\<close>,
    \<open>protocol/utils.rs\<close>).
  \<^item> \<open>Repo_Access\<close>, \<open>Protocol_Pack\<close>, \<open>Protocol_Walk\<close>, \<open>Protocol_Transfer\<close>: what the protocol asks of a repository
    (\<open>protocol/core.rs\<close>), and the packs it generates and unpacks (\<open>protocol/pack.rs\<close>).
  \<^item> \<open>Smart_Protocol\<close>, \<open>Smart_Receive\<close>, \<open>Smart_Push\<close>: the handler of the smart protocol and its front end
    (\<open>protocol/smart.rs\<close>, \<open>protocol/core.rs\<close>): advertisement, fetch and push on a session of the handler's fields
    and the repository's state; the checks of the object format; a push from end to end.

  \<^bold>\<open>Correspondence.\<close>  A struct is a record, an enum a datatype, a function of the code one definition of the same
  name (with a prefix where names clash).  \<open>Result\<close> is a sum; a panic is the error \<open>Panic\<close>, so every early return
  and every \<open>unwrap\<close> is a branch.  Machine integers are natural numbers with their bound or their wrap-around
  written out, or words where bits matter.  Strings are lists of bytes.  Crates (digests, zlib, zstd, hex, CRC-32,
  GBK, diff) are parameters, with their documented behaviour as the hypotheses \<open>digest_ok\<close>, \<open>zlib_ok\<close>, \<open>hex_ok\<close> and
  the like; sample instances discharge them in the witnesses.

  \<^bold>\<open>What the properties show.\<close>

  \<^item> Composition: what the encoder writes the decoder reads, under every interleaving; the index it writes describes
    the pack; the walk of the protocol collects exactly the reachable objects of a repository
    without symbolic links, its pack is unpacked to the same objects, and a push stores them, applies the updates and reports
    them; on complete packs a spooled decode with a limited cache emits what a streamed one does.
  \<^item> Concurrency: every run of the decoder, the waiting of its reading loop included, makes a bounded number of steps, and
    only the wait for memory with an idle pool can keep it from ending; on a complete pack, without dependency counts or with a limited cache,
    it resolves every object exactly once under every schedule; with an unbounded cache that releases bases the lost
    wake-up of \<open>decode_lost_wakeup\<close> is possible.
  \<^item> Deltas: the decoder refines the instruction specification; both encoders produce deltas that decode to the
    target; the Rabin index, rolling hash and match extension equal their reference definitions; the search respects
    the chain and rate limits.
  \<^item> Safety of pushes: nothing is written while the object formats of repository, handler and wire differ.
  \<^item> Formats: exact parsers and round trips for trees, commits, tags, signatures, ids, notes, pack indexes, pack
    entries, the working-tree index and packet lines; the index operations refine a finite map.

  \<^bold>\<open>Bounds and fuel.\<close>  Loops over input terminate by its length and are total functions.  \<open>create_delta\<close> and \<open>side_band_loop\<close> are
  partial functions whose results are proved to exist for every input that fits the machine and every limit in use;
  the walks over commits and trees take
  bounds, and the numbers of reachable commits and trees are proved to be enough; the state machine of the decoder has a
  measure that bounds its runs.

  \<^bold>\<open>Not modelled.\<close>  Asynchronous channels and file writers (\<open>encode/output.rs\<close>, \<open>channel_reader.rs\<close>), the HTTP and SSH
  transports and the calls of the authentication service, which only pass calls on; the sizes, evictions and spill files of the LRU cache and all memory accounting (the
  memory in use is a parameter of the waiting); locks, since a section under a lock is one step;
  progress logs and statistics (\<open>pack/stats.rs\<close>); the AI objects of \<open>internal/object\<close>, which are serde records; the text
  diff of \<open>diff.rs\<close>, a printer over a diff crate; the wrappers of zlib and zstd; the pack encoder built without the
  default feature \<open>diff_rabin\<close>; and the decode mode selected by the name of the executable.
\<close>

end
